(* ===== verification/VscpPrelude.thy ===== *)
theory VscpPrelude
  imports Main "HOL-Library.Word" "HOL-Library.Monad_Syntax"
begin

text \<open>
  Shared vocabulary of the development: the machine integer types of the C++ sources, checked
  memory access (every read or write of a C array goes through a bounds check whose failure is
  the value \<^verbatim>\<open>None\<close>, so that undefined behaviour is a visible outcome of the model), the
  big-endian byte layouts the wire formats use, and the lemmas on words and lists that the
  component theories rely on.
\<close>

unbundle bit_operations_syntax

section \<open>Named collections\<close>

named_theorems vscp_mem \<open>rewriting of checked memory accesses\<close>
named_theorems vscp_bytes \<open>splitting words into bytes and joining bytes to words\<close>

section \<open>Machine types\<close>

type_synonym u8 = "8 word"
type_synonym u16 = "16 word"
type_synonym u32 = "32 word"
type_synonym u64 = "64 word"

text \<open>A pointer that the code compares with \<^verbatim>\<open>nullptr\<close>: \<^verbatim>\<open>None\<close> is the null pointer.\<close>

type_synonym 'a ptr = "'a option"

text \<open>
  The result of code that touches memory: \<^verbatim>\<open>None\<close> stands for an access outside the
  object (undefined behaviour in C++), \<^verbatim>\<open>Some\<close> for a run that stays inside.
\<close>

type_synonym 'a safe = "'a option"

section \<open>Checked memory access\<close>

definition rd :: "'a list \<Rightarrow> nat \<Rightarrow> 'a safe" where
  "rd buf i = (if i < length buf then Some (buf ! i) else None)"

definition rd_block :: "'a list \<Rightarrow> nat \<Rightarrow> nat \<Rightarrow> 'a list safe" where
  "rd_block buf off n = (if off + n \<le> length buf then Some (take n (drop off buf)) else None)"

definition wr_block :: "'a list \<Rightarrow> nat \<Rightarrow> 'a list \<Rightarrow> 'a list safe" where
  "wr_block buf off bs =
     (if off + length bs \<le> length buf
      then Some (take off buf @ bs @ drop (off + length bs) buf) else None)"

lemma rd_Some_iff [vscp_mem]: "rd buf i = Some x \<longleftrightarrow> i < length buf \<and> buf ! i = x"
  by (auto simp: rd_def)

lemma rd_None_iff [vscp_mem]: "rd buf i = None \<longleftrightarrow> length buf \<le> i"
  by (auto simp: rd_def)

lemma rd_in_range: "i < length buf \<Longrightarrow> rd buf i = Some (buf ! i)"
  by (simp add: rd_def)

lemma rd_block_in_range: "off + n \<le> length buf \<Longrightarrow> rd_block buf off n = Some (take n (drop off buf))"
  by (simp add: rd_block_def)

lemma rd_block_Some_iff [vscp_mem]:
  "rd_block buf off n = Some bs \<longleftrightarrow> off + n \<le> length buf \<and> bs = take n (drop off buf)"
  by (auto simp: rd_block_def)

lemma length_rd_block: "rd_block buf off n = Some bs \<Longrightarrow> length bs = n"
  by (auto simp: rd_block_def split: if_splits)

lemma length_wr_block: "wr_block buf off bs = Some buf' \<Longrightarrow> length buf' = length buf"
  by (auto simp: wr_block_def split: if_splits)

text \<open>Writing at the end of an already filled prefix extends the prefix.\<close>

lemma wr_block_append:
  assumes "length bs \<le> length rest" and "n = length pre"
  shows "wr_block (pre @ rest) n bs = Some ((pre @ bs) @ drop (length bs) rest)"
  using assms by (simp add: wr_block_def)

lemma wr_block_zero:
  "length bs \<le> length buf \<Longrightarrow> wr_block buf 0 bs = Some (bs @ drop (length bs) buf)"
  by (simp add: wr_block_def)

text \<open>Two writes one after the other at adjacent places are one write.\<close>

lemma wr_block_fuse:
  "m = n + length a \<Longrightarrow>
   Option.bind (wr_block f n a) (\<lambda>f. Option.bind (wr_block f m b) k)
     = Option.bind (wr_block f n (a @ b)) k"
  by (simp add: wr_block_def ac_simps)

lemma wr_block_empty: "n \<le> length f \<Longrightarrow> wr_block f n [] = Some f"
  by (simp add: wr_block_def)

lemma wr_block_None_iff [vscp_mem]: "wr_block buf off bs = None \<longleftrightarrow> length buf < off + length bs"
  by (auto simp: wr_block_def)

section \<open>Bytes and words\<close>

text \<open>
  \<^verbatim>\<open>(x >> 8) & 0xff\<close> and \<^verbatim>\<open>x & 0xff\<close> of the sources, and the readers
  \<^verbatim>\<open>((uint16_t) hi << 8) + lo\<close> and their wider forms.
\<close>

definition hi8 :: "u16 \<Rightarrow> u8" where
  "hi8 w = ucast (drop_bit 8 w AND 0xff)"

definition lo8 :: "u16 \<Rightarrow> u8" where
  "lo8 w = ucast (w AND 0xff)"

definition be16 :: "u8 \<Rightarrow> u8 \<Rightarrow> u16" where
  "be16 hi lo = push_bit 8 (ucast hi) + ucast lo"

definition be32 :: "u8 \<Rightarrow> u8 \<Rightarrow> u8 \<Rightarrow> u8 \<Rightarrow> u32" where
  "be32 a b c d = push_bit 24 (ucast a) + push_bit 16 (ucast b) + push_bit 8 (ucast c) + ucast d"

definition byte_at :: "u64 \<Rightarrow> nat \<Rightarrow> u8" where
  "byte_at w sh = ucast (drop_bit sh w AND 0xff)"

definition be64_bytes :: "u64 \<Rightarrow> u8 list" where
  "be64_bytes w = map (byte_at w) [56, 48, 40, 32, 24, 16, 8, 0]"

fun be64_of :: "u8 list \<Rightarrow> u64" where
  "be64_of [a, b, c, d, e, f, g, h] =
     push_bit 56 (ucast a) + push_bit 48 (ucast b) + push_bit 40 (ucast c) + push_bit 32 (ucast d)
     + push_bit 24 (ucast e) + push_bit 16 (ucast f) + push_bit 8 (ucast g) + ucast h"
| "be64_of _ = 0"

lemma length_be64_bytes [simp]: "length (be64_bytes w) = 8"
  by (simp add: be64_bytes_def)

lemma mask_ff_u8 [simp]: "(w :: u8) AND 0xff = w"
proof -
  have "(0xff :: u8) = - 1" by simp
  then show ?thesis by (simp only: and.right_neutral)
qed

lemma mask_ff_u16: "(w :: u16) AND 0xff = take_bit 8 w"
  by (simp add: take_bit_eq_mask mask_eq_exp_minus_1)

lemma mask_ff_u32: "(w :: u32) AND 0xff = take_bit 8 w"
  by (simp add: take_bit_eq_mask mask_eq_exp_minus_1)

lemma mask_ff_u64: "(w :: u64) AND 0xff = take_bit 8 w"
  by (simp add: take_bit_eq_mask mask_eq_exp_minus_1)

lemma unat_u8_less: "unat (b :: u8) < 256"
  by (rule order.strict_trans2 [OF unsigned_less]) simp

lemma unat_u16_less: "unat (w :: u16) < 65536"
  by (rule order.strict_trans2 [OF unsigned_less]) simp

lemma unat_of_nat_u8 [simp]: "n < 256 \<Longrightarrow> unat (of_nat n :: u8) = n"
  by (simp add: unsigned_of_nat take_bit_nat_eq_self)

lemma unat_u32_less: "unat (w :: u32) < 4294967296"
  using unsigned_less [of w] by simp

lemma unat_u64_less: "unat (w :: u64) < 18446744073709551616"
  using unsigned_less [of w] by simp

lemma unat_of_nat_u16: "n < 65536 \<Longrightarrow> unat (of_nat n :: u16) = n"
  by (simp add: unsigned_of_nat take_bit_nat_eq_self)

lemma unat_ucast_u8_u16 [simp]: "unat (ucast (b :: u8) :: u16) = unat b"
  using unat_u8_less [of b] by (simp add: unsigned_ucast_eq take_bit_nat_eq_self)

lemma ucast_u32_u8 [simp]: "ucast (ucast (b :: u8) :: u32) = b"
  by (rule bit_word_eqI) (auto simp: bit_ucast_iff)

lemma xor_left_cancel [simp]:
  fixes a b c :: "'a::len word"
  shows "a XOR b = a XOR c \<longleftrightarrow> b = c"
proof
  assume "a XOR b = a XOR c"
  then have "a XOR (a XOR b) = a XOR (a XOR c)" by simp
  then show "b = c" by (simp flip: xor.assoc)
qed simp

lemma xor_right_cancel [simp]:
  fixes a b c :: "'a::len word"
  shows "b XOR a = c XOR a \<longleftrightarrow> b = c"
  by (simp add: xor.commute [of _ a])

lemma xor_eq_zero_iff [simp]:
  fixes a b :: "'a::len word"
  shows "a XOR b = 0 \<longleftrightarrow> a = b"
  using xor_left_cancel [of a b a] by (auto simp del: xor_left_cancel)

lemma be16_or: "be16 hi lo = push_bit 8 (ucast hi) OR ucast lo"
  unfolding be16_def
  by (rule disjunctive_add_eq_or, rule bit_word_eqI) (auto simp: bit_simps dest: bit_imp_le_length)

lemma hi8_be16 [vscp_bytes, simp]: "hi8 (be16 hi lo) = hi"
  by (rule bit_word_eqI)
    (auto simp: hi8_def be16_or bit_simps mask_ff_u16 dest: bit_imp_le_length)

lemma lo8_be16 [vscp_bytes, simp]: "lo8 (be16 hi lo) = lo"
  by (rule bit_word_eqI)
    (auto simp: lo8_def be16_or bit_simps mask_ff_u16 dest: bit_imp_le_length)

lemma be16_hi_lo [vscp_bytes, simp]: "be16 (hi8 w) (lo8 w) = w"
  by (rule bit_word_eqI)
    (auto simp: hi8_def lo8_def be16_or bit_simps mask_ff_u16)

lemma be16_inject: "be16 a b = be16 c d \<longleftrightarrow> a = c \<and> b = d"
  by (metis hi8_be16 lo8_be16)

lemma unat_be16: "unat (be16 hi lo) = unat hi * 256 + unat lo"
proof -
  show ?thesis
    using unat_u8_less [of hi] unat_u8_less [of lo]
    by (simp add: be16_def unat_word_ariths push_bit_eq_mult unsigned_ucast_eq take_bit_nat_eq_self)
qed

lemma add_eq_or_disjoint:
  fixes a b :: "'a::len word"
  assumes "\<And>n. bit a n \<Longrightarrow> bit b n \<Longrightarrow> False"
  shows "a + b = a OR b"
  using assms by (intro disjunctive_add_eq_or bit_word_eqI) (auto simp: bit_simps)

lemma be32_or:
  "be32 a b c d = push_bit 24 (ucast a) OR push_bit 16 (ucast b) OR push_bit 8 (ucast c) OR ucast d"
  unfolding be32_def
  by (subst add_eq_or_disjoint, (auto simp: bit_simps dest!: bit_imp_le_length)[1])+
    (simp add: or.assoc)

text \<open>Joining the bytes of a 64-bit word, one byte at a time from the top.\<close>

lemma join_byte:
  fixes w :: u64
  shows "push_bit (k + 8) (drop_bit (k + 8) w) + push_bit k (ucast (byte_at w k))
       = push_bit k (drop_bit k w)"
proof (subst add_eq_or_disjoint)
  show "push_bit (k + 8) (drop_bit (k + 8) w) OR push_bit k (ucast (byte_at w k))
      = push_bit k (drop_bit k w)" (is "?l = ?r")
  proof (rule bit_word_eqI)
    fix n
    show "bit ?l n = bit ?r n"
      by (cases "k + 8 \<le> n") (auto simp: byte_at_def bit_simps mask_ff_u64)
  qed
qed (auto simp: byte_at_def bit_simps mask_ff_u64)

lemma top_byte: "push_bit 56 (ucast (byte_at (w :: u64) 56)) = push_bit 56 (drop_bit 56 w)"
  by (rule bit_word_eqI) (auto simp: byte_at_def bit_simps mask_ff_u64)

lemma be64_of_bytes [vscp_bytes, simp]: "be64_of (be64_bytes w) = w"
  using join_byte [of 48 w] join_byte [of 40 w] join_byte [of 32 w] join_byte [of 24 w]
    join_byte [of 16 w] join_byte [of 8 w] join_byte [of 0 w]
  by (simp add: be64_bytes_def top_byte)

end
