(* ===== verification/Crc.thy ===== *)
theory Crc
  imports VscpPrelude
begin

text \<open>
  The checksum library: \<^verbatim>\<open>src/src/common/crc.c\<close> (CRC-CCITT, the checksum of every VSCP
  binary frame) with its bitwise and its table driven routine, and \<^verbatim>\<open>src/src/common/crc8.c\<close>
  (the 8-bit checksum of a GUID) with its lazily built table. The theorems relate the two 16-bit
  routines, show that a frame followed by its own checksum has remainder zero, and that a
  change confined to two neighbouring bytes is always noticed.
\<close>

section \<open>CRC-CCITT (crc.h, crc.c)\<close>

definition POLYNOMIAL :: u16 where "POLYNOMIAL = 0x1021"
definition INITIAL_REMAINDER :: u16 where "INITIAL_REMAINDER = 0xFFFF"
definition FINAL_XOR_VALUE :: u16 where "FINAL_XOR_VALUE = 0x0000"
definition TOPBIT :: u16 where "TOPBIT = push_bit 15 1"

definition crcTable :: "u16 list" where
  "crcTable =
    [0x0000, 0x1021, 0x2042, 0x3063, 0x4084, 0x50A5, 0x60C6, 0x70E7,
     0x8108, 0x9129, 0xA14A, 0xB16B, 0xC18C, 0xD1AD, 0xE1CE, 0xF1EF,
     0x1231, 0x0210, 0x3273, 0x2252, 0x52B5, 0x4294, 0x72F7, 0x62D6,
     0x9339, 0x8318, 0xB37B, 0xA35A, 0xD3BD, 0xC39C, 0xF3FF, 0xE3DE,
     0x2462, 0x3443, 0x0420, 0x1401, 0x64E6, 0x74C7, 0x44A4, 0x5485,
     0xA56A, 0xB54B, 0x8528, 0x9509, 0xE5EE, 0xF5CF, 0xC5AC, 0xD58D,
     0x3653, 0x2672, 0x1611, 0x0630, 0x76D7, 0x66F6, 0x5695, 0x46B4,
     0xB75B, 0xA77A, 0x9719, 0x8738, 0xF7DF, 0xE7FE, 0xD79D, 0xC7BC,
     0x48C4, 0x58E5, 0x6886, 0x78A7, 0x0840, 0x1861, 0x2802, 0x3823,
     0xC9CC, 0xD9ED, 0xE98E, 0xF9AF, 0x8948, 0x9969, 0xA90A, 0xB92B,
     0x5AF5, 0x4AD4, 0x7AB7, 0x6A96, 0x1A71, 0x0A50, 0x3A33, 0x2A12,
     0xDBFD, 0xCBDC, 0xFBBF, 0xEB9E, 0x9B79, 0x8B58, 0xBB3B, 0xAB1A,
     0x6CA6, 0x7C87, 0x4CE4, 0x5CC5, 0x2C22, 0x3C03, 0x0C60, 0x1C41,
     0xEDAE, 0xFD8F, 0xCDEC, 0xDDCD, 0xAD2A, 0xBD0B, 0x8D68, 0x9D49,
     0x7E97, 0x6EB6, 0x5ED5, 0x4EF4, 0x3E13, 0x2E32, 0x1E51, 0x0E70,
     0xFF9F, 0xEFBE, 0xDFDD, 0xCFFC, 0xBF1B, 0xAF3A, 0x9F59, 0x8F78,
     0x9188, 0x81A9, 0xB1CA, 0xA1EB, 0xD10C, 0xC12D, 0xF14E, 0xE16F,
     0x1080, 0x00A1, 0x30C2, 0x20E3, 0x5004, 0x4025, 0x7046, 0x6067,
     0x83B9, 0x9398, 0xA3FB, 0xB3DA, 0xC33D, 0xD31C, 0xE37F, 0xF35E,
     0x02B1, 0x1290, 0x22F3, 0x32D2, 0x4235, 0x5214, 0x6277, 0x7256,
     0xB5EA, 0xA5CB, 0x95A8, 0x8589, 0xF56E, 0xE54F, 0xD52C, 0xC50D,
     0x34E2, 0x24C3, 0x14A0, 0x0481, 0x7466, 0x6447, 0x5424, 0x4405,
     0xA7DB, 0xB7FA, 0x8799, 0x97B8, 0xE75F, 0xF77E, 0xC71D, 0xD73C,
     0x26D3, 0x36F2, 0x0691, 0x16B0, 0x6657, 0x7676, 0x4615, 0x5634,
     0xD94C, 0xC96D, 0xF90E, 0xE92F, 0x99C8, 0x89E9, 0xB98A, 0xA9AB,
     0x5844, 0x4865, 0x7806, 0x6827, 0x18C0, 0x08E1, 0x3882, 0x28A3,
     0xCB7D, 0xDB5C, 0xEB3F, 0xFB1E, 0x8BF9, 0x9BD8, 0xABBB, 0xBB9A,
     0x4A75, 0x5A54, 0x6A37, 0x7A16, 0x0AF1, 0x1AD0, 0x2AB3, 0x3A92,
     0xFD2E, 0xED0F, 0xDD6C, 0xCD4D, 0xBDAA, 0xAD8B, 0x9DE8, 0x8DC9,
     0x7C26, 0x6C07, 0x5C64, 0x4C45, 0x3CA2, 0x2C83, 0x1CE0, 0x0CC1,
     0xEF1F, 0xFF3E, 0xCF5D, 0xDF7C, 0xAF9B, 0xBFBA, 0x8FD9, 0x9FF8,
     0x6E17, 0x7E36, 0x4E55, 0x5E74, 0x2E93, 0x3EB2, 0x0ED1, 0x1EF0]"

text \<open>One turn of the inner loop: divide the current data bit.\<close>

definition crc_bit :: "u16 \<Rightarrow> u16" where
  "crc_bit remainder =
     (if remainder AND TOPBIT \<noteq> 0 then push_bit 1 remainder XOR POLYNOMIAL
      else push_bit 1 remainder)"

fun crc_bits :: "nat \<Rightarrow> u16 \<Rightarrow> u16" where
  "crc_bits 0 remainder = remainder"
| "crc_bits (Suc k) remainder = crc_bits k (crc_bit remainder)"

fun crcSlow_loop :: "u16 \<Rightarrow> u8 list \<Rightarrow> u16" where
  "crcSlow_loop remainder [] = remainder"
| "crcSlow_loop remainder (b # message) =
     crcSlow_loop (crc_bits 8 (remainder XOR push_bit 8 (ucast b))) message"

definition crcSlow :: "u8 list \<Rightarrow> u16" where
  "crcSlow message = crcSlow_loop INITIAL_REMAINDER message XOR FINAL_XOR_VALUE"

definition crcInit_table :: "u16 list" where
  "crcInit_table = map (\<lambda>dividend. crc_bits 8 (push_bit 8 (of_nat dividend))) [0..<256]"

fun crcFast_loop :: "u16 \<Rightarrow> u8 list \<Rightarrow> u16" where
  "crcFast_loop remainder [] = remainder"
| "crcFast_loop remainder (b # message) =
     (let data = b XOR ucast (drop_bit 8 remainder)
      in crcFast_loop ((crcTable ! unat data) XOR push_bit 8 remainder) message)"

definition crcFast :: "u8 list \<Rightarrow> u16" where
  "crcFast message = crcFast_loop INITIAL_REMAINDER message XOR FINAL_XOR_VALUE"

section \<open>CRC-8 (crc8.c)\<close>

text \<open>The two file-scope statics of crc8.c: the table and the flag that says it is built.\<close>

record crc8_state =
  crc8_table :: "u8 list"
  made_table :: bool

definition crc8_static_init :: crc8_state where
  "crc8_static_init = \<lparr>crc8_table = replicate 256 0, made_table = False\<rparr>"

fun crc8_shift :: "nat \<Rightarrow> u8 \<Rightarrow> u8" where
  "crc8_shift 0 c = c"
| "crc8_shift (Suc j) c = crc8_shift j (push_bit 1 c XOR (if c AND 0x80 \<noteq> 0 then 0x07 else 0))"

definition init_crc8 :: "crc8_state \<Rightarrow> crc8_state" where
  "init_crc8 s =
     (if \<not> made_table s
      then s\<lparr>crc8_table := map (\<lambda>i. crc8_shift 8 (of_nat i) AND 0xFF) [0..<256], made_table := True\<rparr>
      else s)"

definition crc8 :: "crc8_state \<Rightarrow> u8 \<Rightarrow> u8 \<Rightarrow> crc8_state \<times> u8" where
  "crc8 s c m =
     (let s' = (if \<not> made_table s then init_crc8 s else s)
      in (s', (crc8_table s' ! unat (c XOR m)) AND 0xFF))"

section \<open>Linearity of the division step\<close>

lemma TOPBIT_iff: "w AND TOPBIT \<noteq> 0 \<longleftrightarrow> bit w 15"
  unfolding TOPBIT_def push_bit_of_1
  using and_exp_eq_0_iff_not_bit [of w 15] by blast

lemma bit_shift1: "bit (push_bit 1 (w :: u16)) n \<longleftrightarrow> 0 < n \<and> n < 16 \<and> bit w (n - 1)"
  by (cases n) (auto simp add: bit_push_bit_iff simp del: push_bit_Suc One_nat_def)

lemma crc_bit_alt: "crc_bit w = push_bit 1 w XOR (if bit w 15 then POLYNOMIAL else 0)"
  by (simp add: crc_bit_def TOPBIT_iff)

lemma crc_bit_xor: "crc_bit (x XOR y) = crc_bit x XOR crc_bit y"
  by (auto simp: crc_bit_alt bit_simps push_bit_xor intro!: bit_word_eqI)

lemma crc_bits_xor: "crc_bits k (x XOR y) = crc_bits k x XOR crc_bits k y"
  by (induction k arbitrary: x y) (simp_all add: crc_bit_xor)

lemma crc_bits_zero [simp]: "crc_bits k 0 = 0"
  by (induction k) (simp_all add: crc_bit_alt)

lemma crc_bits_add: "crc_bits (j + k) w = crc_bits k (crc_bits j w)"
  by (induction j arbitrary: w) simp_all

text \<open>A bit step can be undone: the polynomial has its lowest bit set.\<close>

lemma crc_bit_eq_0: "crc_bit d = 0 \<Longrightarrow> d = 0"
proof (rule bit_word_eqI)
  fix n :: nat
  assume d: "crc_bit d = 0" and n: "n < LENGTH(16)"
  have "bit (crc_bit d) 0 = bit d 15"
    by (simp only: crc_bit_alt bit_xor_iff bit_shift1) (simp add: POLYNOMIAL_def)
  with d have top: "\<not> bit d 15" by simp
  with d have "push_bit 1 d = 0" by (simp add: crc_bit_alt)
  then have "\<not> bit (push_bit 1 d) (Suc n)" by simp
  then have "\<not> (n < 15 \<and> bit d n)" by (simp only: bit_shift1) simp
  with n top show "bit d n = bit 0 n"
    by (cases "n = 15") auto
qed

lemma crc_bits_eq_0: "crc_bits k d = 0 \<Longrightarrow> d = 0"
  by (induction k arbitrary: d) (auto dest: crc_bit_eq_0)

lemma crc_bits_inj: "crc_bits k x = crc_bits k y \<longleftrightarrow> x = y"
proof
  assume "crc_bits k x = crc_bits k y"
  then have "crc_bits k (x XOR y) = 0" by (simp add: crc_bits_xor)
  then have "x XOR y = 0" by (rule crc_bits_eq_0)
  moreover have "x = (x XOR y) XOR y" by (simp add: xor.assoc)
  ultimately show "x = y" by simp
qed simp

text \<open>While no data bit reaches the top, dividing is shifting.\<close>

lemma crc_bits_shift:
  "k \<le> 16 \<Longrightarrow> (\<And>n. 16 - k \<le> n \<Longrightarrow> \<not> bit w n) \<Longrightarrow> crc_bits k w = push_bit k w"
proof (induction k arbitrary: w)
  case 0
  then show ?case by simp
next
  case (Suc k)
  have top: "\<not> bit w 15" using Suc.prems by simp
  have "crc_bits k (push_bit 1 w) = push_bit k (push_bit 1 w)"
  proof (rule Suc.IH)
    fix n assume "16 - k \<le> n"
    with Suc.prems show "\<not> bit (push_bit 1 w) n" by (simp only: bit_shift1) auto
  qed (use Suc.prems in simp)
  with top show ?case by (simp add: crc_bit_alt)
qed

section \<open>The static table\<close>

text \<open>
  Row \<open>2 d\<close> of the table is one division step of row \<open>d\<close>, and row \<open>2 d + 1\<close>
  differs from it by the polynomial: these 256 checks determine the whole table.
\<close>

fun table_rows_ok :: "u16 list \<Rightarrow> u16 list \<Rightarrow> bool" where
  "table_rows_ok (x # xs) (a # b # ys) =
     (a = crc_bit x \<and> b = a XOR POLYNOMIAL \<and> table_rows_ok xs ys)"
| "table_rows_ok _ [] = True"
| "table_rows_ok _ _ = False"

lemma table_rows_ok_crcTable: "table_rows_ok crcTable crcTable"
  unfolding crcTable_def
  by (simp add: crc_bit_def TOPBIT_def POLYNOMIAL_def)

lemma length_crcTable [simp]: "length crcTable = 256"
  by (simp add: crcTable_def)

lemma table_rows_okD:
  "table_rows_ok xs ys \<Longrightarrow> 2 * d + 1 < length ys \<Longrightarrow>
   ys ! (2 * d) = crc_bit (xs ! d) \<and> ys ! (2 * d + 1) = crc_bit (xs ! d) XOR POLYNOMIAL"
proof (induction xs ys arbitrary: d rule: table_rows_ok.induct)
  case (1 x xs a b ys)
  then show ?case by (cases d) auto
qed auto

lemma crc_bits_double:
  assumes "d < 128"
  shows "crc_bits 8 (push_bit 8 (of_nat (2 * d))) = crc_bit (crc_bits 8 (push_bit 8 (of_nat d)))"
proof -
  have "\<not> bit (push_bit 8 (of_nat d :: u16)) 15"
    using assms bit_iff_odd [of d 7] by (simp add: bit_push_bit_iff bit_of_nat_iff)
  moreover have "push_bit 8 (of_nat (2 * d) :: u16) = push_bit 1 (push_bit 8 (of_nat d))"
    by (simp add: push_bit_eq_mult)
  ultimately have "push_bit 8 (of_nat (2 * d)) = crc_bits 1 (push_bit 8 (of_nat d))"
    by (simp add: crc_bit_alt)
  then show ?thesis
    using crc_bits_add [of 1 8 "push_bit 8 (of_nat d)"] crc_bits_add [of 8 1 "push_bit 8 (of_nat d)"]
    by simp
qed

lemma crc_bits_numeral: "crc_bits (numeral k) w = crc_bits (pred_numeral k) (crc_bit w)"
  by (simp add: numeral_eq_Suc)

lemma crc_bits_one: "crc_bits 8 (push_bit 8 1) = POLYNOMIAL"
  by (simp add: crc_bits_numeral crc_bit_def TOPBIT_def POLYNOMIAL_def)

lemma crc_bits_double_Suc:
  assumes "d < 128"
  shows "crc_bits 8 (push_bit 8 (of_nat (2 * d + 1)))
       = crc_bit (crc_bits 8 (push_bit 8 (of_nat d))) XOR POLYNOMIAL"
proof -
  have "(of_nat (2 * d + 1) :: u16) = push_bit 1 (of_nat d) + 1"
    by (simp add: push_bit_eq_mult)
  also have "\<dots> = push_bit 1 (of_nat d) XOR 1"
  proof -
    have "push_bit 1 (of_nat d :: u16) AND 1 = 0"
      by (rule bit_word_eqI, simp only: bit_and_iff bit_shift1 bit_1_iff) auto
    then show ?thesis
      by (metis disjunctive_xor_eq_or disjunctive_add_eq_or)
  qed
  finally have "(of_nat (2 * d + 1) :: u16) = of_nat (2 * d) XOR 1"
    by (simp add: push_bit_eq_mult mult.commute)
  then show ?thesis
    by (simp only: push_bit_xor crc_bits_xor crc_bits_double [OF assms] crc_bits_one)
qed

lemma crcTable_nth: "d < 256 \<Longrightarrow> crcTable ! d = crc_bits 8 (push_bit 8 (of_nat d))"
proof (induction d rule: less_induct)
  case (less d)
  show ?case
  proof (cases "d = 0")
    case True
    then show ?thesis by (simp add: crcTable_def)
  next
    case False
    let ?h = "d div 2"
    have h: "?h < d" "?h < 128" using False less.prems by auto
    have row: "crcTable ! (2 * ?h) = crc_bit (crcTable ! ?h)
        \<and> crcTable ! (2 * ?h + 1) = crc_bit (crcTable ! ?h) XOR POLYNOMIAL"
      using h by (intro table_rows_okD [OF table_rows_ok_crcTable]) simp
    have IH: "crcTable ! ?h = crc_bits 8 (push_bit 8 (of_nat ?h))"
      using h less.prems by (intro less.IH) auto
    show ?thesis
    proof (cases "even d")
      case True
      then have "d = 2 * ?h" by simp
      with row IH crc_bits_double [OF h(2)] show ?thesis by metis
    next
      case False
      then have "d = 2 * ?h + 1" by simp
      with row IH crc_bits_double_Suc [OF h(2)] show ?thesis by metis
    qed
  qed
qed

lemma crcTable_lookup: "crcTable ! unat b = crc_bits 8 (push_bit 8 (ucast (b :: u8)))"
  using unat_u8_less [of b] by (simp add: crcTable_nth)

section \<open>The table driven routine\<close>

lemma crc_split: "(r :: u16) = push_bit 8 (ucast (ucast (drop_bit 8 r) :: u8)) XOR take_bit 8 r"
  by (rule bit_word_eqI) (auto simp: bit_simps)

text \<open>One byte of the fast loop is eight turns of the slow one.\<close>

lemma crc_byte_step:
  fixes b :: u8
  shows "(crcTable ! unat (b XOR ucast (drop_bit 8 r))) XOR push_bit 8 r
   = crc_bits 8 (r XOR push_bit 8 (ucast b))"
proof -
  let ?h = "ucast (drop_bit 8 r) :: u8"
  have low: "crc_bits 8 (take_bit 8 r) = push_bit 8 r"
    by (subst crc_bits_shift) (auto simp: bit_simps intro!: bit_word_eqI)
  have "r XOR push_bit 8 (ucast b) = push_bit 8 (ucast (b XOR ?h)) XOR take_bit 8 r"
    by (subst crc_split [of r])
      (simp add: push_bit_xor unsigned_xor_eq xor.commute xor.left_commute xor.assoc)
  then show ?thesis by (simp add: crcTable_lookup crc_bits_xor low)
qed

lemma crcFast_loop_eq: "crcFast_loop r msg = crcSlow_loop r msg"
  by (induction msg arbitrary: r) (simp_all add: crc_byte_step Let_def)

lemma crcSlow_loop_append: "crcSlow_loop r (xs @ ys) = crcSlow_loop (crcSlow_loop r xs) ys"
  by (induction xs arbitrary: r) simp_all

lemma crcFast_def2: "crcFast msg = crcSlow_loop INITIAL_REMAINDER msg"
  by (simp add: crcFast_def crcFast_loop_eq FINAL_XOR_VALUE_def)

lemma crcSlow_loop_two:
  "crcSlow_loop r [a, b] = crc_bits 16 (r XOR be16 a b)"
proof -
  have low: "crc_bits 8 (ucast b) = push_bit 8 (ucast b)"
    by (subst crc_bits_shift) (auto simp: bit_simps dest: bit_imp_le_length)
  have "crcSlow_loop r [a, b]
      = crc_bits 8 (crc_bits 8 (r XOR push_bit 8 (ucast a)) XOR crc_bits 8 (ucast b))"
    by (simp add: low)
  also have "\<dots> = crc_bits 16 (r XOR push_bit 8 (ucast a) XOR ucast b)"
    using crc_bits_add [of 8 8] by (simp add: xor.assoc flip: crc_bits_xor)
  also have "push_bit 8 (ucast a :: u16) XOR ucast b = be16 a b"
    unfolding be16_or by (rule bit_word_eqI) (auto simp: bit_simps dest: bit_imp_le_length)
  finally show ?thesis by (simp add: xor.assoc)
qed

lemma crcSlow_loop_inj: "crcSlow_loop r msg = crcSlow_loop r' msg \<longleftrightarrow> r = r'"
proof (induction msg arbitrary: r r')
  case (Cons b msg)
  show ?case by (simp only: crcSlow_loop.simps Cons.IH crc_bits_inj xor_right_cancel)
qed simp

lemma crcFast_residue:
  "crcFast (msg @ [a, b]) = 0 \<longleftrightarrow> be16 a b = crcFast msg"
proof -
  have "crcFast (msg @ [a, b]) = crc_bits 16 (crcFast msg XOR be16 a b)"
    by (simp only: crcFast_def2 crcSlow_loop_append crcSlow_loop_two)
  then show ?thesis
    using crc_bits_eq_0 [of 16 "crcFast msg XOR be16 a b"] by auto
qed

lemma crcFast_burst:
  "crcFast (pre @ [a, b] @ post) = crcFast (pre @ [c, d] @ post) \<longleftrightarrow> a = c \<and> b = d"
proof -
  let ?r = "crcSlow_loop INITIAL_REMAINDER pre"
  have "crcFast (pre @ [a, b] @ post) = crcFast (pre @ [c, d] @ post)
      \<longleftrightarrow> ?r XOR be16 a b = ?r XOR be16 c d"
    unfolding crcFast_def2 crcSlow_loop_append crcSlow_loop_two crcSlow_loop_inj crc_bits_inj ..
  also have "\<dots> \<longleftrightarrow> be16 a b = be16 c d" by (rule xor_left_cancel)
  finally show ?thesis by (simp add: be16_inject)
qed

lemma crcFast_single_byte:
  "crcFast (pre @ [a] @ post) = crcFast (pre @ [c] @ post) \<longleftrightarrow> a = c"
proof -
  have "crcFast (pre @ [a] @ post) = crcFast (pre @ [c] @ post)
      \<longleftrightarrow> (push_bit 8 (ucast a) :: u16) = push_bit 8 (ucast c)"
    unfolding crcFast_def2 crcSlow_loop_append crcSlow_loop.simps crcSlow_loop_inj crc_bits_inj
      xor_left_cancel ..
  also have "\<dots> \<longleftrightarrow> be16 a 0 = be16 c 0" by (simp add: be16_def)
  finally show ?thesis by (simp add: be16_inject)
qed

section \<open>The 8-bit checksum\<close>

definition crc8_ready :: "crc8_state \<Rightarrow> bool" where
  "crc8_ready s \<longleftrightarrow> (made_table s \<longrightarrow>
     crc8_table s = map (\<lambda>i. crc8_shift 8 (of_nat i)) [0..<256])"

lemma crc8_ready_static: "crc8_ready crc8_static_init"
  by (simp add: crc8_ready_def crc8_static_init_def)

lemma crc8_ready_init: "crc8_ready s \<Longrightarrow> crc8_ready (init_crc8 s) \<and> made_table (init_crc8 s)"
  by (simp add: crc8_ready_def init_crc8_def)

lemma crc8_step:
  assumes "crc8_ready s"
  shows "crc8 s c m = (init_crc8 s, crc8_shift 8 (c XOR m))"
proof -
  let ?s = "init_crc8 s"
  have "crc8_table ?s = map (\<lambda>i. crc8_shift 8 (of_nat i)) [0..<256]"
    using crc8_ready_init [OF assms] by (simp add: crc8_ready_def)
  then have "crc8_table ?s ! unat (c XOR m) = crc8_shift 8 (c XOR m)"
    using unat_u8_less [of "c XOR m"] by simp
  moreover have "(if \<not> made_table s then ?s else s) = ?s" by (simp add: init_crc8_def)
  ultimately show ?thesis by (simp add: crc8_def Let_def)
qed

section \<open>Properties\<close>

text \<open>C36: the table driven CRC computes the same remainder as the bit-by-bit division, and the
  table shipped in crc.c is the one crcInit would build.\<close>

theorem crc_fast_equals_slow: "crcFast message = crcSlow message \<and> crcTable = crcInit_table"
proof
  show "crcFast message = crcSlow message"
    by (simp add: crcFast_def crcSlow_def crcFast_loop_eq)
  show "crcTable = crcInit_table"
    by (rule nth_equalityI) (simp_all add: crcInit_table_def crcTable_nth)
qed

text \<open>a receiver that runs the CRC over a message and its two trailing checksum bytes gets zero
  exactly when these bytes are the checksum of the message, high byte first.\<close>

theorem crc_residue_is_zero: "crcFast (message @ [hi, lo]) = 0 \<longleftrightarrow> be16 hi lo = crcFast message"
  by (rule crcFast_residue)

text \<open>two messages of the same length that differ only within two neighbouring bytes never
  have the same checksum, so every error burst of up to nine bits (and every one confined to two
  bytes) is detected wherever it strikes.\<close>

theorem crc_detects_two_byte_bursts:
  "crcFast (pre @ [a, b] @ post) = crcFast (pre @ [c, d] @ post) \<longleftrightarrow> a = c \<and> b = d"
  by (rule crcFast_burst)

end
