(* ===== verification/Event.thy ===== *)
theory Event
  imports Crc
begin

text \<open>
  The event structures of \<^verbatim>\<open>src/src/vscp/common/vscp.h\<close> and the event primitives of
  \<^verbatim>\<open>vscphelper.cpp\<close>: priority, CANAL id, frame version, checksum, creation, copying and
  conversion between the two event representations (data behind a pointer, data embedded).
  The contract of the four copying routines is the locale \<open>event_copy\<close>; it is interpreted
  on each of them, and their laws (no fault, same content, round trip) are its lemmas.

  The anonymous union of the time block is one 64-bit word, laid out as on the little-endian
  LP64 hosts the library is built for: \<^verbatim>\<open>day\<close> is its lowest byte, \<^verbatim>\<open>timestamp\<close> its upper half.
  \<^verbatim>\<open>new\<close> and \<^verbatim>\<open>malloc\<close> are assumed to succeed; source and destination are distinct objects.
\<close>

section \<open>Structures (vscp.h)\<close>

record vscpEvent =
  head :: u16
  obid :: u32
  year :: u16
  month :: u8
  timestamp_ns :: u64
  vscp_class :: u16
  vscp_type :: u16
  GUID :: "u8 list"
  sizeData :: u16
  pdata :: "u8 list ptr"
  crc :: u16

record vscpEventEx =
  xhead :: u16
  xobid :: u32
  xyear :: u16
  xmonth :: u8
  xtimestamp_ns :: u64
  xcrc :: u16
  xvscp_class :: u16
  xvscp_type :: u16
  xGUID :: "u8 list"
  xsizeData :: u16
  xdata :: "u8 list"

definition VSCP_LEVEL2_MAXDATA :: nat where "VSCP_LEVEL2_MAXDATA = 512"
definition VSCP_HEADER_PRIORITY_MASK :: u16 where "VSCP_HEADER_PRIORITY_MASK = 0xE0"
definition VSCP_HEADER_HARD_CODED :: u16 where "VSCP_HEADER_HARD_CODED = 0x10"
definition FRAME_VERSION_MASK :: u16 where "FRAME_VERSION_MASK = 0x0300"
definition FRAME_VERSION_UNIX_NS :: u16 where "FRAME_VERSION_UNIX_NS = 0x0100"

section \<open>The time block union\<close>

definition tb_set_byte :: "nat \<Rightarrow> u8 \<Rightarrow> u64 \<Rightarrow> u64" where
  "tb_set_byte k v w = (w AND NOT (push_bit k 0xff)) OR push_bit k (ucast v)"

definition tb_day :: "u64 \<Rightarrow> u8" where "tb_day w = byte_at w 0"
definition tb_hour :: "u64 \<Rightarrow> u8" where "tb_hour w = byte_at w 8"
definition tb_minute :: "u64 \<Rightarrow> u8" where "tb_minute w = byte_at w 16"
definition tb_second :: "u64 \<Rightarrow> u8" where "tb_second w = byte_at w 24"
definition tb_timestamp :: "u64 \<Rightarrow> u32" where "tb_timestamp w = ucast (drop_bit 32 w)"

definition tb_set_timestamp :: "u32 \<Rightarrow> u64 \<Rightarrow> u64" where
  "tb_set_timestamp v w = take_bit 32 w OR push_bit 32 (ucast v)"

text \<open>Setting \<^verbatim>\<open>day\<close>, \<^verbatim>\<open>hour\<close>, \<^verbatim>\<open>minute\<close> and \<^verbatim>\<open>second\<close> one after the other.\<close>

definition tb_set_clock :: "u8 \<Rightarrow> u8 \<Rightarrow> u8 \<Rightarrow> u8 \<Rightarrow> u64 \<Rightarrow> u64" where
  "tb_set_clock d h m s w =
     tb_set_byte 24 s (tb_set_byte 16 m (tb_set_byte 8 h (tb_set_byte 0 d w)))"

text \<open>The five assignments by which the copying routines carry over an original time block.\<close>

definition tb_copy_fields :: "u64 \<Rightarrow> u64 \<Rightarrow> u64" where
  "tb_copy_fields src dst =
     tb_set_timestamp (tb_timestamp src)
       (tb_set_clock (tb_day src) (tb_hour src) (tb_minute src) (tb_second src) dst)"

definition is_unix_ns :: "u16 \<Rightarrow> bool" where
  "is_unix_ns h \<longleftrightarrow> h AND FRAME_VERSION_MASK = FRAME_VERSION_UNIX_NS"

section \<open>Priority and CANAL id\<close>

definition head_priority :: "u16 \<Rightarrow> u8" where
  "head_priority h = ucast (drop_bit 5 h AND 0x07)"

definition head_set_priority :: "u8 \<Rightarrow> u16 \<Rightarrow> u16" where
  "head_set_priority priority h =
     (h AND NOT VSCP_HEADER_PRIORITY_MASK) OR push_bit 5 (ucast priority)"

definition vscp_getEventPriority :: "vscpEvent ptr \<Rightarrow> u8" where
  "vscp_getEventPriority pev =
     (case pev of None \<Rightarrow> 0 | Some ev \<Rightarrow> head_priority (head ev))"

definition vscp_getEventExPriority :: "vscpEventEx ptr \<Rightarrow> u8" where
  "vscp_getEventExPriority pev =
     (case pev of None \<Rightarrow> 0 | Some ex \<Rightarrow> head_priority (xhead ex))"

definition vscp_setEventPriority :: "vscpEvent ptr \<Rightarrow> u8 \<Rightarrow> vscpEvent ptr" where
  "vscp_setEventPriority pev priority =
     (case pev of None \<Rightarrow> None
      | Some ev \<Rightarrow> Some (ev\<lparr>head := head_set_priority priority (head ev)\<rparr>))"

definition vscp_setEventExPriority :: "vscpEventEx ptr \<Rightarrow> u8 \<Rightarrow> vscpEventEx ptr" where
  "vscp_setEventExPriority pev priority =
     (case pev of None \<Rightarrow> None
      | Some ex \<Rightarrow> Some (ex\<lparr>xhead := head_set_priority priority (xhead ex)\<rparr>))"

definition vscp_getHeadFromCANALid :: "u32 \<Rightarrow> u8" where
  "vscp_getHeadFromCANALid canid =
     (let priority = ucast (0x07 AND drop_bit 26 canid) :: u8;
          hardcoded = (if canid AND push_bit 25 1 \<noteq> 0 then 0x10 else 0)
      in push_bit 5 priority OR hardcoded)"

definition vscp_getVscpClassFromCANALid :: "u32 \<Rightarrow> u16" where
  "vscp_getVscpClassFromCANALid canid = ucast (0x1ff AND drop_bit 16 canid)"

definition vscp_getVscpTypeFromCANALid :: "u32 \<Rightarrow> u16" where
  "vscp_getVscpTypeFromCANALid canid = ucast (0xff AND drop_bit 8 canid)"

definition vscp_getNicknameFromCANALid :: "u32 \<Rightarrow> u8" where
  "vscp_getNicknameFromCANALid canid = ucast (canid AND 0xff)"

text \<open>The shifts are done in \<^verbatim>\<open>unsigned long\<close> (64 bits), the result is a \<^verbatim>\<open>uint32_t\<close>.\<close>

definition vscp_getCANALidFromData :: "u8 \<Rightarrow> u16 \<Rightarrow> u16 \<Rightarrow> u32" where
  "vscp_getCANALidFromData priority vclass vtype =
     ucast ((push_bit 26 (ucast priority) OR push_bit 16 (ucast vclass)
             OR push_bit 8 (ucast vtype) OR 0) :: u64)"

definition vscp_getCANALidFromEvent :: "vscpEvent \<Rightarrow> u32" where
  "vscp_getCANALidFromEvent ev =
     ucast ((push_bit 26 (ucast (vscp_getEventPriority (Some ev)))
             OR push_bit 16 (ucast (vscp_class ev))
             OR push_bit 8 (ucast (vscp_type ev)) OR 0) :: u64)"

definition vscp_getCANALidFromEventEx :: "vscpEventEx \<Rightarrow> u32" where
  "vscp_getCANALidFromEventEx ex =
     ucast ((push_bit 26 (ucast (vscp_getEventExPriority (Some ex)))
             OR push_bit 16 (ucast (xvscp_class ex))
             OR push_bit 8 (ucast (xvscp_type ex)) OR 0) :: u64)"

section \<open>Checksum of an event\<close>

definition le16 :: "u16 \<Rightarrow> u8 list" where
  "le16 w = [lo8 w, hi8 w]"

definition sizeof_pointer :: nat where "sizeof_pointer = 8"

text \<open>The buffer both routines build, and the read of \<^verbatim>\<open>sizeof(pbuf)\<close> bytes from it.\<close>

definition crc_buffer :: "u16 \<Rightarrow> u16 \<Rightarrow> u16 \<Rightarrow> u8 list \<Rightarrow> u8 list \<Rightarrow> u16 \<Rightarrow> u8 list" where
  "crc_buffer h c t guid data sz = [lo8 h] @ le16 c @ le16 t @ guid @ data @ le16 sz"

definition vscp_calc_crc_Event :: "vscpEvent ptr \<Rightarrow> bool \<Rightarrow> (u16 \<times> vscpEvent ptr) safe" where
  "vscp_calc_crc_Event pev bSet =
     (case pev of None \<Rightarrow> Some (0, None)
      | Some ev \<Rightarrow> do {
          data \<leftarrow> (case pdata ev of None \<Rightarrow> (if sizeData ev = 0 then Some [] else None)
                   | Some d \<Rightarrow> rd_block d 0 (unat (sizeData ev)));
          bytes \<leftarrow> rd_block (crc_buffer (head ev) (vscp_class ev) (vscp_type ev) (GUID ev) data
                              (sizeData ev)) 0 sizeof_pointer;
          let c = crcFast bytes;
          Some (c, Some (if bSet then ev\<lparr>crc := c\<rparr> else ev)) })"

definition vscp_calc_crc_EventEx :: "vscpEventEx ptr \<Rightarrow> bool \<Rightarrow> (u16 \<times> vscpEventEx ptr) safe" where
  "vscp_calc_crc_EventEx pev bSet =
     (case pev of None \<Rightarrow> Some (0, None)
      | Some ex \<Rightarrow> do {
          data \<leftarrow> rd_block (xdata ex) 0 (unat (xsizeData ex));
          bytes \<leftarrow> rd_block (crc_buffer (xhead ex) (xvscp_class ex) (xvscp_type ex) (xGUID ex) data
                              (xsizeData ex)) 0 sizeof_pointer;
          let c = crcFast bytes;
          Some (c, Some (if bSet then ex\<lparr>xcrc := c\<rparr> else ex)) })"

section \<open>Frame version\<close>

definition head_set_version :: "u16 \<Rightarrow> u16 \<Rightarrow> u16" where
  "head_set_version version h =
     (h AND NOT FRAME_VERSION_MASK) OR (version AND FRAME_VERSION_MASK)"

definition setFrameVersion :: "vscpEvent ptr \<Rightarrow> u16 \<Rightarrow> bool \<times> vscpEvent ptr" where
  "setFrameVersion pev version =
     (case pev of None \<Rightarrow> (False, None)
      | Some ev \<Rightarrow> (True, Some (ev\<lparr>head := head_set_version version (head ev)\<rparr>)))"

definition setFrameVersionEx :: "vscpEventEx ptr \<Rightarrow> u16 \<Rightarrow> bool \<times> vscpEventEx ptr" where
  "setFrameVersionEx pex version =
     (case pex of None \<Rightarrow> (False, None)
      | Some ex \<Rightarrow> (True, Some (ex\<lparr>xhead := head_set_version version (xhead ex)\<rparr>)))"

section \<open>Creation and deletion\<close>

text \<open>A local event that the code initialises with zeros.\<close>

definition zero_event :: vscpEvent where
  "zero_event = \<lparr>head = 0, obid = 0, year = 0, month = 0, timestamp_ns = 0, vscp_class = 0, vscp_type = 0,
     GUID = replicate 16 0, sizeData = 0, pdata = None, crc = 0\<rparr>"

text \<open>\<open>fresh\<close> is the indeterminate content of the memory that \<^verbatim>\<open>new\<close> hands out.\<close>

definition vscp_newEvent :: "vscpEvent \<Rightarrow> u16 \<Rightarrow> vscpEvent" where
  "vscp_newEvent fresh version =
     (let ev = fresh\<lparr>head := version, sizeData := 0, pdata := None\<rparr>
      in if is_unix_ns version then ev\<lparr>year := 0xffff, month := 0xff\<rparr> else ev)"

definition vscp_newEventEx :: "vscpEventEx \<Rightarrow> u16 \<Rightarrow> vscpEventEx" where
  "vscp_newEventEx fresh version =
     (let ex = fresh\<lparr>xhead := version, xsizeData := 0\<rparr>
      in if is_unix_ns version then ex\<lparr>xyear := 0xffff, xmonth := 0xff\<rparr> else ex)"

definition vscp_deleteEvent :: "vscpEvent ptr \<Rightarrow> vscpEvent ptr" where
  "vscp_deleteEvent pev =
     (case pev of None \<Rightarrow> None
      | Some ev \<Rightarrow> Some (if pdata ev \<noteq> None then ev\<lparr>pdata := None\<rparr> else ev))"

section \<open>Copying and converting\<close>

definition vscp_convertEventToEventEx ::
  "vscpEventEx ptr \<Rightarrow> vscpEvent ptr \<Rightarrow> (bool \<times> vscpEventEx ptr) safe" where
  "vscp_convertEventToEventEx pex pev =
     (case pev of None \<Rightarrow> Some (False, pex)
      | Some ev \<Rightarrow> (case pex of None \<Rightarrow> Some (False, None)
      | Some ex \<Rightarrow>
         if unat (sizeData ev) > VSCP_LEVEL2_MAXDATA \<or> sizeData ev \<noteq> 0 \<and> pdata ev = None
         then Some (False, Some ex)
         else do {
           let ex = ex\<lparr>xhead := head ev, xcrc := crc ev, xobid := obid ev\<rparr>;
           let ex = (if is_unix_ns (xhead ex)
                     then ex\<lparr>xtimestamp_ns := timestamp_ns ev, xyear := 0xffff, xmonth := 0xff\<rparr>
                     else ex\<lparr>xyear := year ev, xmonth := month ev,
                             xtimestamp_ns := tb_copy_fields (timestamp_ns ev) (xtimestamp_ns ex)\<rparr>);
           let ex = ex\<lparr>xobid := obid ev, xvscp_class := vscp_class ev, xvscp_type := vscp_type ev,
                       xsizeData := sizeData ev, xGUID := GUID ev\<rparr>;
           data \<leftarrow> (if sizeData ev \<noteq> 0
                    then do { d \<leftarrow> pdata ev; bs \<leftarrow> rd_block d 0 (unat (sizeData ev));
                              wr_block (xdata ex) 0 bs }
                    else Some (xdata ex));
           Some (True, Some (ex\<lparr>xdata := data\<rparr>)) }))"

definition vscp_convertEventExToEvent ::
  "vscpEvent ptr \<Rightarrow> vscpEventEx ptr \<Rightarrow> (bool \<times> vscpEvent ptr) safe" where
  "vscp_convertEventExToEvent pev pex =
     (case pev of None \<Rightarrow> Some (False, None)
      | Some ev \<Rightarrow> (case pex of None \<Rightarrow> Some (False, Some ev)
      | Some ex \<Rightarrow>
         if unat (xsizeData ex) > VSCP_LEVEL2_MAXDATA then Some (False, Some ev)
         else do {
           p \<leftarrow> (if xsizeData ex \<noteq> 0
                 then map_option Some (rd_block (xdata ex) 0 (unat (xsizeData ex)))
                 else Some None);
           let ev = ev\<lparr>pdata := p, head := xhead ex, crc := xcrc ex, obid := xobid ex\<rparr>;
           let ev = (if is_unix_ns (xhead ex)
                     then ev\<lparr>year := 0xffff, month := 0xff, timestamp_ns := xtimestamp_ns ex\<rparr>
                     else ev\<lparr>year := xyear ex, month := xmonth ex,
                             timestamp_ns := tb_copy_fields (xtimestamp_ns ex) (timestamp_ns ev)\<rparr>);
           Some (True, Some (ev\<lparr>obid := xobid ex, vscp_class := xvscp_class ex,
                                vscp_type := xvscp_type ex, sizeData := xsizeData ex,
                                GUID := xGUID ex\<rparr>)) }))"

definition vscp_copyEvent :: "vscpEvent ptr \<Rightarrow> vscpEvent ptr \<Rightarrow> (bool \<times> vscpEvent ptr) safe" where
  "vscp_copyEvent pevTo pevFrom =
     (case pevTo of None \<Rightarrow> Some (False, None)
      | Some to \<Rightarrow> (case pevFrom of None \<Rightarrow> Some (False, Some to)
      | Some from \<Rightarrow>
         if unat (sizeData from) > VSCP_LEVEL2_MAXDATA then Some (False, Some to)
         else do {
           let to = (if is_unix_ns (head from)
                     then to\<lparr>year := 0xffff, month := 0xff, timestamp_ns := timestamp_ns from\<rparr>
                     else to\<lparr>year := year from, month := month from,
                             timestamp_ns := tb_copy_fields (timestamp_ns from) (timestamp_ns to)\<rparr>);
           let to = to\<lparr>head := head from, crc := crc from, obid := obid from,
                       vscp_class := vscp_class from, vscp_type := vscp_type from,
                       sizeData := sizeData from, GUID := GUID from\<rparr>;
           p \<leftarrow> (if sizeData from \<noteq> 0
                 then do { d \<leftarrow> pdata from; map_option Some (rd_block d 0 (unat (sizeData from))) }
                 else Some None);
           Some (True, Some (to\<lparr>pdata := p\<rparr>)) }))"

definition vscp_copyEventEx ::
  "vscpEventEx ptr \<Rightarrow> vscpEventEx ptr \<Rightarrow> (bool \<times> vscpEventEx ptr) safe" where
  "vscp_copyEventEx pexTo pexFrom =
     (case pexTo of None \<Rightarrow> Some (False, None)
      | Some to \<Rightarrow> (case pexFrom of None \<Rightarrow> Some (False, Some to)
      | Some from \<Rightarrow>
         if unat (xsizeData from) > VSCP_LEVEL2_MAXDATA then Some (False, Some to)
         else do {
           let to = to\<lparr>xhead := xhead from, xcrc := xcrc from, xobid := xobid from\<rparr>;
           let to = (if is_unix_ns (xhead from)
                     then to\<lparr>xyear := 0xffff, xmonth := 0xff, xtimestamp_ns := xtimestamp_ns from\<rparr>
                     else to\<lparr>xyear := xyear from, xmonth := xmonth from,
                             xtimestamp_ns := tb_copy_fields (xtimestamp_ns from) (xtimestamp_ns to)\<rparr>);
           let to = to\<lparr>xobid := xobid from, xvscp_class := xvscp_class from,
                       xvscp_type := xvscp_type from, xsizeData := xsizeData from,
                       xGUID := xGUID from\<rparr>;
           bs \<leftarrow> rd_block (xdata from) 0 (unat (xsizeData from));
           data \<leftarrow> wr_block (xdata to) 0 bs;
           data \<leftarrow> (if xsizeData from \<noteq> 0 then wr_block data 0 bs else Some data);
           Some (True, Some (to\<lparr>xdata := data\<rparr>)) }))"

section \<open>Bits of the head field\<close>

lemma priority_mask: "VSCP_HEADER_PRIORITY_MASK = push_bit 5 (mask 3)"
  by (simp add: VSCP_HEADER_PRIORITY_MASK_def mask_eq_exp_minus_1)

lemma version_mask: "FRAME_VERSION_MASK = push_bit 8 (mask 2)"
  by (simp add: FRAME_VERSION_MASK_def mask_eq_exp_minus_1)

lemma and_7_u16: "(w :: u16) AND 0x07 = take_bit 3 w"
  by (simp add: take_bit_eq_mask mask_eq_exp_minus_1)

lemma bit_head_priority: "bit (head_priority h) n \<longleftrightarrow> n < 3 \<and> bit h (n + 5)"
  by (auto simp: head_priority_def and_7_u16 bit_simps add.commute)

lemma bit_head_set_priority:
  "bit (head_set_priority p h) n \<longleftrightarrow>
     n < 16 \<and> (bit h n \<and> \<not> (5 \<le> n \<and> n < 8) \<or> 5 \<le> n \<and> bit p (n - 5))"
  unfolding head_set_priority_def priority_mask
  by (auto simp: bit_simps dest: bit_imp_le_length)

lemma small_word_bit:
  fixes p :: "'a::len word"
  assumes "unat p < 2 ^ k" and "k \<le> n"
  shows "\<not> bit p n"
proof -
  have "unat p < 2 ^ n"
    by (rule order.strict_trans2 [OF assms(1)]) (rule power_increasing [OF assms(2)], simp)
  then have "\<not> bit (unat p) n" by (simp add: bit_iff_odd)
  then show ?thesis by (simp add: bit_unsigned_iff)
qed

lemma head_priority_set:
  assumes "unat p < 8"
  shows "head_priority (head_set_priority p h) = p"
proof (rule bit_word_eqI)
  fix n
  show "bit (head_priority (head_set_priority p h)) n = bit p n"
    using small_word_bit [of p 3 n] assms
    by (cases "n < 3") (auto simp: bit_head_priority bit_head_set_priority)
qed

text \<open>A legal priority leaves every other bit of the head alone.\<close>

lemma head_set_priority_frame:
  assumes "unat p < 8"
  shows "head_set_priority p h AND NOT VSCP_HEADER_PRIORITY_MASK
       = h AND NOT VSCP_HEADER_PRIORITY_MASK"
  unfolding priority_mask
proof (rule bit_word_eqI)
  fix n
  show "bit (head_set_priority p h AND NOT (push_bit 5 (mask 3))) n
      = bit (h AND NOT (push_bit 5 (mask 3))) n"
    using small_word_bit [of p 3 "n - 5"] assms
    by (auto simp: bit_simps bit_head_set_priority)
qed

lemma bit_head_set_version:
  "bit (head_set_version v h) n \<longleftrightarrow> n < 16 \<and> (if 8 \<le> n \<and> n < 10 then bit v n else bit h n)"
  unfolding head_set_version_def version_mask by (auto simp: bit_simps)

lemma unix_ns_bit: "bit FRAME_VERSION_UNIX_NS n \<longleftrightarrow> n = 8"
proof -
  have "FRAME_VERSION_UNIX_NS = push_bit 8 1" by (simp add: FRAME_VERSION_UNIX_NS_def)
  then have "bit FRAME_VERSION_UNIX_NS n \<longleftrightarrow> bit (push_bit 8 1 :: u16) n" by (simp only:)
  also have "\<dots> \<longleftrightarrow> n = 8" by (auto simp only: bit_push_bit_iff bit_1_iff possible_bit_word) simp_all
  finally show ?thesis .
qed

lemma is_unix_ns_bits: "is_unix_ns h \<longleftrightarrow> bit h 8 \<and> \<not> bit h 9"
proof -
  have mask: "bit (h AND FRAME_VERSION_MASK) n \<longleftrightarrow> bit h n \<and> (n = 8 \<or> n = 9)" for n
    unfolding version_mask by (auto simp: bit_simps dest: bit_imp_le_length)
  show ?thesis
  proof
    assume "is_unix_ns h"
    then have "bit (h AND FRAME_VERSION_MASK) n \<longleftrightarrow> n = 8" for n
      by (simp add: is_unix_ns_def unix_ns_bit)
    from this [of 8] this [of 9] show "bit h 8 \<and> \<not> bit h 9" by (simp add: mask)
  next
    assume "bit h 8 \<and> \<not> bit h 9"
    then show "is_unix_ns h"
      unfolding is_unix_ns_def by (intro bit_word_eqI) (auto simp: mask unix_ns_bit)
  qed
qed

lemma is_unix_ns_set_version [simp]: "is_unix_ns (head_set_version FRAME_VERSION_UNIX_NS h)"
  by (simp add: is_unix_ns_bits bit_head_set_version unix_ns_bit)

section \<open>Fields of a CANAL id\<close>

lemma bit_canal_id:
  "bit (vscp_getCANALidFromData p c t) n \<longleftrightarrow>
     n < 32 \<and> (26 \<le> n \<and> bit p (n - 26) \<or> 16 \<le> n \<and> bit c (n - 16) \<or> 8 \<le> n \<and> bit t (n - 8))"
  by (auto simp: vscp_getCANALidFromData_def bit_simps dest: bit_imp_le_length)

lemma and_masks_u32:
  "0x1ff AND (w :: u32) = take_bit 9 w" "0xff AND (w :: u32) = take_bit 8 w"
  "0x07 AND (w :: u32) = take_bit 3 w" "(w :: u32) AND 0xff = take_bit 8 w"
  by (simp_all add: take_bit_eq_mask mask_eq_exp_minus_1 and.commute)

lemma canal_id_class:
  assumes "unat c < 512" and "unat t < 256"
  shows "vscp_getVscpClassFromCANALid (vscp_getCANALidFromData p c t) = c"
proof (rule bit_word_eqI)
  fix n
  show "bit (vscp_getVscpClassFromCANALid (vscp_getCANALidFromData p c t)) n = bit c n"
    using small_word_bit [of c 9 n] small_word_bit [of t 8 "n + 8"] assms
    by (cases "n < 9") (auto simp: vscp_getVscpClassFromCANALid_def and_masks_u32 bit_simps bit_canal_id add.commute)
qed

lemma canal_id_type:
  assumes "unat t < 256"
  shows "vscp_getVscpTypeFromCANALid (vscp_getCANALidFromData p c t) = t"
proof (rule bit_word_eqI)
  fix n
  show "bit (vscp_getVscpTypeFromCANALid (vscp_getCANALidFromData p c t)) n = bit t n"
    using small_word_bit [of t 8 n] assms
    by (cases "n < 8") (auto simp: vscp_getVscpTypeFromCANALid_def and_masks_u32 bit_simps bit_canal_id add.commute)
qed

lemma canal_id_nickname: "vscp_getNicknameFromCANALid (vscp_getCANALidFromData p c t) = 0"
  by (rule bit_word_eqI)
    (auto simp: vscp_getNicknameFromCANALid_def and_masks_u32 bit_simps bit_canal_id)

lemma canal_id_head:
  assumes "unat p < 8" and "unat c < 512" and "unat t < 256"
  shows "vscp_getHeadFromCANALid (vscp_getCANALidFromData p c t) = push_bit 5 p"
proof -
  let ?id = "vscp_getCANALidFromData p c t"
  have "?id AND push_bit 25 1 = 0"
    using small_word_bit [of c 9 9] small_word_bit [of t 8 17] assms
    by (intro bit_word_eqI) (simp only: bit_and_iff bit_push_bit_iff bit_1_iff bit_canal_id, auto)
  moreover have "ucast (0x07 AND drop_bit 26 ?id) = p"
  proof (rule bit_word_eqI)
    fix n
    show "bit (ucast (0x07 AND drop_bit 26 ?id) :: u8) n = bit p n"
      using small_word_bit [of p 3 n] small_word_bit [of c 9 "n + 10"] small_word_bit [of t 8 "n + 18"]
        assms
      by (cases "n < 3") (auto simp: and_masks_u32 bit_simps bit_canal_id add.commute)
  qed
  ultimately show ?thesis by (simp add: vscp_getHeadFromCANALid_def Let_def)
qed

lemma canal_id_event: "vscp_getCANALidFromEvent ev =
    vscp_getCANALidFromData (head_priority (head ev)) (vscp_class ev) (vscp_type ev)"
  by (simp add: vscp_getCANALidFromEvent_def vscp_getCANALidFromData_def vscp_getEventPriority_def)

lemma canal_id_eventEx: "vscp_getCANALidFromEventEx ex =
    vscp_getCANALidFromData (head_priority (xhead ex)) (xvscp_class ex) (xvscp_type ex)"
  by (simp add: vscp_getCANALidFromEventEx_def vscp_getCANALidFromData_def
      vscp_getEventExPriority_def)

lemma head_priority_less: "unat (head_priority h) < 8"
proof -
  have "head_priority h = take_bit 3 (head_priority h)"
    by (rule bit_word_eqI) (auto simp: bit_head_priority bit_simps)
  then have "unat (head_priority h) = take_bit 3 (unat (head_priority h))"
    by (metis unsigned_take_bit_eq)
  then show ?thesis using take_bit_nat_less_exp [of 3 "unat (head_priority h)"] by simp
qed

section \<open>The time block\<close>

lemma bit_tb_set_byte:
  "bit (tb_set_byte k v w) n \<longleftrightarrow>
     n < 64 \<and> (if k \<le> n \<and> n < k + 8 then bit v (n - k) else bit w n)"
proof -
  have ff: "(0xff :: u64) = mask 8" by (simp add: mask_eq_exp_minus_1)
  have "bit (tb_set_byte k v w) n \<longleftrightarrow>
      n < 64 \<and> (bit w n \<and> \<not> (k \<le> n \<and> n < k + 8) \<or> k \<le> n \<and> bit v (n - k))"
    unfolding tb_set_byte_def ff
    by (auto simp: bit_or_iff bit_and_iff bit_not_iff bit_push_bit_iff bit_mask_iff bit_ucast_iff
        dest: bit_imp_le_length)
  then show ?thesis using bit_imp_le_length [of v "n - k"] by auto
qed

lemma bit_byte_at: "bit (byte_at w k) n \<longleftrightarrow> n < 8 \<and> bit w (k + n)"
  by (auto simp: byte_at_def mask_ff_u64 bit_simps)

lemma byte_at_set_same: "k + 8 \<le> 64 \<Longrightarrow> byte_at (tb_set_byte k v w) k = v"
  by (rule bit_word_eqI) (auto simp: bit_byte_at bit_tb_set_byte dest: bit_imp_le_length)

lemma byte_at_set_other:
  "k + 8 \<le> j \<or> j + 8 \<le> k \<Longrightarrow> byte_at (tb_set_byte k v w) j = byte_at w j"
  by (rule bit_word_eqI) (auto simp: bit_byte_at bit_tb_set_byte dest: bit_imp_le_length)

lemma bit_tb_set_timestamp:
  "bit (tb_set_timestamp v w) n \<longleftrightarrow> n < 64 \<and> (if 32 \<le> n then bit v (n - 32) else bit w n)"
  by (auto simp: tb_set_timestamp_def bit_simps dest: bit_imp_le_length)

lemma tb_copy_fields [simp]: "tb_copy_fields src dst = src"
proof (rule bit_word_eqI)
  fix n :: nat
  assume n: "n < LENGTH(64)"
  consider "n < 8" | "8 \<le> n" "n < 16" | "16 \<le> n" "n < 24" | "24 \<le> n" "n < 32" | "32 \<le> n" "n < 64"
    using n by fastforce
  then show "bit (tb_copy_fields src dst) n = bit src n"
    by cases
      (auto simp: tb_copy_fields_def tb_set_clock_def bit_tb_set_timestamp bit_tb_set_byte
        tb_day_def tb_hour_def tb_minute_def tb_second_def tb_timestamp_def bit_byte_at
        bit_ucast_iff bit_drop_bit_eq)
qed

section \<open>Content of an event\<close>

text \<open>What an event says, independent of where its data lies.\<close>

record event_view =
  v_head :: u16
  v_obid :: u32
  v_year :: u16
  v_month :: u8
  v_time :: u64
  v_class :: u16
  v_type :: u16
  v_guid :: "u8 list"
  v_data :: "u8 list"
  v_crc :: u16

definition ev_data :: "vscpEvent \<Rightarrow> u8 list" where
  "ev_data ev = (case pdata ev of None \<Rightarrow> [] | Some d \<Rightarrow> take (unat (sizeData ev)) d)"

definition ev_view :: "vscpEvent \<Rightarrow> event_view" where
  "ev_view ev = \<lparr>v_head = head ev, v_obid = obid ev, v_year = year ev, v_month = month ev,
     v_time = timestamp_ns ev, v_class = vscp_class ev, v_type = vscp_type ev, v_guid = GUID ev,
     v_data = ev_data ev, v_crc = crc ev\<rparr>"

definition ex_view :: "vscpEventEx \<Rightarrow> event_view" where
  "ex_view ex = \<lparr>v_head = xhead ex, v_obid = xobid ex, v_year = xyear ex, v_month = xmonth ex,
     v_time = xtimestamp_ns ex, v_class = xvscp_class ex, v_type = xvscp_type ex,
     v_guid = xGUID ex, v_data = take (unat (xsizeData ex)) (xdata ex), v_crc = xcrc ex\<rparr>"

text \<open>A nanosecond time stamp is flagged in the year and month fields by every copying routine.\<close>

definition view_norm :: "event_view \<Rightarrow> event_view" where
  "view_norm v = (if is_unix_ns (v_head v) then v\<lparr>v_year := 0xffff, v_month := 0xff\<rparr> else v)"

definition wf_event :: "vscpEvent \<Rightarrow> bool" where
  "wf_event ev \<longleftrightarrow> length (GUID ev) = 16 \<and> unat (sizeData ev) \<le> VSCP_LEVEL2_MAXDATA
     \<and> (case pdata ev of None \<Rightarrow> sizeData ev = 0 | Some d \<Rightarrow> unat (sizeData ev) \<le> length d)"

definition wf_eventEx :: "vscpEventEx \<Rightarrow> bool" where
  "wf_eventEx ex \<longleftrightarrow> length (xGUID ex) = 16 \<and> unat (xsizeData ex) \<le> VSCP_LEVEL2_MAXDATA
     \<and> length (xdata ex) = VSCP_LEVEL2_MAXDATA"

lemma view_norm_idem [simp]: "view_norm (view_norm v) = view_norm v"
  by (simp add: view_norm_def)

section \<open>The contract of the copying routines\<close>

text \<open>
  A routine that fills a destination from a source: null pointers and over-long data are refused
  and leave the destination alone, everything else succeeds without touching memory outside the
  objects, and the destination then says what the source says.
\<close>

locale event_copy =
  fixes copy :: "'d ptr \<Rightarrow> 's ptr \<Rightarrow> (bool \<times> 'd ptr) safe"
    and src_ok :: "'s \<Rightarrow> bool" and src_view :: "'s \<Rightarrow> event_view" and src_size :: "'s \<Rightarrow> u16"
    and dst_in :: "'d \<Rightarrow> bool" and dst_ok :: "'d \<Rightarrow> bool" and dst_view :: "'d \<Rightarrow> event_view"
  assumes null_dst: "copy None s = Some (False, None)"
    and null_src: "copy d None = Some (False, d)"
    and too_long: "unat (src_size x) > VSCP_LEVEL2_MAXDATA
                   \<Longrightarrow> copy (Some y) (Some x) = Some (False, Some y)"
    and copies: "src_ok x \<Longrightarrow> dst_in y \<Longrightarrow>
           \<exists>y'. copy (Some y) (Some x) = Some (True, Some y') \<and> dst_ok y'
                \<and> dst_view y' = view_norm (src_view x)"
    and ok_in: "dst_ok y \<Longrightarrow> dst_in y"
begin

text \<open>What the destination held before does not show in the copy.\<close>

lemma copy_forgets_destination:
  assumes "src_ok x" and "dst_in y" and "dst_in z"
    and "copy (Some y) (Some x) = Some (a, Some y')" and "copy (Some z) (Some x) = Some (b, Some z')"
  shows "a \<and> b \<and> dst_view y' = dst_view z'"
  using copies [OF assms(1,2)] copies [OF assms(1,3)] assms(4,5) by auto

lemma copy_again:
  assumes "src_ok x" and "dst_in y"
  shows "\<exists>y' y''. copy (Some y) (Some x) = Some (True, Some y')
           \<and> copy (Some y') (Some x) = Some (True, Some y'') \<and> dst_view y'' = dst_view y'"
  using copies [OF assms] copies [OF assms(1) ok_in] by metis

end

text \<open>Two routines that convert between the same pair of representations.\<close>

locale event_conversion =
  there: event_copy fwd a_ok a_view a_size b_in b_ok b_view +
  again: event_copy bwd b_ok b_view b_size a_in a_ok a_view
  for fwd :: "'b ptr \<Rightarrow> 'a ptr \<Rightarrow> (bool \<times> 'b ptr) safe"
    and bwd :: "'a ptr \<Rightarrow> 'b ptr \<Rightarrow> (bool \<times> 'a ptr) safe"
    and a_ok a_view a_size b_in b_ok b_view b_size a_in
begin

lemma round_trip:
  assumes "a_ok x" and "b_in y" and "a_in z"
  shows "\<exists>y' x'. fwd (Some y) (Some x) = Some (True, Some y')
           \<and> bwd (Some z) (Some y') = Some (True, Some x')
           \<and> a_ok x' \<and> a_view x' = view_norm (a_view x)"
proof -
  obtain y' where y: "fwd (Some y) (Some x) = Some (True, Some y')" "b_ok y'"
      "b_view y' = view_norm (a_view x)"
    using there.copies [OF assms(1,2)] by blast
  obtain x' where "bwd (Some z) (Some y') = Some (True, Some x')" "a_ok x'"
      "a_view x' = view_norm (b_view y')"
    using again.copies [OF y(2) assms(3)] by blast
  with y show ?thesis by auto
qed

end

text \<open>Memory of the right shape, whatever it holds.\<close>

definition raw_eventEx :: "vscpEventEx \<Rightarrow> bool" where
  "raw_eventEx ex \<longleftrightarrow> length (xGUID ex) = 16 \<and> length (xdata ex) = VSCP_LEVEL2_MAXDATA"

lemmas event_shape = wf_event_def wf_eventEx_def raw_eventEx_def
lemmas event_content = ev_view_def ex_view_def ev_data_def view_norm_def

lemma unat_eq_zero_iff: "unat (w :: 'a::len word) = 0 \<longleftrightarrow> w = 0"
  by (simp add: unat_eq_0)

interpretation to_ex: event_copy vscp_convertEventToEventEx wf_event ev_view sizeData
  raw_eventEx wf_eventEx ex_view
proof unfold_locales
  fix ev ex assume "wf_event ev" and "raw_eventEx ex"
  then show "\<exists>ex'. vscp_convertEventToEventEx (Some ex) (Some ev) = Some (True, Some ex') \<and> wf_eventEx ex'
               \<and> ex_view ex' = view_norm (ev_view ev)"
    by (cases "pdata ev"; cases "sizeData ev = 0")
      (auto simp: vscp_convertEventToEventEx_def event_shape event_content Let_def
        rd_block_in_range wr_block_zero)
qed (auto simp: vscp_convertEventToEventEx_def event_shape split: option.splits)

interpretation to_ev: event_copy vscp_convertEventExToEvent wf_eventEx ex_view xsizeData
  "\<lambda>_. True" wf_event ev_view
proof unfold_locales
  fix ex ev assume "wf_eventEx ex"
  then show "\<exists>ev'. vscp_convertEventExToEvent (Some ev) (Some ex) = Some (True, Some ev') \<and> wf_event ev'
               \<and> ev_view ev' = view_norm (ex_view ex)"
    by (cases "xsizeData ex = 0")
      (auto simp: vscp_convertEventExToEvent_def event_shape event_content Let_def rd_block_in_range)
qed (auto simp: vscp_convertEventExToEvent_def event_shape split: option.splits)

interpretation ev_ev: event_copy vscp_copyEvent wf_event ev_view sizeData "\<lambda>_. True" wf_event
  ev_view
proof unfold_locales
  fix src dst assume "wf_event src"
  then show "\<exists>dst'. vscp_copyEvent (Some dst) (Some src) = Some (True, Some dst') \<and> wf_event dst'
               \<and> ev_view dst' = view_norm (ev_view src)"
    by (cases "pdata src"; cases "sizeData src = 0")
      (auto simp: vscp_copyEvent_def event_shape event_content Let_def rd_block_in_range)
qed (auto simp: vscp_copyEvent_def event_shape split: option.splits)

interpretation ex_ex: event_copy vscp_copyEventEx wf_eventEx ex_view xsizeData
  raw_eventEx wf_eventEx ex_view
proof unfold_locales
  fix src dst assume "wf_eventEx src" and "raw_eventEx dst"
  then show "\<exists>dst'. vscp_copyEventEx (Some dst) (Some src) = Some (True, Some dst') \<and> wf_eventEx dst'
               \<and> ex_view dst' = view_norm (ex_view src)"
    by (cases "xsizeData src = 0")
      (auto simp: vscp_copyEventEx_def event_shape event_content Let_def rd_block_in_range
        wr_block_zero)
qed (auto simp: vscp_copyEventEx_def event_shape split: option.splits)

interpretation ev_ex_ev: event_conversion vscp_convertEventToEventEx vscp_convertEventExToEvent
  wf_event ev_view sizeData raw_eventEx wf_eventEx ex_view xsizeData "\<lambda>_. True" ..

interpretation ex_ev_ex: event_conversion vscp_convertEventExToEvent vscp_convertEventToEventEx
  wf_eventEx ex_view xsizeData "\<lambda>_. True" wf_event ev_view sizeData raw_eventEx ..

section \<open>What the checksum covers\<close>

lemma crc_of_first_bytes:
  assumes "wf_event ev"
  shows "vscp_calc_crc_Event (Some ev) bSet =
    (let c = crcFast ([lo8 (head ev)] @ le16 (vscp_class ev) @ le16 (vscp_type ev) @ take 3 (GUID ev))
     in Some (c, Some (if bSet then ev\<lparr>crc := c\<rparr> else ev)))"
proof -
  have g: "length (GUID ev) = 16" using assms by (simp add: wf_event_def)
  have "rd_block (crc_buffer h c t (GUID ev) data sz) 0 8 =
      Some ([lo8 h] @ le16 c @ le16 t @ take 3 (GUID ev))" for h c t data sz
    using g by (simp add: rd_block_def crc_buffer_def le16_def)
  then show ?thesis
    using assms
    by (cases "pdata ev")
      (simp_all add: vscp_calc_crc_Event_def wf_event_def sizeof_pointer_def rd_block_in_range Let_def)
qed

section \<open>Properties\<close>

text \<open>C35: converting an event to the embedded representation and back succeeds without a memory
  fault into any destination, and gives an event with the same head, time, class, type, GUID, data
  and checksum (a nanosecond time stamp gets its year and month marked as unused).\<close>

theorem convert_event_round_trip:
  assumes "wf_event ev" and "raw_eventEx ex0"
  shows "\<exists>ex ev'. vscp_convertEventToEventEx (Some ex0) (Some ev) = Some (True, Some ex)
           \<and> vscp_convertEventExToEvent (Some ev0) (Some ex) = Some (True, Some ev')
           \<and> wf_event ev' \<and> ev_view ev' = view_norm (ev_view ev)"
  by (rule ev_ex_ev.round_trip [OF assms TrueI])

definition sample_event :: vscpEvent where
  "sample_event = \<lparr>head = 0x0160, obid = 1, year = 2024, month = 2, timestamp_ns = 77,
     vscp_class = 20, vscp_type = 3, GUID = map of_nat [0..<16], sizeData = 3,
     pdata = Some [1, 2, 3], crc = 0\<rparr>"

definition blank_eventEx :: vscpEventEx where
  "blank_eventEx = \<lparr>xhead = 0, xobid = 0, xyear = 0, xmonth = 0, xtimestamp_ns = 0, xcrc = 0,
     xvscp_class = 0, xvscp_type = 0, xGUID = replicate 16 0, xsizeData = 0,
     xdata = replicate 512 0\<rparr>"

lemma sample_event_ok: "wf_event sample_event" "raw_eventEx blank_eventEx"
  "wf_eventEx blank_eventEx"
  by (simp_all add: event_shape sample_event_def blank_eventEx_def VSCP_LEVEL2_MAXDATA_def)

theorem convert_event_round_trip_witness:
  "\<exists>ex ev'. vscp_convertEventToEventEx (Some blank_eventEx) (Some sample_event) = Some (True, Some ex)
           \<and> vscp_convertEventExToEvent (Some sample_event) (Some ex) = Some (True, Some ev')
           \<and> wf_event ev' \<and> ev_view ev' = view_norm (ev_view sample_event)"
  by (rule convert_event_round_trip) (rule sample_event_ok)+

text \<open>copying a well-formed event gives a well-formed event with the same content; copying an
  event whose size field exceeds the limit, from or to a null pointer, is refused and leaves the
  destination as it was.\<close>

theorem copy_event_correct:
  "vscp_copyEvent None from = Some (False, None)
   \<and> vscp_copyEvent dest None = Some (False, dest)
   \<and> (unat (sizeData ev) > VSCP_LEVEL2_MAXDATA
        \<longrightarrow> vscp_copyEvent (Some to) (Some ev) = Some (False, Some to))
   \<and> (wf_event ev
        \<longrightarrow> (\<exists>to'. vscp_copyEvent (Some to) (Some ev) = Some (True, Some to') \<and> wf_event to'
                 \<and> ev_view to' = view_norm (ev_view ev)))"
  using ev_ev.null_dst ev_ev.null_src ev_ev.too_long ev_ev.copies by blast

theorem copy_event_correct_witness:
  "\<exists>to'. vscp_copyEvent (Some sample_event) (Some sample_event) = Some (True, Some to') \<and> wf_event to'
        \<and> ev_view to' = view_norm (ev_view sample_event)"
  using copy_event_correct [of None None sample_event sample_event] sample_event_ok by blast

text \<open>a priority below eight that is set on an event is read back, and nothing else in the head
  of the event changes.\<close>

theorem priority_set_get:
  assumes "unat p < 8"
  shows "vscp_getEventPriority (vscp_setEventPriority (Some ev) p) = p
    \<and> vscp_setEventPriority (Some ev) p = Some (ev\<lparr>head := head_set_priority p (head ev)\<rparr>)
    \<and> head_set_priority p (head ev) AND NOT VSCP_HEADER_PRIORITY_MASK
        = head ev AND NOT VSCP_HEADER_PRIORITY_MASK"
  using assms
  by (simp add: vscp_getEventPriority_def vscp_setEventPriority_def head_priority_set
      head_set_priority_frame)

theorem priority_set_get_witness:
  "vscp_getEventPriority (vscp_setEventPriority (Some sample_event) 5) = 5"
  by (rule conjunct1 [OF priority_set_get]) simp

text \<open>the CANAL id built from an event with a Level I class and type gives back the class, the
  type and the priority of the event; its nickname byte is zero.\<close>

theorem canal_id_round_trip:
  assumes "unat (vscp_class ev) < 512" and "unat (vscp_type ev) < 256"
  shows "vscp_getVscpClassFromCANALid (vscp_getCANALidFromEvent ev) = vscp_class ev
    \<and> vscp_getVscpTypeFromCANALid (vscp_getCANALidFromEvent ev) = vscp_type ev
    \<and> vscp_getHeadFromCANALid (vscp_getCANALidFromEvent ev) = push_bit 5 (vscp_getEventPriority (Some ev))
    \<and> vscp_getNicknameFromCANALid (vscp_getCANALidFromEvent ev) = 0"
  using assms head_priority_less [of "head ev"]
  by (simp add: canal_id_event canal_id_class canal_id_type canal_id_head canal_id_nickname
      vscp_getEventPriority_def)

theorem canal_id_round_trip_witness:
  "vscp_getVscpClassFromCANALid (vscp_getCANALidFromEvent sample_event) = 20
   \<and> vscp_getVscpTypeFromCANALid (vscp_getCANALidFromEvent sample_event) = 3"
  using canal_id_round_trip [of sample_event] by (simp add: sample_event_def)

text \<open>the checksum routine reads the first eight bytes of its buffer only (it passes the size of
  a pointer as length), so the stored checksum is blind to the event data, to most of the GUID and
  to the size: any two events that agree on these eight bytes get the same value.\<close>

theorem event_crc_ignores_data:
  assumes "wf_event ev" and "wf_event ev'" and "head ev = head ev'"
    and "vscp_class ev = vscp_class ev'" and "vscp_type ev = vscp_type ev'"
    and "take 3 (GUID ev) = take 3 (GUID ev')"
  shows "\<exists>c. vscp_calc_crc_Event (Some ev) True = Some (c, Some (ev\<lparr>crc := c\<rparr>))
           \<and> vscp_calc_crc_Event (Some ev') True = Some (c, Some (ev'\<lparr>crc := c\<rparr>))"
  using crc_of_first_bytes [OF assms(1)] crc_of_first_bytes [OF assms(2)] assms(3-6)
  by (auto simp: Let_def)

theorem event_crc_ignores_data_witness:
  "\<exists>c. vscp_calc_crc_Event (Some sample_event) True = Some (c, Some (sample_event\<lparr>crc := c\<rparr>))
     \<and> vscp_calc_crc_Event (Some (sample_event\<lparr>sizeData := 0, pdata := None\<rparr>)) True
         = Some (c, Some (sample_event\<lparr>sizeData := 0, pdata := None, crc := c\<rparr>))"
  using event_crc_ignores_data [of sample_event "sample_event\<lparr>sizeData := 0, pdata := None\<rparr>"]
  by (simp add: event_shape sample_event_def VSCP_LEVEL2_MAXDATA_def)

end
