(* ===== verification/CivilTime.thy ===== *)
theory CivilTime
  imports VscpPrelude "HOL-Library.Signed_Division"
begin

text \<open>
  Calendar arithmetic of \<^verbatim>\<open>src/src/vscp/common/vscphelper.cpp\<close>: the conversion between a
  civil date and the number of days since 1970-01-01 (\<^verbatim>\<open>days_from_civil\<close>,
  \<^verbatim>\<open>civil_from_days\<close>) and between a date with time of day and nanoseconds since the Unix epoch
  (\<^verbatim>\<open>vscp_to_unix_ns\<close>, \<^verbatim>\<open>vscp_from_unix_ns\<close>), together with the C library calls
  \<^verbatim>\<open>timegm\<close> and \<^verbatim>\<open>gmtime_r\<close> that the event code uses. Signed C integers are \<open>int\<close> with C's
  truncating division (\<open>sdiv\<close>, \<open>smod\<close>) and without a bound: the model agrees with the code as long as its
  arithmetic on \<^verbatim>\<open>int\<close> years and days does not overflow, which the years of events (0 to 65535) never make it do;
  \<^verbatim>\<open>unsigned\<close> values are reduced modulo \<open>2 ^ 32\<close>. The theorems compare the code with the textbook Gregorian calendar, show that the
  two directions are inverse to each other, and bound the results.
\<close>

section \<open>The code\<close>

definition NS_PER_SEC :: int where "NS_PER_SEC = 1000000000"
definition SECS_PER_DAY :: int where "SECS_PER_DAY = 86400"

text \<open>Conversion of a C integer to \<^verbatim>\<open>unsigned\<close> (32 bits).\<close>

definition uns :: "int \<Rightarrow> int" where
  "uns x = x mod 4294967296"

definition days_from_civil :: "int \<Rightarrow> int \<Rightarrow> int \<Rightarrow> int" where
  "days_from_civil year month day =
     (let year = year - (if month \<le> 2 then 1 else 0);
          era = (if year \<ge> 0 then year else year - 399) sdiv 400;
          yoe = uns (year - era * 400);
          doy = uns ((153 * (month + (if month > 2 then -3 else 9)) + 2) sdiv 5 + day - 1);
          doe = uns (yoe * 365 + yoe div 4 - yoe div 100 + doy)
      in era * 146097 + doe - 719468)"

definition vscp_to_unix_ns :: "int \<Rightarrow> int \<Rightarrow> int \<Rightarrow> int \<Rightarrow> int \<Rightarrow> int \<Rightarrow> u32 \<Rightarrow> int" where
  "vscp_to_unix_ns year month day hour minute second timestamp =
     (let days = days_from_civil year month day;
          total_seconds = days * SECS_PER_DAY + hour * 3600 + minute * 60 + second
      in total_seconds * NS_PER_SEC + uint timestamp * 1000)"

definition to_unix_ns_embedded :: "int \<Rightarrow> int \<Rightarrow> int \<Rightarrow> int \<Rightarrow> int \<Rightarrow> int \<Rightarrow> u32 \<Rightarrow> int" where
  "to_unix_ns_embedded year month day hour minute second timestamp =
     (let days = days_from_civil year month day;
          sec = days * SECS_PER_DAY + hour * 3600 + minute * 60 + second
      in sec * NS_PER_SEC + uint timestamp * 1000)"

definition civil_from_days :: "int \<Rightarrow> int \<times> int \<times> int" where
  "civil_from_days z =
     (let z = z + 719468;
          era = (if z \<ge> 0 then z else z - 146096) sdiv 146097;
          doe = uns (z - era * 146097);
          yoe = uns (doe - doe div 1460 + doe div 36524 - doe div 146096) div 365;
          y_full = yoe + era * 400;
          doy = uns (doe - uns (365 * yoe + yoe div 4 - yoe div 100));
          mp = uns (5 * doy + 2) div 153;
          d_full = uns (doy - (153 * mp + 2) div 5 + 1);
          m_full = uns (mp + (if mp < 10 then 3 else -9))
      in (y_full + (if m_full \<le> 2 then 1 else 0), m_full, d_full))"

text \<open>The result of \<^verbatim>\<open>vscp_from_unix_ns\<close>, which the code hands back through seven pointers.\<close>

record civil_time =
  ct_year :: int
  ct_month :: int
  ct_day :: int
  ct_hour :: int
  ct_minute :: int
  ct_second :: int
  ct_timestamp :: u32

definition vscp_from_unix_ns :: "int \<Rightarrow> civil_time" where
  "vscp_from_unix_ns unix_ns =
     (let sec = unix_ns sdiv NS_PER_SEC;
          nsec = unix_ns smod NS_PER_SEC;
          (sec, nsec) = (if nsec < 0 then (sec - 1, nsec + NS_PER_SEC) else (sec, nsec));
          days = sec sdiv SECS_PER_DAY;
          rem = sec smod SECS_PER_DAY;
          (rem, days) = (if rem < 0 then (rem + SECS_PER_DAY, days - 1) else (rem, days));
          (year, month, day) = civil_from_days days;
          hour = rem sdiv 3600;
          rem = rem smod 3600
      in \<lparr>ct_year = year, ct_month = month, ct_day = day, ct_hour = hour,
          ct_minute = rem sdiv 60, ct_second = rem smod 60,
          ct_timestamp = word_of_int (nsec sdiv 1000)\<rparr>)"

section \<open>The textbook Gregorian calendar\<close>

definition leap_year :: "int \<Rightarrow> bool" where
  "leap_year y \<longleftrightarrow> y mod 4 = 0 \<and> (y mod 100 \<noteq> 0 \<or> y mod 400 = 0)"

definition days_in_month :: "int \<Rightarrow> int \<Rightarrow> int" where
  "days_in_month y m =
     (if m = 2 then (if leap_year y then 29 else 28)
      else if m \<in> {4, 6, 9, 11} then 30 else 31)"

definition valid_date :: "int \<Rightarrow> int \<Rightarrow> int \<Rightarrow> bool" where
  "valid_date y m d \<longleftrightarrow> 1 \<le> m \<and> m \<le> 12 \<and> 1 \<le> d \<and> d \<le> days_in_month y m"

text \<open>Days of the common year before the first of a month.\<close>

definition month_offset :: "int \<Rightarrow> int" where
  "month_offset m = [0, 31, 59, 90, 120, 151, 181, 212, 243, 273, 304, 334] ! nat (m - 1)"

text \<open>Days from 0001-01-01 to the first day of a year.\<close>

definition days_before_year :: "int \<Rightarrow> int" where
  "days_before_year y = 365 * (y - 1) + (y - 1) div 4 - (y - 1) div 100 + (y - 1) div 400"

definition epoch_days :: "int \<Rightarrow> int \<Rightarrow> int \<Rightarrow> int" where
  "epoch_days y m d =
     days_before_year y - days_before_year 1970
     + month_offset m + (if m > 2 \<and> leap_year y then 1 else 0) + d - 1"

section \<open>C library time functions\<close>

text \<open>
  \<^verbatim>\<open>struct tm\<close> with the fields the code touches. \<^verbatim>\<open>timegm\<close> accepts fields outside their
  usual range and normalises them: months carry into years, days, hours, minutes and seconds
  add linearly.
\<close>

record tm =
  tm_year :: int
  tm_mon :: int
  tm_mday :: int
  tm_hour :: int
  tm_min :: int
  tm_sec :: int

definition timegm :: "tm \<Rightarrow> int" where
  "timegm t =
     (epoch_days (tm_year t + 1900 + tm_mon t div 12) (tm_mon t mod 12 + 1) 1
      + (tm_mday t - 1)) * 86400
     + tm_hour t * 3600 + tm_min t * 60 + tm_sec t"

definition valid_tm :: "tm \<Rightarrow> bool" where
  "valid_tm t \<longleftrightarrow>
     valid_date (tm_year t + 1900) (tm_mon t + 1) (tm_mday t)
     \<and> 0 \<le> tm_hour t \<and> tm_hour t < 24 \<and> 0 \<le> tm_min t \<and> tm_min t < 60
     \<and> 0 \<le> tm_sec t \<and> tm_sec t < 60"

section \<open>Division lemmas\<close>

lemma floor_div_sdiv:
  fixes x n k :: int
  assumes "0 < n" and k: "k = n - 1"
  shows "(if x \<ge> 0 then x else x - k) sdiv n = x div n"
proof (cases "0 \<le> x")
  case True
  with assms(1) show ?thesis by (simp add: signed_divide_int_def sgn_if)
next
  case False
  let ?q = "x div n" and ?r = "x mod n"
  have x: "x = n * ?q + ?r" and r: "0 \<le> ?r" "?r < n"
    using assms(1) by simp_all
  have eq: "- (x - (n - 1)) = n * (- ?q) + (n - 1 - ?r)"
    by (subst x) (simp add: algebra_simps)
  have "(- (x - (n - 1))) div n = - ?q"
    by (rule int_div_pos_eq [OF eq]) (use r in simp_all)
  with False assms(1) show ?thesis unfolding k by (simp add: signed_divide_int_def sgn_if)
qed

lemma div_mult_add: "(n :: int) \<noteq> 0 \<Longrightarrow> (n * a + b) div n = a + b div n"
  by simp

lemma uns_id [simp]: "0 \<le> x \<Longrightarrow> x < 4294967296 \<Longrightarrow> uns x = x"
  by (simp add: uns_def)

section \<open>Years of an era\<close>

text \<open>
  The code counts years from March. Within an era of 400 years, year
  \<open>100 c + 4 q + r\<close> starts on day \<open>36524 c + 1461 q + 365 r\<close>.
\<close>

definition era_day :: "int \<Rightarrow> int \<Rightarrow> int \<Rightarrow> int \<Rightarrow> int" where
  "era_day c q r j = 36524 * c + 1461 * q + 365 * r + j"

text \<open>Day \<open>j\<close> exists in that year: a 366th day closes every fourth year, but not every hundredth.\<close>

definition era_ok :: "int \<Rightarrow> int \<Rightarrow> int \<Rightarrow> int \<Rightarrow> bool" where
  "era_ok c q r j \<longleftrightarrow> 0 \<le> c \<and> c \<le> 3 \<and> 0 \<le> q \<and> q \<le> 24 \<and> 0 \<le> r \<and> r \<le> 3 \<and> 0 \<le> j
     \<and> (j \<le> 364 \<or> j = 365 \<and> r = 3 \<and> (q < 24 \<or> c = 3))"

lemma era_day_bounds: "era_ok c q r j \<Longrightarrow> 0 \<le> era_day c q r j \<and> era_day c q r j \<le> 146096"
  by (auto simp: era_ok_def era_day_def)

lemma era_div_36524:
  assumes "era_ok c q r j"
  shows "era_day c q r j div 36524 - era_day c q r j div 146096 = c"
proof (cases "era_day c q r j = 146096")
  case True
  with assms show ?thesis by (auto simp: era_ok_def era_day_def)
next
  case False
  with assms have b: "0 \<le> 1461 * q + 365 * r + j" "1461 * q + 365 * r + j < 36524"
    and e: "era_day c q r j < 146096" "0 \<le> era_day c q r j"
    by (auto simp: era_ok_def era_day_def)
  have "era_day c q r j = 36524 * c + (1461 * q + 365 * r + j)"
    by (simp add: era_day_def)
  then have "era_day c q r j div 36524 = c" using b by simp
  with e show ?thesis by simp
qed

lemma era_year:
  assumes "era_ok c q r j"
  defines "doe \<equiv> era_day c q r j"
  shows "(doe - doe div 1460 + doe div 36524 - doe div 146096) div 365 = 100 * c + 4 * q + r"
proof -
  let ?e = "(24 * c + 365 * r + q + j) div 1460"
  have "doe = 1460 * (25 * c + q) + (24 * c + 365 * r + q + j)"
    by (simp add: doe_def era_day_def)
  then have d: "doe div 1460 = 25 * c + q + ?e" by (simp only: div_mult_add)
  have "doe - doe div 1460 + doe div 36524 - doe div 146096 = 365 * (100 * c + 4 * q + r) + (j - ?e)"
  proof -
    have "doe = 36524 * c + 1461 * q + 365 * r + j" by (simp add: doe_def era_day_def)
    moreover have "doe div 36524 - doe div 146096 = c"
      unfolding doe_def by (rule era_div_36524 [OF assms(1)])
    ultimately show ?thesis unfolding d by (simp only: diff_add_eq [symmetric] add_diff_eq) simp
  qed
  moreover have "0 \<le> j - ?e \<and> j - ?e < 365"
    using assms(1) by (auto simp: era_ok_def)
  ultimately show ?thesis by (intro int_div_pos_eq [where r = "j - ?e"]) simp_all
qed

lemma era_start:
  assumes "era_ok c q r j"
  defines "yoe \<equiv> 100 * c + 4 * q + r"
  shows "365 * yoe + yoe div 4 - yoe div 100 = era_day c q r 0" and "0 \<le> yoe" and "yoe < 400"
proof -
  have "yoe div 4 = 25 * c + q" "yoe div 100 = c"
    using assms(1) by (auto simp: era_ok_def yoe_def)
  then show "365 * yoe + yoe div 4 - yoe div 100 = era_day c q r 0"
    by (simp add: yoe_def era_day_def)
  show "0 \<le> yoe" "yoe < 400" using assms(1) by (auto simp: era_ok_def yoe_def)
qed

text \<open>Every day of the era has such coordinates.\<close>

lemma era_coordinates:
  assumes "0 \<le> doe" and "doe \<le> 146096"
  obtains c q r j where "era_ok c q r j" and "doe = era_day c q r j"
proof -
  define c where "c = min 3 (doe div 36524)"
  define t where "t = doe - 36524 * c"
  define q where "q = t div 1461"
  define u where "u = t - 1461 * q"
  define r where "r = min 3 (u div 365)"
  define j where "j = u - 365 * r"
  have c: "0 \<le> c" "c \<le> 3" "0 \<le> t" "t \<le> 36524" "c < 3 \<longrightarrow> t < 36524"
    using assms by (auto simp: c_def t_def min_def)
  have q: "0 \<le> q" "q \<le> 24" "0 \<le> u" "u < 1461" "q = 24 \<and> c < 3 \<longrightarrow> u < 1460"
    using c by (auto simp: q_def u_def)
  have r: "0 \<le> r" "r \<le> 3" "0 \<le> j" "j \<le> 365" "j = 365 \<longrightarrow> r = 3 \<and> u = 1460"
    using q by (auto simp: r_def j_def min_def)
  have "era_ok c q r j" using c q r by (auto simp: era_ok_def)
  moreover have "doe = era_day c q r j" by (simp add: era_day_def j_def u_def t_def)
  ultimately show ?thesis using that by blast
qed

section \<open>Months counted from March\<close>

definition march_month :: "int \<Rightarrow> int" where
  "march_month m = (if m > 2 then m - 3 else m + 9)"

definition march_day :: "int \<Rightarrow> int \<Rightarrow> int" where
  "march_day mp d = (153 * mp + 2) div 5 + d - 1"

lemma march_months:
  fixes m :: int
  assumes "0 \<le> m" "m \<le> 11"
  shows "m = 0 \<or> m = 1 \<or> m = 2 \<or> m = 3 \<or> m = 4 \<or> m = 5 \<or> m = 6 \<or> m = 7 \<or> m = 8 \<or> m = 9
    \<or> m = 10 \<or> m = 11"
  using assms by arith

text \<open>Length of the month with March number \<open>mp\<close>; February is last and may have 29 days.\<close>

definition march_len :: "int \<Rightarrow> int" where
  "march_len mp = (if mp = 11 then 29 else if mp \<in> {1, 3, 6, 8} then 30 else 31)"

lemma march_month_unique:
  assumes "0 \<le> mp" "mp \<le> 11" "1 \<le> d" "d \<le> march_len mp"
  shows "(5 * march_day mp d + 2) div 153 = mp"
  using march_months [OF assms(1,2)] assms(3,4)
  by (elim disjE) (auto simp: march_day_def march_len_def)

text \<open>Every day of a March year falls into one month.\<close>

lemma march_coordinates:
  assumes "0 \<le> j" "j \<le> 365"
  defines "mp \<equiv> (5 * j + 2) div 153"
  shows "0 \<le> mp" "mp \<le> 11" "1 \<le> j - (153 * mp + 2) div 5 + 1"
    "j - (153 * mp + 2) div 5 + 1 \<le> march_len mp"
proof -
  show mp: "0 \<le> mp" "mp \<le> 11" using assms by (auto simp: mp_def)
  have j: "153 * mp \<le> 5 * j + 2" "5 * j + 2 < 153 * mp + 153"
    by (simp_all add: mp_def)
  show "1 \<le> j - (153 * mp + 2) div 5 + 1" using j by arith
  show "j - (153 * mp + 2) div 5 + 1 \<le> march_len mp"
    using march_months [OF mp] j assms(2) by (elim disjE) (simp_all add: march_len_def)
qed

lemma march_day_last:
  assumes "1 \<le> m" "m \<le> 12" "1 \<le> d" "d \<le> days_in_month y m"
  shows "d \<le> march_len (march_month m)" and "0 \<le> march_day (march_month m) d"
    and "march_day (march_month m) d \<le> 365"
    and "march_day (march_month m) d = 365 \<Longrightarrow> leap_year y \<and> m \<le> 2"
proof -
  have mm: "m = 1 \<or> m = 2 \<or> m = 3 \<or> m = 4 \<or> m = 5 \<or> m = 6 \<or> m = 7 \<or> m = 8 \<or> m = 9 \<or> m = 10
    \<or> m = 11 \<or> m = 12" using assms(1,2) by arith
  have d: "1 \<le> d" "d \<le> (if m = 2 then 29 else if m = 4 \<or> m = 6 \<or> m = 9 \<or> m = 11 then 30 else 31)"
    using assms(3,4) by (auto simp: days_in_month_def split: if_splits)
  show "d \<le> march_len (march_month m)"
    using mm d(2) by (elim disjE) (simp_all add: march_month_def march_len_def)
  show "0 \<le> march_day (march_month m) d" "march_day (march_month m) d \<le> 365"
    using mm d by (elim disjE; simp add: march_month_def march_day_def)+
  show "march_day (march_month m) d = 365 \<Longrightarrow> leap_year y \<and> m \<le> 2"
    using mm assms(3,4)
    by (auto simp: march_month_def march_day_def days_in_month_def split: if_splits)
qed

section \<open>The code in closed form\<close>

definition march_year :: "int \<Rightarrow> int \<Rightarrow> int" where
  "march_year y m = y - (if m \<le> 2 then 1 else 0)"

definition year_start :: "int \<Rightarrow> int" where
  "year_start Y = (Y div 400) * 146097 + (365 * (Y mod 400) + Y mod 400 div 4 - Y mod 400 div 100)"

lemma march_day_small:
  assumes "1 \<le> m" "m \<le> 12" "1 \<le> d" "d \<le> 31"
  shows "0 \<le> march_month m" "march_month m \<le> 11" "0 \<le> march_day (march_month m) d"
    "march_day (march_month m) d \<le> 367"
  using assms by (auto simp: march_month_def march_day_def)

lemma days_from_civil_closed:
  assumes "1 \<le> m" "m \<le> 12" "1 \<le> d" "d \<le> 31"
  shows "days_from_civil y m d
       = year_start (march_year y m) + march_day (march_month m) d - 719468"
proof -
  let ?Y = "march_year y m"
  note j = march_day_small [OF assms]
  have era: "(if ?Y \<ge> 0 then ?Y else ?Y - 399) sdiv 400 = ?Y div 400"
    by (rule floor_div_sdiv) simp_all
  have yoe: "?Y - (?Y div 400) * 400 = ?Y mod 400" by (simp add: minus_div_mult_eq_mod)
  have b: "0 \<le> ?Y mod 400" "?Y mod 400 < 400" by simp_all
  have nn: "0 \<le> 153 * march_month m + 2" using j(1) by simp
  have m: "m + (if m > 2 then -3 else 9) = march_month m" by (simp add: march_month_def)
  have doy: "(153 * march_month m + 2) sdiv 5 + d - 1 = march_day (march_month m) d"
    using nn by (simp add: march_day_def signed_divide_int_def sgn_if)
  let ?s = "365 * (?Y mod 400) + ?Y mod 400 div 4 - ?Y mod 400 div 100"
  have "0 \<le> ?s" "?s < 200000" using b by arith+
  with j have "0 \<le> ?s + march_day (march_month m) d" "?s + march_day (march_month m) d < 4294967296"
    "march_day (march_month m) d < 4294967296" by auto
  moreover have "?Y mod 400 < 4294967296" by (rule order.strict_trans [OF b(2)]) simp
  ultimately have u: "uns (?Y mod 400) = ?Y mod 400"
    "uns (march_day (march_month m) d) = march_day (march_month m) d"
    "uns (?s + march_day (march_month m) d) = ?s + march_day (march_month m) d"
    using b(1) j(3) by (blast intro: uns_id)+
  show ?thesis
    unfolding days_from_civil_def Let_def march_year_def [symmetric] m era yoe doy u
      mult.commute [of "?Y mod 400" 365]
    by (simp only: year_start_def)
qed

lemma civil_from_days_closed:
  assumes ok: "era_ok c q r j" and z: "z + 719468 = era * 146097 + era_day c q r j"
  defines "mp \<equiv> (5 * j + 2) div 153"
  defines "m \<equiv> (if mp < 10 then mp + 3 else mp - 9)"
  shows "civil_from_days z
       = (era * 400 + (100 * c + 4 * q + r) + (if m \<le> 2 then 1 else 0), m,
          j - (153 * mp + 2) div 5 + 1)"
proof -
  let ?doe = "era_day c q r j" and ?yoe = "100 * c + 4 * q + r"
  have doe: "0 \<le> ?doe" "?doe \<le> 146096" using era_day_bounds [OF ok] by auto
  have era: "(if z + 719468 \<ge> 0 then z + 719468 else z + 719468 - 146096) sdiv 146097 = era"
  proof -
    have "(z + 719468) div 146097 = era"
      by (rule int_div_pos_eq [where r = ?doe]) (use z doe in simp_all)
    then show ?thesis using floor_div_sdiv [of 146097 146096 "z + 719468"] by simp
  qed
  have rem: "z + 719468 - era * 146097 = ?doe" using z by simp
  have N: "0 \<le> ?doe - ?doe div 1460 + ?doe div 36524 - ?doe div 146096"
    "?doe - ?doe div 1460 + ?doe div 36524 - ?doe div 146096 < 4294967296"
    using doe by arith+
  have j: "0 \<le> j" "j \<le> 365" using ok by (auto simp: era_ok_def)
  have yoe: "uns (365 * ?yoe + ?yoe div 4 - ?yoe div 100) = ?doe - j"
    using era_start [OF ok] era_day_bounds [OF ok] j by (simp add: era_day_def)
  have mp: "uns (5 * j + 2) div 153 = mp" using j by (simp add: mp_def)
  note mc = march_coordinates [OF j, folded mp_def]
  have m: "uns (mp + (if mp < 10 then 3 else - 9)) = m" using mc by (simp add: m_def)
  have d: "uns (j - (153 * mp + 2) div 5 + 1) = j - (153 * mp + 2) div 5 + 1"
    using mc by (simp add: march_len_def split: if_splits)
  have u: "uns ?doe = ?doe" "uns j = j" using doe j by (auto intro!: uns_id)
  have uN: "uns (?doe - ?doe div 1460 + ?doe div 36524 - ?doe div 146096)
      = ?doe - ?doe div 1460 + ?doe div 36524 - ?doe div 146096"
    using N by (rule uns_id)
  have dj: "?doe - (?doe - j) = j" by simp
  show ?thesis
    unfolding civil_from_days_def Let_def era rem u uN era_year [OF ok] yoe dj mp m d
    by (simp only: add.commute add.left_commute)
qed

section \<open>Both directions agree\<close>

lemma year_start_coordinates:
  assumes "era_ok c q r 0" and Y: "Y = e * 400 + (100 * c + 4 * q + r)"
  shows "year_start Y = e * 146097 + era_day c q r 0" and "Y div 400 = e"
proof -
  have b: "0 \<le> 100 * c + 4 * q + r" "100 * c + 4 * q + r < 400"
    using era_start(2,3) [OF assms(1)] .
  show e: "Y div 400 = e" by (rule int_div_pos_eq [where r = "100 * c + 4 * q + r"]) (use b Y in simp_all)
  have "Y mod 400 = 100 * c + 4 * q + r"
    using minus_div_mult_eq_mod [of Y 400] unfolding e by (simp add: Y)
  with era_start(1) [OF assms(1)] show "year_start Y = e * 146097 + era_day c q r 0"
    unfolding year_start_def e by simp
qed

lemma succ_mod_eq_0:
  fixes k n :: int
  assumes "0 \<le> k" "k < n"
  shows "(k + 1) mod n = 0 \<longleftrightarrow> k = n - 1"
proof (cases "k = n - 1")
  case True
  then show ?thesis by simp
next
  case False
  with assms have "(k + 1) mod n = k + 1" by simp
  with False assms show ?thesis by simp
qed

lemma leap_coordinates:
  assumes ok: "era_ok c q r 0"
  shows "leap_year (e * 400 + (100 * c + 4 * q + r) + 1) \<longleftrightarrow> r = 3 \<and> (q < 24 \<or> c = 3)"
proof -
  let ?k = "4 * q + r" and ?t = "100 * c + 4 * q + r"
  let ?y = "e * 400 + ?t + 1"
  have b: "0 \<le> r" "r \<le> 3" "0 \<le> ?k" "?k < 100" "0 \<le> ?t" "?t < 400"
    using ok by (auto simp: era_ok_def)
  have "?y mod 4 = 0 \<longleftrightarrow> r = 3"
  proof -
    have "?y = 4 * (100 * e + 25 * c + q) + (r + 1)" by simp
    then have "?y mod 4 = (r + 1) mod 4" by (metis mod_mult_self4 add.commute mult.commute)
    then show ?thesis using succ_mod_eq_0 [of r 4] b(1,2) by simp
  qed
  moreover have "?y mod 100 = 0 \<longleftrightarrow> ?k = 99"
  proof -
    have "?y = 100 * (4 * e + c) + (?k + 1)" by simp
    then have "?y mod 100 = (?k + 1) mod 100" by (metis mod_mult_self4 add.commute mult.commute)
    then show ?thesis using succ_mod_eq_0 [OF b(3,4)] by simp
  qed
  moreover have "?y mod 400 = 0 \<longleftrightarrow> ?t = 399"
  proof -
    have "?y mod 400 = (?t + 1) mod 400" by (simp add: add.assoc)
    then show ?thesis using succ_mod_eq_0 [OF b(5,6)] by simp
  qed
  ultimately show ?thesis using ok by (auto simp: leap_year_def era_ok_def)
qed

lemma year_coordinates:
  fixes Y :: int
  obtains e c q r where "era_ok c q r 0" and "Y = e * 400 + (100 * c + 4 * q + r)"
proof -
  define yoe where "yoe = Y mod 400"
  define k where "k = yoe mod 100"
  have yoe: "Y = Y div 400 * 400 + yoe" "0 \<le> yoe" "yoe < 400" by (simp_all add: yoe_def)
  have k: "yoe = 100 * (yoe div 100) + k" "0 \<le> k" "k < 100" by (simp_all add: k_def)
  have r: "k = 4 * (k div 4) + k mod 4" "0 \<le> k mod 4" "k mod 4 < 4" by simp_all
  have "era_ok (yoe div 100) (k div 4) (k mod 4) 0"
    using yoe k r by (auto simp: era_ok_def)
  moreover have "Y = Y div 400 * 400 + (100 * (yoe div 100) + 4 * (k div 4) + k mod 4)"
    using yoe(1) k(1) r(1) by linarith
  ultimately show ?thesis by (rule that)
qed

lemma era_ok_extend:
  assumes "era_ok c q r 0" "0 \<le> j" "j \<le> 365"
    and "j = 365 \<Longrightarrow> leap_year (e * 400 + (100 * c + 4 * q + r) + 1)"
  shows "era_ok c q r j"
  using assms leap_coordinates [OF assms(1), of e] by (auto simp: era_ok_def)

lemma civil_from_days_inverse:
  assumes "valid_date y m d"
  shows "civil_from_days (days_from_civil y m d) = (y, m, d)"
proof -
  let ?Y = "march_year y m"
  obtain e c q r where ok0: "era_ok c q r 0" and Y: "?Y = e * 400 + (100 * c + 4 * q + r)"
    by (rule year_coordinates)
  define j where "j = march_day (march_month m) d"
  have v: "1 \<le> m" "m \<le> 12" "1 \<le> d" "d \<le> days_in_month y m" "d \<le> 31"
    using assms by (auto simp: valid_date_def days_in_month_def split: if_splits)
  note jd = march_day_last [OF v(1-4), folded j_def]
  have "j = 365 \<Longrightarrow> leap_year (?Y + 1)" using jd(4) by (simp add: march_year_def)
  then have ok: "era_ok c q r j" using era_ok_extend [OF ok0 jd(2,3), of e] Y by simp
  have z: "days_from_civil y m d + 719468 = e * 146097 + era_day c q r j"
    using days_from_civil_closed [OF v(1-3,5)] year_start_coordinates(1) [OF ok0 Y]
    by (simp add: j_def era_day_def)
  have mp: "0 \<le> march_month m" "march_month m \<le> 11"
    using v by (auto simp: march_month_def)
  have j: "(5 * j + 2) div 153 = march_month m"
    unfolding j_def using mp v(3) jd(1) by (rule march_month_unique)
  have m: "(if march_month m < 10 then march_month m + 3 else march_month m - 9) = m"
    using v by (auto simp: march_month_def)
  have d: "j - (153 * march_month m + 2) div 5 + 1 = d" by (simp add: j_def march_day_def)
  show ?thesis
    unfolding civil_from_days_closed [OF ok z] j m d Y [symmetric] by (simp add: march_year_def)
qed

lemma march_day_in_month:
  assumes j: "0 \<le> j" "j \<le> 365" and leap: "j = 365 \<longrightarrow> leap_year y"
  defines "mp \<equiv> (5 * j + 2) div 153"
  defines "m \<equiv> (if mp < 10 then mp + 3 else mp - 9)"
  shows "j - (153 * mp + 2) div 5 + 1 \<le> days_in_month y m"
proof (cases "mp = 11")
  case True
  then show ?thesis using j leap by (auto simp: m_def days_in_month_def)
next
  case False
  note mc = march_coordinates [OF j, folded mp_def]
  have "march_len mp \<le> days_in_month y m"
    using march_months [OF mc(1,2)] False
    by (elim disjE) (simp_all add: m_def march_len_def days_in_month_def)
  with mc(4) show ?thesis by simp
qed

lemma days_from_civil_inverse:
  assumes "civil_from_days z = (y, m, d)"
  shows "valid_date y m d \<and> days_from_civil y m d = z"
proof -
  define e where "e = (z + 719468) div 146097"
  obtain c q r j where ok: "era_ok c q r j" and doe: "(z + 719468) mod 146097 = era_day c q r j"
    by (rule era_coordinates [of "(z + 719468) mod 146097"]) auto
  have ok0: "era_ok c q r 0" using ok by (auto simp: era_ok_def)
  have z: "z + 719468 = e * 146097 + era_day c q r j"
    unfolding e_def doe [symmetric] by simp
  define mp where "mp = (5 * j + 2) div 153"
  have j: "0 \<le> j" "j \<le> 365" using ok by (auto simp: era_ok_def)
  note mc = march_coordinates [OF j, folded mp_def]
  note res = civil_from_days_closed [OF ok z, folded mp_def]
  let ?Y = "e * 400 + (100 * c + 4 * q + r)"
  have m: "m = (if mp < 10 then mp + 3 else mp - 9)" and y: "march_year y m = ?Y"
    and d: "d = j - (153 * mp + 2) div 5 + 1"
    using assms res by (auto simp: march_year_def)
  have mm: "march_month m = mp" "1 \<le> m" "m \<le> 12" using mc m by (auto simp: march_month_def)
  have dj: "march_day (march_month m) d = j" by (simp add: march_day_def mm d)
  have "j = 365 \<longrightarrow> leap_year y"
  proof
    assume that: "j = 365"
    then have "mp = 11" by (simp add: mp_def)
    then have "y = ?Y + 1" using y m by (simp add: march_year_def)
    with that ok leap_coordinates [OF ok0, of e] show "leap_year y" by (auto simp: era_ok_def)
  qed
  from march_day_in_month [OF j this, folded mp_def m] have v: "valid_date y m d"
    using mm mc(3) by (simp add: valid_date_def d)
  then have d31: "1 \<le> d" "d \<le> 31" by (auto simp: valid_date_def days_in_month_def split: if_splits)
  have "days_from_civil y m d = z"
    using days_from_civil_closed [OF mm(2,3) d31, of y] year_start_coordinates(1) [OF ok0 refl, of e] z
    unfolding dj y by (simp add: era_day_def)
  with v show ?thesis ..
qed

section \<open>Agreement with the textbook calendar\<close>

lemma year_start_alt: "year_start Y = 365 * Y + Y div 4 - Y div 100 + Y div 400"
proof -
  define e k where "e = Y div 400" and "k = Y mod 400"
  have Y: "Y = e * 400 + k" by (simp add: e_def k_def)
  have "Y div 4 = 100 * e + k div 4" "Y div 100 = 4 * e + k div 100"
    unfolding Y by auto
  then show ?thesis
    unfolding year_start_def e_def [symmetric] k_def [symmetric] using Y by simp
qed

lemma div_step:
  fixes n y :: int
  assumes "0 < n"
  shows "y div n = (y - 1) div n + (if y mod n = 0 then 1 else 0)"
proof (cases "y mod n = 0")
  case True
  then have "y - 1 = n * (y div n - 1) + (n - 1)"
    using mult_div_mod_eq [of n y] by (simp add: algebra_simps)
  then have "(y - 1) div n = y div n - 1"
    by (rule int_div_pos_eq) (use assms in simp_all)
  with True show ?thesis by simp
next
  case False
  then have "0 < y mod n" using assms by (metis order_le_less pos_mod_sign)
  moreover have "y - 1 = n * (y div n) + (y mod n - 1)" by simp
  then have "(y - 1) div n = y div n"
    by (rule int_div_pos_eq) (use \<open>0 < y mod n\<close> pos_mod_bound [OF assms, of y] in linarith)+
  with False show ?thesis by simp
qed

lemma mod_zero_dvd: "(n :: int) dvd k \<Longrightarrow> y mod k = 0 \<Longrightarrow> y mod n = 0"
  by (metis dvd_trans mod_eq_0_iff_dvd)

lemma leap_mod_zero:
  fixes y :: int
  shows "y mod 400 = 0 \<Longrightarrow> y mod 100 = 0" and "y mod 100 = 0 \<Longrightarrow> y mod 4 = 0"
  by (rule mod_zero_dvd [rotated], assumption, simp)+

lemma count_nested:
  "(c \<Longrightarrow> b) \<Longrightarrow> (b \<Longrightarrow> a) \<Longrightarrow>
   (if a then 1 else 0) - (if b then 1 else 0) + (if c then 1 else 0)
   = (if a \<and> (\<not> b \<or> c) then 1 else (0 :: int))"
  by (cases a; cases b; cases c) simp_all

lemma add_steps:
  fixes y a b c :: int
  assumes "a = a' + i" "b = b' + j" "c = c' + k" "i - j + k = l"
  shows "365 * y + a - b + c = 365 * (y - 1) + a' - b' + c' + 365 + l"
  using assms by simp

lemma year_start_step: "year_start y = year_start (y - 1) + 365 + (if leap_year y then 1 else 0)"
proof -
  have "(if y mod 4 = 0 then 1 else 0) - (if y mod 100 = 0 then 1 else 0)
      + (if y mod 400 = 0 then 1 else 0) = (if leap_year y then 1 else (0 :: int))"
    unfolding leap_year_def by (rule count_nested) (fact leap_mod_zero)+
  then show ?thesis
    unfolding year_start_alt
    by (rule add_steps [rotated 3]) (rule div_step, simp)+
qed

lemma epoch_days_alt:
  "epoch_days y m d = year_start (y - 1) - 719162 + month_offset m
     + (if m > 2 \<and> leap_year y then 1 else 0) + d - 1"
  by (simp add: epoch_days_def days_before_year_def year_start_alt)

lemma month_offset_march:
  assumes "1 \<le> m" "m \<le> 12"
  shows "march_day (march_month m) d
       = month_offset m + d - 1 + (if m \<le> 2 then 306 else - 59)"
proof -
  have "m = 1 \<or> m = 2 \<or> m = 3 \<or> m = 4 \<or> m = 5 \<or> m = 6 \<or> m = 7 \<or> m = 8 \<or> m = 9 \<or> m = 10
    \<or> m = 11 \<or> m = 12" using assms by arith
  then show ?thesis
    by (elim disjE) (simp_all add: march_month_def march_day_def month_offset_def)
qed

lemma days_from_civil_epoch:
  assumes "1 \<le> m" "m \<le> 12" "1 \<le> d" "d \<le> 31"
  shows "days_from_civil y m d = epoch_days y m d"
proof (cases "m \<le> 2")
  case True
  then show ?thesis
    unfolding days_from_civil_closed [OF assms] epoch_days_alt month_offset_march [OF assms(1,2)]
    by (simp add: march_year_def)
next
  case False
  then have "march_year y m = y" by (simp add: march_year_def)
  with False show ?thesis
    unfolding days_from_civil_closed [OF assms] epoch_days_alt month_offset_march [OF assms(1,2)]
    using year_start_step [of y] by simp
qed

section \<open>Nanoseconds since the epoch\<close>

lemma trunc_floor:
  fixes x n :: int
  assumes "0 < n"
  shows "(if x smod n < 0 then x sdiv n - 1 else x sdiv n) = x div n"
    and "(if x smod n < 0 then x smod n + n else x smod n) = x mod n"
proof -
  have sm: "x smod n = x mod n - n * of_bool (x < 0 \<and> \<not> n dvd x)"
    and sd: "x sdiv n = x div n + of_bool (x < 0 \<and> \<not> n dvd x)"
    using assms signed_modulo_int_eq_modulo_int [of x n] signed_divide_int_eq_divide_int [of x n]
    by (auto simp: sgn_if)
  have m: "0 \<le> x mod n" "x mod n < n" using assms by simp_all
  then have "\<not> x mod n < 0" "x mod n - n < 0" by linarith+
  then have "x smod n < 0 \<longleftrightarrow> x < 0 \<and> \<not> n dvd x" by (auto simp: sm)
  then show "(if x smod n < 0 then x sdiv n - 1 else x sdiv n) = x div n"
    "(if x smod n < 0 then x smod n + n else x smod n) = x mod n"
    by (simp_all add: sm sd)
qed

lemma vscp_from_unix_ns_closed:
  fixes N :: int
  defines "sec \<equiv> N div NS_PER_SEC"
  defines "rem \<equiv> sec mod SECS_PER_DAY"
  shows "vscp_from_unix_ns N =
    (let (y, m, d) = civil_from_days (sec div SECS_PER_DAY) in
     \<lparr>ct_year = y, ct_month = m, ct_day = d, ct_hour = rem div 3600,
      ct_minute = rem mod 3600 div 60, ct_second = rem mod 60,
      ct_timestamp = word_of_int (N mod NS_PER_SEC div 1000)\<rparr>)"
proof -
  have ns: "0 < NS_PER_SEC" "0 < SECS_PER_DAY" by (simp_all add: NS_PER_SEC_def SECS_PER_DAY_def)
  have p1: "(if N smod NS_PER_SEC < 0 then (N sdiv NS_PER_SEC - 1, N smod NS_PER_SEC + NS_PER_SEC)
      else (N sdiv NS_PER_SEC, N smod NS_PER_SEC)) = (sec, N mod NS_PER_SEC)"
    using trunc_floor [OF ns(1), of N] by (auto simp: sec_def split: if_splits)
  have p2: "(if sec smod SECS_PER_DAY < 0
      then (sec smod SECS_PER_DAY + SECS_PER_DAY, sec sdiv SECS_PER_DAY - 1)
      else (sec smod SECS_PER_DAY, sec sdiv SECS_PER_DAY)) = (rem, sec div SECS_PER_DAY)"
    using trunc_floor [OF ns(2), of sec] by (auto simp: rem_def split: if_splits)
  have rem: "0 \<le> rem" using ns by (simp add: rem_def)
  have nsec: "0 \<le> N mod NS_PER_SEC" using ns by simp
  have pos: "x sdiv k = x div k" "x smod k = x mod k" if "0 \<le> x" "0 < k" for x k :: int
    using that by (auto simp: signed_divide_int_def signed_modulo_int_def sgn_if)
  have "rem mod 3600 mod 60 = rem mod 60" by (rule mod_mod_cancel) simp
  then show ?thesis
    unfolding vscp_from_unix_ns_def Let_def p1 prod.case p2
    using rem nsec by (simp add: pos split: prod.splits)
qed

definition valid_civil_time :: "civil_time \<Rightarrow> bool" where
  "valid_civil_time t \<longleftrightarrow>
     valid_date (ct_year t) (ct_month t) (ct_day t)
     \<and> 0 \<le> ct_hour t \<and> ct_hour t < 24 \<and> 0 \<le> ct_minute t \<and> ct_minute t < 60
     \<and> 0 \<le> ct_second t \<and> ct_second t < 60 \<and> uint (ct_timestamp t) < 1000000"

abbreviation ns_of_civil :: "civil_time \<Rightarrow> int" where
  "ns_of_civil t \<equiv> vscp_to_unix_ns (ct_year t) (ct_month t) (ct_day t)
     (ct_hour t) (ct_minute t) (ct_second t) (ct_timestamp t)"

lemma day_split:
  fixes rem :: int
  shows "rem div 3600 * 3600 + rem mod 3600 div 60 * 60 + rem mod 60 = rem"
proof -
  have "rem mod 3600 mod 60 = rem mod 60" by (rule mod_mod_cancel) simp
  then have "rem mod 3600 div 60 * 60 + rem mod 60 = rem mod 3600"
    using div_mult_mod_eq [of "rem mod 3600" 60] by simp
  then show ?thesis by (simp only: add.assoc div_mult_mod_eq)
qed

lemma time_split_range:
  fixes rem :: int
  assumes "0 \<le> rem" "rem < 86400"
  shows "0 \<le> rem div 3600" "rem div 3600 < 24" "0 \<le> rem mod 3600 div 60"
    "rem mod 3600 div 60 < 60" "0 \<le> rem mod 60" "rem mod 60 < 60"
  using assms by auto

lemma uint_word_of_int_u32: "0 \<le> x \<Longrightarrow> x < 4294967296 \<Longrightarrow> uint (word_of_int x :: u32) = x"
  by (simp add: unsigned_of_int take_bit_int_eq_self)

lemma to_from_unix_ns:
  fixes N :: int
  shows "valid_civil_time (vscp_from_unix_ns N)"
    and "ns_of_civil (vscp_from_unix_ns N) = N div 1000 * 1000"
proof -
  define sec nsec rem where "sec = N div NS_PER_SEC" and "nsec = N mod NS_PER_SEC"
    and "rem = sec mod SECS_PER_DAY"
  obtain y m d where c: "civil_from_days (sec div SECS_PER_DAY) = (y, m, d)"
    by (metis prod_cases3)
  from days_from_civil_inverse [OF c] have v: "valid_date y m d"
    and days: "days_from_civil y m d = sec div SECS_PER_DAY" by auto
  have n: "0 \<le> nsec" "nsec < 1000000000" by (simp_all add: nsec_def NS_PER_SEC_def)
  have r: "0 \<le> rem" "rem < 86400" by (simp_all add: rem_def SECS_PER_DAY_def)
  have us: "0 \<le> nsec div 1000" "nsec div 1000 < 1000000" using n by auto
  then have ts: "uint (word_of_int (nsec div 1000) :: u32) = nsec div 1000"
    by (simp add: uint_word_of_int_u32)
  have t: "vscp_from_unix_ns N =
     \<lparr>ct_year = y, ct_month = m, ct_day = d, ct_hour = rem div 3600,
      ct_minute = rem mod 3600 div 60, ct_second = rem mod 60,
      ct_timestamp = word_of_int (nsec div 1000)\<rparr>"
    using vscp_from_unix_ns_closed [of N]
    by (simp add: c flip: sec_def nsec_def rem_def)
  show "valid_civil_time (vscp_from_unix_ns N)"
    unfolding t valid_civil_time_def civil_time.simps ts
    using v us time_split_range [OF r] by blast
  have "sec div SECS_PER_DAY * SECS_PER_DAY + rem div 3600 * 3600 + rem mod 3600 div 60 * 60
      + rem mod 60 = sec"
    using day_split [of rem] by (simp only: add.assoc) (simp only: rem_def div_mult_mod_eq)
  then have "ns_of_civil (vscp_from_unix_ns N) = sec * NS_PER_SEC + nsec div 1000 * 1000"
    unfolding t vscp_to_unix_ns_def Let_def by (simp add: days ts)
  moreover have "N div 1000 = sec * 1000000 + nsec div 1000"
  proof -
    have "N = 1000 * (sec * 1000000) + nsec" by (simp add: sec_def nsec_def NS_PER_SEC_def)
    then show ?thesis by (simp only: div_mult_add)
  qed
  ultimately show "ns_of_civil (vscp_from_unix_ns N) = N div 1000 * 1000"
    by (simp add: NS_PER_SEC_def)
qed

lemma from_to_unix_ns:
  assumes "valid_civil_time t"
  shows "vscp_from_unix_ns (ns_of_civil t) = t"
proof -
  obtain y m d h mi s ts where t: "t = \<lparr>ct_year = y, ct_month = m, ct_day = d, ct_hour = h,
      ct_minute = mi, ct_second = s, ct_timestamp = ts\<rparr>"
    by (cases t) blast
  define rem where "rem = h * 3600 + mi * 60 + s"
  define us where "us = uint ts * 1000"
  have v: "valid_date y m d" and h: "0 \<le> h" "h < 24" and mi: "0 \<le> mi" "mi < 60"
    and s: "0 \<le> s" "s < 60" and ts: "uint ts < 1000000"
    using assms by (auto simp: t valid_civil_time_def)
  have us: "0 \<le> us" "us < 1000000000" using ts by (simp_all add: us_def)
  have r: "0 \<le> rem" "rem < 86400" using h mi s by (auto simp: rem_def)
  let ?days = "days_from_civil y m d"
  have N: "ns_of_civil t = NS_PER_SEC * (?days * 86400 + rem) + us"
    by (simp add: t vscp_to_unix_ns_def SECS_PER_DAY_def rem_def us_def)
  have sec: "ns_of_civil t div NS_PER_SEC = ?days * 86400 + rem"
    by (rule int_div_pos_eq [OF N]) (use us in \<open>simp_all add: NS_PER_SEC_def\<close>)
  have nsec: "ns_of_civil t mod NS_PER_SEC = us"
    by (rule int_mod_pos_eq [OF N]) (use us in \<open>simp_all add: NS_PER_SEC_def\<close>)
  have days: "(?days * 86400 + rem) div SECS_PER_DAY = ?days"
    and rm: "(?days * 86400 + rem) mod SECS_PER_DAY = rem"
    using r by (simp_all add: SECS_PER_DAY_def)
  have h': "rem div 3600 = h"
    by (rule int_div_pos_eq [where r = "mi * 60 + s"]) (use mi s in \<open>simp_all add: rem_def\<close>)
  have "rem mod 3600 = mi * 60 + s"
    by (rule int_mod_pos_eq [where q = h]) (use mi s in \<open>simp_all add: rem_def\<close>)
  then have mi': "rem mod 3600 div 60 = mi" using s by simp
  have s': "rem mod 60 = s"
    by (rule int_mod_pos_eq [where q = "60 * h + mi"]) (use s in \<open>simp_all add: rem_def\<close>)
  have "us div 1000 = uint ts" by (simp add: us_def)
  then have "word_of_int (us div 1000) = ts" by simp
  then show ?thesis
    unfolding vscp_from_unix_ns_closed sec nsec days rm h' mi' s'
    by (simp add: civil_from_days_inverse [OF v] t)
qed

text \<open>
  The C type of the result is \<^verbatim>\<open>int64_t\<close>: dates of the years 1678 to 2261 fit.
\<close>

lemma days_from_civil_range:
  assumes "valid_date y m d" "1678 \<le> y" "y \<le> 2261"
  shows "- 106660 \<le> days_from_civil y m d" and "days_from_civil y m d \<le> 106720"
proof -
  have v: "1 \<le> m" "m \<le> 12" "1 \<le> d" "d \<le> 31"
    using assms(1) by (auto simp: valid_date_def days_in_month_def split: if_splits)
  let ?Y = "march_year y m" and ?j = "march_day (march_month m) d"
  have Y: "1677 \<le> ?Y" "?Y \<le> 2261" "?Y = 1677 \<longrightarrow> 306 \<le> ?j"
    using assms(2,3) v(1,3) by (auto simp: march_year_def march_month_def march_day_def)
  define p q r where "p = ?Y div 4" and "q = ?Y div 100" and "r = ?Y div 400"
  have b: "4 * p \<le> ?Y" "?Y \<le> 4 * p + 3" "100 * q \<le> ?Y" "?Y \<le> 100 * q + 99"
    "400 * r \<le> ?Y" "?Y \<le> 400 * r + 399"
    unfolding p_def q_def r_def by auto
  have "days_from_civil y m d = 365 * ?Y + p - q + r + ?j - 719468"
    using days_from_civil_closed [OF v, of y] by (simp add: year_start_alt p_def q_def r_def)
  moreover have "0 \<le> ?j" "?j \<le> 367" by (rule march_day_small [OF v])+
  ultimately show "- 106660 \<le> days_from_civil y m d" "days_from_civil y m d \<le> 106720"
    using b Y by linarith+
qed

lemma time_of_day_range:
  fixes h mi s :: int
  assumes "0 \<le> h" "h < 24" "0 \<le> mi" "mi < 60" "0 \<le> s" "s < 60"
  shows "0 \<le> h * 3600 + mi * 60 + s" and "h * 3600 + mi * 60 + s < 86400"
  using assms by auto

lemma ns_bounds:
  fixes x u :: int
  assumes "- 9215424000 \<le> x" "x \<le> 9220694399" "0 \<le> u" "u < 4294967296"
  shows "- (2 ^ 63) \<le> x * 1000000000 + u * 1000 \<and> x * 1000000000 + u * 1000 < 2 ^ 63"
  using assms by simp

section \<open>gmtime and timegm\<close>

text \<open>
  \<^verbatim>\<open>gmtime_r\<close> breaks a \<^verbatim>\<open>time_t\<close> down into the unique valid civil time;
  \<open>gmtime_timegm\<close> and \<open>timegm_gmtime\<close> below show that this is what the definition computes.
\<close>

definition gmtime :: "int \<Rightarrow> tm" where
  "gmtime t =
     (let (y, m, d) = civil_from_days (t div 86400); rem = t mod 86400
      in \<lparr>tm_year = y - 1900, tm_mon = m - 1, tm_mday = d,
          tm_hour = rem div 3600, tm_min = rem mod 3600 div 60, tm_sec = rem mod 60\<rparr>)"

lemma timegm_valid:
  assumes "valid_tm t"
  shows "timegm t = days_from_civil (tm_year t + 1900) (tm_mon t + 1) (tm_mday t) * 86400
    + tm_hour t * 3600 + tm_min t * 60 + tm_sec t"
proof -
  have v: "1 \<le> tm_mon t + 1" "tm_mon t + 1 \<le> 12" "1 \<le> tm_mday t" "tm_mday t \<le> 31"
    using assms by (auto simp: valid_tm_def valid_date_def days_in_month_def split: if_splits)
  have "tm_mon t div 12 = 0" "tm_mon t mod 12 = tm_mon t" using v by auto
  moreover have "epoch_days y m 1 + (d - 1) = epoch_days y m d" for y m d
    by (simp add: epoch_days_def)
  ultimately show ?thesis
    using days_from_civil_epoch [OF v, of "tm_year t + 1900"] by (simp add: timegm_def)
qed

lemma gmtime_timegm: "valid_tm (gmtime t) \<and> timegm (gmtime t) = t"
proof -
  obtain y m d where c: "civil_from_days (t div 86400) = (y, m, d)" by (metis prod_cases3)
  define rem where "rem = t mod 86400"
  have r: "0 \<le> rem" "rem < 86400" by (simp_all add: rem_def)
  have g: "gmtime t = \<lparr>tm_year = y - 1900, tm_mon = m - 1, tm_mday = d,
      tm_hour = rem div 3600, tm_min = rem mod 3600 div 60, tm_sec = rem mod 60\<rparr>"
    by (simp add: gmtime_def c rem_def Let_def)
  from days_from_civil_inverse [OF c] have v: "valid_date y m d"
    and days: "days_from_civil y m d = t div 86400" by auto
  have valid: "valid_tm (gmtime t)"
    unfolding g valid_tm_def tm.simps diff_add_cancel using v time_split_range [OF r] by blast
  have "timegm (gmtime t)
      = t div 86400 * 86400 + (rem div 3600 * 3600 + rem mod 3600 div 60 * 60 + rem mod 60)"
    using timegm_valid [OF valid] unfolding g tm.simps diff_add_cancel days by (simp only: add.assoc)
  also have "\<dots> = t" unfolding day_split unfolding rem_def by (rule div_mult_mod_eq)
  finally show ?thesis using valid by simp
qed

lemma timegm_gmtime:
  assumes "valid_tm t"
  shows "gmtime (timegm t) = t"
proof -
  let ?days = "days_from_civil (tm_year t + 1900) (tm_mon t + 1) (tm_mday t)"
  define rem where "rem = tm_hour t * 3600 + tm_min t * 60 + tm_sec t"
  have v: "valid_date (tm_year t + 1900) (tm_mon t + 1) (tm_mday t)"
    and h: "0 \<le> tm_hour t" "tm_hour t < 24" and mi: "0 \<le> tm_min t" "tm_min t < 60"
    and s: "0 \<le> tm_sec t" "tm_sec t < 60" using assms by (auto simp: valid_tm_def)
  note r = time_of_day_range [OF h mi s, folded rem_def]
  have t: "timegm t = 86400 * ?days + rem" using timegm_valid [OF assms] by (simp add: rem_def)
  have days: "timegm t div 86400 = ?days" by (rule int_div_pos_eq [OF t r])
  have rm: "timegm t mod 86400 = rem" by (rule int_mod_pos_eq [OF t r])
  have h': "rem div 3600 = tm_hour t"
    by (rule int_div_pos_eq [where r = "tm_min t * 60 + tm_sec t"])
      (use mi s in \<open>simp_all add: rem_def\<close>)
  have "rem mod 3600 = tm_min t * 60 + tm_sec t"
    by (rule int_mod_pos_eq [where q = "tm_hour t"]) (use mi s in \<open>simp_all add: rem_def\<close>)
  then have mi': "rem mod 3600 div 60 = tm_min t" using s by simp
  have s': "rem mod 60 = tm_sec t"
    by (rule int_mod_pos_eq [where q = "60 * tm_hour t + tm_min t"])
      (use s in \<open>simp_all add: rem_def\<close>)
  show ?thesis
    unfolding gmtime_def days rm civil_from_days_inverse [OF v] prod.case Let_def h' mi' s' by simp
qed

section \<open>Properties\<close>

text \<open>C37: for every date of the Gregorian calendar the day number the code computes is the textbook
  one, and converting it back gives the date.\<close>

theorem civil_days_correct:
  assumes "valid_date y m d"
  shows "days_from_civil y m d = epoch_days y m d \<and> civil_from_days (days_from_civil y m d) = (y, m, d)"
proof -
  have "1 \<le> m" "m \<le> 12" "1 \<le> d" "d \<le> 31"
    using assms by (auto simp: valid_date_def days_in_month_def split: if_splits)
  then show ?thesis using civil_from_days_inverse [OF assms] days_from_civil_epoch by blast
qed

theorem civil_days_correct_witness:
  "days_from_civil 2024 2 29 = epoch_days 2024 2 29
   \<and> civil_from_days (days_from_civil 2024 2 29) = (2024, 2, 29)"
  by (rule civil_days_correct) (simp add: valid_date_def days_in_month_def leap_year_def)

text \<open>splitting a nanosecond time stamp always gives a valid civil time, before the epoch as
  well, and putting it together again gives the time stamp cut to whole microseconds.\<close>

theorem unix_ns_split_and_join:
  "valid_civil_time (vscp_from_unix_ns N)
   \<and> (let t = vscp_from_unix_ns N
      in vscp_to_unix_ns (ct_year t) (ct_month t) (ct_day t) (ct_hour t) (ct_minute t) (ct_second t)
           (ct_timestamp t)) = N div 1000 * 1000"
  by (simp add: to_from_unix_ns Let_def)

text \<open>joining a valid civil time and splitting the result gives the civil time back.\<close>

theorem unix_ns_join_and_split:
  assumes "valid_civil_time t"
  shows "vscp_from_unix_ns (vscp_to_unix_ns (ct_year t) (ct_month t) (ct_day t)
           (ct_hour t) (ct_minute t) (ct_second t) (ct_timestamp t)) = t"
  by (rule from_to_unix_ns [OF assms])

theorem unix_ns_join_and_split_witness:
  "vscp_from_unix_ns (vscp_to_unix_ns 1969 12 31 23 59 59 999999) =
     \<lparr>ct_year = 1969, ct_month = 12, ct_day = 31, ct_hour = 23, ct_minute = 59, ct_second = 59,
      ct_timestamp = 999999\<rparr>"
  using unix_ns_join_and_split [of "\<lparr>ct_year = 1969, ct_month = 12, ct_day = 31, ct_hour = 23,
    ct_minute = 59, ct_second = 59, ct_timestamp = 999999\<rparr>"]
  by (simp add: valid_civil_time_def valid_date_def days_in_month_def)

text \<open>for every date of the years 1678 to 2261 the nanosecond count fits the
  \<^verbatim>\<open>int64_t\<close> it is returned in, whatever the 32-bit microsecond field holds.\<close>

theorem unix_ns_fits_int64:
  assumes "valid_date y m d" and "1678 \<le> y" and "y \<le> 2261"
    and "0 \<le> h" "h < 24" and "0 \<le> mi" "mi < 60" and "0 \<le> s" "s < 60"
  shows "- (2 ^ 63) \<le> vscp_to_unix_ns y m d h mi s ts \<and> vscp_to_unix_ns y m d h mi s ts < 2 ^ 63"
proof -
  note days = days_from_civil_range [OF assms(1-3)] and tod = time_of_day_range [OF assms(4-9)]
  define x where "x = days_from_civil y m d * 86400 + (h * 3600 + mi * 60 + s)"
  have "vscp_to_unix_ns y m d h mi s ts = x * 1000000000 + uint ts * 1000"
    by (simp add: vscp_to_unix_ns_def SECS_PER_DAY_def NS_PER_SEC_def x_def)
  moreover have "- 9215424000 \<le> x" "x \<le> 9220694399" using days tod unfolding x_def by linarith+
  moreover have "0 \<le> uint ts" "uint ts < 4294967296"
    using unsigned_greater_eq [of ts] unsigned_less [of ts] by simp_all
  ultimately show ?thesis using ns_bounds [of x "uint ts"] by (simp only:)
qed

theorem unix_ns_fits_int64_witness:
  "- (2 ^ 63) \<le> vscp_to_unix_ns 2261 12 31 23 59 59 (- 1)
   \<and> vscp_to_unix_ns 2261 12 31 23 59 59 (- 1) < 2 ^ 63"
  by (rule unix_ns_fits_int64) (simp_all add: valid_date_def days_in_month_def)

end
