(* ===== verification/EventTime.thy ===== *)
theory EventTime
  imports Event CivilTime
begin

text \<open>
  The date and time block of an event (\<^verbatim>\<open>vscphelper.cpp\<close>): setting it from a broken-down time
  or from the clock, and the conversion to nanoseconds that the frame writer and the text writer
  do for events with the original time block. The clock readings are a parameter: seconds and
  nanoseconds of \<^verbatim>\<open>CLOCK_REALTIME\<close>, and the value \<^verbatim>\<open>vscp_makeTimeStamp\<close> returned.
\<close>

record host_clock =
  clk_sec :: int
  clk_nsec :: int
  clk_ts :: u32

definition vscp_makeTimeStampNs :: "host_clock \<Rightarrow> u64" where
  "vscp_makeTimeStampNs clk = word_of_int (clk_sec clk) * 1000000000 + word_of_int (clk_nsec clk)"

section \<open>Setting the block\<close>

text \<open>The assignments to year, month, day, hour, minute and second from a \<^verbatim>\<open>struct tm\<close>.\<close>

definition ev_set_tm :: "tm \<Rightarrow> vscpEvent \<Rightarrow> vscpEvent" where
  "ev_set_tm t ev =
     ev\<lparr>year := word_of_int (tm_year t + 1900), month := word_of_int (tm_mon t + 1),
        timestamp_ns := tb_set_clock (word_of_int (tm_mday t)) (word_of_int (tm_hour t))
                          (word_of_int (tm_min t)) (word_of_int (tm_sec t)) (timestamp_ns ev)\<rparr>"

definition ex_set_tm :: "tm \<Rightarrow> vscpEventEx \<Rightarrow> vscpEventEx" where
  "ex_set_tm t ex =
     ex\<lparr>xyear := word_of_int (tm_year t + 1900), xmonth := word_of_int (tm_mon t + 1),
        xtimestamp_ns := tb_set_clock (word_of_int (tm_mday t)) (word_of_int (tm_hour t))
                           (word_of_int (tm_min t)) (word_of_int (tm_sec t)) (xtimestamp_ns ex)\<rparr>"

definition clamp_ns :: "u32 \<Rightarrow> u32" where
  "clamp_ns ns = (if ns > 999999999 then 999999999 else ns)"

definition vscp_setEventDateTime ::
  "vscpEvent ptr \<Rightarrow> tm ptr \<Rightarrow> u32 \<Rightarrow> bool \<times> vscpEvent ptr" where
  "vscp_setEventDateTime pev ptm ns =
     (case pev of None \<Rightarrow> (False, None)
      | Some ev \<Rightarrow> (case ptm of None \<Rightarrow> (False, Some ev)
      | Some t \<Rightarrow>
         (let ns = clamp_ns ns
          in (True, Some
               (if is_unix_ns (head ev)
                then ev\<lparr>timestamp_ns := word_of_int (timegm t) * 1000000000 + ucast ns,
                        year := 0xffff, month := 0xff\<rparr>
                else ev_set_tm t ev)))))"

definition vscp_setEventExDateTime ::
  "vscpEventEx ptr \<Rightarrow> tm ptr \<Rightarrow> u32 \<Rightarrow> bool \<times> vscpEventEx ptr" where
  "vscp_setEventExDateTime pex ptm ns =
     (case pex of None \<Rightarrow> (False, None)
      | Some ex \<Rightarrow> (case ptm of None \<Rightarrow> (False, Some ex)
      | Some t \<Rightarrow>
         (let ns = clamp_ns ns
          in (True, Some
               (if is_unix_ns (xhead ex)
                then ex\<lparr>xtimestamp_ns := word_of_int (timegm t) * 1000000000 + ucast ns,
                        xyear := 0xffff, xmonth := 0xff\<rparr>
                else ex_set_tm t ex)))))"

definition vscp_setEventToNow :: "host_clock \<Rightarrow> vscpEvent ptr \<Rightarrow> bool \<times> vscpEvent ptr" where
  "vscp_setEventToNow clk pev =
     (case pev of None \<Rightarrow> (False, None)
      | Some ev \<Rightarrow>
         (True, Some
            (if is_unix_ns (head ev)
             then ev\<lparr>timestamp_ns := word_of_int (clk_sec clk) * 1000000000,
                     year := 0xffff, month := 0xff\<rparr>
             else ev_set_tm (gmtime (clk_sec clk)) ev)))"

definition vscp_setEventExToNow :: "host_clock \<Rightarrow> vscpEventEx ptr \<Rightarrow> bool \<times> vscpEventEx ptr" where
  "vscp_setEventExToNow clk pex =
     (case pex of None \<Rightarrow> (False, None)
      | Some ex \<Rightarrow>
         (True, Some
            (if is_unix_ns (xhead ex)
             then ex\<lparr>xtimestamp_ns := word_of_int (clk_sec clk) * 1000000000,
                     xyear := 0xffff, xmonth := 0xff\<rparr>
             else ex_set_tm (gmtime (clk_sec clk)) ex)))"

definition vscp_setEventDateTimeBlockToNow ::
  "host_clock \<Rightarrow> vscpEvent ptr \<Rightarrow> bool \<times> vscpEvent ptr" where
  "vscp_setEventDateTimeBlockToNow clk pev =
     (case pev of None \<Rightarrow> (False, None)
      | Some ev \<Rightarrow>
         (True, Some
            (if is_unix_ns (head ev)
             then ev\<lparr>timestamp_ns := vscp_makeTimeStampNs clk, year := 0xffff, month := 0xff\<rparr>
             else ev_set_tm (gmtime (clk_sec clk)) ev)))"

definition vscp_setEventExDateTimeBlockToNow ::
  "host_clock \<Rightarrow> vscpEventEx ptr \<Rightarrow> bool \<times> vscpEventEx ptr" where
  "vscp_setEventExDateTimeBlockToNow clk pex =
     (case pex of None \<Rightarrow> (False, None)
      | Some ex \<Rightarrow>
         (True, Some
            (if is_unix_ns (xhead ex)
             then ex\<lparr>xtimestamp_ns := vscp_makeTimeStampNs clk, xyear := 0xffff, xmonth := 0xff\<rparr>
             else ex_set_tm (gmtime (clk_sec clk)) ex)))"

section \<open>Reading the block as nanoseconds\<close>

text \<open>The \<^verbatim>\<open>struct tm\<close> both writers fill from an original time block.\<close>

definition ev_tm :: "vscpEvent \<Rightarrow> tm" where
  "ev_tm ev = \<lparr>tm_year = uint (year ev) - 1900, tm_mon = uint (month ev) - 1,
     tm_mday = uint (tb_day (timestamp_ns ev)), tm_hour = uint (tb_hour (timestamp_ns ev)),
     tm_min = uint (tb_minute (timestamp_ns ev)), tm_sec = uint (tb_second (timestamp_ns ev))\<rparr>"

definition event_unix_ns :: "vscpEvent \<Rightarrow> u64" where
  "event_unix_ns ev =
     (if is_unix_ns (head ev) then timestamp_ns ev
      else word_of_int (timegm (ev_tm ev)) * 1000000000 + ucast (tb_timestamp (timestamp_ns ev)) * 1000)"

section \<open>What was set is read back\<close>

lemma tb_set_clock_fields [simp]:
  "tb_day (tb_set_clock d h m s w) = d" "tb_hour (tb_set_clock d h m s w) = h"
  "tb_minute (tb_set_clock d h m s w) = m" "tb_second (tb_set_clock d h m s w) = s"
  by (simp_all add: tb_day_def tb_hour_def tb_minute_def tb_second_def tb_set_clock_def
      byte_at_set_same byte_at_set_other)

lemma tb_timestamp_set_clock [simp]: "tb_timestamp (tb_set_clock d h m s w) = tb_timestamp w"
  by (rule bit_word_eqI)
    (simp add: tb_timestamp_def tb_set_clock_def bit_ucast_iff bit_drop_bit_eq bit_tb_set_byte)

lemma uint_word_of_int_id:
  "0 \<le> x \<Longrightarrow> x < 256 \<Longrightarrow> uint (word_of_int x :: u8) = x"
  "0 \<le> x \<Longrightarrow> x < 65536 \<Longrightarrow> uint (word_of_int x :: u16) = x"
  by (simp_all add: unsigned_of_int take_bit_int_eq_self)

text \<open>A time of a year that the 16-bit year field can hold.\<close>

definition storable_tm :: "tm \<Rightarrow> bool" where
  "storable_tm t \<longleftrightarrow> valid_tm t \<and> - 1900 \<le> tm_year t \<and> tm_year t < 65536 - 1900"

lemma ev_tm_set:
  assumes "storable_tm t"
  shows "ev_tm (ev_set_tm t ev) = t"
proof -
  have "0 \<le> tm_mon t + 1" "tm_mon t + 1 < 256" "0 \<le> tm_mday t" "tm_mday t < 256"
    using assms
    by (auto simp: storable_tm_def valid_tm_def valid_date_def days_in_month_def split: if_splits)
  moreover have "0 \<le> tm_hour t" "tm_hour t < 256" "0 \<le> tm_min t" "tm_min t < 256"
      "0 \<le> tm_sec t" "tm_sec t < 256" "0 \<le> tm_year t + 1900" "tm_year t + 1900 < 65536"
    using assms by (auto simp: storable_tm_def valid_tm_def)
  ultimately show ?thesis
    by (cases t) (simp add: ev_tm_def ev_set_tm_def uint_word_of_int_id del: of_int_add)
qed

lemma event_unix_ns_set_tm:
  assumes "storable_tm t" and "\<not> is_unix_ns (head ev)"
  shows "event_unix_ns (ev_set_tm t ev)
       = word_of_int (timegm t) * 1000000000 + ucast (tb_timestamp (timestamp_ns ev)) * 1000"
  using assms ev_tm_set [OF assms(1), of ev]
  by (simp add: event_unix_ns_def) (simp add: ev_set_tm_def)

section \<open>Properties\<close>

text \<open>C40: an event whose time was set from a broken-down time denotes that time, whichever of the two
  time block formats its head selects: read as nanoseconds it is the Unix time of the broken-down
  time plus the subsecond part the format can hold (the nanoseconds given, clamped below one
  second, or the microsecond time stamp already in the block).\<close>

theorem set_event_date_time_denotes:
  assumes "storable_tm t"
  shows "\<exists>ev'. vscp_setEventDateTime (Some ev) (Some t) ns = (True, Some ev')
    \<and> event_unix_ns ev' = word_of_int (timegm t) * 1000000000
        + (if is_unix_ns (head ev) then ucast (clamp_ns ns)
           else ucast (tb_timestamp (timestamp_ns ev)) * 1000)
    \<and> ev_data ev' = ev_data ev \<and> head ev' = head ev"
proof (cases "is_unix_ns (head ev)")
  case True
  then show ?thesis
    by (simp add: vscp_setEventDateTime_def Let_def) (simp add: event_unix_ns_def ev_data_def split: option.split)
next
  case False
  then show ?thesis
    using event_unix_ns_set_tm [OF assms False]
    by (simp add: vscp_setEventDateTime_def Let_def)
      (simp add: ev_set_tm_def ev_data_def split: option.split)
qed

theorem set_event_date_time_denotes_witness:
  "\<exists>ev'. vscp_setEventDateTime (Some sample_event) (Some (gmtime 1700000000)) 5 = (True, Some ev')
     \<and> event_unix_ns ev' = 1700000000000000005"
proof -
  have c: "civil_from_days 19675 = (2023, 11, 14)" by code_simp
  have g: "gmtime 1700000000 = \<lparr>tm_year = 123, tm_mon = 10, tm_mday = 14, tm_hour = 22,
      tm_min = 13, tm_sec = 20\<rparr>"
    by (simp add: gmtime_def c Let_def)
  have "storable_tm (gmtime 1700000000)"
    using gmtime_timegm [of 1700000000] by (simp add: storable_tm_def g)
  from set_event_date_time_denotes [OF this, of sample_event 5]
  show ?thesis
    using gmtime_timegm [of 1700000000]
    by (auto simp: sample_event_def is_unix_ns_def FRAME_VERSION_MASK_def FRAME_VERSION_UNIX_NS_def
        clamp_ns_def)
qed

text \<open>stamping an event with the current time gives an event that denotes the clock reading: to
  the nanosecond when the head selects nanosecond stamps, and otherwise (until the year 65535) to
  the second, with the microsecond field left as it was.\<close>

theorem stamp_event_denotes_clock:
  assumes "storable_tm (gmtime (clk_sec clk))"
  shows "\<exists>ev'. vscp_setEventDateTimeBlockToNow clk (Some ev) = (True, Some ev')
    \<and> event_unix_ns ev' =
        (if is_unix_ns (head ev) then vscp_makeTimeStampNs clk
         else word_of_int (clk_sec clk) * 1000000000 + ucast (tb_timestamp (timestamp_ns ev)) * 1000)"
proof (cases "is_unix_ns (head ev)")
  case True
  then show ?thesis by (simp add: vscp_setEventDateTimeBlockToNow_def) (simp add: event_unix_ns_def)
next
  case False
  then show ?thesis
    using event_unix_ns_set_tm [OF assms False] gmtime_timegm [of "clk_sec clk"]
    by (simp add: vscp_setEventDateTimeBlockToNow_def)
qed

theorem stamp_event_denotes_clock_witness:
  "\<exists>ev'. vscp_setEventDateTimeBlockToNow \<lparr>clk_sec = 0, clk_nsec = 7, clk_ts = 0\<rparr> (Some sample_event)
        = (True, Some ev') \<and> event_unix_ns ev' = 7"
proof -
  have c: "civil_from_days 0 = (1970, 1, 1)" by code_simp
  have "storable_tm (gmtime 0)"
    using gmtime_timegm [of 0] by (simp add: storable_tm_def gmtime_def c Let_def)
  then show ?thesis
    using stamp_event_denotes_clock [of "\<lparr>clk_sec = 0, clk_nsec = 7, clk_ts = 0\<rparr>" sample_event]
    by (auto simp: sample_event_def is_unix_ns_def FRAME_VERSION_MASK_def FRAME_VERSION_UNIX_NS_def
        vscp_makeTimeStampNs_def)
qed

end
