(* ===== verification/TextUtil.thy ===== *)
theory TextUtil
  imports VscpPrelude
begin

text \<open>
  String routines of \<^verbatim>\<open>vscphelper.h\<close>, \<^verbatim>\<open>vscphelper.cpp\<close> and
  \<^verbatim>\<open>vscphelper-common.cpp\<close>: trimming, splitting, comparison, searching, hexadecimal
  conversion and number reading. A \<^verbatim>\<open>std::string\<close> is a list of characters; a C string is
  the list of its characters before the terminating zero, and reading at its end gives that zero.
  The character classes are those of the C locale. Every caller of \<^verbatim>\<open>vscp_split\<close> passes a
  delimiter of one character, which is a \<open>char\<close> here.
\<close>

section \<open>Characters\<close>

abbreviation ord :: "char \<Rightarrow> nat" where "ord c \<equiv> of_char c"

definition NUL :: char where "NUL = CHR 0x00"

definition isspace :: "char \<Rightarrow> bool" where
  "isspace c \<longleftrightarrow> ord c = 32 \<or> 9 \<le> ord c \<and> ord c \<le> 13"

definition tolower :: "char \<Rightarrow> char" where
  "tolower c = (if 65 \<le> ord c \<and> ord c \<le> 90 then char_of (ord c + 32) else c)"

definition toupper :: "char \<Rightarrow> char" where
  "toupper c = (if 97 \<le> ord c \<and> ord c \<le> 122 then char_of (ord c - 32) else c)"

text \<open>Reading through a pointer into a C string.\<close>

definition cur :: "string \<Rightarrow> char" where
  "cur p = (case p of [] \<Rightarrow> NUL | c # _ \<Rightarrow> c)"

text \<open>Bytes as characters, and a buffer as a C string: the bytes before its first zero.\<close>

definition str_bytes :: "string \<Rightarrow> u8 list" where "str_bytes s = map (\<lambda>c. of_nat (ord c)) s"

definition bytes_str :: "u8 list \<Rightarrow> string" where "bytes_str bs = map (\<lambda>b. char_of (unat b)) bs"

definition c_string :: "u8 list \<Rightarrow> string safe" where
  "c_string buf = (if 0 \<in> set buf then Some (bytes_str (takeWhile (\<lambda>b. b \<noteq> 0) buf)) else None)"

section \<open>Case and white space\<close>

definition vscp_makeUpper :: "string \<Rightarrow> string" where "vscp_makeUpper s = map toupper s"
definition vscp_makeLower :: "string \<Rightarrow> string" where "vscp_makeLower s = map tolower s"
definition vscp_upper :: "string \<Rightarrow> string" where "vscp_upper s = vscp_makeUpper s"
definition vscp_lower :: "string \<Rightarrow> string" where "vscp_lower s = vscp_makeLower s"

definition vscp_ltrim :: "string \<Rightarrow> string" where
  "vscp_ltrim s = dropWhile isspace s"

definition vscp_rtrim :: "string \<Rightarrow> string" where
  "vscp_rtrim s = rev (dropWhile isspace (rev s))"

definition vscp_trim :: "string \<Rightarrow> string" where
  "vscp_trim s = vscp_rtrim (vscp_ltrim s)"

definition vscp_trim_copy :: "string \<Rightarrow> string" where
  "vscp_trim_copy s = vscp_trim s"

text \<open>In place on a C string; the result is what the returned pointer then points at.\<close>

definition vscp_trimWhiteSpace :: "string \<Rightarrow> string" where
  "vscp_trimWhiteSpace str =
     (let str = dropWhile isspace str
      in if str = [] then str
         else hd str # rev (dropWhile isspace (rev (tl str))))"

section \<open>Parts of a string\<close>

function split_loop :: "char \<Rightarrow> string \<Rightarrow> string list" where
  "split_loop d s =
     (case dropWhile (\<lambda>c. c \<noteq> d) s of
        [] \<Rightarrow> [s]
      | _ # rest \<Rightarrow> takeWhile (\<lambda>c. c \<noteq> d) s # split_loop d rest)"
  by pat_completeness auto
termination
proof (relation "measure (\<lambda>(d, s). length s)", simp)
  fix d :: char and s x rest assume "dropWhile (\<lambda>c. c \<noteq> d) s = x # rest"
  then have "length rest < length (dropWhile (\<lambda>c. c \<noteq> d) s)" by simp
  also have "\<dots> \<le> length s" by (rule length_dropWhile_le)
  finally show "((d, rest), d, s) \<in> measure (\<lambda>(d, s). length s)" by simp
qed

declare split_loop.simps [simp del]

definition vscp_split :: "string \<Rightarrow> char \<Rightarrow> string list" where
  "vscp_split theString theDelimiter =
     (if theString = [] then [] else split_loop theDelimiter theString)"

definition vscp_str_left :: "string \<Rightarrow> nat \<Rightarrow> string" where
  "vscp_str_left str len = (if len = 0 then [] else take len str)"

definition vscp_str_right :: "string \<Rightarrow> nat \<Rightarrow> string" where
  "vscp_str_right str len =
     (if len = 0 then []
      else let len = (if len > length str then length str else len)
           in drop (length str - len) str)"

definition str_find :: "string \<Rightarrow> char \<Rightarrow> nat option" where
  "str_find str c =
     (let pos = length (takeWhile (\<lambda>x. x \<noteq> c) str) in if pos < length str then Some pos else None)"

lemma str_find_Some:
  assumes "str_find s c = Some pos"
  shows "pos < length s" and "s ! pos = c"
proof -
  have p: "pos = length (takeWhile (\<lambda>x. x \<noteq> c) s)" "pos < length s"
    using assms by (simp_all add: str_find_def Let_def split: if_splits)
  show "pos < length s" by (rule p(2))
  show "s ! pos = c" using nth_length_takeWhile [of "\<lambda>x. x \<noteq> c" s] p by simp
qed

definition vscp_str_before :: "string \<Rightarrow> char \<Rightarrow> string" where
  "vscp_str_before str c =
     (case str_find str c of None \<Rightarrow> [] | Some pos \<Rightarrow> vscp_str_left str pos)"

definition vscp_str_after :: "string \<Rightarrow> char \<Rightarrow> string" where
  "vscp_str_after str c =
     (case str_find str c of None \<Rightarrow> [] | Some pos \<Rightarrow> vscp_str_right str pos)"

text \<open>The position of a substring, as \<^verbatim>\<open>std::string::find\<close> reports it.\<close>

fun find_sub :: "string \<Rightarrow> string \<Rightarrow> nat option" where
  "find_sub sub [] = (if sub = [] then Some 0 else None)"
| "find_sub sub (c # cs) =
     (if take (length sub) (c # cs) = sub then Some 0 else map_option Suc (find_sub sub cs))"

text \<open>The second component is what is stored through \<^verbatim>\<open>rest\<close>.\<close>

definition vscp_startsWith :: "string \<Rightarrow> string \<Rightarrow> bool \<times> string" where
  "vscp_startsWith origstr searchstr =
     (if find_sub searchstr origstr \<noteq> Some 0 then (False, origstr)
      else (True, drop (length searchstr) origstr))"

definition vscp_isNumber :: "string \<Rightarrow> bool" where
  "vscp_isNumber strNumber =
     (let str = vscp_makeLower (vscp_trim strNumber)
      in (48 \<le> ord (cur str) \<and> ord (cur str) \<le> 57) \<or> fst (vscp_startsWith str ''0x'')
         \<or> fst (vscp_startsWith str ''0o'') \<or> fst (vscp_startsWith str ''0b''))"

section \<open>Comparison and search\<close>

definition vscp_lowercase :: "string \<Rightarrow> int" where
  "vscp_lowercase s = int (ord (tolower (cur s)))"

function vscp_strcasecmp :: "string \<Rightarrow> string \<Rightarrow> int" where
  "vscp_strcasecmp s1 s2 =
     (let diff = vscp_lowercase s1 - vscp_lowercase s2
      in if diff = 0 \<and> cur s1 \<noteq> NUL then vscp_strcasecmp (tl s1) (tl s2) else diff)"
  by pat_completeness auto
termination
  by (relation "measure (\<lambda>(s1, s2). length s1)") (auto simp: cur_def split: list.splits)

declare vscp_strcasecmp.simps [simp del]

fun vscp_strncasecmp :: "string \<Rightarrow> string \<Rightarrow> nat \<Rightarrow> int" where
  "vscp_strncasecmp s1 s2 0 = 0"
| "vscp_strncasecmp s1 s2 (Suc len) =
     (let diff = vscp_lowercase s1 - vscp_lowercase s2
      in if diff = 0 \<and> cur s1 \<noteq> NUL \<and> len > 0 then vscp_strncasecmp (tl s1) (tl s2) len else diff)"

definition vscp_strlcpy :: "char list \<Rightarrow> string \<Rightarrow> nat \<Rightarrow> char list safe" where
  "vscp_strlcpy dst src n = wr_block dst 0 (take (n - 1) src @ [NUL])"

text \<open>The content of the freshly allocated copy; \<open>fresh\<close> is the block \<^verbatim>\<open>malloc\<close> returned.\<close>

definition vscp_strndup :: "char list \<Rightarrow> string \<Rightarrow> nat \<Rightarrow> char list safe" where
  "vscp_strndup fresh src len = vscp_strlcpy (take (len + 1) fresh) src (len + 1)"

definition vscp_strdup :: "char list \<Rightarrow> string \<Rightarrow> char list safe" where
  "vscp_strdup fresh str = vscp_strndup fresh str (length str)"

text \<open>The offset of the match in \<open>big_str\<close>.\<close>

definition vscp_strcasestr :: "string \<Rightarrow> string \<Rightarrow> nat option" where
  "vscp_strcasestr big_str small_str =
     (let big_len = length big_str; small_len = length small_str
      in if big_len \<ge> small_len
         then find (\<lambda>i. vscp_strncasecmp (drop i big_str) small_str small_len = 0)
                [0..<big_len - small_len + 1]
         else None)"

text \<open>
  The loop of \<^verbatim>\<open>vscp_stristr\<close>: \<open>i\<close> is the offset of \<^verbatim>\<open>p1\<close>, \<open>r\<close> the candidate offset, \<open>p2\<close> the
  unmatched rest of the pattern.
\<close>

fun stristr_loop :: "string \<Rightarrow> nat \<Rightarrow> string \<Rightarrow> string \<Rightarrow> nat option \<Rightarrow> nat option" where
  "stristr_loop [] i p2 str2 r = (if p2 = [] then r else None)"
| "stristr_loop (c # p1) i p2 str2 r =
     (case p2 of [] \<Rightarrow> r
      | d # p2' \<Rightarrow>
          if tolower c = tolower d
          then stristr_loop p1 (i + 1) p2' str2 (if r = None then Some i else r)
          else if tolower c = tolower (cur str2)
          then stristr_loop p1 (i + 1) (tl str2) str2 (Some i)
          else stristr_loop p1 (i + 1) str2 str2 None)"

definition vscp_stristr :: "string \<Rightarrow> string \<Rightarrow> nat option" where
  "vscp_stristr str1 str2 = stristr_loop str1 0 str2 str2 (if str2 = [] then Some 0 else None)"

definition vscp_reverse :: "string ptr \<Rightarrow> string ptr" where
  "vscp_reverse s =
     (case s of None \<Rightarrow> None
      | Some s \<Rightarrow> Some (map (\<lambda>i. s ! (length s - i - 1)) [0..<length s]))"

definition vscp_rstrstr :: "string \<Rightarrow> string \<Rightarrow> nat option" where
  "vscp_rstrstr s1 s2 =
     (if length s2 > length s1 then None
      else find (\<lambda>i. take (length s2) (drop i s1) = s2) (rev [0..<length s1 - length s2 + 1]))"

function vscp_replaceBackslash :: "string \<Rightarrow> string" where
  "vscp_replaceBackslash str =
     (case str_find str (CHR 0x5C) of None \<Rightarrow> str
      | Some pos \<Rightarrow> vscp_replaceBackslash (str[pos := CHR ''/'']))"
  by pat_completeness auto
termination
proof (relation "measure (\<lambda>s. length (filter (\<lambda>c. c = CHR 0x5C) s))", simp)
  fix s :: string and pos assume "str_find s (CHR 0x5C) = Some pos"
  then have pos: "pos < length s" "s ! pos = CHR 0x5C" by (simp_all add: str_find_Some)
  let ?n = "\<lambda>s. length (filter (\<lambda>c. c = CHR 0x5C) s)"
  have "?n s = ?n (take pos s @ CHR 0x5C # drop (Suc pos) s)"
    by (rule arg_cong [where f = ?n]) (rule id_take_nth_drop [OF pos(1), unfolded pos(2)])
  moreover have "?n (s[pos := CHR ''/'']) = ?n (take pos s @ drop (Suc pos) s)"
    using pos(1) by (simp add: upd_conv_take_nth_drop)
  ultimately show "(s[pos := CHR ''/''], s) \<in> measure ?n" by simp
qed

declare vscp_replaceBackslash.simps [simp del]

section \<open>Hexadecimal text\<close>

text \<open>\<^verbatim>\<open>%X\<close> and \<^verbatim>\<open>%x\<close> digits, and the two-digit forms \<^verbatim>\<open>%02X\<close> and \<^verbatim>\<open>%02x\<close> of a byte.\<close>

definition hexdig_upper :: "nat \<Rightarrow> char" where
  "hexdig_upper n = char_of (if n < 10 then 48 + n else 55 + n)"

definition hexdig_lower :: "nat \<Rightarrow> char" where
  "hexdig_lower n = char_of (if n < 10 then 48 + n else 87 + n)"

definition fmt_02X :: "u8 \<Rightarrow> string" where
  "fmt_02X b = [hexdig_upper (unat b div 16), hexdig_upper (unat b mod 16)]"

definition vscp_byteArray2HexStr :: "u8 list \<Rightarrow> string" where
  "vscp_byteArray2HexStr p =
     concat (map (\<lambda>b. [hexdig_lower (unat (drop_bit 4 b)), hexdig_lower (unat (b AND 0x0f))]) p)"

text \<open>\<open>None\<close>: \<^verbatim>\<open>std::invalid_argument\<close> is thrown.\<close>

definition readHexChar :: "char \<Rightarrow> u8 option" where
  "readHexChar input =
     (if 48 \<le> ord input \<and> ord input \<le> 57 then Some (of_nat (ord input - 48))
      else if 65 \<le> ord input \<and> ord input \<le> 70 then Some (of_nat (ord input - 65 + 10))
      else if 97 \<le> ord input \<and> ord input \<le> 102 then Some (of_nat (ord input - 97 + 10))
      else None)"

text \<open>The bytes stored in \<^verbatim>\<open>array\<close>, at most \<open>sz\<close> of them; \<open>None\<close> when the exception escapes.\<close>

fun vscp_hexStr2ByteArray :: "nat \<Rightarrow> string \<Rightarrow> u8 list option" where
  "vscp_hexStr2ByteArray (Suc sz) (a # b # hexstr) =
     (if a = NUL \<or> b = NUL then Some []
      else do {
        hi \<leftarrow> readHexChar a;
        lo \<leftarrow> readHexChar b;
        rest \<leftarrow> vscp_hexStr2ByteArray sz hexstr;
        Some ((push_bit 4 hi + lo) # rest) })"
| "vscp_hexStr2ByteArray _ _ = Some []"

section \<open>Numbers\<close>

definition digit_value :: "char \<Rightarrow> nat option" where
  "digit_value c =
     (if 48 \<le> ord c \<and> ord c \<le> 57 then Some (ord c - 48)
      else if 97 \<le> ord c \<and> ord c \<le> 122 then Some (ord c - 87)
      else if 65 \<le> ord c \<and> ord c \<le> 90 then Some (ord c - 55)
      else None)"

definition digit_in :: "nat \<Rightarrow> char \<Rightarrow> bool" where
  "digit_in b c = (case digit_value c of None \<Rightarrow> False | Some v \<Rightarrow> v < b)"

definition digits_value :: "nat \<Rightarrow> string \<Rightarrow> nat" where
  "digits_value b ds = foldl (\<lambda>v c. v * b + the (digit_value c)) 0 ds"

text \<open>
  \<^verbatim>\<open>std::stoll\<close> (and \<^verbatim>\<open>std::stol\<close>, 64 bits as well): leading white space, a sign and, in base
  16, a \<^verbatim>\<open>0x\<close> prefix are skipped; \<open>None\<close> stands for \<^verbatim>\<open>invalid_argument\<close> and \<^verbatim>\<open>out_of_range\<close>.
\<close>

definition stoll :: "nat \<Rightarrow> string \<Rightarrow> int option" where
  "stoll b s =
     (let s = dropWhile isspace s;
          neg = (cur s = CHR ''-'');
          s = (if cur s = CHR ''-'' \<or> cur s = CHR ''+'' then tl s else s);
          s = (if b = 16 \<and> cur s = CHR ''0'' \<and> tolower (cur (tl s)) = CHR ''x''
                  \<and> digit_in 16 (cur (tl (tl s))) then tl (tl s) else s);
          ds = takeWhile (digit_in b) s;
          v = (if neg then - int (digits_value b ds) else int (digits_value b ds))
      in if ds = [] \<or> v < - (2 ^ 63) \<or> v \<ge> 2 ^ 63 then None else Some v)"

definition vscp_readStringValue :: "string \<Rightarrow> int" where
  "vscp_readStringValue strval =
     (let str = vscp_trim (vscp_makeLower strval);
          val = (if find_sub ''0x'' str \<noteq> None then stoll 16 (drop 2 str)
                 else if find_sub ''0o'' str \<noteq> None then stoll 8 (drop 2 str)
                 else if find_sub ''0b'' str \<noteq> None then stoll 2 (drop 2 str)
                 else stoll 10 str)
      in case val of None \<Rightarrow> 0 | Some v \<Rightarrow> v)"

text \<open>\<^verbatim>\<open>%d\<close> and \<^verbatim>\<open>%u\<close> of a value that is not negative.\<close>

fun fmt_d :: "nat \<Rightarrow> string" where
  "fmt_d n = (if n < 10 then [char_of (48 + n)] else fmt_d (n div 10) @ [char_of (48 + n mod 10)])"

declare fmt_d.simps [simp del]

text \<open>\<^verbatim>\<open>%x\<close>.\<close>

fun fmt_x :: "nat \<Rightarrow> string" where
  "fmt_x n = (if n < 16 then [hexdig_lower n] else fmt_x (n div 16) @ [hexdig_lower (n mod 16)])"

declare fmt_x.simps [simp del]

text \<open>
  \<^verbatim>\<open>char\<close> is signed: a byte above 127 is negative, hence below 32, and is passed to \<^verbatim>\<open>%x\<close> as a
  sign-extended \<^verbatim>\<open>int\<close>.
\<close>

definition safe_encode_char :: "char \<Rightarrow> string" where
  "safe_encode_char c =
     (if c = CHR 0x5C then [CHR 0x5C]
      else if c = CHR 0x22 then [CHR 0x22]
      else if ord c < 32 then [CHR 0x5C, CHR ''x''] @ fmt_x (ord c)
      else if 128 \<le> ord c then [CHR 0x5C, CHR ''x''] @ fmt_x (4294967296 - 256 + ord c)
      else [c])"

definition vscp_safe_encode_str :: "string \<Rightarrow> string" where
  "vscp_safe_encode_str str = concat (map safe_encode_char str)"

section \<open>Facts on characters\<close>

lemma ord_less: "ord c < 256"
  using nat_of_char_less_256 [of c] by simp

lemma ord_char_of: "n < 256 \<Longrightarrow> ord (char_of n) = n"
  by simp

lemma ord_eq_iff: "c = d \<longleftrightarrow> ord c = ord d"
  by simp

lemma cur_Cons [simp]: "cur (c # cs) = c"
  by (simp add: cur_def)

lemma cur_Nil [simp]: "cur [] = NUL"
  by (simp add: cur_def)

lemma ord_NUL [simp]: "ord NUL = 0"
  by (simp add: NUL_def)

lemma hexdig_cases: "n < 10 \<or> 10 \<le> (n :: nat)"
  by auto

lemma bytes_str_inverse [simp]: "str_bytes (bytes_str bs) = bs" "bytes_str (str_bytes s) = s"
  by (simp_all add: str_bytes_def bytes_str_def comp_def unat_u8_less ord_less ord_char_of cong: map_cong)

lemma length_str_bytes [simp]: "length (str_bytes s) = length s" "length (bytes_str bs) = length bs"
  by (simp_all add: str_bytes_def bytes_str_def)

lemma c_string_zeros:
  assumes "0 \<notin> set bs" and "0 < n"
  shows "c_string (bs @ replicate n 0) = Some (bytes_str bs)"
  using assms by (auto simp: c_string_def takeWhile_append)

lemma str_bytes_no_zero: "NUL \<notin> set str \<Longrightarrow> 0 \<notin> set (str_bytes str)"
proof
  assume s: "NUL \<notin> set str" and "0 \<in> set (str_bytes str)"
  then obtain c where c: "c \<in> set str" "(of_nat (ord c) :: u8) = 0" by (auto simp: str_bytes_def)
  then have "ord c = 0" using unat_of_nat_u8 [OF ord_less, of c] by simp
  then show False using c(1) s by (metis ord_eq_iff ord_NUL)
qed

section \<open>Trimming\<close>

lemma ltrim_split: "\<exists>pre. s = pre @ vscp_ltrim s \<and> list_all isspace pre"
  unfolding vscp_ltrim_def
  by (metis takeWhile_dropWhile_id list_all_iff set_takeWhileD)

lemma rtrim_split: "\<exists>post. s = vscp_rtrim s @ post \<and> list_all isspace post"
proof -
  have "rev s = takeWhile isspace (rev s) @ dropWhile isspace (rev s)" by simp
  then have "s = vscp_rtrim s @ rev (takeWhile isspace (rev s))"
    unfolding vscp_rtrim_def by (metis rev_append rev_rev_ident)
  moreover have "list_all isspace (rev (takeWhile isspace (rev s)))"
    by (auto simp: list_all_iff dest: set_takeWhileD)
  ultimately show ?thesis by blast
qed

lemma rtrim_last: "vscp_rtrim s \<noteq> [] \<Longrightarrow> \<not> isspace (last (vscp_rtrim s))"
  by (simp add: vscp_rtrim_def last_rev hd_dropWhile)

lemma rtrim_hd: "vscp_rtrim s \<noteq> [] \<Longrightarrow> hd (vscp_rtrim s) = hd s"
  using rtrim_split [of s] by (metis hd_append2)

lemma trim_ends:
  assumes "vscp_trim s \<noteq> []"
  shows "\<not> isspace (hd (vscp_trim s))" and "\<not> isspace (last (vscp_trim s))"
proof -
  have "hd (vscp_trim s) = hd (vscp_ltrim s)" "vscp_ltrim s \<noteq> []"
    using assms rtrim_hd by (auto simp: vscp_trim_def vscp_rtrim_def)
  then show "\<not> isspace (hd (vscp_trim s))" by (simp add: vscp_ltrim_def hd_dropWhile)
  show "\<not> isspace (last (vscp_trim s))" using assms rtrim_last by (simp add: vscp_trim_def)
qed

lemma trim_id:
  assumes "s = [] \<or> \<not> isspace (hd s) \<and> \<not> isspace (last s)"
  shows "vscp_trim s = s"
proof (cases s)
  case (Cons c cs)
  with assms have "dropWhile isspace s = s" "dropWhile isspace (rev s) = rev s"
    by (auto simp: dropWhile_eq_self_iff hd_rev simp del: rev.simps)
  then show ?thesis by (simp add: vscp_trim_def vscp_ltrim_def vscp_rtrim_def)
qed (simp add: vscp_trim_def vscp_ltrim_def vscp_rtrim_def)

section \<open>Splitting and joining\<close>

fun join :: "char \<Rightarrow> string list \<Rightarrow> string" where
  "join d [] = []"
| "join d [t] = t"
| "join d (t # ts) = t @ d # join d ts"

lemma split_loop_none: "d \<notin> set s \<Longrightarrow> split_loop d s = [s]"
proof -
  assume "d \<notin> set s"
  then have "dropWhile (\<lambda>c. c \<noteq> d) s = []" by (simp add: dropWhile_eq_Nil_conv) blast
  then show ?thesis by (subst split_loop.simps) (simp only: list.case)
qed

lemma split_loop_cons: "d \<notin> set t \<Longrightarrow> split_loop d (t @ d # s) = t # split_loop d s"
proof -
  assume d: "d \<notin> set t"
  have "dropWhile (\<lambda>c. c \<noteq> d) (t @ d # s) = d # s" "takeWhile (\<lambda>c. c \<noteq> d) (t @ d # s) = t"
    using d by (induction t) auto
  then show ?thesis by (subst split_loop.simps) simp
qed

lemma split_loop_join:
  "ts \<noteq> [] \<Longrightarrow> (\<And>t. t \<in> set ts \<Longrightarrow> d \<notin> set t) \<Longrightarrow> split_loop d (join d ts) = ts"
  by (induction d ts rule: join.induct) (auto simp: split_loop_none split_loop_cons)

lemma set_join: "c \<in> set (join d ts) \<Longrightarrow> c = d \<or> (\<exists>t\<in>set ts. c \<in> set t)"
  by (induction d ts rule: join.induct) auto

lemma join_eq_Nil: "join d ts = [] \<longleftrightarrow> ts = [] \<or> ts = [[]]"
  by (cases "(d, ts)" rule: join.cases) auto

lemma split_join:
  assumes "ts \<noteq> []" and "hd ts \<noteq> []" and "\<And>t. t \<in> set ts \<Longrightarrow> d \<notin> set t"
  shows "vscp_split (join d ts) d = ts"
  using assms split_loop_join [of ts d] by (auto simp: vscp_split_def join_eq_Nil)

lemma split_loop_nonempty: "split_loop d s \<noteq> []"
  by (subst split_loop.simps) (auto split: list.split)

lemma join_split_loop: "join d (split_loop d s) = s"
proof (induction d s rule: split_loop.induct)
  case (1 d s)
  show ?case
  proof (cases "dropWhile (\<lambda>c. c \<noteq> d) s")
    case Nil
    then show ?thesis by (subst split_loop.simps) (simp only: list.case join.simps)
  next
    case (Cons x rest)
    then have x: "x = d" by (simp add: dropWhile_eq_Cons_conv)
    have "split_loop d s = takeWhile (\<lambda>c. c \<noteq> d) s # split_loop d rest"
      by (subst split_loop.simps) (simp add: Cons)
    then have "join d (split_loop d s) = takeWhile (\<lambda>c. c \<noteq> d) s @ d # join d (split_loop d rest)"
      using split_loop_nonempty [of d rest] by (cases "split_loop d rest") auto
    also have "\<dots> = takeWhile (\<lambda>c. c \<noteq> d) s @ dropWhile (\<lambda>c. c \<noteq> d) s"
      using 1 [OF Cons] Cons x by simp
    finally show ?thesis by simp
  qed
qed

lemma split_loop_tokens: "t \<in> set (split_loop d s) \<Longrightarrow> d \<notin> set t"
proof (induction d s rule: split_loop.induct)
  case (1 d s)
  show ?case
  proof (cases "dropWhile (\<lambda>c. c \<noteq> d) s")
    case Nil
    then have "split_loop d s = [s]" by (subst split_loop.simps) (simp only: list.case)
    with 1(2) Nil show ?thesis by (auto simp: dropWhile_eq_Nil_conv)
  next
    case (Cons x rest)
    then have "split_loop d s = takeWhile (\<lambda>c. c \<noteq> d) s # split_loop d rest"
      by (subst split_loop.simps) simp
    with 1(2) 1(1) [OF Cons] show ?thesis by (auto dest: set_takeWhileD)
  qed
qed

section \<open>Digits\<close>

lemma less_16_cases:
  assumes "(n :: nat) < 16"
  obtains "n < 10" | "10 \<le> n" "n < 16"
  using assms by (cases "n < 10") auto

lemma ord_hexdig:
  assumes "n < 16"
  shows "ord (hexdig_upper n) = (if n < 10 then 48 + n else 55 + n)"
    and "ord (hexdig_lower n) = (if n < 10 then 48 + n else 87 + n)"
  using assms unfolding hexdig_upper_def hexdig_lower_def by (auto simp: ord_char_of)

lemma readHexChar_digit [simp]:
  assumes "n < 16"
  shows "readHexChar (hexdig_lower n) = Some (of_nat n)"
    and "readHexChar (hexdig_upper n) = Some (of_nat n)"
  using assms by (auto simp: readHexChar_def ord_hexdig)

lemma hexdig_not_NUL [simp]: "n < 16 \<Longrightarrow> hexdig_lower n \<noteq> NUL" "n < 16 \<Longrightarrow> hexdig_upper n \<noteq> NUL"
  by (auto simp: ord_eq_iff ord_hexdig simp del: of_char_eq_iff)

lemma nibbles:
  fixes b :: u8
  shows "unat (drop_bit 4 b) = unat b div 16" and "unat (b AND 0x0f) = unat b mod 16"
    and "push_bit 4 (of_nat (unat b div 16)) + of_nat (unat b mod 16) = b"
proof -
  show "unat (drop_bit 4 b) = unat b div 16"
    by (simp add: drop_bit_eq_div unat_div_distrib)
  have "b AND 0x0f = take_bit 4 b" by (simp add: take_bit_eq_mask mask_eq_exp_minus_1)
  then show "unat (b AND 0x0f) = unat b mod 16" by (simp add: take_bit_eq_mod unat_mod_distrib)
  have "(of_nat (unat b div 16 * 16 + unat b mod 16) :: u8) = b"
    by (simp only: div_mult_mod_eq) simp
  moreover have "push_bit 4 x = x * 16" for x :: u8 by (simp add: push_bit_eq_mult)
  ultimately show "push_bit 4 (of_nat (unat b div 16)) + of_nat (unat b mod 16) = b"
    by (simp only: of_nat_add of_nat_mult of_nat_numeral)
qed

lemma nibble_less: "unat (b :: u8) div 16 < 16" "unat b mod 16 < 16"
  using unat_u8_less [of b] by (auto simp: less_mult_imp_div_less)

lemma hex_round_trip:
  "length p \<le> sz \<Longrightarrow> vscp_hexStr2ByteArray sz (vscp_byteArray2HexStr p) = Some p"
proof (induction p arbitrary: sz)
  case (Cons b p)
  then obtain k where "sz = Suc k" "length p \<le> k" by (cases sz) auto
  moreover have "vscp_byteArray2HexStr (b # p)
      = hexdig_lower (unat b div 16) # hexdig_lower (unat b mod 16) # vscp_byteArray2HexStr p"
    by (simp add: vscp_byteArray2HexStr_def nibbles)
  ultimately show ?case
    using Cons.IH [of k] nibbles(3) [of b] nibble_less [of b] by simp
qed (simp add: vscp_byteArray2HexStr_def)

lemma digit_value_dec: "n < 10 \<Longrightarrow> digit_value (char_of (48 + n)) = Some n"
  unfolding digit_value_def by (simp add: ord_char_of)

lemma digit_value_hex: "n < 16 \<Longrightarrow> digit_value (hexdig_upper n) = Some n"
  by (erule less_16_cases) (auto simp: digit_value_def ord_hexdig)

lemma digits_value_snoc:
  "digits_value b (ds @ [c]) = digits_value b ds * b + the (digit_value c)"
  by (simp add: digits_value_def)

lemma fmt_d_digit: "c \<in> set (fmt_d n) \<Longrightarrow> 48 \<le> ord c \<and> ord c \<le> 57"
proof (induction n rule: fmt_d.induct)
  case (1 n)
  show ?case
  proof (cases "n < 10")
    case True
    with 1(2) show ?thesis by (subst (asm) fmt_d.simps) (auto simp: ord_char_of)
  next
    case False
    moreover have "n mod 10 < 10" by simp
    ultimately show ?thesis
      using 1 by (subst (asm) (2) fmt_d.simps) (auto simp: ord_char_of)
  qed
qed

lemma fmt_d_nonempty [simp]: "fmt_d n \<noteq> []"
  by (subst fmt_d.simps) auto

lemma digits_value_fmt_d: "digits_value 10 (fmt_d n) = n"
proof (induction n rule: fmt_d.induct)
  case (1 n)
  show ?case
  proof (cases "n < 10")
    case True
    then show ?thesis
      by (subst fmt_d.simps) (simp add: digits_value_def digit_value_dec)
  next
    case False
    then have "digits_value 10 (fmt_d n) = n div 10 * 10 + n mod 10"
      using 1 by (subst fmt_d.simps) (simp add: digits_value_snoc digit_value_dec)
    then show ?thesis by simp
  qed
qed

lemma stoll_digits:
  assumes "s \<noteq> []" and "\<And>c. c \<in> set s \<Longrightarrow> digit_in b c" and "digits_value b s < 2 ^ 63"
  shows "stoll b s = Some (int (digits_value b s))"
proof -
  obtain c cs where s: "s = c # cs" using assms(1) by (cases s) auto
  have c: "digit_in b c" using assms(2) s by simp
  then have start: "dropWhile isspace s = s" "(cur s = CHR ''-'') = False"
      "(cur s = CHR ''+'') = False"
    by (auto simp: s digit_in_def digit_value_def isspace_def split: if_splits)
  have "tolower (cur (tl s)) \<noteq> CHR ''x''" if "b = 16"
  proof (cases cs)
    case (Cons d ds)
    then have "digit_in 16 d" using assms(2) s that by simp
    then have "ord d < 88 \<or> 90 < ord d \<and> ord d < 120"
      by (auto simp: digit_in_def digit_value_def split: if_splits)
    then show ?thesis using Cons s
      by (auto simp: tolower_def ord_eq_iff ord_char_of simp del: of_char_eq_iff)
  qed (simp add: s tolower_def ord_eq_iff del: of_char_eq_iff)
  then have pre: "(if b = 16 \<and> cur s = CHR ''0'' \<and> tolower (cur (tl s)) = CHR ''x''
      \<and> digit_in 16 (cur (tl (tl s))) then tl (tl s) else s) = s" by auto
  have all: "takeWhile (digit_in b) s = s" using assms(2) by simp
  show ?thesis
    unfolding stoll_def Let_def start simp_thms if_False pre all using assms(1,3) by simp
qed

lemma isspace_digit: "48 \<le> ord c \<Longrightarrow> \<not> isspace c"
  by (simp add: isspace_def)

lemma tolower_digit: "ord c < 65 \<Longrightarrow> tolower c = c"
  by (simp add: tolower_def)

lemma find_sub_None: "x \<in> set sub \<Longrightarrow> x \<notin> set s \<Longrightarrow> find_sub sub s = None"
proof (induction s)
  case (Cons c cs)
  then have "take (length sub) (c # cs) \<noteq> sub" by (metis in_set_takeD)
  with Cons show ?case by simp
qed auto

lemma readStringValue_digits:
  assumes "s \<noteq> []" and "\<And>c. c \<in> set s \<Longrightarrow> 48 \<le> ord c \<and> ord c \<le> 57"
    and "digits_value 10 s < 2 ^ 63"
  shows "vscp_readStringValue s = int (digits_value 10 s)"
proof -
  have "c \<notin> set s" if "57 < ord c" for c using assms(2) that by force
  then have nox: "CHR ''x'' \<notin> set s" "CHR ''o'' \<notin> set s" "CHR ''b'' \<notin> set s" by simp_all
  have "map tolower s = s" using assms(2) by (intro map_idI tolower_digit) force
  moreover have "vscp_trim s = s"
    using assms(1,2) by (intro trim_id) (simp add: isspace_digit)
  moreover have "find_sub ''0x'' s = None" "find_sub ''0o'' s = None" "find_sub ''0b'' s = None"
    by (rule find_sub_None, rule list.set_intros(2), rule list.set_intros(1), rule nox)+
  moreover have "stoll 10 s = Some (int (digits_value 10 s))"
  proof (rule stoll_digits [OF assms(1) _ assms(3)])
    show "digit_in 10 c" if "c \<in> set s" for c
      using assms(2) [OF that] by (auto simp: digit_in_def digit_value_def)
  qed
  ultimately show ?thesis by (simp add: vscp_readStringValue_def vscp_makeLower_def Let_def)
qed

lemma readStringValue_fmt_d: "n < 2 ^ 63 \<Longrightarrow> vscp_readStringValue (fmt_d n) = int n"
  using readStringValue_digits [of "fmt_d n"] fmt_d_digit by (simp add: digits_value_fmt_d)

lemma fmt_02X_digits: "c \<in> set (fmt_02X b) \<Longrightarrow> digit_in 16 c"
  using nibble_less [of b] by (auto simp: fmt_02X_def digit_in_def digit_value_hex)

lemma digits_value_fmt_02X: "digits_value 16 (fmt_02X b) = unat b"
  using nibble_less [of b] by (simp add: fmt_02X_def digits_value_def digit_value_hex)

lemma stoll_fmt_02X: "stoll 16 (fmt_02X b) = Some (uint b)"
proof -
  have "stoll 16 (fmt_02X b) = Some (int (digits_value 16 (fmt_02X b)))"
    using unat_u8_less [of b]
    by (intro stoll_digits fmt_02X_digits) (simp_all add: fmt_02X_def [symmetric] digits_value_fmt_02X,
      simp add: fmt_02X_def)
  then show ?thesis by (simp add: digits_value_fmt_02X)
qed

section \<open>Case-insensitive comparison\<close>

lemma trim_pad:
  assumes "list_all isspace w" and "list_all isspace w'"
  shows "vscp_trim (w @ s @ w') = vscp_trim s"
proof -
  have l: "dropWhile isspace (w @ x) = dropWhile isspace x" for x
    using assms(1) by (simp add: dropWhile_append list_all_iff)
  have r: "vscp_rtrim (x @ w') = vscp_rtrim x" for x
    using assms(2) by (simp add: vscp_rtrim_def dropWhile_append list_all_iff)
  have "vscp_rtrim (dropWhile isspace (s @ w')) = vscp_rtrim (dropWhile isspace s)"
  proof (cases "list_all isspace s")
    case True
    then have "dropWhile isspace (s @ w') = []" "dropWhile isspace s = []"
      using assms(2) by (auto simp: list_all_iff)
    then show ?thesis by (simp only:)
  next
    case False
    then have "dropWhile isspace (s @ w') = dropWhile isspace s @ w'"
      by (auto simp: dropWhile_append list_all_iff)
    then show ?thesis by (simp add: r)
  qed
  then show ?thesis by (simp add: vscp_trim_def vscp_ltrim_def l)
qed

lemma tolower_hex_digit:
  assumes "digit_in 16 c" shows "digit_in 16 (tolower c)" and "digit_value (tolower c) = digit_value c"
    and "\<not> isspace (tolower c)"
proof -
  obtain v where v: "digit_value c = Some v" "v < 16"
    using assms by (auto simp: digit_in_def split: option.splits)
  then have "ord (tolower c) = ord c \<or> 65 \<le> ord c \<and> ord c \<le> 70 \<and> ord (tolower c) = ord c + 32"
    using ord_char_of [of "ord c + 32"] by (auto simp: tolower_def digit_value_def split: if_splits)
  with v show "digit_value (tolower c) = digit_value c" "digit_in 16 (tolower c)" "\<not> isspace (tolower c)"
    by (auto simp: digit_in_def digit_value_def isspace_def split: if_splits)
qed

lemma digits_value_map: "(\<And>c. c \<in> set s \<Longrightarrow> digit_value (f c) = digit_value c) \<Longrightarrow>
  digits_value b (map f s) = digits_value b s"
proof (induction s rule: rev_induct)
  case (snoc c s)
  then show ?case by (simp add: digits_value_snoc)
qed simp

lemma readStringValue_hex:
  assumes "list_all isspace w" and "list_all isspace w'"
  shows "vscp_readStringValue (w @ ''0x'' @ fmt_02X b @ w') = uint b"
proof -
  let ?h = "map tolower (fmt_02X b)"
  have low: "map tolower x = x" if "list_all isspace x" for x
    using that by (intro map_idI tolower_digit) (auto simp: list_all_iff isspace_def)
  have x: "map tolower ''0x'' = ''0x''" by (simp add: tolower_def)
  have h: "digit_in 16 c" "\<not> isspace c" if "c \<in> set ?h" for c
    using that tolower_hex_digit [OF fmt_02X_digits] by auto
  have ne: "?h \<noteq> []" by (simp add: fmt_02X_def)
  have "vscp_trim (w @ (''0x'' @ ?h) @ w') = ''0x'' @ ?h"
    using trim_pad [OF assms, of "''0x'' @ ?h"] trim_id [of "''0x'' @ ?h"] ne h(2) [OF last_in_set [OF ne]]
    by (simp add: isspace_def [of "CHR ''0''"])
  moreover have "digits_value 16 ?h = unat b"
    using digits_value_map [of "fmt_02X b" tolower 16] tolower_hex_digit(2) [OF fmt_02X_digits]
    by (simp add: digits_value_fmt_02X)
  then have "stoll 16 ?h = Some (uint b)"
    using stoll_digits [OF ne h(1)] unat_u8_less [of b] by simp
  ultimately show ?thesis
    using low [OF assms(1)] low [OF assms(2)] x
    by (simp add: vscp_readStringValue_def vscp_makeLower_def Let_def)
qed

lemma tolower_eq_ord: "vscp_lowercase s - vscp_lowercase t = 0 \<longleftrightarrow> tolower (cur s) = tolower (cur t)"
  by (simp add: vscp_lowercase_def)

lemma tolower_NUL_iff: "tolower c = NUL \<longleftrightarrow> c = NUL"
  using ord_less [of c] by (auto simp: tolower_def ord_eq_iff ord_char_of simp del: of_char_eq_iff)

lemma tolower_NUL [simp]: "tolower NUL = NUL"
  by (simp add: tolower_NUL_iff)

lemma ord_eq_0: "ord (tolower c) = 0 \<longleftrightarrow> c = NUL"
  by (metis of_char_eq_iff ord_NUL tolower_NUL_iff)

lemma strcasecmp_eq_0_iff:
  "NUL \<notin> set s \<Longrightarrow> NUL \<notin> set t \<Longrightarrow>
   vscp_strcasecmp s t = 0 \<longleftrightarrow> map tolower s = map tolower t"
proof (induction s t rule: vscp_strcasecmp.induct)
  case (1 s t)
  show ?case
  proof (cases s)
    case Nil
    have "vscp_strcasecmp s t = 0 \<longleftrightarrow> tolower (cur t) = NUL"
      by (subst vscp_strcasecmp.simps) (auto simp: Nil Let_def vscp_lowercase_def tolower_NUL_iff ord_eq_iff
          tolower_def simp del: of_char_eq_iff)
    also have "\<dots> \<longleftrightarrow> t = []" using 1(3) by (cases t) (auto simp: tolower_NUL_iff)
    finally show ?thesis by (auto simp: Nil)
  next
    case (Cons c cs)
    show ?thesis
    proof (cases t)
      case t: Nil
      show ?thesis using 1(2) Cons
        by (subst vscp_strcasecmp.simps)
          (auto simp: t Let_def vscp_lowercase_def ord_eq_0)
    next
      case t: (Cons d ds)
      show ?thesis
      proof (cases "tolower c = tolower d")
        case True
        then have "vscp_strcasecmp s t = vscp_strcasecmp cs ds"
          using 1(2) Cons t by (subst vscp_strcasecmp.simps) (auto simp: Let_def vscp_lowercase_def)
        then show ?thesis using 1 Cons t True by (auto simp: vscp_lowercase_def)
      next
        case False
        then have "vscp_strcasecmp s t \<noteq> 0"
          using Cons t by (subst vscp_strcasecmp.simps) (auto simp: Let_def vscp_lowercase_def)
        then show ?thesis using Cons t False by simp
      qed
    qed
  qed
qed

section \<open>Search routines that miss\<close>

text \<open>
  \<^verbatim>\<open>vscp_stristr\<close> does not back up in the text after a partial match, so it overlooks an
  occurrence that \<^verbatim>\<open>vscp_strcasestr\<close> finds.
\<close>

lemma stristr_misses_match:
  "vscp_stristr ''aaab'' ''aab'' = None \<and> vscp_strcasestr ''aaab'' ''aab'' = Some 1"
  by (simp add: vscp_stristr_def vscp_strcasestr_def Let_def vscp_lowercase_def tolower_def NUL_def
      upt_rec numeral_eq_Suc)

text \<open>
  \<^verbatim>\<open>vscp_str_after\<close> takes as many characters from the end as there are before the separator,
  not the part after it.
\<close>

lemma str_after_takes_wrong_part: "vscp_str_after ''key=v'' (CHR ''='') = ''y=v''"
  by (simp add: vscp_str_after_def str_find_def vscp_str_right_def)

section \<open>Properties\<close>

text \<open>splitting a string at a delimiter loses nothing: no token contains the delimiter, and
  joining the tokens with it gives the string back.\<close>

theorem split_is_inverse_of_join:
  "join d (vscp_split s d) = s \<and> list_all (\<lambda>t. d \<notin> set t) (vscp_split s d)"
  by (auto simp: vscp_split_def join_split_loop list_all_iff dest: split_loop_tokens)

text \<open>trimming removes white space from both ends and nothing else, and leaves none there.\<close>

theorem trim_removes_exactly_outer_space:
  "\<exists>pre post. s = pre @ vscp_trim s @ post \<and> list_all isspace pre \<and> list_all isspace post
     \<and> (vscp_trim s = [] \<or> \<not> isspace (hd (vscp_trim s)) \<and> \<not> isspace (last (vscp_trim s)))"
proof -
  obtain pre where pre: "s = pre @ vscp_ltrim s" "list_all isspace pre" using ltrim_split by blast
  obtain post where post: "vscp_ltrim s = vscp_trim s @ post" "list_all isspace post"
    using rtrim_split [of "vscp_ltrim s"] by (auto simp: vscp_trim_def)
  have "s = pre @ vscp_trim s @ post" using pre(1) post(1) by simp
  then show ?thesis using pre(2) post(2) trim_ends by blast
qed

text \<open>reading the hexadecimal text of a byte array gives the array back when the destination is
  large enough.\<close>

theorem hex_text_round_trip:
  assumes "length bytes \<le> sz"
  shows "vscp_hexStr2ByteArray sz (vscp_byteArray2HexStr bytes) = Some bytes"
  by (rule hex_round_trip [OF assms])

theorem hex_text_round_trip_witness:
  "vscp_hexStr2ByteArray 4 (vscp_byteArray2HexStr [0xDE, 0xAD, 0x00, 0xEF]) = Some [0xDE, 0xAD, 0x00, 0xEF]"
  by (rule hex_text_round_trip) simp

text \<open>the number reader gives back every number of up to 63 bits that was printed in decimal.\<close>

theorem number_text_round_trip:
  assumes "n < 2 ^ 63"
  shows "vscp_readStringValue (fmt_d n) = int n"
  by (rule readStringValue_fmt_d [OF assms])

theorem number_text_round_trip_witness: "vscp_readStringValue (fmt_d 1024) = 1024"
  using number_text_round_trip [of 1024] by simp

text \<open>the escaping routine changes no printable character: quotes and backslashes, which it is
  documented to escape, come out as they went in.\<close>

theorem safe_encode_keeps_quotes:
  assumes "list_all (\<lambda>c. 32 \<le> ord c \<and> ord c < 128) str"
  shows "vscp_safe_encode_str str = str"
  using assms by (induction str) (auto simp: vscp_safe_encode_str_def safe_encode_char_def)

theorem safe_encode_keeps_quotes_witness:
  "vscp_safe_encode_str [CHR 0x22, CHR ''a'', CHR 0x5C] = [CHR 0x22, CHR ''a'', CHR 0x5C]"
  by (rule safe_encode_keeps_quotes) simp

text \<open>the case-insensitive comparison reports equality exactly for strings that agree up to the
  case of their letters.\<close>

theorem strcasecmp_zero_iff:
  assumes "NUL \<notin> set s1" and "NUL \<notin> set s2"
  shows "vscp_strcasecmp s1 s2 = 0 \<longleftrightarrow> vscp_lower s1 = vscp_lower s2"
  using strcasecmp_eq_0_iff [OF assms] by (simp add: vscp_lower_def vscp_makeLower_def)

theorem strcasecmp_zero_iff_witness:
  "vscp_strcasecmp ''Vscp'' ''vSCP'' = 0 \<longleftrightarrow> vscp_lower ''Vscp'' = vscp_lower ''vSCP''"
  by (rule strcasecmp_zero_iff) (simp_all add: NUL_def)

end
