(* ===== verification/Guid.thy ===== *)
theory Guid
  imports Event TextUtil
begin

text \<open>
  Globally unique ids: the class \<^verbatim>\<open>cguid\<close> (\<^verbatim>\<open>guid.cpp\<close>, \<^verbatim>\<open>guid.h\<close>) with its parser and its
  three text formats, and the GUID routines of \<^verbatim>\<open>vscphelper.cpp\<close>. The sixteen bytes
  \<^verbatim>\<open>m_guid\<close> are a list. The text formats meet one contract, the locale \<open>guid_format\<close>: what is
  printed is parsed back. It is interpreted on the standard, the compact and the UUID format.

  In the parser a byte counter together with the array it indexes is the list of the bytes stored
  so far; the lemma \<open>guid_parse_length\<close> shows that the sixteen bytes are never exceeded.
\<close>

section \<open>Error codes\<close>

definition VSCP_ERROR_SUCCESS :: int where "VSCP_ERROR_SUCCESS = 0"
definition VSCP_ERROR_INVALID_POINTER :: int where "VSCP_ERROR_INVALID_POINTER = 48"
definition VSCP_ERROR_INVALID_SYNTAX :: int where "VSCP_ERROR_INVALID_SYNTAX = 58"

section \<open>Parser helpers (guid.cpp, anonymous namespace)\<close>

definition isHexDigit :: "char \<Rightarrow> bool" where
  "isHexDigit c \<longleftrightarrow> 48 \<le> ord c \<and> ord c \<le> 57 \<or> 97 \<le> ord c \<and> ord c \<le> 102 \<or> 65 \<le> ord c \<and> ord c \<le> 70"

definition hexToVal :: "char \<Rightarrow> u8" where
  "hexToVal c =
     (if 48 \<le> ord c \<and> ord c \<le> 57 then of_nat (ord c - 48)
      else if 97 \<le> ord c \<and> ord c \<le> 102 then of_nat (ord c - 97 + 10)
      else if 65 \<le> ord c \<and> ord c \<le> 70 then of_nat (ord c - 65 + 10)
      else 0)"

fun countHexDigits :: "string \<Rightarrow> nat" where
  "countHexDigits [] = 0"
| "countHexDigits (c # p) = (if isHexDigit c then countHexDigits p + 1 else 0)"

fun parseHex_loop :: "string \<Rightarrow> nat \<Rightarrow> u32 \<Rightarrow> u32 \<times> string" where
  "parseHex_loop (c # p) (Suc k) v =
     (if isHexDigit c then parseHex_loop p k (push_bit 4 v OR ucast (hexToVal c)) else (v, c # p))"
| "parseHex_loop p k v = (v, p)"

definition parseHexValue :: "string \<Rightarrow> nat \<Rightarrow> u32 \<times> string" where
  "parseHexValue p maxDigits = parseHex_loop p maxDigits 0"

text \<open>The inner \<^verbatim>\<open>for\<close> loop for long digit groups: two digits per byte, a missing last one is 0.\<close>

fun hex_pairs :: "nat \<Rightarrow> string \<Rightarrow> u8 list \<Rightarrow> string \<times> u8 list" where
  "hex_pairs 0 p out = (p, out)"
| "hex_pairs (Suc k) p out =
     (let high = hexToVal (cur p); p = tl p;
          (low, p) = (if isHexDigit (cur p) then (hexToVal (cur p), tl p) else (0, p))
      in hex_pairs k p (out @ [push_bit 4 high OR low]))"

definition is_separator :: "char \<Rightarrow> bool" where
  "is_separator c \<longleftrightarrow> c = CHR '':'' \<or> c = CHR ''-'' \<or> c = CHR '',''"

text \<open>One turn of the \<^verbatim>\<open>parseGroups\<close> loop: the digit group, then a separator.\<close>

definition group_value :: "nat \<Rightarrow> string \<Rightarrow> u8 list \<Rightarrow> string \<times> u8 list" where
  "group_value capacity input out =
     (let hexLen = countHexDigits input
      in if hexLen \<le> 2
         then (let (v, p) = parseHexValue input 2 in (p, out @ [ucast v]))
         else if hexLen \<le> 4
         then (let (v, p) = parseHexValue input 4; value = ucast v :: u16; out = out @ [hi8 value]
               in (p, if length out < capacity then out @ [lo8 value] else out))
         else hex_pairs (min ((hexLen + 1) div 2) (capacity - length out)) input out)"

definition group_step :: "nat \<Rightarrow> string \<Rightarrow> u8 list \<Rightarrow> string \<times> u8 list" where
  "group_step capacity input out =
     (let (input, out) = group_value capacity input out;
          input = (if length out < capacity \<and> is_separator (cur input) then tl input else input)
      in (input, out))"

text \<open>One turn of the main loop; it differs in what a three or four digit group stores last.\<close>

definition guid_value :: "string \<Rightarrow> u8 list \<Rightarrow> string \<times> u8 list" where
  "guid_value p guid =
     (let hexLen = countHexDigits p
      in if hexLen \<le> 2
         then (let (v, p) = parseHexValue p 2 in (p, guid @ [ucast v]))
         else if hexLen \<le> 4
         then (let (v, p) = parseHexValue p 4; value = ucast v :: u16
               in (p, if length guid + 1 < 16 then guid @ [hi8 value] @ [lo8 value]
                      else guid @ [lo8 value]))
         else hex_pairs (min ((hexLen + 1) div 2) (16 - length guid)) p guid)"

definition guid_step :: "string \<Rightarrow> u8 list \<Rightarrow> string \<times> u8 list" where
  "guid_step p guid =
     (let (p, guid) = guid_value p guid;
          p = (if length guid < 16 \<and> is_separator (cur p) then tl p else p)
      in (p, guid))"

section \<open>Every turn consumes input\<close>

lemma isHexDigit_NUL [simp]: "\<not> isHexDigit NUL"
  by (simp add: isHexDigit_def)

lemma cur_hex_Cons: "isHexDigit (cur p) \<Longrightarrow> \<exists>c q. p = c # q \<and> isHexDigit c"
  by (cases p) auto

lemma parseHex_loop_length: "length (snd (parseHex_loop p k v)) \<le> length p"
  by (induction p k v rule: parseHex_loop.induct) auto

lemma parseHexValue_shorter:
  "isHexDigit (cur p) \<Longrightarrow> 0 < k \<Longrightarrow> length (snd (parseHexValue p k)) < length p"
  using cur_hex_Cons [of p] parseHex_loop_length
  by (cases k) (auto simp: parseHexValue_def less_Suc_eq_le)

lemma hex_pairs_length: "length (fst (hex_pairs k p out)) \<le> length p"
proof (induction k arbitrary: p out)
  case (Suc k)
  have "length (fst (hex_pairs k r o')) \<le> length p" if "length r \<le> length p" for r o'
    using Suc [of r o'] that by simp
  then show ?case by (simp add: Let_def)
qed simp

lemma hex_pairs_shorter:
  assumes "isHexDigit (cur p)" and "0 < k"
  shows "length (fst (hex_pairs k p out)) < length p"
proof -
  obtain c q where p: "p = c # q" using cur_hex_Cons [OF assms(1)] by blast
  obtain j where k: "k = Suc j" using assms(2) by (cases k) auto
  have "length (fst (hex_pairs j r o')) < length p" if "length r \<le> length q" for r o'
    using hex_pairs_length [of j r o'] that p by simp
  then show ?thesis by (simp add: k p Let_def)
qed

lemma countHexDigits_pos: "isHexDigit (cur p) \<Longrightarrow> 0 < countHexDigits p"
  using cur_hex_Cons by force

lemma pairs_shorter:
  assumes "isHexDigit (cur p)" and "length out < capacity"
  shows "length (fst (hex_pairs (min ((countHexDigits p + 1) div 2) (capacity - length out)) p out))
           < length p"
  using hex_pairs_shorter [OF assms(1)] countHexDigits_pos [OF assms(1)] assms(2) by simp

lemma group_step_shorter:
  assumes "isHexDigit (cur p)" and "length out < capacity"
  shows "length (fst (group_step capacity p out)) < length p"
proof -
  have "length (fst (group_value capacity p out)) < length p"
    using parseHexValue_shorter [OF assms(1), of 2] parseHexValue_shorter [OF assms(1), of 4]
      pairs_shorter [OF assms]
    by (cases "parseHexValue p 2"; cases "parseHexValue p 4") (simp add: group_value_def Let_def)
  then show ?thesis by (cases "group_value capacity p out") (auto simp: group_step_def Let_def)
qed

lemma guid_step_shorter:
  assumes "isHexDigit (cur p)" and "length guid < 16"
  shows "length (fst (guid_step p guid)) < length p"
proof -
  have "length (fst (guid_value p guid)) < length p"
    using parseHexValue_shorter [OF assms(1), of 2] parseHexValue_shorter [OF assms(1), of 4]
      pairs_shorter [OF assms]
    by (cases "parseHexValue p 2"; cases "parseHexValue p 4") (simp add: guid_value_def Let_def)
  then show ?thesis by (cases "guid_value p guid") (auto simp: guid_step_def Let_def)
qed

section \<open>The parser\<close>

function parseGroups :: "nat \<Rightarrow> string \<Rightarrow> u8 list \<Rightarrow> string \<times> u8 list" where
  "parseGroups capacity input out =
     (if length out < capacity \<and> isHexDigit (cur input)
      then case group_step capacity input out of (input, out) \<Rightarrow> parseGroups capacity input out
      else (input, out))"
  by pat_completeness auto
termination
proof (relation "measure (\<lambda>(c, p, out). length p)", simp)
  fix c p out q out' assume "length out < c \<and> isHexDigit (cur p)" "(q, out') = group_step c p out"
  then show "((c, q, out'), c, p, out) \<in> measure (\<lambda>(c, p, out). length p)"
    using group_step_shorter [of p out c] by (metis case_prod_conv fst_conv in_measure)
qed

function guid_loop :: "string \<Rightarrow> u8 list \<Rightarrow> string \<times> u8 list" where
  "guid_loop p guid =
     (if length guid < 16 \<and> isHexDigit (cur p)
      then case guid_step p guid of (p, guid) \<Rightarrow> guid_loop p guid
      else (p, guid))"
  by pat_completeness auto
termination
proof (relation "measure (\<lambda>(p, guid). length p)", simp)
  fix p guid q guid' assume "length guid < 16 \<and> isHexDigit (cur p)" "(q, guid') = guid_step p guid"
  then show "((q, guid'), p, guid) \<in> measure (\<lambda>(p, guid). length p)"
    using guid_step_shorter [of p guid] by (metis case_prod_conv fst_conv in_measure)
qed

declare parseGroups.simps [simp del] guid_loop.simps [simp del]

function countParsedBytes :: "string \<Rightarrow> nat" where
  "countParsedBytes value =
     (if cur value = NUL then 0
      else if \<not> isHexDigit (cur value) then countParsedBytes (tl value)
      else let hexLen = countHexDigits value
           in (if hexLen \<le> 2 then 1 else if hexLen \<le> 4 then 2 else (hexLen + 1) div 2)
              + countParsedBytes (drop hexLen value))"
  by pat_completeness auto
termination
proof (relation "measure length", simp)
  fix v :: string assume "cur v \<noteq> NUL"
  then have v: "0 < length v" by (cases v) auto
  then show "(tl v, v) \<in> measure length" by simp
  fix n assume "\<not> \<not> isHexDigit (cur v)" "n = countHexDigits v"
  then show "(drop n v, v) \<in> measure length"
    using v countHexDigits_pos [of v] by simp
qed

declare countParsedBytes.simps [simp del]

text \<open>\<^verbatim>\<open>strstr(p, "::")\<close>: the text before the first occurrence and the text after it.\<close>

fun find_dcolon :: "string \<Rightarrow> (string \<times> string) option" where
  "find_dcolon (a # b # p) =
     (if a = CHR '':'' \<and> b = CHR '':'' then Some ([], p)
      else if a = NUL then None
      else map_option (\<lambda>(pre, post). (a # pre, post)) (find_dcolon (b # p)))"
| "find_dcolon _ = None"

lemma find_dcolon_length:
  "find_dcolon p = Some (pre, post) \<Longrightarrow> length pre + length post + 2 = length p"
  by (induction p arbitrary: pre rule: find_dcolon.induct) (auto split: if_splits)

definition is_blank :: "char \<Rightarrow> bool" where
  "is_blank c \<longleftrightarrow> c = CHR '' '' \<or> c = CHR 0x09"

definition skip_blanks :: "string \<Rightarrow> string" where
  "skip_blanks p = dropWhile is_blank p"

text \<open>The closure \<^verbatim>\<open>finish\<close>: the position that is reported through \<^verbatim>\<open>endptr\<close>.\<close>

definition guid_finish :: "bool \<Rightarrow> string \<Rightarrow> string" where
  "guid_finish hasBraces p =
     (if hasBraces then (let p = skip_blanks p in if cur p = CHR ''}'' then tl p else p) else p)"

text \<open>Sixteen bytes, the first ones given, the others still zero from the \<^verbatim>\<open>memset\<close>.\<close>

definition guid_array :: "u8 list \<Rightarrow> u8 list" where
  "guid_array bs = bs @ replicate (16 - length bs) 0"

text \<open>Return code, the sixteen bytes, and what \<^verbatim>\<open>endptr\<close> is set to (if it is).\<close>

type_synonym guid_result = "int \<times> u8 list \<times> string option"

definition guid_main :: "bool \<Rightarrow> string \<Rightarrow> guid_result" where
  "guid_main hasBraces p =
     (let (p, guid) = guid_loop p []
      in if length guid \<noteq> 16 then (VSCP_ERROR_INVALID_SYNTAX, guid_array guid, None)
         else (VSCP_ERROR_SUCCESS, guid, Some (guid_finish hasBraces p)))"

text \<open>The text after leading blanks and an opening brace.\<close>

definition guid_open :: "string \<Rightarrow> bool \<times> string" where
  "guid_open strguid =
     (let p = skip_blanks strguid
      in if cur p = CHR ''{'' then (True, skip_blanks (tl p)) else (False, p))"

text \<open>The early returns: nothing there, the dash forms, the leading double colon forms.\<close>

definition guid_early :: "bool \<Rightarrow> string \<Rightarrow> guid_result option" where
  "guid_early hasBraces p =
     (if cur p = NUL
      then Some (VSCP_ERROR_SUCCESS, replicate 16 0, Some (guid_finish hasBraces p))
      else if cur p = CHR ''-'' \<and> cur (tl p) = CHR '':''
      then (let (p, trailing) = parseGroups 16 (drop 2 p) []
            in Some (VSCP_ERROR_SUCCESS, replicate (16 - length trailing) 0 @ trailing,
                     Some (guid_finish hasBraces p)))
      else if cur p = CHR ''-'' \<and> (cur (tl p) = NUL \<or> \<not> isHexDigit (cur (tl p)))
      then Some (VSCP_ERROR_SUCCESS, replicate 16 0, Some (guid_finish hasBraces (tl p)))
      else if (cur p = CHR '':'' \<or> cur p = CHR ''*'') \<and> cur (tl p) = CHR '':''
      then (if cur (drop 2 p) = NUL \<or> \<not> isHexDigit (cur (drop 2 p))
            then Some (VSCP_ERROR_SUCCESS, replicate 16 0xFF, Some (guid_finish hasBraces (drop 2 p)))
            else (let (p, trailing) = parseGroups 16 (drop 2 p) []
                  in Some (VSCP_ERROR_SUCCESS, replicate (16 - length trailing) 0xFF @ trailing,
                           Some (guid_finish hasBraces p))))
      else None)"

text \<open>The two \<^verbatim>\<open>memcpy\<close> calls that place the parts around an inner double colon.\<close>

definition guid_middle :: "string \<Rightarrow> u8 list \<Rightarrow> string \<Rightarrow> u8 list \<Rightarrow> u8 list" where
  "guid_middle prefix prefixGuid suffix suffixGuid =
     (let prefixCount = min (countParsedBytes prefix) 16;
          suffixCount = min (countParsedBytes suffix) (16 - prefixCount)
      in take prefixCount prefixGuid @ replicate (16 - prefixCount - suffixCount) 0
         @ take suffixCount suffixGuid)"

lemma guid_open_length: "guid_open s = (b, p) \<Longrightarrow> length p \<le> length s"
proof -
  have "length (skip_blanks q) \<le> length q" for q
    by (simp add: skip_blanks_def length_dropWhile_le)
  from this [of s] this [of "tl (skip_blanks s)"] show "guid_open s = (b, p) \<Longrightarrow> length p \<le> length s"
    by (auto simp: guid_open_def Let_def split: if_splits)
qed

function guid_parse :: "string \<Rightarrow> guid_result" where
  "guid_parse strguid =
     (case guid_open strguid of (hasBraces, p) \<Rightarrow>
        (case guid_early hasBraces p of
           Some result \<Rightarrow> result
         | None \<Rightarrow>
             (case find_dcolon p of
                Some (prefix, suffix) \<Rightarrow>
                  (if prefix = [] then guid_main hasBraces p
                   else (VSCP_ERROR_SUCCESS,
                         guid_middle prefix (fst (snd (guid_parse prefix)))
                                     suffix (fst (snd (guid_parse suffix))),
                         Some (guid_finish hasBraces p)))
              | None \<Rightarrow> guid_main hasBraces p)))"
  by pat_completeness auto

termination
proof (relation "measure length", simp)
  fix s b p x pre post
  assume "(b, p) = guid_open s" and "find_dcolon p = Some x" "(pre, post) = x"
  then show "(pre, s) \<in> measure length" "(post, s) \<in> measure length"
    using guid_open_length [of s b p] find_dcolon_length [of p pre post] by simp_all
qed

declare guid_parse.simps [simp del]

section \<open>The class cguid\<close>

text \<open>
  \<^verbatim>\<open>cguid::vscp_guid_parse\<close> with its pointer checks: the return code, the destination and the
  value stored through \<^verbatim>\<open>endptr\<close>.
\<close>

definition vscp_guid_parse :: "u8 list ptr \<Rightarrow> string ptr \<Rightarrow> int \<times> u8 list ptr \<times> string option" where
  "vscp_guid_parse guid strguid =
     (case guid of None \<Rightarrow> (VSCP_ERROR_INVALID_POINTER, None, None)
      | Some g \<Rightarrow> (case strguid of None \<Rightarrow> (VSCP_ERROR_INVALID_POINTER, Some g, None)
      | Some s \<Rightarrow> (case guid_parse s of (rv, g', e) \<Rightarrow> (rv, Some g', e))))"

definition cguid_clear :: "u8 list" where "cguid_clear = replicate 16 0"

text \<open>The return code is dropped: the object holds whatever the parser left in it.\<close>

definition cguid_getFromString :: "string \<Rightarrow> u8 list" where
  "cguid_getFromString strGUID = fst (snd (guid_parse strGUID))"

definition cguid_getFromArray :: "u8 list \<Rightarrow> u8 list safe" where
  "cguid_getFromArray pguid = rd_block pguid 0 16"

definition cguid_eq :: "u8 list \<Rightarrow> u8 list \<Rightarrow> bool" where
  "cguid_eq m_guid guid \<longleftrightarrow> take 16 m_guid = take 16 guid"

definition cguid_neq :: "u8 list \<Rightarrow> u8 list \<Rightarrow> bool" where
  "cguid_neq m_guid guid \<longleftrightarrow> \<not> cguid_eq m_guid guid"

definition cguid_getAt :: "u8 list \<Rightarrow> u8 \<Rightarrow> u8 safe" where
  "cguid_getAt m_guid pos = rd m_guid (unat (pos AND 0x0f))"

definition cguid_setAt :: "u8 list \<Rightarrow> u8 \<Rightarrow> u8 \<Rightarrow> u8 list safe" where
  "cguid_setAt m_guid pos v = wr_block m_guid (unat (pos AND 0x0f)) [v]"

definition cguid_toString :: "u8 list \<Rightarrow> string" where
  "cguid_toString m_guid = join (CHR '':'') (map fmt_02X m_guid)"

definition cguid_toStringCompact :: "u8 list \<Rightarrow> string" where
  "cguid_toStringCompact m_guid =
     (let ffCount = length (takeWhile (\<lambda>b. b = 0xFF) m_guid)
      in if ffCount = 16 then ''::''
         else if ffCount = 0 then cguid_toString m_guid
         else ''::'' @ join (CHR '':'') (map fmt_02X (drop ffCount m_guid)))"

definition hex_block :: "u8 list \<Rightarrow> string" where
  "hex_block bs = concat (map fmt_02X bs)"

definition cguid_toStringUUID :: "u8 list \<Rightarrow> string" where
  "cguid_toStringUUID m_guid =
     join (CHR ''-'')
       [hex_block (take 4 m_guid), hex_block (take 2 (drop 4 m_guid)), hex_block (take 2 (drop 6 m_guid)),
        hex_block (take 2 (drop 8 m_guid)), hex_block (drop 10 m_guid)]"

definition cguid_isSameGUID :: "u8 list \<Rightarrow> u8 list ptr \<Rightarrow> bool" where
  "cguid_isSameGUID m_guid pguid =
     (case pguid of None \<Rightarrow> False | Some g \<Rightarrow> take 16 m_guid = take 16 g)"

definition cguid_isNULL :: "u8 list \<Rightarrow> bool" where
  "cguid_isNULL m_guid \<longleftrightarrow> list_all (\<lambda>b. b = 0) (take 16 m_guid)"

definition cguid_writeGUID :: "u8 list \<Rightarrow> u8 list ptr \<Rightarrow> u8 list ptr safe" where
  "cguid_writeGUID m_guid pArray =
     (case pArray of None \<Rightarrow> Some None | Some a \<Rightarrow> map_option Some (wr_block a 0 (take 16 m_guid)))"

definition reversed :: "u8 list \<Rightarrow> u8 list" where
  "reversed m_guid = map (\<lambda>i. m_guid ! (15 - i)) [0..<16]"

definition cguid_reverse :: "u8 list \<Rightarrow> u8 list" where
  "cguid_reverse m_guid = reversed m_guid"

definition cguid_writeGUID_reverse :: "u8 list \<Rightarrow> u8 list ptr \<Rightarrow> u8 list ptr safe" where
  "cguid_writeGUID_reverse m_guid pArray =
     (case pArray of None \<Rightarrow> Some None | Some a \<Rightarrow> map_option Some (wr_block a 0 (reversed m_guid)))"

definition cguid_setClientID :: "u8 list \<Rightarrow> u16 \<Rightarrow> u8 list" where
  "cguid_setClientID m_guid clientid = m_guid[12 := hi8 clientid, 13 := lo8 clientid]"

definition cguid_getClientID :: "u8 list \<Rightarrow> u16" where
  "cguid_getClientID m_guid = be16 (m_guid ! 12) (m_guid ! 13)"

definition cguid_setNicknameID :: "u8 list \<Rightarrow> u16 \<Rightarrow> u8 list" where
  "cguid_setNicknameID m_guid nicknameid = m_guid[14 := hi8 nicknameid, 15 := lo8 nicknameid]"

definition cguid_getNicknameID :: "u8 list \<Rightarrow> u16" where
  "cguid_getNicknameID m_guid = be16 (m_guid ! 14) (m_guid ! 15)"

definition cguid_setLSB :: "u8 list \<Rightarrow> u8 \<Rightarrow> u8 list" where "cguid_setLSB m_guid v = m_guid[15 := v]"
definition cguid_getLSB :: "u8 list \<Rightarrow> u8" where "cguid_getLSB m_guid = m_guid ! 15"
definition cguid_setMSB :: "u8 list \<Rightarrow> u8 \<Rightarrow> u8 list" where "cguid_setMSB m_guid v = m_guid[0 := v]"
definition cguid_getMSB :: "u8 list \<Rightarrow> u8" where "cguid_getMSB m_guid = m_guid ! 0"

section \<open>GUID routines of vscphelper.cpp\<close>

fun crc8_bytes :: "crc8_state \<Rightarrow> u8 \<Rightarrow> u8 list \<Rightarrow> crc8_state \<times> u8" where
  "crc8_bytes s c [] = (s, c)"
| "crc8_bytes s c (b # bs) = (case crc8 s c b of (s, c) \<Rightarrow> crc8_bytes s c bs)"

definition vscp_calcCRC4GUIDArray :: "crc8_state \<Rightarrow> u8 list \<Rightarrow> (crc8_state \<times> u8) safe" where
  "vscp_calcCRC4GUIDArray s pguid =
     do { bs \<leftarrow> rd_block pguid 0 16; Some (crc8_bytes (init_crc8 s) 0 bs) }"

definition vscp_getGuidFromStringToArray :: "u8 list ptr \<Rightarrow> string \<Rightarrow> (bool \<times> u8 list ptr) safe" where
  "vscp_getGuidFromStringToArray pGUID strGUID =
     (case pGUID of None \<Rightarrow> Some (False, None)
      | Some g \<Rightarrow> do { g \<leftarrow> wr_block g 0 (cguid_getFromString strGUID); Some (True, Some g) })"

definition vscp_calcCRC4GUIDString :: "crc8_state \<Rightarrow> string \<Rightarrow> (crc8_state \<times> u8) safe" where
  "vscp_calcCRC4GUIDString s strguid =
     do { (_, g) \<leftarrow> vscp_getGuidFromStringToArray (Some (replicate 16 0)) strguid;
          guid \<leftarrow> g;
          bs \<leftarrow> rd_block guid 0 16;
          Some (crc8_bytes (init_crc8 s) 0 bs) }"

definition vscp_parseGuid :: "u8 list ptr \<Rightarrow> string \<Rightarrow> bool \<times> u8 list ptr" where
  "vscp_parseGuid pGUID strGUID =
     (case pGUID of None \<Rightarrow> (False, None)
      | Some g \<Rightarrow> (case vscp_guid_parse (Some g) (Some strGUID) of
                     (rv, g', _) \<Rightarrow> (VSCP_ERROR_SUCCESS = rv, g')))"

fun set_guid_tokens :: "nat \<Rightarrow> string list \<Rightarrow> u8 list \<Rightarrow> u8 list" where
  "set_guid_tokens i [] guid = guid"
| "set_guid_tokens i (t # tokens) guid =
     (if i < 16
      then set_guid_tokens (i + 1) tokens
             (guid[i := (case stoll 16 t of None \<Rightarrow> 0 | Some v \<Rightarrow> word_of_int v)])
      else guid)"

definition vscp_setEventGuidFromString :: "vscpEvent ptr \<Rightarrow> string \<Rightarrow> bool \<times> vscpEvent ptr" where
  "vscp_setEventGuidFromString pev strGUID =
     (case pev of None \<Rightarrow> (False, None)
      | Some ev \<Rightarrow>
         (let str = vscp_trim strGUID
          in if length str = 0 \<or> str = ''-''
             then (True, Some (ev\<lparr>GUID := replicate 16 0\<rparr>))
             else (True, Some (ev\<lparr>GUID := set_guid_tokens 0 (vscp_split strGUID (CHR '':'')) (GUID ev)\<rparr>))))"

text \<open>Two ways a routine can fail to return: undefined behaviour, and an exception that escapes.\<close>

datatype fault = Undefined_Behaviour | Exception

fun setExGuid_loop :: "nat \<Rightarrow> nat \<Rightarrow> string list \<Rightarrow> u8 list \<Rightarrow> fault + u8 list" where
  "setExGuid_loop 0 i tokens guid = Inr guid"
| "setExGuid_loop (Suc k) i [] guid = Inl Undefined_Behaviour"
| "setExGuid_loop (Suc k) i (t # tokens) guid =
     (case stoll 16 t of None \<Rightarrow> Inl Exception
      | Some v \<Rightarrow> (let guid = guid[i := word_of_int v]
                   in if tokens \<noteq> [] then Inr guid else setExGuid_loop k (i + 1) tokens guid))"

definition vscp_setEventExGuidFromString ::
  "vscpEventEx ptr \<Rightarrow> string \<Rightarrow> fault + (bool \<times> vscpEventEx ptr)" where
  "vscp_setEventExGuidFromString pev strGUID =
     (case pev of None \<Rightarrow> Inr (False, None)
      | Some ex \<Rightarrow>
         (if strGUID = ''-'' then Inr (True, Some (ex\<lparr>xGUID := replicate 16 0\<rparr>))
          else case setExGuid_loop 16 0 (vscp_split strGUID (CHR '':'')) (replicate 16 0) of
                 Inl f \<Rightarrow> Inl f
               | Inr g \<Rightarrow> Inr (True, Some (ex\<lparr>xGUID := g\<rparr>))))"

datatype vscp_guid_str_format =
  VSCP_GUID_STR_FORMAT_NORMAL | VSCP_GUID_STR_FORMAT_COMPACT | VSCP_GUID_STR_FORMAT_UUID

definition guid_text :: "vscp_guid_str_format \<Rightarrow> u8 list \<Rightarrow> string" where
  "guid_text format guid =
     (case format of
        VSCP_GUID_STR_FORMAT_COMPACT \<Rightarrow>
          (let ffCount = length (takeWhile (\<lambda>b. b = 0xFF) guid)
           in if ffCount = 16 then ''::''
              else if ffCount = 0 then join (CHR '':'') (map fmt_02X guid)
              else ''::'' @ join (CHR '':'') (map fmt_02X (drop ffCount guid)))
      | VSCP_GUID_STR_FORMAT_UUID \<Rightarrow>
          join (CHR ''-'')
            [hex_block (take 4 guid), hex_block (take 2 (drop 4 guid)), hex_block (take 2 (drop 6 guid)),
             hex_block (take 2 (drop 8 guid)), hex_block (drop 10 guid)]
      | VSCP_GUID_STR_FORMAT_NORMAL \<Rightarrow> join (CHR '':'') (map fmt_02X guid))"

definition vscp_writeGuidToString ::
  "string \<Rightarrow> vscpEvent ptr \<Rightarrow> vscp_guid_str_format \<Rightarrow> bool \<times> string" where
  "vscp_writeGuidToString strGUID pev format =
     (case pev of None \<Rightarrow> (False, strGUID) | Some ev \<Rightarrow> (True, guid_text format (GUID ev)))"

definition vscp_writeGuidToStringEx ::
  "string \<Rightarrow> vscpEventEx ptr \<Rightarrow> vscp_guid_str_format \<Rightarrow> bool \<times> string" where
  "vscp_writeGuidToStringEx strGUID pev format =
     (case pev of None \<Rightarrow> (False, strGUID) | Some ex \<Rightarrow> (True, guid_text format (xGUID ex)))"

definition guid_rows :: "u8 list \<Rightarrow> string" where
  "guid_rows guid =
     join (CHR 0x0A) (map (\<lambda>k. join (CHR '':'') (map fmt_02X (take 4 (drop k guid)))) [0, 4, 8, 12])"

definition vscp_writeGuidToString4Rows :: "string \<Rightarrow> vscpEvent ptr \<Rightarrow> bool \<times> string" where
  "vscp_writeGuidToString4Rows strGUID pev =
     (case pev of None \<Rightarrow> (False, strGUID) | Some ev \<Rightarrow> (True, guid_rows (GUID ev)))"

definition vscp_writeGuidToString4RowsEx :: "string \<Rightarrow> vscpEventEx ptr \<Rightarrow> bool \<times> string" where
  "vscp_writeGuidToString4RowsEx strGUID pev =
     (case pev of None \<Rightarrow> (False, strGUID) | Some ex \<Rightarrow> (True, guid_rows (xGUID ex)))"

definition vscp_writeGuidArrayToString ::
  "string \<Rightarrow> u8 list ptr \<Rightarrow> bool \<Rightarrow> vscp_guid_str_format \<Rightarrow> bool \<times> string" where
  "vscp_writeGuidArrayToString strGUID pGUID bUseComma format =
     (case pGUID of None \<Rightarrow> (False, strGUID)
      | Some g \<Rightarrow>
         (True, if format = VSCP_GUID_STR_FORMAT_NORMAL \<and> bUseComma
                then join (CHR '','') (map (\<lambda>b. fmt_d (unat b)) g)
                else guid_text format g))"

definition vscp_isGUIDEmpty :: "u8 list ptr \<Rightarrow> bool" where
  "vscp_isGUIDEmpty pGUID =
     (case pGUID of None \<Rightarrow> False | Some g \<Rightarrow> sum_list (map uint (take 16 g)) = 0)"

definition vscp_isSameGUID :: "u8 list ptr \<Rightarrow> u8 list ptr \<Rightarrow> bool" where
  "vscp_isSameGUID pGUID1 pGUID2 =
     (case pGUID1 of None \<Rightarrow> False
      | Some g1 \<Rightarrow> (case pGUID2 of None \<Rightarrow> False | Some g2 \<Rightarrow> take 16 g1 = take 16 g2))"

definition vscp_reverseGUID :: "u8 list ptr \<Rightarrow> bool \<times> u8 list ptr" where
  "vscp_reverseGUID pGUID =
     (case pGUID of None \<Rightarrow> (False, None) | Some g \<Rightarrow> (True, Some (reversed g)))"

section \<open>The parser stays inside its sixteen bytes\<close>

lemma hex_pairs_out: "length (snd (hex_pairs k p out)) = length out + k"
proof (induction k arbitrary: p out)
  case (Suc k)
  then show ?case by (simp add: Let_def)
qed simp

lemma group_value_out:
  assumes "length out < capacity"
  shows "length (snd (group_value capacity p out)) \<le> capacity"
  using assms
  by (cases "parseHexValue p 2"; cases "parseHexValue p 4")
    (simp add: group_value_def Let_def hex_pairs_out, linarith?)

lemma group_step_out: "snd (group_step capacity p out) = snd (group_value capacity p out)"
  by (cases "group_value capacity p out") (simp add: group_step_def Let_def)

lemma parseGroups_out:
  "length out \<le> capacity \<Longrightarrow> length (snd (parseGroups capacity p out)) \<le> capacity"
proof (induction capacity p out rule: parseGroups.induct)
  case (1 capacity p out)
  show ?case
  proof (cases "length out < capacity \<and> isHexDigit (cur p)")
    case True
    obtain q out' where st: "group_step capacity p out = (q, out')" by fastforce
    have "length out' \<le> capacity"
      using group_value_out [of out capacity p] True st group_step_out [of capacity p out] by simp
    then show ?thesis using 1(1) [OF True st [symmetric]] True st
      by (subst parseGroups.simps) simp
  next
    case False
    then have "parseGroups capacity p out = (p, out)" by (subst parseGroups.simps) (rule if_not_P)
    then show ?thesis using 1(2) by simp
  qed
qed

lemma guid_value_out:
  assumes "length guid < 16"
  shows "length (snd (guid_value p guid)) \<le> 16"
  using assms
  by (cases "parseHexValue p 2"; cases "parseHexValue p 4")
    (simp add: guid_value_def Let_def hex_pairs_out, linarith?)

lemma guid_step_out: "snd (guid_step p guid) = snd (guid_value p guid)"
  by (cases "guid_value p guid") (simp add: guid_step_def Let_def)

lemma guid_loop_out: "length guid \<le> 16 \<Longrightarrow> length (snd (guid_loop p guid)) \<le> 16"
proof (induction p guid rule: guid_loop.induct)
  case (1 p guid)
  show ?case
  proof (cases "length guid < 16 \<and> isHexDigit (cur p)")
    case True
    obtain q guid' where st: "guid_step p guid = (q, guid')" by fastforce
    have "length guid' \<le> 16"
      using guid_value_out [of guid p] True st guid_step_out [of p guid] by simp
    then show ?thesis using 1(1) [OF True st [symmetric]] True st
      by (subst guid_loop.simps) simp
  next
    case False
    then have "guid_loop p guid = (p, guid)" by (subst guid_loop.simps) (rule if_not_P)
    then show ?thesis using 1(2) by simp
  qed
qed

lemma guid_main_length: "length (fst (snd (guid_main b p))) = 16"
  using guid_loop_out [of "[]" p] by (auto simp: guid_main_def guid_array_def split: prod.split)

lemma guid_early_length:
  assumes "guid_early b p = Some r"
  shows "length (fst (snd r)) = 16"
proof -
  obtain q t where g: "parseGroups 16 (drop 2 p) [] = (q, t)" by fastforce
  have "length (snd (parseGroups 16 (drop 2 p) [])) \<le> 16" by (rule parseGroups_out) simp
  then have "length t \<le> 16" by (simp add: g)
  with assms show ?thesis unfolding guid_early_def g Let_def prod.case by (auto split: if_splits)
qed

lemma guid_middle_length:
  assumes "length g = 16" and "length h = 16"
  shows "length (guid_middle pre g post h) = 16"
proof -
  define a b where "a = min (countParsedBytes pre) 16" and "b = min (countParsedBytes post) (16 - a)"
  have "guid_middle pre g post h = take a g @ replicate (16 - a - b) 0 @ take b h"
    by (simp add: guid_middle_def Let_def a_def b_def)
  moreover have "a \<le> 16" "a + b \<le> 16" by (auto simp: a_def b_def)
  ultimately show ?thesis using assms by simp
qed

lemma guid_parse_length: "length (fst (snd (guid_parse s))) = 16"
proof (induction s rule: guid_parse.induct)
  case (1 s)
  obtain b p where o: "guid_open s = (b, p)" by fastforce
  show ?case
  proof (cases "guid_early b p")
    case early: None
    show ?thesis
    proof (cases "find_dcolon p")
      case None
      then show ?thesis by (subst guid_parse.simps) (simp add: o early guid_main_length)
    next
      case (Some x)
      obtain pre post where x: "x = (pre, post)" by (cases x)
      show ?thesis
        using 1(1) [OF o [symmetric] early Some x [symmetric]]
          1(2) [OF o [symmetric] early Some x [symmetric]]
        by (subst guid_parse.simps) (simp add: o early Some x guid_main_length guid_middle_length)
    qed
  next
    case (Some r)
    then show ?thesis by (subst guid_parse.simps) (simp add: o guid_early_length)
  qed
qed

section \<open>Reading printed bytes\<close>

lemma hexdig_reads [simp]:
  assumes "n < 16"
  shows "isHexDigit (hexdig_upper n)" and "hexToVal (hexdig_upper n) = of_nat n"
  using assms by (auto simp: isHexDigit_def hexToVal_def ord_hexdig)

lemma fmt_02X_Cons: "\<exists>a b. fmt_02X v = [a, b] \<and> isHexDigit a \<and> isHexDigit b
    \<and> hexToVal a = of_nat (unat v div 16) \<and> hexToVal b = of_nat (unat v mod 16)"
  using nibble_less [of v] by (simp add: fmt_02X_def)

lemma nibble_words:
  "(of_nat (unat v div 16) :: u8) = drop_bit 4 v" "(of_nat (unat v mod 16) :: u8) = take_bit 4 v"
proof -
  show "(of_nat (unat v div 16) :: u8) = drop_bit 4 v"
    unfolding nibbles(1) [symmetric] by (rule word_unat_eq_iff [THEN iffD2]) (simp add: unat_u8_less)
  have "take_bit 4 v = v AND 0x0f" by (simp add: take_bit_eq_mask mask_eq_exp_minus_1)
  then show "(of_nat (unat v mod 16) :: u8) = take_bit 4 v"
    unfolding nibbles(2) [symmetric]
    by (intro word_unat_eq_iff [THEN iffD2]) (simp add: unat_u8_less)
qed

lemma nibbles_or: "push_bit 4 (of_nat (unat v div 16)) OR of_nat (unat v mod 16) = (v :: u8)"
  unfolding nibble_words
  by (rule bit_word_eqI)
    (auto simp: bit_or_iff bit_push_bit_iff bit_drop_bit_eq bit_take_bit_iff)

lemma nibbles_or_u32:
  "push_bit 4 (push_bit 4 w OR ucast (of_nat (unat v div 16) :: u8)) OR ucast (of_nat (unat v mod 16) :: u8)
   = (push_bit 8 w OR ucast (v :: u8) :: u32)"
  unfolding nibble_words
  by (rule bit_word_eqI)
    (auto simp: bit_or_iff bit_push_bit_iff bit_drop_bit_eq bit_take_bit_iff bit_ucast_iff
      dest: bit_imp_le_length)

lemma parseHex_loop_byte:
  "parseHex_loop (fmt_02X v @ rest) (Suc (Suc k)) w = parseHex_loop rest k (push_bit 8 w OR ucast v)"
  using fmt_02X_Cons [of v] nibbles_or_u32 [of w v] by auto

lemma parseHexValue_byte: "parseHexValue (fmt_02X v @ rest) 2 = (ucast v, rest)"
  using parseHex_loop_byte [of v rest 0 0] by (simp add: parseHexValue_def numeral_2_eq_2)

lemma parseHexValue_word:
  "parseHexValue (fmt_02X a @ fmt_02X b @ rest) 4 = (push_bit 8 (ucast a) OR ucast b, rest)"
  using parseHex_loop_byte [of a "fmt_02X b @ rest" 2 0] parseHex_loop_byte [of b rest 0 "ucast a"]
  by (simp add: parseHexValue_def numeral_eq_Suc)

lemma u16_of_parsed: "(ucast (push_bit 8 (ucast a) OR ucast b :: u32) :: u16) = be16 a b"
  by (rule bit_word_eqI)
    (auto simp: be16_or bit_ucast_iff bit_or_iff bit_push_bit_iff dest: bit_imp_le_length)

lemma countHexDigits_byte [simp]: "countHexDigits (fmt_02X v @ rest) = countHexDigits rest + 2"
  using fmt_02X_Cons [of v] by auto

lemma cur_fmt_02X [simp]: "isHexDigit (cur (fmt_02X v @ rest))"
  using fmt_02X_Cons [of v] by auto

lemma hex_pairs_block:
  "hex_pairs (length bs) (hex_block bs @ rest) out = (rest, out @ bs)"
proof (induction bs arbitrary: out)
  case (Cons v bs)
  obtain a b where "fmt_02X v = [a, b]" "isHexDigit b" "hexToVal a = of_nat (unat v div 16)"
      "hexToVal b = of_nat (unat v mod 16)"
    using fmt_02X_Cons by blast
  with Cons nibbles_or [of v] show ?case by (simp add: hex_block_def Let_def)
qed (simp add: hex_block_def)

lemma countHexDigits_block: "countHexDigits (hex_block bs @ rest) = countHexDigits rest + 2 * length bs"
  by (induction bs) (auto simp: hex_block_def)

lemma guid_value_block:
  assumes "2 \<le> length bs" and "length guid + length bs \<le> 16" and "countHexDigits rest = 0"
  shows "guid_value (hex_block bs @ rest) guid = (rest, guid @ bs)"
proof (cases "length bs = 2")
  case True
  then obtain a b where bs: "bs = [a, b]" by (auto simp: length_Suc_conv numeral_2_eq_2)
  have "parseHexValue (hex_block bs @ rest) 4 = (push_bit 8 (ucast a) OR ucast b, rest)"
    using parseHexValue_word [of a b rest] by (simp add: bs hex_block_def)
  then show ?thesis
    using assms(2,3) True
    by (simp add: guid_value_def countHexDigits_block Let_def u16_of_parsed bs)
next
  case False
  then have "countHexDigits (hex_block bs @ rest) > 4"
      "(countHexDigits (hex_block bs @ rest) + 1) div 2 = length bs"
    using assms(1,3) by (simp_all add: countHexDigits_block)
  then show ?thesis
    using assms(2) hex_pairs_block [of bs rest guid] by (simp add: guid_value_def Let_def)
qed

lemma values_of_byte:
  assumes "countHexDigits rest = 0"
  shows "guid_value (fmt_02X v @ rest) guid = (rest, guid @ [v])"
    and "group_value capacity (fmt_02X v @ rest) guid = (rest, guid @ [v])"
  using assms
  by (simp_all add: guid_value_def group_value_def Let_def parseHexValue_byte)

section \<open>The three text formats are parsed back\<close>

lemma separators [simp]:
  "is_separator (CHR '':'')" "is_separator (CHR ''-'')" "\<not> isHexDigit (CHR '':'')" "\<not> isHexDigit (CHR ''-'')"
  by (simp_all add: is_separator_def isHexDigit_def)

lemma join_map_Cons:
  "bs \<noteq> [] \<Longrightarrow> join d (map fmt_02X (b # bs)) = fmt_02X b @ d # join d (map fmt_02X bs)"
  by (cases bs) auto

lemma guid_loop_done: "\<not> isHexDigit (cur p) \<or> length guid = 16 \<Longrightarrow> guid_loop p guid = (p, guid)"
  by (subst guid_loop.simps) auto

lemma parseGroups_done:
  "\<not> isHexDigit (cur p) \<or> length out = capacity \<Longrightarrow> parseGroups capacity p out = (p, out)"
  by (subst parseGroups.simps) auto

lemma guid_loop_step:
  "length guid < 16 \<Longrightarrow> isHexDigit (cur p) \<Longrightarrow> guid_value p guid = (q, guid') \<Longrightarrow>
   guid_loop p guid = guid_loop (if length guid' < 16 \<and> is_separator (cur q) then tl q else q) guid'"
  by (subst guid_loop.simps) (simp add: guid_step_def Let_def)

lemma parseGroups_step:
  "length out < capacity \<Longrightarrow> isHexDigit (cur p) \<Longrightarrow> group_value capacity p out = (q, out') \<Longrightarrow>
   parseGroups capacity p out
     = parseGroups capacity (if length out' < capacity \<and> is_separator (cur q) then tl q else q) out'"
  by (subst parseGroups.simps) (simp add: group_step_def Let_def)

lemma guid_loop_bytes:
  "length guid + length bs \<le> 16 \<Longrightarrow>
   guid_loop (join (CHR '':'') (map fmt_02X bs)) guid = ([], guid @ bs)"
proof (induction bs arbitrary: guid)
  case (Cons b bs)
  show ?case
  proof (cases "bs = []")
    case True
    then show ?thesis
      using Cons.prems guid_loop_step [of guid "fmt_02X b"] values_of_byte(1) [of "[]" b guid]
        cur_fmt_02X [of b "[]"]
      by (simp add: guid_loop_done)
  next
    case False
    let ?rest = "join (CHR '':'') (map fmt_02X bs)"
    have room: "length guid < 15" using Cons.prems False by (cases bs) auto
    have "guid_loop (fmt_02X b @ CHR '':'' # ?rest) guid = guid_loop ?rest (guid @ [b])"
      using room guid_loop_step [OF _ cur_fmt_02X values_of_byte(1)] by simp
    also have "\<dots> = ([], guid @ b # bs)" using Cons.IH [of "guid @ [b]"] Cons.prems by simp
    finally show ?thesis by (simp only: join_map_Cons [OF False])
  qed
qed (simp add: guid_loop_done)

lemma parseGroups_bytes:
  "length out + length bs \<le> capacity \<Longrightarrow>
   parseGroups capacity (join (CHR '':'') (map fmt_02X bs)) out = ([], out @ bs)"
proof (induction bs arbitrary: out)
  case (Cons b bs)
  show ?case
  proof (cases "bs = []")
    case True
    then show ?thesis
      using Cons.prems parseGroups_step [of out capacity "fmt_02X b"]
        values_of_byte(2) [of "[]" capacity b out] cur_fmt_02X [of b "[]"]
      by (simp add: parseGroups_done)
  next
    case False
    let ?rest = "join (CHR '':'') (map fmt_02X bs)"
    have room: "Suc (length out) < capacity" using Cons.prems False by (cases bs) auto
    have "parseGroups capacity (fmt_02X b @ CHR '':'' # ?rest) out = parseGroups capacity ?rest (out @ [b])"
      using room parseGroups_step [OF _ cur_fmt_02X values_of_byte(2)] by simp
    also have "\<dots> = ([], out @ b # bs)" using Cons.IH [of "out @ [b]"] Cons.prems by simp
    finally show ?thesis by (simp only: join_map_Cons [OF False])
  qed
qed (simp add: parseGroups_done)

lemma guid_loop_block:
  assumes "2 \<le> length bs" and "length guid + length bs < 16"
  shows "guid_loop (hex_block bs @ CHR ''-'' # rest) guid = guid_loop rest (guid @ bs)"
proof -
  obtain b bs' where "bs = b # bs'" using assms(1) by (cases bs) auto
  then have "isHexDigit (cur (hex_block bs @ CHR ''-'' # rest))" by (simp add: hex_block_def)
  then show ?thesis
    using guid_loop_step [of guid "hex_block bs @ CHR ''-'' # rest"]
      guid_value_block [of bs guid "CHR ''-'' # rest"] assms by simp
qed

lemma guid_loop_last_block:
  assumes "2 \<le> length bs" and "length guid + length bs = 16"
  shows "guid_loop (hex_block bs) guid = ([], guid @ bs)"
proof -
  obtain b bs' where "bs = b # bs'" using assms(1) by (cases bs) auto
  then have "isHexDigit (cur (hex_block bs))" by (simp add: hex_block_def)
  then show ?thesis
    using guid_loop_step [of guid "hex_block bs"] guid_value_block [of bs guid "[]"] assms
    by (simp add: guid_loop_done)
qed

lemma find_dcolon_no_colon: "CHR '':'' \<notin> set p \<Longrightarrow> find_dcolon p = None"
  by (induction p rule: find_dcolon.induct) auto

lemma find_dcolon_skip: "a \<noteq> CHR '':'' \<Longrightarrow> find_dcolon p = None \<Longrightarrow> find_dcolon (a # p) = None"
  by (cases p) auto

lemma hex_not_special:
  "isHexDigit c \<Longrightarrow> c \<noteq> CHR '':'' \<and> c \<noteq> CHR ''-'' \<and> c \<noteq> CHR ''*'' \<and> c \<noteq> CHR ''{'' \<and> c \<noteq> NUL
     \<and> \<not> is_blank c"
  by (auto simp: isHexDigit_def is_blank_def)

lemma find_dcolon_bytes: "find_dcolon (join (CHR '':'') (map fmt_02X bs)) = None"
proof (induction bs)
  case (Cons b bs)
  obtain x y where b: "fmt_02X b = [x, y]" "isHexDigit x" "isHexDigit y" using fmt_02X_Cons by blast
  show ?case
  proof (cases bs)
    case Nil
    then show ?thesis using b by (simp add: hex_not_special)
  next
    case (Cons b' bs')
    let ?rest = "join (CHR '':'') (map fmt_02X bs)"
    obtain c rest where rest: "?rest = c # rest" "isHexDigit c"
      using fmt_02X_Cons [of b'] Cons by (cases bs') auto
    have "find_dcolon (CHR '':'' # ?rest) = None"
      using Cons.IH rest by (auto simp: hex_not_special NUL_def)
    then show ?thesis
      using b Cons by (auto simp: join_map_Cons hex_not_special intro!: find_dcolon_skip)
  qed
qed simp

lemma guid_open_hex: "isHexDigit (cur p) \<Longrightarrow> guid_open p = (False, p)"
  using cur_hex_Cons [of p] by (auto simp: guid_open_def skip_blanks_def Let_def hex_not_special)

lemma guid_early_hex: "isHexDigit (cur p) \<Longrightarrow> guid_early b p = None"
  using hex_not_special [of "cur p"] by (simp add: guid_early_def)

lemma guid_parse_main:
  assumes "isHexDigit (cur p)" and "find_dcolon p = None" and "guid_loop p [] = ([], g)"
    and "length g = 16"
  shows "guid_parse p = (VSCP_ERROR_SUCCESS, g, Some [])"
  using assms
  by (subst guid_parse.simps)
    (simp add: guid_open_hex guid_early_hex guid_main_def guid_finish_def)

lemma toString_parses:
  assumes "length g = 16"
  shows "guid_parse (cguid_toString g) = (VSCP_ERROR_SUCCESS, g, Some [])"
proof (rule guid_parse_main)
  obtain b b' g' where g: "g = b # b' # g'" using assms by (auto simp: length_Suc_conv numeral_eq_Suc)
  show "isHexDigit (cur (cguid_toString g))" by (simp add: g cguid_toString_def)
  show "find_dcolon (cguid_toString g) = None" by (simp add: cguid_toString_def find_dcolon_bytes)
  show "guid_loop (cguid_toString g) [] = ([], g)"
    using guid_loop_bytes [of "[]" g] assms by (simp add: cguid_toString_def)
qed (rule assms)

lemma list_parts_16:
  assumes "length g = 16"
  shows "g = take 4 g @ take 2 (drop 4 g) @ take 2 (drop 6 g) @ take 2 (drop 8 g) @ drop 10 g"
  using append_take_drop_id [of 4 g] append_take_drop_id [of 2 "drop 4 g"]
    append_take_drop_id [of 2 "drop 6 g"] append_take_drop_id [of 2 "drop 8 g"]
  by (simp add: drop_drop)

lemma fmt_02X_hex: "c \<in> set (fmt_02X v) \<Longrightarrow> isHexDigit c"
  using nibble_less [of v] by (auto simp: fmt_02X_def)

lemma cur_fmt_02X_only [simp]: "isHexDigit (cur (fmt_02X v))"
  using cur_fmt_02X [of v "[]"] by simp

lemma hex_block_chars: "c \<in> set (hex_block bs) \<Longrightarrow> isHexDigit c"
  by (auto simp: hex_block_def dest: fmt_02X_hex)

lemma toStringUUID_parses:
  assumes "length g = 16"
  shows "guid_parse (cguid_toStringUUID g) = (VSCP_ERROR_SUCCESS, g, Some [])"
proof (rule guid_parse_main)
  define a b c d e where parts: "a = take 4 g" "b = take 2 (drop 4 g)" "c = take 2 (drop 6 g)"
    "d = take 2 (drop 8 g)" "e = drop 10 g"
  have len: "length a = 4" "length b = 2" "length c = 2" "length d = 2" "length e = 6"
    using assms by (simp_all add: parts)
  have g: "g = a @ b @ c @ d @ e" using list_parts_16 [OF assms] by (simp add: parts)
  have str: "cguid_toStringUUID g = hex_block a @ CHR ''-'' # hex_block b @ CHR ''-'' #
      hex_block c @ CHR ''-'' # hex_block d @ CHR ''-'' # hex_block e"
    by (simp add: cguid_toStringUUID_def parts)
  obtain x xs where "a = x # xs" using len(1) by (cases a) auto
  then show "isHexDigit (cur (cguid_toStringUUID g))" by (simp add: str hex_block_def)
  have "CHR '':'' \<notin> set (hex_block bs)" for bs using hex_block_chars by fastforce
  then show "find_dcolon (cguid_toStringUUID g) = None"
    by (intro find_dcolon_no_colon) (simp add: str)
  show "guid_loop (cguid_toStringUUID g) [] = ([], g)"
    unfolding str using len by (simp add: guid_loop_block guid_loop_last_block g)
qed (rule assms)

lemma leading_ff: "take (length (takeWhile (\<lambda>b. b = (0xFF :: u8)) g)) g
    = replicate (length (takeWhile (\<lambda>b. b = 0xFF) g)) 0xFF"
  by (induction g) auto

lemma guid_open_colons [simp]: "guid_open (CHR '':'' # p) = (False, CHR '':'' # p)"
  by (simp add: guid_open_def skip_blanks_def is_blank_def)

lemma toStringCompact_parses:
  assumes "length g = 16"
  shows "guid_parse (cguid_toStringCompact g) = (VSCP_ERROR_SUCCESS, g, Some [])"
proof -
  let ?n = "length (takeWhile (\<lambda>b. b = (0xFF :: u8)) g)"
  have n: "?n \<le> 16" using length_takeWhile_le [of _ g] assms by metis
  have g: "g = replicate ?n 0xFF @ drop ?n g" using leading_ff [of g] by (metis append_take_drop_id)
  consider "?n = 16" | "?n = 0" | "0 < ?n" "?n < 16" using n by linarith
  then show ?thesis
  proof cases
    case 1
    have "g = replicate 16 0xFF" using g 1 assms by simp
    with 1 show ?thesis
      by (subst guid_parse.simps)
        (simp add: cguid_toStringCompact_def guid_early_def guid_finish_def NUL_def)
  next
    case 2
    then show ?thesis using toString_parses [OF assms] by (simp add: cguid_toStringCompact_def)
  next
    case 3
    define p where "p = join (CHR '':'') (map fmt_02X (drop ?n g))"
    obtain x xs where "drop ?n g = x # xs" using 3 assms by (cases "drop ?n g") auto
    then have hex: "isHexDigit (cur p)" unfolding p_def by (cases xs) auto
    have "parseGroups 16 p [] = ([], drop ?n g)"
      unfolding p_def using parseGroups_bytes [of "[]" "drop ?n g" 16] assms by simp
    then have "guid_early False (CHR '':'' # CHR '':'' # p)
        = Some (VSCP_ERROR_SUCCESS, replicate ?n 0xFF @ drop ?n g, Some [])"
      using hex hex_not_special [OF hex] assms n by (simp add: guid_early_def guid_finish_def NUL_def)
    moreover have "cguid_toStringCompact g = CHR '':'' # CHR '':'' # p"
      using 3 by (simp add: cguid_toStringCompact_def p_def Let_def)
    ultimately show ?thesis using g by (subst guid_parse.simps) simp
  qed
qed

section \<open>The contract of a text format\<close>

locale guid_format =
  fixes print :: "u8 list \<Rightarrow> string"
  assumes parse_print: "length g = 16 \<Longrightarrow> guid_parse (print g) = (VSCP_ERROR_SUCCESS, g, Some [])"
begin

lemma print_inj: "length g = 16 \<Longrightarrow> length h = 16 \<Longrightarrow> print g = print h \<longleftrightarrow> g = h"
  by (metis parse_print prod.inject)

lemma from_string: "length g = 16 \<Longrightarrow> cguid_getFromString (print g) = g"
  by (simp add: cguid_getFromString_def parse_print)

lemma parseGuid: "length g = 16 \<Longrightarrow> vscp_parseGuid (Some d) (print g) = (True, Some g)"
  by (simp add: vscp_parseGuid_def vscp_guid_parse_def parse_print)

lemma to_array:
  "length g = 16 \<Longrightarrow> length d = 16 \<Longrightarrow>
   vscp_getGuidFromStringToArray (Some d) (print g) = Some (True, Some g)"
  by (simp add: vscp_getGuidFromStringToArray_def from_string wr_block_zero)

lemma string_crc:
  "length g = 16 \<Longrightarrow> vscp_calcCRC4GUIDString s (print g) = vscp_calcCRC4GUIDArray s g"
  by (simp add: vscp_calcCRC4GUIDString_def vscp_calcCRC4GUIDArray_def to_array)

end

interpretation standard: guid_format cguid_toString
  by unfold_locales (rule toString_parses)

interpretation compact: guid_format cguid_toStringCompact
  by unfold_locales (rule toStringCompact_parses)

interpretation uuid: guid_format cguid_toStringUUID
  by unfold_locales (rule toStringUUID_parses)

lemma guid_text_cases:
  "guid_text VSCP_GUID_STR_FORMAT_NORMAL = cguid_toString"
  "guid_text VSCP_GUID_STR_FORMAT_COMPACT = cguid_toStringCompact"
  "guid_text VSCP_GUID_STR_FORMAT_UUID = cguid_toStringUUID"
  by (simp_all add: fun_eq_iff guid_text_def cguid_toString_def cguid_toStringCompact_def
      cguid_toStringUUID_def Let_def)

interpretation any_format: guid_format "guid_text f" for f
  by unfold_locales
    (cases f; simp add: guid_text_cases standard.parse_print compact.parse_print uuid.parse_print)

section \<open>GUID text into an event\<close>

lemma set_guid_tokens_bytes:
  "i + length bs \<le> 16 \<Longrightarrow> length guid = 16 \<Longrightarrow>
   set_guid_tokens i (map fmt_02X bs) guid = take i guid @ bs @ drop (i + length bs) guid"
proof (induction bs arbitrary: i guid)
  case (Cons b bs)
  then have "set_guid_tokens i (map fmt_02X (b # bs)) guid
      = set_guid_tokens (Suc i) (map fmt_02X bs) (guid[i := b])"
    by (simp add: stoll_fmt_02X)
  also have "\<dots> = take (Suc i) (guid[i := b]) @ bs @ drop (Suc i + length bs) (guid[i := b])"
    using Cons by simp
  also have "\<dots> = take i guid @ (b # bs) @ drop (i + length (b # bs)) guid"
    using Cons.prems by (simp add: take_Suc_conv_app_nth)
  finally show ?case .
qed simp

lemma fmt_02X_no_colon: "CHR '':'' \<notin> set (fmt_02X v)"
  using fmt_02X_hex [of "CHR '':''" v] by auto

lemma split_toString:
  assumes "g \<noteq> []"
  shows "vscp_split (cguid_toString g) (CHR '':'') = map fmt_02X g"
proof -
  obtain b bs where g: "g = b # bs" using assms by (cases g) auto
  have "cguid_toString g \<noteq> []"
    unfolding cguid_toString_def g by (cases bs) (simp_all add: fmt_02X_def)
  moreover have "split_loop (CHR '':'') (join (CHR '':'') (map fmt_02X g)) = map fmt_02X g"
    using assms fmt_02X_no_colon by (intro split_loop_join) auto
  ultimately show ?thesis by (simp add: vscp_split_def cguid_toString_def)
qed

lemma toString_shape:
  assumes "length g = 16"
  shows "\<exists>a b c s. cguid_toString g = a # b # c # s \<and> isHexDigit a"
proof -
  obtain x y ys where "g = x # y # ys" using assms by (auto simp: length_Suc_conv numeral_eq_Suc)
  then show ?thesis using fmt_02X_Cons [of x] by (auto simp: cguid_toString_def)
qed

lemma toString_not_dash:
  assumes "length g = 16"
  shows "vscp_trim (cguid_toString g) \<noteq> ''-''" and "vscp_trim (cguid_toString g) \<noteq> []"
    and "cguid_toString g \<noteq> ''-''"
proof -
  obtain a b c s where s: "cguid_toString g = a # b # c # s" and a: "isHexDigit a"
    using toString_shape [OF assms] by blast
  have "\<not> isspace a" using a by (auto simp: isHexDigit_def isspace_def)
  then have lt: "vscp_ltrim (cguid_toString g) = a # b # c # s" by (simp add: s vscp_ltrim_def)
  then have ne: "vscp_trim (cguid_toString g) \<noteq> []"
    using \<open>\<not> isspace a\<close> by (auto simp: vscp_trim_def vscp_rtrim_def)
  have "hd (vscp_trim (cguid_toString g)) = a"
    using rtrim_hd [of "vscp_ltrim (cguid_toString g)"] ne lt by (simp add: vscp_trim_def)
  then show "vscp_trim (cguid_toString g) \<noteq> ''-''" using a by (auto simp: isHexDigit_def)
  show "vscp_trim (cguid_toString g) \<noteq> []" by (rule ne)
  show "cguid_toString g \<noteq> ''-''" by (simp add: s)
qed

lemma crc8_bytes_shift:
  "crc8_ready s \<Longrightarrow> made_table s \<Longrightarrow>
   crc8_bytes s c bs = (s, foldl (\<lambda>c b. crc8_shift 8 (c XOR b)) c bs)"
proof (induction bs arbitrary: c)
  case (Cons b bs)
  moreover have "init_crc8 s = s" using Cons.prems by (simp add: init_crc8_def)
  ultimately show ?case by (simp add: crc8_step)
qed simp

lemma setEventGuid_text:
  assumes "length g = 16" and "length (GUID ev) = 16"
  shows "vscp_setEventGuidFromString (Some ev) (cguid_toString g) = (True, Some (ev\<lparr>GUID := g\<rparr>))"
proof -
  have "g \<noteq> []" using assms(1) by auto
  then show ?thesis
    using set_guid_tokens_bytes [of 0 g "GUID ev"] toString_not_dash [OF assms(1)] assms
    by (simp add: vscp_setEventGuidFromString_def split_toString Let_def)
qed

lemma setExGuid_loop_many:
  "0 < k \<Longrightarrow> setExGuid_loop k i (t # t' # ts) g =
     (case stoll 16 t of None \<Rightarrow> Inl Exception | Some v \<Rightarrow> Inr (g[i := word_of_int v]))"
  by (cases k) (auto split: option.split)

lemma replicate_16: "replicate 16 x = x # replicate 15 x"
  by (simp add: numeral_eq_Suc)

lemma reversed_rev: "length g = 16 \<Longrightarrow> reversed g = rev g"
  by (rule nth_equalityI) (simp_all add: reversed_def rev_nth)

text \<open>
  In the form with an inner double colon the position reported through \<^verbatim>\<open>endptr\<close> is the start
  of the text, not the position after the GUID.
\<close>

lemma guid_parse_endptr_not_advanced:
  "guid_parse ''01::02'' = (VSCP_ERROR_SUCCESS, 1 # replicate 14 0 @ [2], Some ''01::02'')"
  by code_simp

section \<open>Properties\<close>

text \<open>C38: a GUID printed in any of the formats (standard, compact, UUID) is parsed back to the same
  sixteen bytes, whatever the destination held.\<close>

theorem guid_text_round_trip:
  assumes "length g = 16"
  shows "vscp_parseGuid (Some d) (snd (vscp_writeGuidArrayToString str (Some g) False format)) = (True, Some g)"
  using any_format.parseGuid [OF assms] by (simp add: vscp_writeGuidArrayToString_def)

theorem guid_text_round_trip_witness:
  "vscp_parseGuid (Some []) (snd (vscp_writeGuidArrayToString ''''
     (Some (replicate 13 0xFF @ [1, 2, 3])) False VSCP_GUID_STR_FORMAT_COMPACT))
   = (True, Some (replicate 13 0xFF @ [1, 2, 3]))"
  by (rule guid_text_round_trip) simp

text \<open>C39: on every input text the parser returns, with success or with a syntax error, and has
  filled exactly the sixteen bytes of its destination.\<close>

theorem guid_parse_fills_sixteen_bytes:
  "\<exists>rv g e. vscp_guid_parse (Some dest) (Some str) = (rv, Some g, e) \<and> length g = 16
     \<and> (rv = VSCP_ERROR_SUCCESS \<and> e \<noteq> None \<or> rv = VSCP_ERROR_INVALID_SYNTAX \<and> e = None)"
proof -
  have "fst (guid_parse str) = VSCP_ERROR_SUCCESS \<and> snd (snd (guid_parse str)) \<noteq> None
      \<or> fst (guid_parse str) = VSCP_ERROR_INVALID_SYNTAX \<and> snd (snd (guid_parse str)) = None"
    by (subst (1 2 3 4) guid_parse.simps)
      (auto simp: guid_main_def guid_early_def Let_def split: prod.split option.split)
  then show ?thesis
    using guid_parse_length [of str] by (cases "guid_parse str") (auto simp: vscp_guid_parse_def)
qed

text \<open>setting the GUID of an event from its standard text form stores exactly that GUID.\<close>

theorem set_event_guid_from_text:
  assumes "length g = 16" and "length (GUID ev) = 16"
  shows "vscp_setEventGuidFromString (Some ev) (cguid_toString g) = (True, Some (ev\<lparr>GUID := g\<rparr>))"
  by (rule setEventGuid_text [OF assms])

theorem set_event_guid_from_text_witness:
  "vscp_setEventGuidFromString (Some sample_event) (cguid_toString (replicate 16 7))
   = (True, Some (sample_event\<lparr>GUID := replicate 16 7\<rparr>))"
  by (rule set_event_guid_from_text) (simp_all add: sample_event_def)

text \<open>the routine for the embedded event type leaves the loop after the first byte (its test
  for remaining tokens is inverted): of the sixteen bytes only the first is taken over.\<close>

theorem set_eventEx_guid_takes_first_byte_only:
  assumes "length g = 16"
  shows "vscp_setEventExGuidFromString (Some ex) (cguid_toString g)
       = Inr (True, Some (ex\<lparr>xGUID := hd g # replicate 15 0\<rparr>))"
proof -
  obtain x y ys where g: "g = x # y # ys" using assms by (auto simp: length_Suc_conv numeral_eq_Suc)
  have "setExGuid_loop 16 0 (map fmt_02X g) (replicate 16 0) = Inr (x # replicate 15 0)"
    by (simp add: g setExGuid_loop_many stoll_fmt_02X replicate_16)
  then show ?thesis
    using toString_not_dash(3) [OF assms] split_toString [of g]
    by (simp add: vscp_setEventExGuidFromString_def g)
qed

theorem set_eventEx_guid_takes_first_byte_only_witness:
  "vscp_setEventExGuidFromString (Some blank_eventEx) (cguid_toString (replicate 16 7))
   = Inr (True, Some (blank_eventEx\<lparr>xGUID := 7 # replicate 15 0\<rparr>))"
  using set_eventEx_guid_takes_first_byte_only [of "replicate 16 7" blank_eventEx] by simp

text \<open>the GUID checksum does not depend on whether the table of the CRC-8 code was already
  built: from any state the code can be in, it is the bitwise CRC-8 of the sixteen bytes, and the
  text form of a GUID has the checksum of its bytes.\<close>

theorem guid_crc_correct:
  assumes "crc8_ready s" and "length g = 16"
  shows "vscp_calcCRC4GUIDArray s g = Some (init_crc8 s, foldl (\<lambda>c b. crc8_shift 8 (c XOR b)) 0 g)
       \<and> vscp_calcCRC4GUIDString s (cguid_toString g) = vscp_calcCRC4GUIDArray s g"
proof
  show "vscp_calcCRC4GUIDArray s g = Some (init_crc8 s, foldl (\<lambda>c b. crc8_shift 8 (c XOR b)) 0 g)"
    using crc8_ready_init [OF assms(1)] assms(2)
    by (simp add: vscp_calcCRC4GUIDArray_def rd_block_in_range crc8_bytes_shift)
  show "vscp_calcCRC4GUIDString s (cguid_toString g) = vscp_calcCRC4GUIDArray s g"
    by (rule standard.string_crc [OF assms(2)])
qed

theorem guid_crc_correct_witness:
  "vscp_calcCRC4GUIDString crc8_static_init (cguid_toString (replicate 16 1))
   = vscp_calcCRC4GUIDArray crc8_static_init (replicate 16 1)"
  by (rule conjunct2 [OF guid_crc_correct]) (simp_all add: crc8_ready_static)

text \<open>client id and nickname are read back as they were set and do not disturb each other;
  the other twelve bytes stay.\<close>

theorem guid_ids_independent:
  assumes "length g = 16"
  shows "cguid_getClientID (cguid_setNicknameID (cguid_setClientID g c) n) = c
    \<and> cguid_getNicknameID (cguid_setNicknameID (cguid_setClientID g c) n) = n
    \<and> take 12 (cguid_setNicknameID (cguid_setClientID g c) n) = take 12 g"
  using assms
  by (simp add: cguid_getClientID_def cguid_setNicknameID_def cguid_setClientID_def
      cguid_getNicknameID_def)

theorem guid_ids_independent_witness:
  "cguid_getClientID (cguid_setNicknameID (cguid_setClientID (replicate 16 0) 0x1234) 0x5678) = 0x1234"
  by (rule conjunct1 [OF guid_ids_independent]) simp

end
