(* ===== verification/Frame.thy ===== *)
theory Frame
  imports EventTime
begin

text \<open>
  The binary event frame that the UDP, multicast and websocket transports carry
  (\<^verbatim>\<open>vscphelper.cpp\<close>): writing an event to a frame, reading a frame, and the command and reply
  frames. Frames are byte buffers accessed through the checked operations of the prelude, in the
  order of the assignments in the code; \<open>len\<close> is the length the caller states, the length of the
  list is the real one. The field positions are those of \<^verbatim>\<open>vscp.h\<close>. Writer and reader together
  meet the locale \<open>frame_codec\<close>: what is written is accepted and read back.
\<close>

definition FRAME0_HEADER_LENGTH :: nat where "FRAME0_HEADER_LENGTH = 35"
definition VSCP_HEADER_NO_CRC :: u8 where "VSCP_HEADER_NO_CRC = 0x08"
definition VSCP_NOCRC_CALC_DUMMY_CRC :: u16 where "VSCP_NOCRC_CALC_DUMMY_CRC = 0xAA55"
definition VSCP_MULTICAST_TYPE_EVENT1 :: u8 where "VSCP_MULTICAST_TYPE_EVENT1 = 1"
definition VSCP_BINARY_PACKET_TYPE_COMMAND :: u8 where "VSCP_BINARY_PACKET_TYPE_COMMAND = 0xe0"
definition VSCP_BINARY_PACKET_TYPE_RESPONSE :: u8 where "VSCP_BINARY_PACKET_TYPE_RESPONSE = 0xf0"
definition VSCP_ENCRYPTION_NONE :: u8 where "VSCP_ENCRYPTION_NONE = 0"

definition GET_VSCP_BINARY_PACKET_TYPE :: "u8 \<Rightarrow> u8" where
  "GET_VSCP_BINARY_PACKET_TYPE t = drop_bit 4 t AND 0x0f"

definition GET_VSCP_BINARY_PACKET_ENCRYPTION :: "u8 \<Rightarrow> u8" where
  "GET_VSCP_BINARY_PACKET_ENCRYPTION t = t AND 0x0f"

section \<open>Frame size\<close>

definition vscp_getFrameSizeFromEvent :: "vscpEvent ptr \<Rightarrow> nat" where
  "vscp_getFrameSizeFromEvent pev =
     (case pev of None \<Rightarrow> 0 | Some ev \<Rightarrow> 1 + FRAME0_HEADER_LENGTH + unat (sizeData ev) + 2)"

definition vscp_getFrameSizeFromEventEx :: "vscpEventEx ptr \<Rightarrow> nat" where
  "vscp_getFrameSizeFromEventEx pex =
     (case pex of None \<Rightarrow> 0 | Some ex \<Rightarrow> 1 + FRAME0_HEADER_LENGTH + unat (xsizeData ex) + 2)"

section \<open>Writing an event\<close>

definition vscp_writeEventToFrame ::
  "u8 list ptr \<Rightarrow> nat \<Rightarrow> u8 \<Rightarrow> vscpEvent ptr \<Rightarrow> (bool \<times> u8 list ptr) safe" where
  "vscp_writeEventToFrame pframe len pkttype pev =
     (case pframe of None \<Rightarrow> Some (False, None)
      | Some frame \<Rightarrow> (case pev of None \<Rightarrow> Some (False, Some frame)
      | Some ev \<Rightarrow>
         if sizeData ev \<noteq> 0 \<and> pdata ev = None then Some (False, Some frame)
         else if len < 1 + FRAME0_HEADER_LENGTH + unat (sizeData ev) + 2 then Some (False, Some frame)
         else do {
           let timestamp_ns = event_unix_ns ev;
           frame \<leftarrow> wr_block frame 0 [(pkttype AND 0x0f) OR push_bit 4 VSCP_MULTICAST_TYPE_EVENT1];
           let head = (vscpEvent.head ev AND NOT FRAME_VERSION_MASK) OR FRAME_VERSION_UNIX_NS;
           frame \<leftarrow> wr_block frame 1 [hi8 head, lo8 head];
           frame \<leftarrow> wr_block frame 3 (be64_bytes timestamp_ns);
           frame \<leftarrow> wr_block frame 11 [0, 0, 0];
           frame \<leftarrow> wr_block frame 14 [hi8 (vscp_class ev), lo8 (vscp_class ev)];
           frame \<leftarrow> wr_block frame 16 [hi8 (vscp_type ev), lo8 (vscp_type ev)];
           frame \<leftarrow> wr_block frame 18 (GUID ev);
           frame \<leftarrow> wr_block frame 34 [hi8 (sizeData ev), lo8 (sizeData ev)];
           frame \<leftarrow> (if sizeData ev \<noteq> 0
                     then do { d \<leftarrow> pdata ev; bs \<leftarrow> rd_block d 0 (unat (sizeData ev));
                               wr_block frame 36 bs }
                     else Some frame);
           bs \<leftarrow> rd_block frame 1 (FRAME0_HEADER_LENGTH + unat (sizeData ev));
           let framecrc = crcFast bs;
           frame \<leftarrow> wr_block frame (1 + FRAME0_HEADER_LENGTH + unat (sizeData ev))
                      [hi8 framecrc, lo8 framecrc];
           Some (True, Some frame) }))"

text \<open>\<open>fresh\<close> is the memory of the temporary event; \<^verbatim>\<open>vscp_newEvent\<close> defaults to nanosecond stamps.\<close>

definition vscp_writeEventExToFrame ::
  "vscpEvent \<Rightarrow> u8 list ptr \<Rightarrow> nat \<Rightarrow> u8 \<Rightarrow> vscpEventEx ptr \<Rightarrow> (bool \<times> u8 list ptr) safe" where
  "vscp_writeEventExToFrame fresh pframe len pkttype pex =
     (let pev = (vscp_newEvent fresh FRAME_VERSION_UNIX_NS)\<lparr>pdata := None\<rparr>
      in if pex = None then Some (False, pframe)
         else do {
           (ok, pev) \<leftarrow> vscp_convertEventExToEvent (Some pev) pex;
           if \<not> ok then Some (False, pframe)
           else vscp_writeEventToFrame pframe len pkttype pev })"

section \<open>Reading an event\<close>

text \<open>
  Size and checksum, the same in both packet formats: the outer \<open>None\<close> is a read outside the
  buffer, the inner \<open>None\<close> a refused frame; otherwise the checksum found in the frame.
\<close>

definition frame_check :: "u8 list \<Rightarrow> nat \<Rightarrow> u16 option safe" where
  "frame_check buf len = do {
     size_msb \<leftarrow> rd buf 34;
     size_lsb \<leftarrow> rd buf 35;
     let calcFrameSize = 1 + FRAME0_HEADER_LENGTH + 2 + unat (be16 size_msb size_lsb);
     if len < calcFrameSize then Some None
     else do {
       c1 \<leftarrow> rd buf (calcFrameSize - 2);
       c0 \<leftarrow> rd buf (calcFrameSize - 1);
       let crcFrame = be16 c1 c0;
       head_lsb \<leftarrow> rd buf 2;
       if \<not> (head_lsb AND VSCP_HEADER_NO_CRC \<noteq> 0 \<and> VSCP_NOCRC_CALC_DUMMY_CRC = crcFrame)
       then do {
         bs \<leftarrow> rd_block buf 1 (calcFrameSize - 1);
         if crcFast bs \<noteq> 0 then Some None else Some (Some crcFrame) }
       else Some (Some crcFrame) } }"

text \<open>Size, data, head, GUID and checksum, again the same in both formats.\<close>

definition frame_common :: "u8 list \<Rightarrow> u16 \<Rightarrow> vscpEvent \<Rightarrow> vscpEvent safe" where
  "frame_common buf crcFrame ev = do {
     size_msb \<leftarrow> rd buf 34;
     size_lsb \<leftarrow> rd buf 35;
     let sz = be16 size_msb size_lsb;
     p \<leftarrow> (if sz \<noteq> 0 then map_option Some (rd_block buf 36 (unat sz)) else Some None);
     head_msb \<leftarrow> rd buf 1;
     head_lsb \<leftarrow> rd buf 2;
     guid \<leftarrow> rd_block buf 18 16;
     Some (ev\<lparr>sizeData := sz, pdata := p, head := be16 head_msb head_lsb, GUID := guid,
             crc := crcFrame\<rparr>) }"

text \<open>The nanosecond time stamp of packet format 1.\<close>

definition frame_time1 :: "host_clock \<Rightarrow> u8 list \<Rightarrow> vscpEvent \<Rightarrow> vscpEvent safe" where
  "frame_time1 clk buf ev = do {
     bs \<leftarrow> rd_block buf 3 8;
     let ts = be64_of bs;
     let ts = (if ts = 0 then vscp_makeTimeStampNs clk else ts);
     Some (ev\<lparr>timestamp_ns := ts, year := 0xffff, month := 0xff\<rparr>) }"

text \<open>The microsecond time stamp and the date and time of packet format 0.\<close>

definition frame_time0 :: "host_clock \<Rightarrow> u8 list \<Rightarrow> vscpEvent \<Rightarrow> vscpEvent safe" where
  "frame_time0 clk buf ev = do {
     t3 \<leftarrow> rd buf 3; t2 \<leftarrow> rd buf 4; t1 \<leftarrow> rd buf 5; t0 \<leftarrow> rd buf 6;
     let ts = be32 t3 t2 t1 t0;
     let ts = (if ts = 0 then clk_ts clk else ts);
     y1 \<leftarrow> rd buf 7; y0 \<leftarrow> rd buf 8;
     mo \<leftarrow> rd buf 9; d \<leftarrow> rd buf 10; h \<leftarrow> rd buf 11; mi \<leftarrow> rd buf 12; s \<leftarrow> rd buf 13;
     let ev = ev\<lparr>year := be16 y1 y0, month := mo,
                 timestamp_ns := tb_set_clock d h mi s (tb_set_timestamp ts (timestamp_ns ev))\<rparr>;
     Some (if be16 y1 y0 = 0 \<and> mo = 0 \<and> d = 0 \<and> h = 0 \<and> mi = 0 \<and> s = 0
           then ev_set_tm (gmtime (clk_sec clk)) ev else ev) }"

definition frame_class_type :: "u8 list \<Rightarrow> vscpEvent \<Rightarrow> vscpEvent safe" where
  "frame_class_type buf ev = do {
     c1 \<leftarrow> rd buf 14; c0 \<leftarrow> rd buf 15; t1 \<leftarrow> rd buf 16; t0 \<leftarrow> rd buf 17;
     Some (ev\<lparr>vscp_class := be16 c1 c0, vscp_type := be16 t1 t0\<rparr>) }"

definition vscp_getEventFromFrame ::
  "host_clock \<Rightarrow> vscpEvent ptr \<Rightarrow> u8 list ptr \<Rightarrow> nat \<Rightarrow> (bool \<times> vscpEvent ptr) safe" where
  "vscp_getEventFromFrame clk pev pbuf len =
     (case pev of None \<Rightarrow> Some (False, None)
      | Some ev \<Rightarrow> (case pbuf of None \<Rightarrow> Some (False, Some ev)
      | Some buf \<Rightarrow> do {
          b0 \<leftarrow> rd buf 0;
          let pktType = GET_VSCP_BINARY_PACKET_TYPE b0;
          checked \<leftarrow> frame_check buf len;
          (case checked of None \<Rightarrow> Some (False, Some ev)
           | Some crcFrame \<Rightarrow> do {
               ev \<leftarrow> frame_common buf crcFrame ev;
               ev \<leftarrow> (if VSCP_MULTICAST_TYPE_EVENT1 = pktType then frame_time1 clk buf ev
                      else frame_time0 clk buf ev);
               ev \<leftarrow> frame_class_type buf ev;
               Some (True, Some (ev\<lparr>obid := 0\<rparr>)) }) }))"

definition vscp_getEventExFromFrame ::
  "host_clock \<Rightarrow> vscpEvent \<Rightarrow> vscpEventEx ptr \<Rightarrow> u8 list ptr \<Rightarrow> nat \<Rightarrow> (bool \<times> vscpEventEx ptr) safe" where
  "vscp_getEventExFromFrame clk fresh pex pframe len =
     (case pex of None \<Rightarrow> Some (False, None)
      | Some ex \<Rightarrow> do {
          let pev = (vscp_newEvent fresh FRAME_VERSION_UNIX_NS)\<lparr>pdata := None\<rparr>;
          (ok, pev) \<leftarrow> vscp_getEventFromFrame clk (Some pev) pframe len;
          if \<not> ok then Some (False, Some ex)
          else vscp_convertEventToEventEx (Some ex) pev })"

section \<open>Commands and replies\<close>

definition VSCP_ERROR_PARAMETER :: int where "VSCP_ERROR_PARAMETER = 34"
definition VSCP_ERROR_BUFFER_TO_SMALL :: int where "VSCP_ERROR_BUFFER_TO_SMALL = 43"

definition vscp_writeCommandToFrame ::
  "u8 list ptr \<Rightarrow> nat \<Rightarrow> u16 \<Rightarrow> u8 list ptr \<Rightarrow> nat \<Rightarrow> (int \<times> u8 list ptr) safe" where
  "vscp_writeCommandToFrame pframe len command arg arg_len =
     (case pframe of None \<Rightarrow> Some (VSCP_ERROR_PARAMETER, None)
      | Some frame \<Rightarrow>
         if arg = None \<and> arg_len \<noteq> 0 then Some (VSCP_ERROR_PARAMETER, Some frame)
         else if len < 1 + 2 + arg_len + 2 then Some (VSCP_ERROR_BUFFER_TO_SMALL, Some frame)
         else do {
           frame \<leftarrow> wr_block frame 0 [VSCP_BINARY_PACKET_TYPE_COMMAND OR VSCP_ENCRYPTION_NONE];
           frame \<leftarrow> wr_block frame 1 [hi8 command, lo8 command];
           frame \<leftarrow> (if arg_len \<noteq> 0
                     then do { a \<leftarrow> arg; bs \<leftarrow> rd_block a 0 arg_len; wr_block frame 3 bs }
                     else Some frame);
           bs \<leftarrow> rd_block frame 1 (2 + arg_len);
           let framecrc = crcFast bs;
           frame \<leftarrow> wr_block frame (3 + arg_len) [hi8 framecrc, lo8 framecrc];
           Some (0, Some frame) })"

definition vscp_writeReplyToFrame ::
  "u8 list ptr \<Rightarrow> nat \<Rightarrow> u16 \<Rightarrow> u16 \<Rightarrow> u8 list ptr \<Rightarrow> nat \<Rightarrow> (int \<times> u8 list ptr) safe" where
  "vscp_writeReplyToFrame pframe len command error arg arg_len =
     (case pframe of None \<Rightarrow> Some (VSCP_ERROR_PARAMETER, None)
      | Some frame \<Rightarrow>
         if arg = None \<and> arg_len \<noteq> 0 then Some (VSCP_ERROR_PARAMETER, Some frame)
         else if len < 1 + 2 + 2 + arg_len + 2 then Some (VSCP_ERROR_BUFFER_TO_SMALL, Some frame)
         else do {
           frame \<leftarrow> wr_block frame 0 [VSCP_BINARY_PACKET_TYPE_RESPONSE OR VSCP_ENCRYPTION_NONE];
           frame \<leftarrow> wr_block frame 1 [hi8 command, lo8 command];
           frame \<leftarrow> wr_block frame 3 [hi8 error, lo8 error];
           frame \<leftarrow> (if arg_len \<noteq> 0
                     then do { a \<leftarrow> arg; bs \<leftarrow> rd_block a 0 arg_len; wr_block frame 5 bs }
                     else Some frame);
           bs \<leftarrow> rd_block frame 1 (4 + arg_len);
           let framecrc = crcFast bs;
           frame \<leftarrow> wr_block frame (5 + arg_len) [hi8 framecrc, lo8 framecrc];
           Some (0, Some frame) })"

section \<open>What the writers put into the buffer\<close>

definition frame_head :: "vscpEvent \<Rightarrow> u16" where
  "frame_head ev = (head ev AND NOT FRAME_VERSION_MASK) OR FRAME_VERSION_UNIX_NS"

definition frame_type_byte :: "u8 \<Rightarrow> u8" where
  "frame_type_byte pkttype = (pkttype AND 0x0f) OR push_bit 4 VSCP_MULTICAST_TYPE_EVENT1"

definition frame_body :: "vscpEvent \<Rightarrow> u8 list" where
  "frame_body ev =
     [hi8 (frame_head ev), lo8 (frame_head ev)] @ be64_bytes (event_unix_ns ev) @ [0, 0, 0]
     @ [hi8 (vscp_class ev), lo8 (vscp_class ev), hi8 (vscp_type ev), lo8 (vscp_type ev)]
     @ GUID ev @ [hi8 (sizeData ev), lo8 (sizeData ev)] @ ev_data ev"

text \<open>A frame: packet type, content, and the checksum of the content.\<close>

definition sealed :: "u8 \<Rightarrow> u8 list \<Rightarrow> u8 list" where
  "sealed t body = t # body @ [hi8 (crcFast body), lo8 (crcFast body)]"

definition frame_image :: "u8 \<Rightarrow> vscpEvent \<Rightarrow> u8 list" where
  "frame_image pkttype ev = sealed (frame_type_byte pkttype) (frame_body ev)"

lemma length_sealed [simp]: "length (sealed t body) = length body + 3"
  by (simp add: sealed_def)

lemma sealed_residue: "crcFast (drop 1 (sealed t body)) = 0"
  using crcFast_residue [of body "hi8 (crcFast body)" "lo8 (crcFast body)"] by (simp add: sealed_def)

lemma length_ev_data [simp]: "wf_event ev \<Longrightarrow> length (ev_data ev) = unat (sizeData ev)"
  by (auto simp: wf_event_def ev_data_def split: option.splits)

lemma length_frame_body: "wf_event ev \<Longrightarrow> length (frame_body ev) = 35 + unat (sizeData ev)"
  by (simp add: frame_body_def) (simp add: wf_event_def)

lemma seal_writes:
  assumes "length body + 3 \<le> length frame" and "n = length body"
  shows "do { frame \<leftarrow> wr_block frame 0 (t # body);
              bs \<leftarrow> rd_block frame (Suc 0) n;
              frame \<leftarrow> wr_block frame (Suc n) [hi8 (crcFast bs), lo8 (crcFast bs)];
              k frame } = k (sealed t body @ drop (length body + 3) frame)"
proof -
  have w: "wr_block frame 0 (t # body) = Some ((t # body) @ drop (Suc (length body)) frame)"
    using assms(1) by (subst wr_block_zero) simp_all
  have r: "rd_block ((t # body) @ drop (Suc (length body)) frame) (Suc 0) n = Some body"
    using assms by (simp add: rd_block_def)
  have c: "wr_block ((t # body) @ drop (Suc (length body)) frame) (Suc n) [x, y]
      = Some (((t # body) @ [x, y]) @ drop (length body + 3) frame)" for x y
    using assms by (subst wr_block_append) (simp_all add: drop_drop numeral_eq_Suc)
  show ?thesis unfolding w bind.bind_lunit r c by (simp add: sealed_def)
qed

text \<open>The same as a conditional rewrite rule, for offsets in any normal form.\<close>

lemma seal_at:
  "length body + 3 \<le> length frame \<Longrightarrow> n = length body \<Longrightarrow> r = 1 \<Longrightarrow> m = Suc n \<Longrightarrow>
   Option.bind (wr_block frame 0 (t # body)) (\<lambda>frame. Option.bind (rd_block frame r n)
     (\<lambda>bs. Option.bind (wr_block frame m [hi8 (crcFast bs), lo8 (crcFast bs)]) k))
   = k (sealed t body @ drop (length body + 3) frame)"
  using seal_writes [of body frame n t k] by simp

lemma writeEventToFrame_image:
  assumes "wf_event ev" and "38 + unat (sizeData ev) \<le> len" and "len \<le> length frame"
  shows "vscp_writeEventToFrame (Some frame) len pkttype (Some ev)
       = Some (True, Some (frame_image pkttype ev @ drop (length (frame_image pkttype ev)) frame))"
proof -
  let ?k = "\<lambda>frame. Some (True, Some frame)"
  have g: "length (GUID ev) = 16" using assms(1) by (simp add: wf_event_def)
  have len: "length (frame_body ev) = 35 + unat (sizeData ev)" by (rule length_frame_body [OF assms(1)])
  have nn: "\<not> (sizeData ev \<noteq> 0 \<and> pdata ev = None)" using assms(1) by (auto simp: wf_event_def)
  have room: "length (frame_body ev) + 3 \<le> length frame" using assms(2,3) len by simp
  note seal = seal_writes [OF room len [symmetric], of "frame_type_byte pkttype" ?k]
  show ?thesis
  proof (cases "sizeData ev = 0")
    case True
    then have d: "ev_data ev = []" using length_ev_data [OF assms(1)] by simp
    show ?thesis using seal assms(2) g
      by (simp add: vscp_writeEventToFrame_def FRAME0_HEADER_LENGTH_def True wr_block_fuse Let_def
          frame_body_def frame_head_def frame_type_byte_def frame_image_def d)
  next
    case False
    then obtain d where d: "pdata ev = Some d" "unat (sizeData ev) \<le> length d"
      using assms(1) by (auto simp: wf_event_def split: option.splits)
    then have e: "rd_block d 0 (unat (sizeData ev)) = Some (ev_data ev)"
      by (simp add: rd_block_def ev_data_def)
    show ?thesis using seal assms(2) g
      by (simp add: vscp_writeEventToFrame_def FRAME0_HEADER_LENGTH_def False d(1) e wr_block_fuse Let_def
          frame_body_def frame_head_def frame_type_byte_def frame_image_def)
  qed
qed

section \<open>Reading a written frame\<close>

lemma frame_image_reads:
  fixes pkttype :: u8 and rest :: "u8 list"
  assumes "wf_event ev"
  defines "buf \<equiv> frame_image pkttype ev @ rest" and "n \<equiv> unat (sizeData ev)"
  shows "rd buf 0 = Some (frame_type_byte pkttype)"
    "rd buf 1 = Some (hi8 (frame_head ev))" "rd buf 2 = Some (lo8 (frame_head ev))"
    "rd_block buf 3 8 = Some (be64_bytes (event_unix_ns ev))"
    "rd buf 14 = Some (hi8 (vscp_class ev))" "rd buf 15 = Some (lo8 (vscp_class ev))"
    "rd buf 16 = Some (hi8 (vscp_type ev))" "rd buf 17 = Some (lo8 (vscp_type ev))"
    "rd_block buf 18 16 = Some (GUID ev)"
    "rd buf 34 = Some (hi8 (sizeData ev))" "rd buf 35 = Some (lo8 (sizeData ev))"
    "rd_block buf 36 n = Some (ev_data ev)"
    "rd buf (36 + n) = Some (hi8 (crcFast (frame_body ev)))"
    "rd buf (37 + n) = Some (lo8 (crcFast (frame_body ev)))"
    "rd_block buf 1 (37 + n) = Some (drop 1 (frame_image pkttype ev))"
proof -
  have g: "length (GUID ev) = 16" using assms(1) by (simp add: wf_event_def)
  have d: "length (ev_data ev) = n" using assms(1) by (simp add: n_def)
  have b: "length (frame_body ev) = 35 + n" using length_frame_body [OF assms(1)] by (simp add: n_def)
  note e = buf_def frame_image_def sealed_def frame_body_def rd_def rd_block_def nth_append g d
  show "rd buf 0 = Some (frame_type_byte pkttype)"
    "rd buf 1 = Some (hi8 (frame_head ev))" "rd buf 2 = Some (lo8 (frame_head ev))"
    "rd_block buf 3 8 = Some (be64_bytes (event_unix_ns ev))"
    "rd buf 14 = Some (hi8 (vscp_class ev))" "rd buf 15 = Some (lo8 (vscp_class ev))"
    "rd buf 16 = Some (hi8 (vscp_type ev))" "rd buf 17 = Some (lo8 (vscp_type ev))"
    "rd_block buf 18 16 = Some (GUID ev)"
    "rd buf 34 = Some (hi8 (sizeData ev))" "rd buf 35 = Some (lo8 (sizeData ev))"
    "rd_block buf 36 n = Some (ev_data ev)"
    by (simp_all add: e)
  show "rd buf (36 + n) = Some (hi8 (crcFast (frame_body ev)))"
    "rd buf (37 + n) = Some (lo8 (crcFast (frame_body ev)))"
    "rd_block buf 1 (37 + n) = Some (drop 1 (frame_image pkttype ev))"
    using b by (simp_all add: buf_def frame_image_def sealed_def rd_def rd_block_def nth_append nth_Cons')
qed

lemma frame_type_byte_type: "GET_VSCP_BINARY_PACKET_TYPE (frame_type_byte t) = VSCP_MULTICAST_TYPE_EVENT1"
proof -
  have m: "(0x0f :: u8) = mask 4" by (simp add: mask_eq_exp_minus_1)
  have "bit (drop_bit 4 (t AND mask 4 OR push_bit 4 1) AND mask 4 :: u8) n \<longleftrightarrow> bit (1 :: u8) n" for n
    by (simp only: bit_and_iff bit_drop_bit_eq bit_or_iff bit_push_bit_iff bit_mask_iff bit_1_iff
        comp_def possible_bit_word) auto
  then show ?thesis
    unfolding GET_VSCP_BINARY_PACKET_TYPE_def frame_type_byte_def VSCP_MULTICAST_TYPE_EVENT1_def m
    by (intro bit_word_eqI)
qed

text \<open>The event a reader gets from the frame of an event.\<close>

definition received :: "host_clock \<Rightarrow> vscpEvent \<Rightarrow> vscpEvent \<Rightarrow> vscpEvent" where
  "received clk ev dest =
     dest\<lparr>head := frame_head ev, obid := 0, year := 0xffff, month := 0xff,
        timestamp_ns := (if event_unix_ns ev = 0 then vscp_makeTimeStampNs clk else event_unix_ns ev),
        vscp_class := vscp_class ev, vscp_type := vscp_type ev, GUID := GUID ev,
        sizeData := sizeData ev, pdata := (if sizeData ev = 0 then None else Some (ev_data ev)),
        crc := crcFast (frame_body ev)\<rparr>"

lemma getEventFromFrame_image:
  assumes "wf_event ev" and "38 + unat (sizeData ev) \<le> len"
  shows "vscp_getEventFromFrame clk (Some dest) (Some (frame_image pkttype ev @ rest)) len
       = Some (True, Some (received clk ev dest))"
proof -
  note reads = frame_image_reads [OF assms(1), of pkttype rest]
  have "frame_check (frame_image pkttype ev @ rest) len = Some (Some (crcFast (frame_body ev)))"
    using assms(2) reads sealed_residue [of "frame_type_byte pkttype" "frame_body ev"]
    by (simp add: frame_check_def FRAME0_HEADER_LENGTH_def frame_image_def Let_def add.commute)
  then show ?thesis
    using reads
    by (simp add: vscp_getEventFromFrame_def frame_type_byte_type frame_common_def frame_time1_def
        frame_class_type_def received_def Let_def)
qed

section \<open>What a frame does to the content of an event\<close>

definition view_unix_ns :: "event_view \<Rightarrow> u64" where
  "view_unix_ns v =
     (if is_unix_ns (v_head v) then v_time v
      else word_of_int (timegm \<lparr>tm_year = uint (v_year v) - 1900, tm_mon = uint (v_month v) - 1,
             tm_mday = uint (tb_day (v_time v)), tm_hour = uint (tb_hour (v_time v)),
             tm_min = uint (tb_minute (v_time v)), tm_sec = uint (tb_second (v_time v))\<rparr>) * 1000000000
           + ucast (tb_timestamp (v_time v)) * 1000)"

definition ns_head :: "u16 \<Rightarrow> u16" where
  "ns_head h = (h AND NOT FRAME_VERSION_MASK) OR FRAME_VERSION_UNIX_NS"

definition view_body :: "event_view \<Rightarrow> u8 list" where
  "view_body v =
     [hi8 (ns_head (v_head v)), lo8 (ns_head (v_head v))] @ be64_bytes (view_unix_ns v) @ [0, 0, 0]
     @ [hi8 (v_class v), lo8 (v_class v), hi8 (v_type v), lo8 (v_type v)]
     @ v_guid v @ [hi8 (of_nat (length (v_data v))), lo8 (of_nat (length (v_data v)))] @ v_data v"

text \<open>The event at the receiver: nanosecond stamp, fresh origin id, checksum of the frame.\<close>

definition frame_view :: "event_view \<Rightarrow> event_view" where
  "frame_view v = v\<lparr>v_head := ns_head (v_head v), v_obid := 0, v_year := 0xffff, v_month := 0xff,
     v_time := view_unix_ns v, v_crc := crcFast (view_body v)\<rparr>"

lemma bit_ns_head: "bit (ns_head h) n \<longleftrightarrow> n = 8 \<or> bit h n \<and> n \<noteq> 9"
  unfolding ns_head_def version_mask
  by (auto simp: bit_or_iff bit_and_iff bit_not_iff bit_push_bit_iff bit_mask_iff unix_ns_bit
      dest: bit_imp_le_length)

lemma ns_head_facts [simp]: "is_unix_ns (ns_head h)" "ns_head (ns_head h) = ns_head h"
  by (auto simp: is_unix_ns_bits bit_ns_head intro: bit_word_eqI)

lemma frame_view_stable [simp]: "frame_view (frame_view v) = frame_view v"
proof -
  have "view_unix_ns (frame_view v) = view_unix_ns v"
    by (simp add: frame_view_def) (simp add: view_unix_ns_def)
  moreover from this have "view_body (frame_view v) = view_body v"
    by (simp add: view_body_def) (simp add: frame_view_def)
  ultimately show ?thesis by (simp add: frame_view_def)
qed

lemma view_norm_frame [simp]:
  "view_unix_ns (view_norm v) = view_unix_ns v" "view_body (view_norm v) = view_body v"
  "frame_view (view_norm v) = frame_view v" "view_norm (frame_view v) = frame_view v"
proof -
  show u: "view_unix_ns (view_norm v) = view_unix_ns v" by (simp add: view_norm_def view_unix_ns_def)
  show b: "view_body (view_norm v) = view_body v" by (simp add: view_body_def u) (simp add: view_norm_def)
  show "frame_view (view_norm v) = frame_view v"
    by (simp add: frame_view_def u b) (simp add: view_norm_def)
  show "view_norm (frame_view v) = frame_view v" by (simp add: view_norm_def frame_view_def)
qed

lemma view_unix_ns_ev: "view_unix_ns (ev_view ev) = event_unix_ns ev"
  by (simp add: view_unix_ns_def ev_view_def event_unix_ns_def ev_tm_def)

lemma view_body_ev: "wf_event ev \<Longrightarrow> view_body (ev_view ev) = frame_body ev"
  using length_ev_data [of ev]
  by (simp add: view_body_def view_unix_ns_ev frame_body_def frame_head_def ns_head_def)
    (simp add: ev_view_def)

lemma received_ok:
  assumes "wf_event ev"
  shows "wf_event (received clk ev dest)"
    and "event_unix_ns ev \<noteq> 0 \<Longrightarrow> ev_view (received clk ev dest) = frame_view (ev_view ev)"
    and "ev_data (received clk ev dest) = ev_data ev"
proof -
  have g: "length (GUID ev) = 16" "unat (sizeData ev) \<le> VSCP_LEVEL2_MAXDATA"
    using assms by (simp_all add: wf_event_def)
  show "wf_event (received clk ev dest)"
    using g length_ev_data [OF assms] by (simp add: wf_event_def received_def)
  show "ev_data (received clk ev dest) = ev_data ev"
  proof -
    have "pdata (received clk ev dest) = (if sizeData ev = 0 then None else Some (ev_data ev))"
      "sizeData (received clk ev dest) = sizeData ev" by (simp_all add: received_def)
    then show ?thesis
      using length_ev_data [OF assms] by (auto simp: ev_data_def [of "received clk ev dest"])
  qed
  then show "event_unix_ns ev \<noteq> 0 \<Longrightarrow> ev_view (received clk ev dest) = frame_view (ev_view ev)"
    using view_body_ev [OF assms] view_unix_ns_ev [of ev]
    by (simp add: frame_view_def ev_view_def) (simp add: received_def frame_head_def ns_head_def)
qed

section \<open>The contract of a frame codec\<close>

text \<open>
  What the transports rely on: a stamped event that fits is written and read back by the peer
  with the content \<^const>\<open>frame_view\<close> gives it; a buffer that is too small is refused untouched.
\<close>

locale frame_codec =
  fixes send :: "u8 list ptr \<Rightarrow> nat \<Rightarrow> u8 \<Rightarrow> 'e ptr \<Rightarrow> (bool \<times> u8 list ptr) safe"
    and recv :: "'e ptr \<Rightarrow> u8 list ptr \<Rightarrow> nat \<Rightarrow> (bool \<times> 'e ptr) safe"
    and ok :: "'e \<Rightarrow> bool" and raw :: "'e \<Rightarrow> bool" and fsize :: "'e \<Rightarrow> nat"
    and view :: "'e \<Rightarrow> event_view"
  assumes delivers:
    "ok e \<Longrightarrow> view_unix_ns (view e) \<noteq> 0 \<Longrightarrow> raw d \<Longrightarrow> fsize e \<le> len \<Longrightarrow> len \<le> length buf \<Longrightarrow>
     \<exists>buf' d'. send (Some buf) len t (Some e) = Some (True, Some buf') \<and> length buf' = length buf
       \<and> recv (Some d) (Some buf') len = Some (True, Some d') \<and> ok d' \<and> view d' = frame_view (view e)"
    and refuses_small: "ok e \<Longrightarrow> len < fsize e \<Longrightarrow> send (Some buf) len t (Some e) = Some (False, Some buf)"
    and ok_raw: "ok e \<Longrightarrow> raw e"
    and fsize_data: "ok e \<Longrightarrow> fsize e = 38 + length (v_data (view e))"
begin

text \<open>Relaying what was received changes nothing any more.\<close>

lemma relay:
  assumes "ok e" "view_unix_ns (view e) \<noteq> 0" "raw d" "fsize e \<le> len" "len \<le> length buf"
  shows "\<exists>buf1 d1 buf2 d2. send (Some buf) len t (Some e) = Some (True, Some buf1)
     \<and> recv (Some d) (Some buf1) len = Some (True, Some d1)
     \<and> send (Some buf) len t' (Some d1) = Some (True, Some buf2)
     \<and> recv (Some d) (Some buf2) len = Some (True, Some d2)
     \<and> view d2 = frame_view (view e)"
proof -
  obtain buf1 d1 where one: "send (Some buf) len t (Some e) = Some (True, Some buf1)"
      "recv (Some d) (Some buf1) len = Some (True, Some d1)" "ok d1" "view d1 = frame_view (view e)"
    using delivers [OF assms, of t] by blast
  have "view_unix_ns (view d1) \<noteq> 0"
    using assms(2) one(4) by (simp add: frame_view_def view_unix_ns_def)
  moreover have "fsize d1 \<le> len"
    using assms(4) fsize_data [OF assms(1)] fsize_data [OF one(3)] one(4) by (simp add: frame_view_def)
  ultimately obtain buf2 d2 where "send (Some buf) len t' (Some d1) = Some (True, Some buf2)"
      "recv (Some d) (Some buf2) len = Some (True, Some d2)" "view d2 = frame_view (view d1)"
    using delivers [OF one(3) _ assms(3) _ assms(5), of t'] by blast
  with one show ?thesis by auto
qed

end

interpretation ev_frame: frame_codec vscp_writeEventToFrame "vscp_getEventFromFrame clk"
  wf_event "\<lambda>_. True" "\<lambda>ev. vscp_getFrameSizeFromEvent (Some ev)" ev_view for clk
proof unfold_locales
  fix ev d :: vscpEvent and len and buf :: "u8 list" and t
  assume a: "wf_event ev" "view_unix_ns (ev_view ev) \<noteq> 0"
    "vscp_getFrameSizeFromEvent (Some ev) \<le> len" "len \<le> length buf"
  have l: "38 + unat (sizeData ev) \<le> len"
    using a(3) by (simp add: vscp_getFrameSizeFromEvent_def FRAME0_HEADER_LENGTH_def)
  have "length (frame_image t ev) \<le> length buf"
    using l a(4) length_frame_body [OF a(1)] by (simp add: frame_image_def)
  then show "\<exists>buf' d'. vscp_writeEventToFrame (Some buf) len t (Some ev) = Some (True, Some buf')
      \<and> length buf' = length buf
      \<and> vscp_getEventFromFrame clk (Some d) (Some buf') len = Some (True, Some d')
      \<and> wf_event d' \<and> ev_view d' = frame_view (ev_view ev)"
    using writeEventToFrame_image [OF a(1) l a(4)] getEventFromFrame_image [OF a(1) l]
      received_ok [OF a(1)] a(2) by (simp add: view_unix_ns_ev)
qed (auto simp: vscp_writeEventToFrame_def vscp_getFrameSizeFromEvent_def FRAME0_HEADER_LENGTH_def
    event_shape ev_view_def ev_data_def split: option.splits)

text \<open>The routines for embedded events go through a temporary event; they meet the same contract.\<close>

interpretation ex_frame: frame_codec "vscp_writeEventExToFrame fresh" "vscp_getEventExFromFrame clk fresh"
  wf_eventEx raw_eventEx "\<lambda>ex. vscp_getFrameSizeFromEventEx (Some ex)" ex_view
  for clk fresh
proof unfold_locales
  let ?tmp = "(vscp_newEvent fresh FRAME_VERSION_UNIX_NS)\<lparr>pdata := None\<rparr>"
  fix ex d :: vscpEventEx and len and buf :: "u8 list" and t
  {
    assume a: "wf_eventEx ex" "view_unix_ns (ex_view ex) \<noteq> 0" "raw_eventEx d"
      "vscp_getFrameSizeFromEventEx (Some ex) \<le> len" "len \<le> length buf"
    obtain ev where ev: "vscp_convertEventExToEvent (Some ?tmp) (Some ex) = Some (True, Some ev)"
        "wf_event ev" "ev_view ev = view_norm (ex_view ex)"
      using to_ev.copies [OF a(1) TrueI] by blast
    have data: "v_data (ev_view ev) = v_data (ex_view ex)" using ev(3) by (simp add: view_norm_def)
    have size: "vscp_getFrameSizeFromEvent (Some ev) \<le> len"
      using a(1,4) data length_ev_data [OF ev(2)]
      by (simp add: vscp_getFrameSizeFromEvent_def vscp_getFrameSizeFromEventEx_def ev_view_def
          ex_view_def wf_eventEx_def)
    obtain buf' ev' where f: "vscp_writeEventToFrame (Some buf) len t (Some ev) = Some (True, Some buf')"
        "length buf' = length buf" "wf_event ev'"
        "vscp_getEventFromFrame clk (Some ?tmp) (Some buf') len = Some (True, Some ev')"
        "ev_view ev' = frame_view (ex_view ex)"
      using ev_frame.delivers [OF ev(2) _ TrueI size a(5), where t = t and clk = clk and d = ?tmp]
        ev(3) a(2) by auto
    obtain d' where "vscp_convertEventToEventEx (Some d) (Some ev') = Some (True, Some d')"
        "wf_eventEx d'" "ex_view d' = view_norm (ev_view ev')"
      using to_ex.copies [OF f(3) a(3)] by blast
    with ev(1) f show "\<exists>buf' d'. vscp_writeEventExToFrame fresh (Some buf) len t (Some ex) = Some (True, Some buf')
        \<and> length buf' = length buf
        \<and> vscp_getEventExFromFrame clk fresh (Some d) (Some buf') len = Some (True, Some d')
        \<and> wf_eventEx d' \<and> ex_view d' = frame_view (ex_view ex)"
      by (simp add: vscp_writeEventExToFrame_def vscp_getEventExFromFrame_def Let_def)
  next
    assume a: "wf_eventEx ex" "len < vscp_getFrameSizeFromEventEx (Some ex)"
    obtain ev where ev: "vscp_convertEventExToEvent (Some ?tmp) (Some ex) = Some (True, Some ev)"
        "wf_event ev" "ev_view ev = view_norm (ex_view ex)"
      using to_ev.copies [OF a(1) TrueI] by blast
    have data: "v_data (ev_view ev) = v_data (ex_view ex)" using ev(3) by (simp add: view_norm_def)
    have "len < vscp_getFrameSizeFromEvent (Some ev)"
      using a data length_ev_data [OF ev(2)]
      by (simp add: vscp_getFrameSizeFromEvent_def vscp_getFrameSizeFromEventEx_def ev_view_def
          ex_view_def wf_eventEx_def)
    then show "vscp_writeEventExToFrame fresh (Some buf) len t (Some ex) = Some (False, Some buf)"
      using ev_frame.refuses_small [OF ev(2)] ev(1) by (simp add: vscp_writeEventExToFrame_def Let_def)
  }
qed (simp_all add: vscp_getFrameSizeFromEventEx_def FRAME0_HEADER_LENGTH_def event_shape ex_view_def)

section \<open>Damaged frames\<close>

lemma two_byte_change:
  assumes "Suc i < length f"
  shows "f = take i f @ [f ! i, f ! Suc i] @ drop (i + 2) f"
    and "f[i := x, Suc i := y] = take i f @ [x, y] @ drop (i + 2) f"
proof -
  have "drop i f = f ! i # f ! Suc i # drop (i + 2) f"
    using assms by (simp add: Cons_nth_drop_Suc)
  then show f: "f = take i f @ [f ! i, f ! Suc i] @ drop (i + 2) f"
    by (metis append_Cons append_Nil append_take_drop_id)
  have "length (take i f) = i" using assms by simp
  then show "f[i := x, Suc i := y] = take i f @ [x, y] @ drop (i + 2) f"
    by (subst (1) f) (simp add: list_update_append)
qed

lemma crc_of_damaged:
  assumes "crcFast f = 0" and "Suc i < length f" and "f[i := x, Suc i := y] \<noteq> f"
  shows "crcFast (f[i := x, Suc i := y]) \<noteq> 0"
proof
  assume "crcFast (f[i := x, Suc i := y]) = 0"
  then have "crcFast (take i f @ [x, y] @ drop (i + 2) f)
      = crcFast (take i f @ [f ! i, f ! Suc i] @ drop (i + 2) f)"
    using assms(1) two_byte_change [OF assms(2)] by simp
  then have "x = f ! i \<and> y = f ! Suc i" by (simp only: crcFast_burst)
  then have "f[i := x, Suc i := y] = f" by simp
  with assms(3) show False ..
qed

lemma frame_check_damaged:
  assumes "length buf = 38 + unat (be16 (buf ! 34) (buf ! 35))" and "crcFast (drop 1 buf) \<noteq> 0"
    and "buf ! 2 AND VSCP_HEADER_NO_CRC = 0"
  shows "frame_check buf len = Some None"
  using assms by (simp add: frame_check_def FRAME0_HEADER_LENGTH_def rd_def rd_block_def Let_def)

section \<open>The reader stays inside the buffer\<close>

lemma frame_check_safe:
  assumes "36 \<le> length buf" and "len \<le> length buf"
  shows "\<exists>r. frame_check buf len = Some r
    \<and> (r \<noteq> None \<longrightarrow> 38 + unat (be16 (buf ! 34) (buf ! 35)) \<le> length buf)"
  using assms by (auto simp: frame_check_def FRAME0_HEADER_LENGTH_def rd_def rd_block_def Let_def)

lemma frame_common_safe:
  assumes "38 + unat (be16 (buf ! 34) (buf ! 35)) \<le> length buf"
  shows "\<exists>ev'. frame_common buf c ev = Some ev' \<and> length (GUID ev') = 16
    \<and> sizeData ev' = be16 (buf ! 34) (buf ! 35)
    \<and> (case pdata ev' of None \<Rightarrow> sizeData ev' = 0 | Some d \<Rightarrow> length d = unat (sizeData ev'))"
  using assms by (auto simp: frame_common_def rd_def rd_block_def Let_def)

definition frame_kept :: "vscpEvent \<Rightarrow> vscpEvent \<Rightarrow> bool" where
  "frame_kept ev ev' \<longleftrightarrow> GUID ev' = GUID ev \<and> sizeData ev' = sizeData ev \<and> pdata ev' = pdata ev"

lemma frame_time1_safe: "36 \<le> length buf \<Longrightarrow> \<exists>ev'. frame_time1 clk buf ev = Some ev' \<and> frame_kept ev ev'"
  by (simp add: frame_time1_def rd_block_def Let_def frame_kept_def)

lemma frame_time0_safe: "36 \<le> length buf \<Longrightarrow> \<exists>ev'. frame_time0 clk buf ev = Some ev' \<and> frame_kept ev ev'"
  by (simp add: frame_time0_def rd_def Let_def frame_kept_def ev_set_tm_def)

lemma frame_class_type_safe:
  "36 \<le> length buf \<Longrightarrow> \<exists>ev'. frame_class_type buf ev = Some ev' \<and> frame_kept ev ev'"
  by (simp add: frame_class_type_def rd_def frame_kept_def)

lemma getEventFromFrame_safe:
  assumes "36 \<le> length buf" and "len \<le> length buf"
  shows "vscp_getEventFromFrame clk (Some ev) (Some buf) len = Some (False, Some ev)
    \<or> (\<exists>ev'. vscp_getEventFromFrame clk (Some ev) (Some buf) len = Some (True, Some ev')
         \<and> length (GUID ev') = 16 \<and> sizeData ev' = be16 (buf ! 34) (buf ! 35)
         \<and> (case pdata ev' of None \<Rightarrow> sizeData ev' = 0 | Some d \<Rightarrow> length d = unat (sizeData ev')))"
proof -
  obtain b where b: "rd buf 0 = Some b" using assms(1) by (cases buf) (auto simp: rd_def)
  obtain r where r: "frame_check buf len = Some r"
      "r \<noteq> None \<longrightarrow> 38 + unat (be16 (buf ! 34) (buf ! 35)) \<le> length buf"
    using frame_check_safe [OF assms] by blast
  show ?thesis
  proof (cases r)
    case None
    then show ?thesis using b r by (simp add: vscp_getEventFromFrame_def)
  next
    case (Some c)
    obtain e1 where e1: "frame_common buf c ev = Some e1" "length (GUID e1) = 16" "sizeData e1 = be16 (buf ! 34) (buf ! 35)"
        "case pdata e1 of None \<Rightarrow> sizeData e1 = 0 | Some d \<Rightarrow> length d = unat (sizeData e1)"
      using frame_common_safe [of buf c ev] r(2) Some by auto
    obtain e2 where e2: "(if VSCP_MULTICAST_TYPE_EVENT1 = GET_VSCP_BINARY_PACKET_TYPE b
        then frame_time1 clk buf e1 else frame_time0 clk buf e1) = Some e2" "frame_kept e1 e2"
      using frame_time1_safe [OF assms(1), of clk e1] frame_time0_safe [OF assms(1), of clk e1]
      by (cases "VSCP_MULTICAST_TYPE_EVENT1 = GET_VSCP_BINARY_PACKET_TYPE b") auto
    obtain e3 where e3: "frame_class_type buf e2 = Some e3" "frame_kept e2 e3"
      using frame_class_type_safe [OF assms(1)] by blast
    have "vscp_getEventFromFrame clk (Some ev) (Some buf) len = Some (True, Some (e3\<lparr>obid := 0\<rparr>))"
      using b r(1) Some e1(1) e2(1) e3(1) by (simp add: vscp_getEventFromFrame_def)
    then show ?thesis
      using e1(2-4) e2(2) e3(2) by (auto simp: frame_kept_def split: option.splits)
  qed
qed

section \<open>Properties\<close>

text \<open>C20: an event that carries a time is written to a frame of the announced size, and the peer that
  reads the frame gets a well-formed event with the same class, type, GUID, data and priority bits,
  the time as Unix nanoseconds, and the checksum of the frame.\<close>

theorem frame_round_trip:
  assumes "wf_event ev" and "event_unix_ns ev \<noteq> 0"
    and "vscp_getFrameSizeFromEvent (Some ev) \<le> len" and "len \<le> length buf"
  shows "\<exists>buf' ev'. vscp_writeEventToFrame (Some buf) len pkttype (Some ev) = Some (True, Some buf')
    \<and> length buf' = length buf
    \<and> vscp_getEventFromFrame clk (Some dest) (Some buf') len = Some (True, Some ev')
    \<and> wf_event ev' \<and> ev_view ev' = frame_view (ev_view ev)"
  using ev_frame.delivers [OF assms(1) _ TrueI assms(3,4)] assms(2) by (simp add: view_unix_ns_ev)

theorem frame_round_trip_witness:
  "\<exists>buf' ev'. vscp_writeEventToFrame (Some (replicate 41 0)) 41 0 (Some sample_event) = Some (True, Some buf')
    \<and> length buf' = length (replicate 41 (0 :: u8))
    \<and> vscp_getEventFromFrame \<lparr>clk_sec = 0, clk_nsec = 0, clk_ts = 0\<rparr> (Some sample_event) (Some buf') 41
        = Some (True, Some ev')
    \<and> wf_event ev' \<and> ev_view ev' = frame_view (ev_view sample_event)"
  by (rule frame_round_trip [OF sample_event_ok(1)])
    (simp_all add: sample_event_def event_unix_ns_def is_unix_ns_def FRAME_VERSION_MASK_def
      FRAME_VERSION_UNIX_NS_def vscp_getFrameSizeFromEvent_def FRAME0_HEADER_LENGTH_def)

text \<open>the same holds of the routines for events with embedded data, which go through a temporary
  event, whatever its fresh memory holds.\<close>

theorem frame_round_trip_ex:
  assumes "wf_eventEx ex" and "view_unix_ns (ex_view ex) \<noteq> 0" and "raw_eventEx dest"
    and "vscp_getFrameSizeFromEventEx (Some ex) \<le> len" and "len \<le> length buf"
  shows "\<exists>buf' ex'. vscp_writeEventExToFrame fresh (Some buf) len pkttype (Some ex) = Some (True, Some buf')
    \<and> length buf' = length buf
    \<and> vscp_getEventExFromFrame clk fresh (Some dest) (Some buf') len = Some (True, Some ex')
    \<and> wf_eventEx ex' \<and> ex_view ex' = frame_view (ex_view ex)"
  by (rule ex_frame.delivers [OF assms])

theorem frame_round_trip_ex_witness:
  "\<exists>buf' ex'. vscp_writeEventExToFrame sample_event (Some (replicate 38 0)) 38 0
        (Some (blank_eventEx\<lparr>xhead := 0x100, xtimestamp_ns := 9\<rparr>)) = Some (True, Some buf')
    \<and> length buf' = length (replicate 38 (0 :: u8))
    \<and> vscp_getEventExFromFrame \<lparr>clk_sec = 0, clk_nsec = 0, clk_ts = 0\<rparr> sample_event
        (Some blank_eventEx) (Some buf') 38 = Some (True, Some ex')
    \<and> wf_eventEx ex' \<and> ex_view ex' = frame_view (ex_view (blank_eventEx\<lparr>xhead := 0x100, xtimestamp_ns := 9\<rparr>))"
  by (rule frame_round_trip_ex)
    (simp_all add: blank_eventEx_def event_shape VSCP_LEVEL2_MAXDATA_def view_unix_ns_def ex_view_def
      is_unix_ns_def FRAME_VERSION_MASK_def FRAME_VERSION_UNIX_NS_def
      vscp_getFrameSizeFromEventEx_def FRAME0_HEADER_LENGTH_def)

text \<open>an event that was received and is sent on reaches the next hop unchanged.\<close>

theorem frame_relay_unchanged:
  assumes "wf_event ev" and "event_unix_ns ev \<noteq> 0"
    and "vscp_getFrameSizeFromEvent (Some ev) \<le> len" and "len \<le> length buf"
  shows "\<exists>buf1 ev1 buf2 ev2. vscp_writeEventToFrame (Some buf) len t (Some ev) = Some (True, Some buf1)
    \<and> vscp_getEventFromFrame clk (Some dest) (Some buf1) len = Some (True, Some ev1)
    \<and> vscp_writeEventToFrame (Some buf) len t' (Some ev1) = Some (True, Some buf2)
    \<and> vscp_getEventFromFrame clk (Some dest) (Some buf2) len = Some (True, Some ev2)
    \<and> ev_view ev2 = frame_view (ev_view ev)"
  using ev_frame.relay [OF assms(1) _ TrueI assms(3,4)] assms(2) by (simp add: view_unix_ns_ev)

theorem frame_relay_unchanged_witness:
  "\<exists>buf1 ev1 buf2 ev2. vscp_writeEventToFrame (Some (replicate 41 0)) 41 0 (Some sample_event)
        = Some (True, Some buf1)
    \<and> vscp_getEventFromFrame \<lparr>clk_sec = 0, clk_nsec = 0, clk_ts = 0\<rparr> (Some sample_event) (Some buf1) 41
        = Some (True, Some ev1)
    \<and> vscp_writeEventToFrame (Some (replicate 41 0)) 41 1 (Some ev1) = Some (True, Some buf2)
    \<and> vscp_getEventFromFrame \<lparr>clk_sec = 0, clk_nsec = 0, clk_ts = 0\<rparr> (Some sample_event) (Some buf2) 41
        = Some (True, Some ev2)
    \<and> ev_view ev2 = frame_view (ev_view sample_event)"
  by (rule frame_relay_unchanged [OF sample_event_ok(1)])
    (simp_all add: sample_event_def event_unix_ns_def is_unix_ns_def FRAME_VERSION_MASK_def
      FRAME_VERSION_UNIX_NS_def vscp_getFrameSizeFromEvent_def FRAME0_HEADER_LENGTH_def)

text \<open>C21: a frame in which two neighbouring bytes behind the type byte were changed on the way, neither of them in
  the size field, is refused and the destination left alone, provided that the damaged frame does not ask for
  the checksum to be skipped. (The type byte is not under the checksum, the size field says where the checksum
  is, and a header that asks for no checksum is obeyed when the dummy checksum follows: damage of these kinds is
  outside the statement.)\<close>

theorem frame_damage_is_detected:
  assumes "wf_event ev" and "1 \<le> i" and "Suc i < length (frame_image t ev)"
    and "i \<notin> {33, 34, 35}" and "(frame_image t ev)[i := x, Suc i := y] \<noteq> frame_image t ev"
    and "(frame_image t ev)[i := x, Suc i := y] ! 2 AND VSCP_HEADER_NO_CRC = 0"
  shows "vscp_getEventFromFrame clk (Some dest) (Some ((frame_image t ev)[i := x, Suc i := y])) len
       = Some (False, Some dest)"
proof -
  let ?f = "frame_image t ev" and ?g = "(frame_image t ev)[i := x, Suc i := y]"
  obtain j where i: "i = Suc j" using assms(2) by (cases i) auto
  have len: "length ?f = 38 + unat (sizeData ev)"
    using length_frame_body [OF assms(1)] by (simp add: frame_image_def)
  have "?f ! 34 = hi8 (sizeData ev)" "?f ! 35 = lo8 (sizeData ev)"
    using frame_image_reads(10,11) [OF assms(1), of t "[]"] by (simp_all add: rd_Some_iff)
  then have "be16 (?g ! 34) (?g ! 35) = sizeData ev" using assms(4) by simp
  moreover have "drop 1 ?g = (drop 1 ?f)[j := x, Suc j := y]" by (simp add: i drop_update_swap)
  then have "crcFast (drop 1 ?g) \<noteq> 0"
    using crc_of_damaged [of "drop 1 ?f" j x y] assms(3,5) i
      sealed_residue [of "frame_type_byte t" "frame_body ev"]
    by (cases ?f) (auto simp: frame_image_def)
  ultimately have "frame_check ?g len = Some None"
    using len assms(6) by (intro frame_check_damaged) simp_all
  then show ?thesis
    using len by (simp add: vscp_getEventFromFrame_def rd_def)
qed

theorem frame_damage_is_detected_witness:
  "vscp_getEventFromFrame \<lparr>clk_sec = 0, clk_nsec = 0, clk_ts = 0\<rparr> (Some sample_event)
     (Some ((frame_image 0 sample_event)[36 := 7, Suc 36 := 2])) 41 = Some (False, Some sample_event)"
proof (rule frame_damage_is_detected [OF sample_event_ok(1)])
  let ?f = "frame_image 0 sample_event"
  have d: "ev_data sample_event = [1, 2, 3]" "unat (sizeData sample_event) = 3"
    by (simp_all add: ev_data_def sample_event_def)
  have len: "length ?f = 41"
    using length_frame_body [OF sample_event_ok(1)] d(2) by (simp add: frame_image_def)
  have "take 3 (drop 36 ?f) = [1, 2, 3]"
    using frame_image_reads(12) [OF sample_event_ok(1), of 0 "[]"] d by (simp add: rd_block_Some_iff)
  then have "hd (drop 36 ?f) = 1" by (cases "drop 36 ?f") auto
  then have "?f ! 36 = 1" using len by (simp add: hd_drop_conv_nth)
  moreover have "?f[36 := 7, Suc 36 := 2] ! 36 = 7" using len by simp
  moreover have "(7 :: u8) \<noteq> 1" by simp
  ultimately show "?f[36 := 7, Suc 36 := 2] \<noteq> ?f" by metis
  have "?f ! 2 = lo8 (frame_head sample_event)"
    using frame_image_reads(3) [OF sample_event_ok(1), of 0 "[]"] by (simp add: rd_Some_iff)
  moreover have "lo8 (frame_head sample_event) = 0x60"
    by (simp add: frame_head_def sample_event_def lo8_def FRAME_VERSION_MASK_def FRAME_VERSION_UNIX_NS_def)
  ultimately show "?f[36 := 7, Suc 36 := 2] ! 2 AND VSCP_HEADER_NO_CRC = 0"
    by (simp add: VSCP_HEADER_NO_CRC_def)
  show "Suc 36 < length ?f" using len by simp
qed simp_all

text \<open>C22: on every buffer that holds at least the fixed part of a frame the reader stays inside the
  buffer, whatever the bytes are; it refuses the frame and leaves the event alone, or it delivers
  an event with a sixteen byte GUID and exactly the announced number of data bytes.\<close>

theorem frame_reader_safe:
  assumes "36 \<le> length buf" and "len \<le> length buf"
  shows "vscp_getEventFromFrame clk (Some ev) (Some buf) len = Some (False, Some ev)
    \<or> (\<exists>ev'. vscp_getEventFromFrame clk (Some ev) (Some buf) len = Some (True, Some ev')
         \<and> length (GUID ev') = 16
         \<and> (case pdata ev' of None \<Rightarrow> sizeData ev' = 0 | Some d \<Rightarrow> length d = unat (sizeData ev')))"
  using getEventFromFrame_safe [OF assms, of clk ev] by blast

theorem frame_reader_safe_witness:
  "vscp_getEventFromFrame \<lparr>clk_sec = 0, clk_nsec = 0, clk_ts = 0\<rparr> (Some sample_event)
     (Some (replicate 36 0)) 36 = Some (False, Some sample_event)
   \<or> (\<exists>ev'. vscp_getEventFromFrame \<lparr>clk_sec = 0, clk_nsec = 0, clk_ts = 0\<rparr> (Some sample_event)
         (Some (replicate 36 0)) 36 = Some (True, Some ev')
         \<and> length (GUID ev') = 16
         \<and> (case pdata ev' of None \<Rightarrow> sizeData ev' = 0 | Some d \<Rightarrow> length d = unat (sizeData ev')))"
  by (rule frame_reader_safe) simp_all

text \<open>on a shorter buffer the reader looks at the size field before it compares the length, so it
  reads outside the buffer.\<close>

theorem frame_reader_faults_on_short_buffer:
  assumes "length buf < 36"
  shows "vscp_getEventFromFrame clk (Some ev) (Some buf) len = None"
  using assms
  by (cases "buf = []") (auto simp: vscp_getEventFromFrame_def frame_check_def rd_def Let_def)

theorem frame_reader_faults_on_short_buffer_witness:
  "vscp_getEventFromFrame \<lparr>clk_sec = 0, clk_nsec = 0, clk_ts = 0\<rparr> (Some sample_event) (Some [0x10, 0, 0]) 3 = None"
  by (rule frame_reader_faults_on_short_buffer) simp

text \<open>command and reply frames are the packet type, the big-endian code words and the argument,
  sealed with the checksum of that content, so that the receiver's residue over it is zero.\<close>

theorem command_and_reply_frames:
  assumes "length arg + 7 \<le> len" and "len \<le> length buf"
  shows "vscp_writeCommandToFrame (Some buf) len command (Some arg) (length arg)
       = (let f = sealed 0xe0 ([hi8 command, lo8 command] @ arg) in Some (0, Some (f @ drop (length f) buf)))
    \<and> vscp_writeReplyToFrame (Some buf) len command err (Some arg) (length arg)
       = (let f = sealed 0xf0 ([hi8 command, lo8 command, hi8 err, lo8 err] @ arg)
          in Some (0, Some (f @ drop (length f) buf)))
    \<and> crcFast (drop 1 (sealed t body)) = 0"
proof -
  have a: "rd_block arg 0 (length arg) = Some arg" by (simp add: rd_block_def)
  show ?thesis
    using assms sealed_residue [of t body] a
    by (cases "arg = []")
      (simp_all add: vscp_writeCommandToFrame_def vscp_writeReplyToFrame_def wr_block_fuse seal_at Let_def
        VSCP_BINARY_PACKET_TYPE_COMMAND_def VSCP_BINARY_PACKET_TYPE_RESPONSE_def VSCP_ENCRYPTION_NONE_def)
qed

theorem command_and_reply_frames_witness:
  "vscp_writeCommandToFrame (Some (replicate 8 0)) 8 5 (Some [1]) 1
     = (let f = sealed 0xe0 ([hi8 5, lo8 5] @ [1]) in Some (0, Some (f @ drop (length f) (replicate 8 0))))"
  using command_and_reply_frames [of "[1]" 8 "replicate 8 0" 5 0 0 "[]"] by simp

end
