(* ===== verification/EventText.thy ===== *)
theory EventText
  imports EventTime Guid Frame
begin

text \<open>
  Events as text (vscphelper.cpp): the data bytes as a list of hexadecimal or decimal numbers, the
  ISO date of an event, and the comma separated form
  \<^verbatim>\<open>head,class,type,obid,datetime,timestamp,GUID,data...\<close> in which events travel over the line
  protocols; each with its reader.
\<close>

section \<open>Data bytes\<close>

definition VSCP_MAX_DATA :: nat where "VSCP_MAX_DATA = 512"

definition fmt_0x02X :: "u8 \<Rightarrow> string" where
  "fmt_0x02X b = ''0x'' @ fmt_02X b"

definition break_text :: "bool \<Rightarrow> string" where
  "break_text bUseHtmlBreak = (if bUseHtmlBreak then ''<br>'' else [CHR 0x0D, CHR 0x0A])"

text \<open>The loop over the bytes: \<open>n\<close> is their number, \<open>i\<close> the index of the first one left.\<close>

fun data_text :: "(u8 \<Rightarrow> string) \<Rightarrow> string \<Rightarrow> bool \<Rightarrow> nat \<Rightarrow> nat \<Rightarrow> u8 list \<Rightarrow> string" where
  "data_text fmt strBreak bBreak n i [] = []"
| "data_text fmt strBreak bBreak n i (b # bs) =
     fmt b @ (if i < n - 1 then '','' else [])
     @ (if bBreak \<and> (i + 1) mod 8 = 0 then strBreak else [])
     @ data_text fmt strBreak bBreak n (i + 1) bs"

text \<open>\<^verbatim>\<open>pev\<close> itself is not compared with the null pointer, only its data pointer.\<close>

definition vscp_writeDataToString ::
  "string \<Rightarrow> vscpEvent ptr \<Rightarrow> bool \<Rightarrow> bool \<Rightarrow> (bool \<times> string) safe" where
  "vscp_writeDataToString str pev bUseHtmlBreak bBreak = do {
     ev \<leftarrow> pev;
     (case pdata ev of None \<Rightarrow> Some (False, str)
      | Some d \<Rightarrow> do {
          bs \<leftarrow> rd_block d 0 (unat (sizeData ev));
          Some (True, data_text fmt_0x02X (break_text bUseHtmlBreak) bBreak (unat (sizeData ev)) 0 bs) }) }"

definition vscp_writeDataWithSizeToString ::
  "string \<Rightarrow> u8 list ptr \<Rightarrow> u16 \<Rightarrow> bool \<Rightarrow> bool \<Rightarrow> bool \<Rightarrow> (bool \<times> string) safe" where
  "vscp_writeDataWithSizeToString str pData size_data bUseHtmlBreak bBreak bDecimal =
     (case pData of None \<Rightarrow> Some (False, str)
      | Some d \<Rightarrow> do {
          bs \<leftarrow> rd_block d 0 (unat size_data);
          Some (True, data_text (if bDecimal then (\<lambda>b. fmt_d (unat b)) else fmt_0x02X)
                        (break_text bUseHtmlBreak) bBreak (unat size_data) 0 bs) })"

text \<open>The readers store one byte per token and stop when \<^verbatim>\<open>VSCP_MAX_DATA\<close> bytes are stored.\<close>

fun data_loop :: "string list \<Rightarrow> u8 list \<Rightarrow> u16 \<Rightarrow> (u8 list \<times> u16) safe" where
  "data_loop [] arr n = Some (arr, n)"
| "data_loop (token # tokens) arr n = do {
     arr \<leftarrow> wr_block arr (unat n) [word_of_int (vscp_readStringValue token)];
     let n = n + 1;
     if VSCP_MAX_DATA \<le> unat n then Some (arr, n) else data_loop tokens arr n }"

text \<open>\<open>stack\<close> is what the local array \<^verbatim>\<open>data\<close> holds before it is filled.\<close>

definition vscp_setEventDataFromString ::
  "u8 list \<Rightarrow> vscpEvent ptr \<Rightarrow> string \<Rightarrow> (bool \<times> vscpEvent ptr) safe" where
  "vscp_setEventDataFromString stack pev str =
     (case pev of None \<Rightarrow> Some (False, None)
      | Some ev \<Rightarrow> do {
          (data, n) \<leftarrow> data_loop (vscp_split str (CHR '','')) stack 0;
          p \<leftarrow> (if unat n > 0 then map_option Some (rd_block data 0 (unat n)) else Some None);
          Some (True, Some (ev\<lparr>sizeData := n, pdata := p\<rparr>)) })"

definition vscp_setEventExDataFromString ::
  "vscpEventEx ptr \<Rightarrow> string \<Rightarrow> (bool \<times> vscpEventEx ptr) safe" where
  "vscp_setEventExDataFromString pex str =
     (case pex of None \<Rightarrow> Some (False, None)
      | Some ex \<Rightarrow> do {
          (data, n) \<leftarrow> data_loop (vscp_split str (CHR '','')) (xdata ex) 0;
          Some (True, Some (ex\<lparr>xdata := data, xsizeData := n\<rparr>)) })"

definition vscp_setDataArrayFromString ::
  "u8 list ptr \<Rightarrow> u16 ptr \<Rightarrow> string \<Rightarrow> (bool \<times> u8 list ptr \<times> u16 ptr) safe" where
  "vscp_setDataArrayFromString pData psizeData str =
     (case pData of None \<Rightarrow> Some (False, None, psizeData)
      | Some d \<Rightarrow> (case psizeData of None \<Rightarrow> Some (False, Some d, None)
      | Some _ \<Rightarrow> do {
          (data, n) \<leftarrow> data_loop (vscp_split str (CHR '','')) d 0;
          Some (True, Some data, Some n) }))"

section \<open>Dates\<close>

text \<open>\<^verbatim>\<open>%0kd\<close> of a value that is not negative.\<close>

definition fmt_0d :: "nat \<Rightarrow> nat \<Rightarrow> string" where
  "fmt_0d k n = replicate (k - length (fmt_d n)) (CHR ''0'') @ fmt_d n"

definition iso_text :: "nat \<Rightarrow> nat \<Rightarrow> nat \<Rightarrow> nat \<Rightarrow> nat \<Rightarrow> nat \<Rightarrow> string" where
  "iso_text y mo d h mi s =
     fmt_0d 4 y @ ''-'' @ fmt_0d 2 mo @ ''-'' @ fmt_0d 2 d @ ''T''
     @ fmt_0d 2 h @ '':'' @ fmt_0d 2 mi @ '':'' @ fmt_0d 2 s"

definition iso_of_tm :: "tm \<Rightarrow> string" where
  "iso_of_tm t = iso_text (nat (tm_year t + 1900)) (nat (tm_mon t + 1)) (nat (tm_mday t))
     (nat (tm_hour t)) (nat (tm_min t)) (nat (tm_sec t))"

definition ns_date_text :: "u64 \<Rightarrow> string" where
  "ns_date_text ts =
     (if unat ts > 0
      then iso_of_tm (gmtime (uint ts div 1000000000)) @ ''.'' @ fmt_0d 9 (unat ts mod 1000000000) @ ''Z''
      else [])"

definition vscp_getDateStringFromEvent :: "string \<Rightarrow> vscpEvent ptr \<Rightarrow> bool \<times> string" where
  "vscp_getDateStringFromEvent dt pev =
     (case pev of None \<Rightarrow> (False, dt)
      | Some ev \<Rightarrow>
         (True,
          if is_unix_ns (head ev) then ns_date_text (timestamp_ns ev)
          else if year ev \<noteq> 0 \<or> month ev \<noteq> 0 \<or> tb_day (timestamp_ns ev) \<noteq> 0 \<or> tb_hour (timestamp_ns ev) \<noteq> 0
                  \<or> tb_minute (timestamp_ns ev) \<noteq> 0 \<or> tb_second (timestamp_ns ev) \<noteq> 0
          then iso_text (unat (year ev)) (unat (month ev)) (unat (tb_day (timestamp_ns ev)))
                 (unat (tb_hour (timestamp_ns ev))) (unat (tb_minute (timestamp_ns ev)))
                 (unat (tb_second (timestamp_ns ev))) @ ''Z''
          else []))"

definition vscp_getDateStringFromEventEx :: "string \<Rightarrow> vscpEventEx ptr \<Rightarrow> bool \<times> string" where
  "vscp_getDateStringFromEventEx dt pex =
     (case pex of None \<Rightarrow> (False, dt)
      | Some ex \<Rightarrow>
         (True,
          if is_unix_ns (xhead ex) then ns_date_text (xtimestamp_ns ex)
          else if xyear ex \<noteq> 0 \<or> xmonth ex \<noteq> 0 \<or> tb_day (xtimestamp_ns ex) \<noteq> 0 \<or> tb_hour (xtimestamp_ns ex) \<noteq> 0
                  \<or> tb_minute (xtimestamp_ns ex) \<noteq> 0 \<or> tb_second (xtimestamp_ns ex) \<noteq> 0
          then iso_text (unat (xyear ex)) (unat (xmonth ex)) (unat (tb_day (xtimestamp_ns ex)))
                 (unat (tb_hour (xtimestamp_ns ex))) (unat (tb_minute (xtimestamp_ns ex)))
                 (unat (tb_second (xtimestamp_ns ex))) @ ''Z''
          else []))"

text \<open>
  \<^verbatim>\<open>std::stoi\<close> with its position argument: the value and the text behind the number; \<open>None\<close> when it
  throws. \<open>iso_rest\<close> is the following \<^verbatim>\<open>substr(pos + 1)\<close>, which throws when the text has ended.
\<close>

definition stoi :: "string \<Rightarrow> (int \<times> string) option" where
  "stoi s =
     (let s = dropWhile isspace s;
          neg = (cur s = CHR ''-'');
          s = (if cur s = CHR ''-'' \<or> cur s = CHR ''+'' then tl s else s);
          ds = takeWhile (digit_in 10) s;
          v = (if neg then - int (digits_value 10 ds) else int (digits_value 10 ds))
      in if ds = [] \<or> v < - (2 ^ 31) \<or> v \<ge> 2 ^ 31 then None else Some (v, dropWhile (digit_in 10) s))"

definition iso_field :: "string \<Rightarrow> (int \<times> string) option" where
  "iso_field s = (case stoi s of None \<Rightarrow> None | Some (v, r) \<Rightarrow> (case r of [] \<Rightarrow> None | _ # r \<Rightarrow> Some (v, r)))"

text \<open>A field is assigned as soon as its number is read, also when the text ends behind it.\<close>

definition iso_value :: "string \<Rightarrow> int \<Rightarrow> int" where
  "iso_value s old = (case stoi s of None \<Rightarrow> old | Some (v, _) \<Rightarrow> v)"

definition vscp_parseISOCombined :: "tm ptr \<Rightarrow> string \<Rightarrow> bool \<times> tm ptr" where
  "vscp_parseISOCombined ptm dt =
     (let isodt = takeWhile (\<lambda>c. c \<noteq> NUL) dt
      in if vscp_trim dt = [] then (False, ptm)
         else case ptm of None \<Rightarrow> (False, None)
         | Some t \<Rightarrow>
            (let t = t\<lparr>tm_year := iso_value isodt (tm_year t + 1900) - 1900\<rparr>
             in case iso_field isodt of None \<Rightarrow> (False, Some t) | Some (_, r) \<Rightarrow>
            (let t = t\<lparr>tm_mon := iso_value r (tm_mon t)\<rparr>
             in case iso_field r of None \<Rightarrow> (False, Some t) | Some (_, r) \<Rightarrow>
            (let t = t\<lparr>tm_mday := iso_value r (tm_mday t)\<rparr>
             in case iso_field r of None \<Rightarrow> (False, Some t) | Some (_, r) \<Rightarrow>
            (let t = t\<lparr>tm_hour := iso_value r (tm_hour t)\<rparr>
             in case iso_field r of None \<Rightarrow> (False, Some t) | Some (_, r) \<Rightarrow>
            (let t = t\<lparr>tm_min := iso_value r (tm_min t)\<rparr>
             in case iso_field r of None \<Rightarrow> (False, Some t) | Some (_, r) \<Rightarrow>
            (let t = t\<lparr>tm_sec := iso_value r (tm_sec t)\<rparr>
             in (stoi r \<noteq> None, Some t))))))))"

section \<open>The comma separated form\<close>

definition vscp_convertEventToString :: "string \<Rightarrow> vscpEvent ptr \<Rightarrow> (bool \<times> string) safe" where
  "vscp_convertEventToString str pev =
     (case pev of None \<Rightarrow> Some (False, str)
      | Some ev \<Rightarrow> do {
          let timestamp_ns = event_unix_ns ev;
          let h = (head ev AND NOT FRAME_VERSION_MASK) OR FRAME_VERSION_UNIX_NS;
          let str = fmt_d (unat h) @ '','' @ fmt_d (unat (vscp_class ev)) @ '','' @ fmt_d (unat (vscp_type ev))
                    @ '','' @ fmt_d (unat (obid ev)) @ '',,'' @ fmt_d (unat timestamp_ns) @ '','';
          let str = str @ snd (vscp_writeGuidToString [] (Some ev) VSCP_GUID_STR_FORMAT_NORMAL);
          if sizeData ev \<noteq> 0
          then do { (_, strData) \<leftarrow> vscp_writeDataToString [] (Some ev) False False;
                    Some (True, str @ '','' @ strData) }
          else Some (True, str) })"

definition vscp_getEventAsString :: "vscpEvent ptr \<Rightarrow> string safe" where
  "vscp_getEventAsString pev = map_option snd (vscp_convertEventToString [] pev)"

text \<open>\<open>local_event\<close> is the uninitialised local structure; a failed conversion into it goes unnoticed.\<close>

definition vscp_convertEventExToString ::
  "vscpEvent \<Rightarrow> string \<Rightarrow> vscpEventEx ptr \<Rightarrow> (bool \<times> string) safe" where
  "vscp_convertEventExToString local_event str pex =
     (case pex of None \<Rightarrow> Some (False, str)
      | Some ex \<Rightarrow> do {
          (_, pev) \<leftarrow> vscp_convertEventExToEvent (Some (local_event\<lparr>pdata := None\<rparr>)) (Some ex);
          (_, str) \<leftarrow> vscp_convertEventToString str pev;
          Some (True, str) })"

definition vscp_getEventExAsString :: "vscpEvent \<Rightarrow> vscpEventEx ptr \<Rightarrow> string safe" where
  "vscp_getEventExAsString local_event pex = map_option snd (vscp_convertEventExToString local_event [] pex)"

text \<open>\<^verbatim>\<open>strtoull(s, nullptr, 0)\<close>: the base follows from the prefix, too large values saturate.\<close>

definition strtoull0 :: "string \<Rightarrow> u64" where
  "strtoull0 s =
     (let s = dropWhile isspace s;
          neg = (cur s = CHR ''-'');
          s = (if cur s = CHR ''-'' \<or> cur s = CHR ''+'' then tl s else s);
          hex = (cur s = CHR ''0'' \<and> tolower (cur (tl s)) = CHR ''x'' \<and> digit_in 16 (cur (tl (tl s))));
          b = (if hex then 16 else if cur s = CHR ''0'' then 8 else 10);
          ds = takeWhile (digit_in b) (if hex then tl (tl s) else s);
          v = digits_value b ds
      in if v \<ge> 2 ^ 64 then - 1 else if neg then - of_nat v else of_nat v)"

text \<open>The time stamp of the parsed event from the date and time stamp tokens.\<close>

definition text_timestamp :: "host_clock \<Rightarrow> string \<Rightarrow> u64 \<Rightarrow> u64" where
  "text_timestamp clk strDatetime timestampValue =
     (if length strDatetime \<noteq> 0
      then (let t0 = \<lparr>tm_year = 0, tm_mon = 0, tm_mday = 0, tm_hour = 0, tm_min = 0, tm_sec = 0\<rparr>;
                t = (case snd (vscp_parseISOCombined (Some t0) strDatetime) of Some t \<Rightarrow> t | None \<Rightarrow> t0);
                ts = word_of_int (timegm t) * 1000000000
            in if 0 < unat timestampValue \<and> unat timestampValue < 1000000000
               then ts + timestampValue * 1000 else ts)
      else if 0 < unat timestampValue then timestampValue
      else vscp_makeTimeStampNs clk)"

text \<open>The last part of the reader: the tokens behind the GUID.\<close>

definition text_data ::
  "u8 list \<Rightarrow> string list \<Rightarrow> vscpEvent \<Rightarrow> (bool \<times> vscpEvent ptr) safe" where
  "text_data stack tokens ev = do {
     let ev = ev\<lparr>sizeData := 0\<rparr>;
     if length tokens > VSCP_MAX_DATA then Some (False, Some ev)
     else do {
       data \<leftarrow> wr_block stack 0 (map (\<lambda>t. word_of_int (vscp_readStringValue t)) tokens);
       let n = (of_nat (length tokens) :: u16);
       p \<leftarrow> (if n \<noteq> 0 then map_option Some (rd_block data 0 (unat n)) else Some None);
       Some (True, Some (ev\<lparr>sizeData := n, pdata := p\<rparr>)) } }"

definition vscp_convertStringToEvent ::
  "host_clock \<Rightarrow> u8 list \<Rightarrow> vscpEvent ptr \<Rightarrow> string \<Rightarrow> (bool \<times> vscpEvent ptr) safe" where
  "vscp_convertStringToEvent clk stack pev strEvent =
     (case pev of None \<Rightarrow> Some (False, None)
      | Some ev \<Rightarrow>
        (case vscp_split strEvent (CHR '','') of [] \<Rightarrow> Some (False, Some ev) | t # tokens \<Rightarrow>
        (let h = word_of_int (vscp_readStringValue t);
             ev = ev\<lparr>head := (h AND NOT FRAME_VERSION_MASK) OR FRAME_VERSION_UNIX_NS\<rparr>
         in case tokens of [] \<Rightarrow> Some (False, Some ev) | t # tokens \<Rightarrow>
        (let ev = ev\<lparr>vscp_class := word_of_int (vscp_readStringValue t)\<rparr>
         in case tokens of [] \<Rightarrow> Some (False, Some ev) | t # tokens \<Rightarrow>
        (let ev = ev\<lparr>vscp_type := word_of_int (vscp_readStringValue t)\<rparr>
         in case tokens of [] \<Rightarrow> Some (False, Some ev) | t # tokens \<Rightarrow>
        (let ev = ev\<lparr>obid := word_of_int (vscp_readStringValue t)\<rparr>;
             strDatetime = (case tokens of [] \<Rightarrow> [] | t # _ \<Rightarrow> vscp_trim t)
         in case tl tokens of [] \<Rightarrow> Some (False, Some ev) | t # tokens \<Rightarrow>
        (let str = vscp_trim t;
             timestampValue = (if length str \<noteq> 0 then strtoull0 str else 0);
             ev = ev\<lparr>timestamp_ns := text_timestamp clk strDatetime timestampValue,
                     year := 0xffff, month := 0xff\<rparr>
         in case tokens of [] \<Rightarrow> Some (False, Some ev) | strGUID # tokens \<Rightarrow> do {
           ev \<leftarrow> snd (vscp_setEventGuidFromString (Some ev) strGUID);
           text_data stack tokens ev })))))))"

text \<open>The local event is released at the end, whatever happened.\<close>

definition vscp_convertStringToEventEx ::
  "host_clock \<Rightarrow> u8 list \<Rightarrow> vscpEventEx ptr \<Rightarrow> string \<Rightarrow> (bool \<times> vscpEventEx ptr) safe" where
  "vscp_convertStringToEventEx clk stack pex strEvent = do {
     (rv, pev) \<leftarrow> vscp_convertStringToEvent clk stack (Some zero_event) strEvent;
     if rv then vscp_convertEventToEventEx pex pev else Some (False, pex) }"

section \<open>HTML\<close>

definition html_char :: "char \<Rightarrow> string" where
  "html_char c =
     (if c = CHR 0x0A then ''<br>''
      else if c = CHR '' '' then ''&nbsp;''
      else if c = CHR ''<'' then ''&lt;''
      else if c = CHR ''>'' then ''&gt;''
      else if c = CHR ''&'' then ''&amp;''
      else if c = CHR 0x22 then ''&quot;''
      else if c = CHR 0x27 then ''&apos;''
      else [c])"

definition vscp_makeHtml :: "string \<Rightarrow> string" where
  "vscp_makeHtml str = concat (map html_char str)"

section \<open>Reading what was written\<close>

text \<open>The text of the data as tokens: a line break stands in front of a token or behind the last.\<close>

fun data_tokens :: "(u8 \<Rightarrow> string) \<Rightarrow> string \<Rightarrow> bool \<Rightarrow> nat \<Rightarrow> nat \<Rightarrow> u8 list \<Rightarrow> string list" where
  "data_tokens fmt brk bBreak n i [] = []"
| "data_tokens fmt brk bBreak n i (b # bs) =
     ((if bBreak \<and> 0 < i \<and> i mod 8 = 0 then brk else []) @ fmt b
      @ (if bBreak \<and> i = n - 1 \<and> (i + 1) mod 8 = 0 then brk else []))
     # data_tokens fmt brk bBreak n (i + 1) bs"

lemma data_text_tokens:
  "bs \<noteq> [] \<Longrightarrow> i + length bs = n \<Longrightarrow>
   (if bBreak \<and> 0 < i \<and> i mod 8 = 0 then brk else []) @ data_text fmt brk bBreak n i bs
     = join (CHR '','') (data_tokens fmt brk bBreak n i bs)"
proof (induction bs arbitrary: i)
  case (Cons b bs)
  show ?case
  proof (cases bs)
    case Nil
    then show ?thesis using Cons.prems by auto
  next
    case (Cons c cs)
    then show ?thesis
      using Cons.IH [of "Suc i"] Cons.prems by (cases "bBreak \<and> Suc i mod 8 = 0") auto
  qed
qed simp

lemma length_data_tokens [simp]: "length (data_tokens fmt brk bBreak n i bs) = length bs"
  by (induction bs arbitrary: i) auto

lemma data_tokens_eq_Nil [simp]: "data_tokens fmt brk bBreak n i bs = [] \<longleftrightarrow> bs = []"
  by (cases bs) auto

text \<open>A byte format the token reader understands, whatever white space surrounds it.\<close>

locale byte_format =
  fixes fmt :: "u8 \<Rightarrow> string"
  assumes nonempty: "fmt b \<noteq> []"
    and no_comma: "CHR '','' \<notin> set (fmt b)"
    and reads: "list_all isspace w \<Longrightarrow> list_all isspace w' \<Longrightarrow> vscp_readStringValue (w @ fmt b @ w') = uint b"
begin

lemma tokens_read:
  "list_all isspace brk \<Longrightarrow>
   map (\<lambda>t. word_of_int (vscp_readStringValue t)) (data_tokens fmt brk bBreak n i bs) = bs"
  by (induction bs arbitrary: i) (auto simp: reads)

lemma split_data_text:
  assumes "length bs = n" and "CHR '','' \<notin> set brk"
  shows "vscp_split (data_text fmt brk bBreak n 0 bs) (CHR '','') = data_tokens fmt brk bBreak n 0 bs"
proof (cases "bs = []")
  case True
  then show ?thesis by (simp add: vscp_split_def)
next
  case False
  have nc: "CHR '','' \<notin> set t" if "t \<in> set (data_tokens fmt brk bBreak n i bs)" for t i
    using that assms(2) no_comma by (induction bs arbitrary: i) (auto split: if_splits)
  have "hd (data_tokens fmt brk bBreak n 0 bs) \<noteq> []" using False nonempty by (cases bs) auto
  then show ?thesis
    using split_join [OF _ _ nc] data_text_tokens [of bs 0 n bBreak brk fmt] assms(1) False by simp
qed

end

interpretation hex_byte: byte_format fmt_0x02X
proof unfold_locales
  fix b :: u8
  show "CHR '','' \<notin> set (fmt_0x02X b)" using fmt_02X_hex [of "CHR '',''" b] by (auto simp: fmt_0x02X_def isHexDigit_def)
qed (use readStringValue_hex in \<open>simp_all add: fmt_0x02X_def\<close>)

lemma readStringValue_padded_digits:
  assumes "list_all isspace w" and "list_all isspace w'"
  shows "vscp_readStringValue (w @ fmt_d n @ w') = vscp_readStringValue (fmt_d n)"
proof -
  have low: "map tolower x = x" if "list_all isspace x" for x
    using that by (intro map_idI tolower_digit) (auto simp: list_all_iff isspace_def)
  show ?thesis
    using trim_pad [OF assms, of "map tolower (fmt_d n)"] low [OF assms(1)] low [OF assms(2)]
    by (simp add: vscp_readStringValue_def vscp_makeLower_def)
qed

interpretation dec_byte: byte_format "\<lambda>b. fmt_d (unat b)"
proof unfold_locales
  fix b :: u8 and w w'
  have "unat b < 2 ^ 63" using unat_u8_less [of b] by simp
  then show "vscp_readStringValue (w @ fmt_d (unat b) @ w') = uint b"
    if "list_all isspace w" "list_all isspace w'"
    using readStringValue_padded_digits [OF that] by (simp add: readStringValue_fmt_d)
  show "CHR '','' \<notin> set (fmt_d (unat b))" using fmt_d_digit [of "CHR '',''" "unat b"] by auto
qed simp

lemma data_loop_fits:
  "k + length ts \<le> VSCP_MAX_DATA \<Longrightarrow> VSCP_MAX_DATA \<le> length arr \<Longrightarrow>
   data_loop ts arr (of_nat k) =
     Some (take k arr @ map (\<lambda>t. word_of_int (vscp_readStringValue t)) ts @ drop (k + length ts) arr,
           of_nat (k + length ts))"
proof (induction ts arbitrary: k arr)
  case (Cons t ts)
  have "k < 512" using Cons.prems by (simp add: VSCP_MAX_DATA_def)
  then have k: "unat (of_nat k :: u16) = k" "unat (1 + of_nat k :: u16) = Suc k"
    using unat_of_nat_u16 [of k] unat_of_nat_u16 [of "Suc k"] by simp_all
  have w: "wr_block arr k [x] = Some (take k arr @ [x] @ drop (Suc k) arr)" for x
    using Cons.prems by (simp add: wr_block_def)
  show ?case
  proof (cases "ts = []")
    case True
    then show ?thesis using k w by (simp add: add.commute Let_def)
  next
    case False
    then have "Suc k < VSCP_MAX_DATA" using Cons.prems(1) by (cases ts) auto
    moreover have "Suc k + length ts \<le> VSCP_MAX_DATA" using Cons.prems(1) by simp
    ultimately show ?thesis
      using Cons.IH [of "Suc k" "take k arr @ [word_of_int (vscp_readStringValue t)] @ drop (Suc k) arr"]
        Cons.prems k w
      by (simp add: add.commute Let_def)
  qed
qed simp

lemma data_loop_safe:
  "unat n < VSCP_MAX_DATA \<Longrightarrow> VSCP_MAX_DATA \<le> length arr \<Longrightarrow>
   \<exists>arr' n'. data_loop ts arr n = Some (arr', n') \<and> length arr' = length arr \<and> unat n' \<le> VSCP_MAX_DATA
     \<and> drop VSCP_MAX_DATA arr' = drop VSCP_MAX_DATA arr"
proof (induction ts arr n rule: data_loop.induct)
  case (2 token tokens arr n)
  have "unat (n + 1) = unat n + 1"
    using 2(2) unat_add_lem [of n 1] by (simp add: VSCP_MAX_DATA_def)
  moreover define arr1 where "arr1 = arr[unat n := word_of_int (vscp_readStringValue token)]"
  then have "length arr1 = length arr" "drop VSCP_MAX_DATA arr1 = drop VSCP_MAX_DATA arr" using 2(2) by simp_all
  moreover have "wr_block arr (unat n) [word_of_int (vscp_readStringValue token)] = Some arr1"
    using 2(2,3) by (simp add: arr1_def wr_block_def upd_conv_take_nth_drop)
  ultimately show ?case using 2(1) [of arr1 "n + 1"] 2(2,3) by (auto simp: Let_def)
qed simp

text \<open>Decimal text read with base detection: no leading zero, so base ten.\<close>

lemma hd_fmt_d: "0 < n \<Longrightarrow> hd (fmt_d n) \<noteq> CHR ''0''"
proof (induction n rule: fmt_d.induct)
  case (1 n)
  show ?case
  proof (cases "n < 10")
    case True
    have "char_of (48 + n) \<noteq> CHR ''0''"
    proof
      assume "char_of (48 + n) = CHR ''0''"
      then have "ord (char_of (48 + n)) = 48" by (simp only:) simp
      then show False using 1(2) True ord_char_of [of "48 + n"] by simp
    qed
    then show ?thesis using True by (subst fmt_d.simps) simp
  next
    case False
    then have "hd (fmt_d n) = hd (fmt_d (n div 10))" by (subst fmt_d.simps) simp
    then show ?thesis using 1(1) False by simp
  qed
qed

lemma strtoull0_fmt_d:
  assumes "0 < n" and "n < 2 ^ 64"
  shows "strtoull0 (fmt_d n) = of_nat n"
proof -
  obtain c cs where c: "fmt_d n = c # cs" by (cases "fmt_d n") auto
  then have o: "48 \<le> ord c \<and> ord c \<le> 57" using fmt_d_digit [of c n] by simp
  have z: "c \<noteq> CHR ''0''" using hd_fmt_d [OF assms(1)] c by simp
  have d: "digit_in 10 x" if "x \<in> set (fmt_d n)" for x
    using fmt_d_digit [OF that] by (auto simp: digit_in_def digit_value_def)
  have t: "takeWhile (digit_in 10) (fmt_d n) = fmt_d n" using d by (simp add: takeWhile_eq_all_conv)
  have s: "dropWhile isspace (fmt_d n) = fmt_d n" using o by (simp add: c isspace_def)
  have sg: "cur (fmt_d n) \<noteq> CHR ''-''" "cur (fmt_d n) \<noteq> CHR ''+''" "cur (fmt_d n) \<noteq> CHR ''0''"
    using o z by (auto simp: c)
  show ?thesis
    using assms(2) by (simp add: strtoull0_def s sg t digits_value_fmt_d Let_def)
qed

definition text_tokens :: "vscpEvent \<Rightarrow> string list" where
  "text_tokens ev =
     [fmt_d (unat (ns_head (head ev))), fmt_d (unat (vscp_class ev)), fmt_d (unat (vscp_type ev)),
      fmt_d (unat (obid ev)), [], fmt_d (unat (event_unix_ns ev)), cguid_toString (GUID ev)]
     @ map fmt_0x02X (ev_data ev)"

lemma data_tokens_plain: "data_tokens fmt brk False n i bs = map fmt bs"
  by (induction bs arbitrary: i) auto

lemma join_append_Cons: "ts \<noteq> [] \<Longrightarrow> us \<noteq> [] \<Longrightarrow> join d (ts @ us) = join d ts @ d # join d us"
  by (induction d ts rule: join.induct) (auto simp: neq_Nil_conv)

lemma data_text_plain: "length bs = n \<Longrightarrow> data_text fmt brk False n 0 bs = join (CHR '','') (map fmt bs)"
  using data_text_tokens [of bs 0 n False brk fmt] by (cases "bs = []") (auto simp: data_tokens_plain)

lemma convertEventToString_tokens:
  assumes "wf_event ev"
  shows "vscp_convertEventToString str (Some ev) = Some (True, join (CHR '','') (text_tokens ev))"
proof -
  have g: "snd (vscp_writeGuidToString [] (Some ev) VSCP_GUID_STR_FORMAT_NORMAL) = cguid_toString (GUID ev)"
    by (simp add: vscp_writeGuidToString_def guid_text_cases)
  show ?thesis
  proof (cases "sizeData ev = 0")
    case True
    then have "ev_data ev = []" by (simp add: ev_data_def split: option.split)
    then show ?thesis
      using True g by (simp add: vscp_convertEventToString_def text_tokens_def ns_head_def Let_def)
  next
    case False
    then obtain d where d: "pdata ev = Some d" "unat (sizeData ev) \<le> length d"
      using assms by (auto simp: wf_event_def split: option.splits)
    then have "vscp_writeDataToString [] (Some ev) False False
        = Some (True, join (CHR '','') (map fmt_0x02X (ev_data ev)))"
      using data_text_plain [of "ev_data ev" "unat (sizeData ev)"]
      by (simp add: vscp_writeDataToString_def rd_block_def ev_data_def)
    moreover have "ev_data ev \<noteq> []" using d False by (auto simp: ev_data_def unat_eq_zero_iff)
    ultimately show ?thesis
      using False g
      by (simp add: vscp_convertEventToString_def text_tokens_def ns_head_def Let_def neq_Nil_conv)
        (auto simp: neq_Nil_conv)
  qed
qed

lemma no_comma_tokens: "t \<in> set (text_tokens ev) \<Longrightarrow> CHR '','' \<notin> set t"
  using fmt_d_digit [of "CHR '',''"] hex_byte.no_comma
  by (auto simp: text_tokens_def cguid_toString_def isHexDigit_def dest!: set_join fmt_02X_hex)

lemma split_text_tokens:
  "vscp_split (join (CHR '','') (text_tokens ev)) (CHR '','') = text_tokens ev"
  by (rule split_join) (use no_comma_tokens in \<open>auto simp: text_tokens_def\<close>)

lemma read_number_fields:
  "word_of_int (vscp_readStringValue (fmt_d (unat (c :: u16)))) = c"
  "word_of_int (vscp_readStringValue (fmt_d (unat (w :: u32)))) = w"
proof -
  have "unat c < 2 ^ 63" using unat_u16_less [of c] by simp
  then show "word_of_int (vscp_readStringValue (fmt_d (unat c))) = c" by (simp add: readStringValue_fmt_d)
  have "unat w < 2 ^ 63" using unat_u32_less [of w] by simp
  then show "word_of_int (vscp_readStringValue (fmt_d (unat w))) = w" by (simp add: readStringValue_fmt_d)
qed

lemma text_data_bytes:
  assumes "length bs \<le> VSCP_MAX_DATA" and "length stack = VSCP_MAX_DATA"
  shows "text_data stack (map fmt_0x02X bs) ev
    = Some (True, Some (ev\<lparr>sizeData := of_nat (length bs), pdata := (if bs = [] then None else Some bs)\<rparr>))"
proof -
  have r: "map (\<lambda>t. word_of_int (vscp_readStringValue t)) (map fmt_0x02X bs) = bs"
    using hex_byte.tokens_read [of "[]" False 0 0 bs] by (simp add: data_tokens_plain)
  have n: "unat (of_nat (length bs) :: u16) = length bs"
    using assms(1) by (intro unat_of_nat_u16) (simp add: VSCP_MAX_DATA_def)
  then have "(of_nat (length bs) :: u16) = 0 \<longleftrightarrow> bs = []"
    by (metis length_0_conv of_nat_0 unat_eq_zero_iff unsigned_0)
  then show ?thesis
    using assms r n by (simp add: text_data_def wr_block_def rd_block_def Let_def)
qed

lemma trim_fmt_d [simp]: "vscp_trim (fmt_d n) = fmt_d n"
proof (rule trim_id)
  have "\<not> isspace (hd (fmt_d n))" "\<not> isspace (last (fmt_d n))"
    using fmt_d_digit [of _ n] by (simp_all add: isspace_digit)
  then show "fmt_d n = [] \<or> \<not> isspace (hd (fmt_d n)) \<and> \<not> isspace (last (fmt_d n))" by simp
qed

definition text_view :: "vscpEvent \<Rightarrow> vscpEvent \<Rightarrow> vscpEvent" where
  "text_view ev dest =
     dest\<lparr>head := ns_head (head ev), obid := obid ev, year := 0xffff, month := 0xff,
          timestamp_ns := event_unix_ns ev, vscp_class := vscp_class ev, vscp_type := vscp_type ev,
          GUID := GUID ev, sizeData := of_nat (length (ev_data ev)),
          pdata := (if ev_data ev = [] then None else Some (ev_data ev))\<rparr>"

lemma convertStringToEvent_tokens:
  assumes "wf_event ev" and "event_unix_ns ev \<noteq> 0" and "length (GUID dest) = 16"
    and "length stack = VSCP_MAX_DATA"
  shows "vscp_convertStringToEvent clk stack (Some dest) (join (CHR '','') (text_tokens ev))
       = Some (True, Some (text_view ev dest))"
proof -
  have len: "length (ev_data ev) \<le> VSCP_MAX_DATA"
    using assms(1) by (auto simp: wf_event_def ev_data_def VSCP_MAX_DATA_def VSCP_LEVEL2_MAXDATA_def split: option.split)
  have ts: "0 < unat (event_unix_ns ev)" "unat (event_unix_ns ev) < 2 ^ 64"
    using assms(2) unat_u64_less [of "event_unix_ns ev"] by (simp_all add: unat_gt_0)
  have g: "snd (vscp_setEventGuidFromString (Some e) (cguid_toString (GUID ev))) = Some (e\<lparr>GUID := GUID ev\<rparr>)"
    if "length (GUID e) = 16" for e
    using that assms(1) setEventGuid_text [of "GUID ev" e] by (simp add: wf_event_def)
  show ?thesis
    unfolding vscp_convertStringToEvent_def split_text_tokens
    using assms(3) strtoull0_fmt_d [OF ts] text_data_bytes [OF len assms(4)]
    by (simp add: text_tokens_def read_number_fields text_timestamp_def g text_view_def Let_def
        ns_head_def [symmetric] ts(1) trim_id [of "[]"])
qed

section \<open>Dates as text\<close>

lemma fmt_0d_digit: "c \<in> set (fmt_0d k n) \<Longrightarrow> 48 \<le> ord c \<and> ord c \<le> 57"
  using fmt_d_digit by (auto simp: fmt_0d_def)

lemma digits_value_0d: "digits_value 10 (fmt_0d k n) = n"
proof -
  have "digits_value 10 (replicate m (CHR ''0'') @ s) = digits_value 10 s" for m s
    by (induction m) (simp_all add: digits_value_def digit_value_def)
  then show ?thesis by (simp add: fmt_0d_def digits_value_fmt_d)
qed

lemma fmt_0d_nonempty [simp]: "fmt_0d k n \<noteq> []"
  by (simp add: fmt_0d_def)

lemma stoi_0d:
  assumes "n < 2 ^ 31" and "r = [] \<or> \<not> digit_in 10 (hd r)"
  shows "stoi (fmt_0d k n @ r) = Some (int n, r)"
proof -
  obtain c cs where c: "fmt_0d k n = c # cs" by (cases "fmt_0d k n") auto
  then have o: "48 \<le> ord c \<and> ord c \<le> 57" using fmt_0d_digit [of c k n] by simp
  have d: "digit_in 10 x" if "x \<in> set (fmt_0d k n)" for x
    using fmt_0d_digit [OF that] by (auto simp: digit_in_def digit_value_def)
  have "takeWhile (digit_in 10) (fmt_0d k n @ r) = fmt_0d k n" "dropWhile (digit_in 10) (fmt_0d k n @ r) = r"
    using d assms(2) by (cases r; simp)+
  moreover have "dropWhile isspace (fmt_0d k n @ r) = fmt_0d k n @ r" using o by (simp add: c isspace_def)
  moreover have "cur (fmt_0d k n @ r) \<noteq> CHR ''-''" "cur (fmt_0d k n @ r) \<noteq> CHR ''+''"
    using o by (auto simp: c)
  moreover have "int n < 2 ^ 31" using assms(1) by simp
  ultimately show ?thesis
    by (simp add: stoi_def Let_def digits_value_0d)
qed

lemma iso_field_0d:
  assumes "n < 2 ^ 31" and "\<not> digit_in 10 c"
  shows "iso_field (fmt_0d k n @ c # r) = Some (int n, r)" and "iso_value (fmt_0d k n @ c # r) v = int n"
  using stoi_0d [of n "c # r" k] assms by (simp_all add: iso_field_def iso_value_def)

lemma parseISO_iso_text:
  assumes "y < 2 ^ 31" "mo < 2 ^ 31" "d < 2 ^ 31" "h < 2 ^ 31" "mi < 2 ^ 31" "s < 2 ^ 31"
    and "tail \<noteq> []" and "\<not> digit_in 10 (hd tail)" and "\<not> isspace (last tail)" and "NUL \<notin> set tail"
  shows "vscp_parseISOCombined (Some t) (iso_text y mo d h mi s @ tail)
    = (True, Some \<lparr>tm_year = int y - 1900, tm_mon = int mo, tm_mday = int d, tm_hour = int h,
                   tm_min = int mi, tm_sec = int s\<rparr>)"
proof -
  have sep: "\<not> digit_in 10 (CHR ''-'')" "\<not> digit_in 10 (CHR ''T'')" "\<not> digit_in 10 (CHR '':'')"
    by (simp_all add: digit_in_def digit_value_def)
  obtain z rest where tl: "tail = z # rest" using assms(7) by (cases tail) auto
  have nn: "c \<noteq> NUL" if "c \<in> set (iso_text y mo d h mi s @ tail)" for c
    using that assms(10) fmt_0d_digit [of NUL]
    by (auto simp: iso_text_def NUL_def)
  then have t: "takeWhile (\<lambda>c. c \<noteq> NUL) (iso_text y mo d h mi s @ tail) = iso_text y mo d h mi s @ tail"
    by (simp add: takeWhile_eq_all_conv)
  have "hd (iso_text y mo d h mi s @ tail) = hd (fmt_0d 4 y)" by (simp add: iso_text_def)
  then have "\<not> isspace (hd (iso_text y mo d h mi s @ tail))"
    using fmt_0d_digit [OF hd_in_set, of 4 y] by (simp add: isspace_digit)
  then have "vscp_trim (iso_text y mo d h mi s @ tail) = iso_text y mo d h mi s @ tail"
    using assms(7,9) by (intro trim_id) simp
  moreover have "iso_text y mo d h mi s @ tail \<noteq> []" by (simp add: tl)
  moreover have "stoi (fmt_0d 2 s @ tail) = Some (int s, tail)"
    using assms by (intro stoi_0d) auto
  moreover from this have "iso_value (fmt_0d 2 s @ tail) v = int s" for v by (simp add: iso_value_def)
  ultimately show ?thesis
    using assms(1-6) unfolding vscp_parseISOCombined_def t Let_def
    by (simp add: iso_text_def iso_field_0d sep)
qed

section \<open>Properties\<close>

text \<open>C33: An event that carries a time, written as text and read back into any event structure, is the
  same event: class, type, origin id, GUID and data as they were, the time as Unix nanoseconds.\<close>

theorem event_text_round_trip:
  assumes "wf_event ev" and "event_unix_ns ev \<noteq> 0" and "length (GUID dest) = 16"
    and "length stack = VSCP_MAX_DATA"
  shows "\<exists>s ev'. vscp_convertEventToString str (Some ev) = Some (True, s)
     \<and> vscp_convertStringToEvent clk stack (Some dest) s = Some (True, Some ev')
     \<and> wf_event ev' \<and> obid ev' = obid ev
     \<and> (ev_view ev')\<lparr>v_obid := 0, v_crc := 0\<rparr> = (frame_view (ev_view ev))\<lparr>v_crc := 0\<rparr>"
proof -
  have len: "length (ev_data ev) = unat (sizeData ev)" "unat (sizeData ev) \<le> 512" "length (GUID ev) = 16"
    using length_ev_data [OF assms(1)] assms(1) by (simp_all add: wf_event_def VSCP_LEVEL2_MAXDATA_def)
  then have "wf_event (text_view ev dest)" "ev_data (text_view ev dest) = ev_data ev"
    by (auto simp: text_view_def wf_event_def ev_data_def VSCP_LEVEL2_MAXDATA_def unat_eq_zero_iff)
  then show ?thesis
    using convertEventToString_tokens [OF assms(1), of str] convertStringToEvent_tokens [OF assms, of clk]
      view_unix_ns_ev [of ev]
    by (simp add: ev_view_def frame_view_def) (simp add: text_view_def)
qed

theorem event_text_round_trip_witness:
  "\<exists>s ev'. vscp_convertEventToString [] (Some sample_event) = Some (True, s)
     \<and> vscp_convertStringToEvent \<lparr>clk_sec = 0, clk_nsec = 0, clk_ts = 0\<rparr> (replicate 512 0) (Some sample_event) s
         = Some (True, Some ev')
     \<and> wf_event ev' \<and> obid ev' = obid sample_event
     \<and> (ev_view ev')\<lparr>v_obid := 0, v_crc := 0\<rparr> = (frame_view (ev_view sample_event))\<lparr>v_crc := 0\<rparr>"
  by (rule event_text_round_trip [OF sample_event_ok(1)])
    (simp_all add: sample_event_def event_unix_ns_def is_unix_ns_def FRAME_VERSION_MASK_def
      FRAME_VERSION_UNIX_NS_def VSCP_MAX_DATA_def)

text \<open>The data of an event written as hexadecimal text, with or without line breaks, is read back.\<close>

theorem data_text_round_trip:
  assumes "wf_event ev" and "pdata ev \<noteq> None" and "length stack = VSCP_MAX_DATA"
  shows "\<exists>s ev'. vscp_writeDataToString str (Some ev) False bBreak = Some (True, s)
     \<and> vscp_setEventDataFromString stack (Some dest) s = Some (True, Some ev')
     \<and> ev_data ev' = ev_data ev \<and> sizeData ev' = sizeData ev"
proof -
  obtain d where d: "pdata ev = Some d" "unat (sizeData ev) \<le> length d" "unat (sizeData ev) \<le> VSCP_MAX_DATA"
    using assms(1,2) by (auto simp: wf_event_def VSCP_MAX_DATA_def VSCP_LEVEL2_MAXDATA_def)
  let ?bs = "take (unat (sizeData ev)) d" and ?brk = "break_text False"
  have brk: "list_all isspace ?brk" "CHR '','' \<notin> set ?brk" by (simp_all add: break_text_def isspace_def)
  have len: "length ?bs = unat (sizeData ev)" using d by simp
  note toks = hex_byte.split_data_text [OF len brk(2), of bBreak]
  have "data_loop (data_tokens fmt_0x02X ?brk bBreak (unat (sizeData ev)) 0 ?bs) stack 0
      = Some (?bs @ drop (unat (sizeData ev)) stack, sizeData ev)"
    using data_loop_fits [of 0 "data_tokens fmt_0x02X ?brk bBreak (unat (sizeData ev)) 0 ?bs" stack]
      hex_byte.tokens_read [OF brk(1)] len d assms(3) by simp
  moreover have "vscp_writeDataToString str (Some ev) False bBreak
      = Some (True, data_text fmt_0x02X ?brk bBreak (unat (sizeData ev)) 0 ?bs)"
    using d by (simp add: vscp_writeDataToString_def rd_block_def)
  ultimately show ?thesis
    using toks d assms(3)
    by (auto simp: vscp_setEventDataFromString_def rd_block_def ev_data_def)
qed

theorem data_text_round_trip_witness:
  "\<exists>s ev'. vscp_writeDataToString [] (Some sample_event) False True = Some (True, s)
     \<and> vscp_setEventDataFromString (replicate 512 0) (Some sample_event) s = Some (True, Some ev')
     \<and> ev_data ev' = ev_data sample_event \<and> sizeData ev' = sizeData sample_event"
  by (rule data_text_round_trip [OF sample_event_ok(1)]) (simp_all add: sample_event_def VSCP_MAX_DATA_def)

text \<open>C34: Whatever the text and however many numbers it holds, the three data readers end and store at most 512
  bytes: the one for an event stays inside its local array, the one for an embedded event inside the data of the
  event, and the one for an array of the caller inside its first 512 bytes, when it has that many.\<close>

theorem data_readers_are_bounded:
  assumes "length stack = VSCP_MAX_DATA" and "length (xdata ex) = VSCP_MAX_DATA" and "VSCP_MAX_DATA \<le> length d"
  shows "(\<exists>ev'. vscp_setEventDataFromString stack (Some ev) s = Some (True, Some ev')
        \<and> unat (sizeData ev') \<le> VSCP_MAX_DATA \<and> length (ev_data ev') = unat (sizeData ev'))
     \<and> (\<exists>ex'. vscp_setEventExDataFromString (Some ex) s = Some (True, Some ex')
        \<and> unat (xsizeData ex') \<le> VSCP_MAX_DATA \<and> length (xdata ex') = VSCP_MAX_DATA)
     \<and> (\<exists>d' n. vscp_setDataArrayFromString (Some d) (Some n0) s = Some (True, Some d', Some n)
        \<and> unat n \<le> VSCP_MAX_DATA \<and> length d' = length d \<and> drop VSCP_MAX_DATA d' = drop VSCP_MAX_DATA d)"
proof -
  let ?ts = "vscp_split s (CHR '','')"
  have z: "unat (0 :: u16) < VSCP_MAX_DATA" by (simp add: VSCP_MAX_DATA_def)
  obtain a n where a: "data_loop ?ts stack 0 = Some (a, n)" "length a = VSCP_MAX_DATA" "unat n \<le> VSCP_MAX_DATA"
    using data_loop_safe [OF z, of stack] assms(1) by fastforce
  obtain b m where b: "data_loop ?ts (xdata ex) 0 = Some (b, m)" "length b = VSCP_MAX_DATA" "unat m \<le> VSCP_MAX_DATA"
    using data_loop_safe [OF z, of "xdata ex"] assms(2) by fastforce
  obtain d' k where d: "data_loop ?ts d 0 = Some (d', k)" "length d' = length d" "unat k \<le> VSCP_MAX_DATA"
      "drop VSCP_MAX_DATA d' = drop VSCP_MAX_DATA d"
    using data_loop_safe [OF z assms(3), of ?ts] by blast
  have "\<exists>ev'. vscp_setEventDataFromString stack (Some ev) s = Some (True, Some ev')
      \<and> unat (sizeData ev') \<le> VSCP_MAX_DATA \<and> length (ev_data ev') = unat (sizeData ev')"
    using a by (simp add: vscp_setEventDataFromString_def rd_block_def ev_data_def)
  then show ?thesis
    using b d by (simp add: vscp_setEventExDataFromString_def vscp_setDataArrayFromString_def)
qed

theorem data_readers_are_bounded_witness:
  "(\<exists>ev'. vscp_setEventDataFromString (replicate 512 0) (Some sample_event) ''1,2'' = Some (True, Some ev')
        \<and> unat (sizeData ev') \<le> VSCP_MAX_DATA \<and> length (ev_data ev') = unat (sizeData ev'))
     \<and> (\<exists>ex'. vscp_setEventExDataFromString (Some blank_eventEx) ''1,2'' = Some (True, Some ex')
        \<and> unat (xsizeData ex') \<le> VSCP_MAX_DATA \<and> length (xdata ex') = VSCP_MAX_DATA)
     \<and> (\<exists>d' n. vscp_setDataArrayFromString (Some (replicate 600 7)) (Some 9) ''1,2'' = Some (True, Some d', Some n)
        \<and> unat n \<le> VSCP_MAX_DATA \<and> length d' = length (replicate 600 (7 :: u8))
        \<and> drop VSCP_MAX_DATA d' = drop VSCP_MAX_DATA (replicate 600 7))"
  by (rule data_readers_are_bounded) (simp_all add: VSCP_MAX_DATA_def VSCP_LEVEL2_MAXDATA_def blank_eventEx_def)

text \<open>The reader for an array of the caller cannot know how long the array is: a text with more numbers than the
  array has bytes makes it write past its end.\<close>

lemma set_data_array_overruns_short_array:
  "vscp_setDataArrayFromString (Some [0, 0]) (Some 2) ''1,2,3'' = None"
proof -
  have "vscp_split ''1,2,3'' (CHR '','') = [''1'', ''2'', ''3'']" by code_simp
  then show ?thesis by (simp add: vscp_setDataArrayFromString_def wr_block_def VSCP_MAX_DATA_def Let_def)
qed

text \<open>The date parser stores the month as it is written, one to twelve, where \<^verbatim>\<open>struct tm\<close> counts from
  zero: an ISO date printed by the library comes back one month late.\<close>

theorem iso_date_is_read_one_month_late:
  assumes "valid_tm t" and "0 \<le> tm_year t + 1900" and "tm_year t < 2147480000"
  shows "vscp_parseISOCombined (Some t0) (iso_of_tm t @ ''Z'') = (True, Some (t\<lparr>tm_mon := tm_mon t + 1\<rparr>))"
proof -
  have v: "0 \<le> tm_mon t" "tm_mon t < 12" "0 \<le> tm_mday t" "tm_mday t \<le> 31" "0 \<le> tm_hour t" "tm_hour t < 24"
    "0 \<le> tm_min t" "tm_min t < 60" "0 \<le> tm_sec t" "tm_sec t < 60"
    using assms(1) by (auto simp: valid_tm_def valid_date_def days_in_month_def split: if_splits)
  have "\<not> digit_in 10 (CHR ''Z'')" "\<not> isspace (CHR ''Z'')" "NUL \<noteq> CHR ''Z''"
    by (simp_all add: digit_in_def digit_value_def isspace_def NUL_def)
  then show ?thesis
    using v assms(2,3) unfolding iso_of_tm_def by (subst parseISO_iso_text) auto
qed

theorem iso_date_is_read_one_month_late_witness:
  "vscp_parseISOCombined (Some \<lparr>tm_year = 0, tm_mon = 0, tm_mday = 0, tm_hour = 0, tm_min = 0, tm_sec = 0\<rparr>)
     (iso_of_tm \<lparr>tm_year = 124, tm_mon = 1, tm_mday = 29, tm_hour = 12, tm_min = 0, tm_sec = 0\<rparr> @ ''Z'')
   = (True, Some (\<lparr>tm_year = 124, tm_mon = 1, tm_mday = 29, tm_hour = 12, tm_min = 0, tm_sec = 0\<rparr>\<lparr>tm_mon :=
        tm_mon \<lparr>tm_year = 124, tm_mon = 1, tm_mday = 29, tm_hour = 12, tm_min = 0, tm_sec = 0\<rparr> + 1\<rparr>))"
  by (rule iso_date_is_read_one_month_late)
    (simp_all add: valid_tm_def valid_date_def days_in_month_def leap_year_def)

end
