(* ===== verification/Aes.thy ===== *)
theory Aes
  imports VscpPrelude
begin

text \<open>
  The AES implementation of the library (\<^verbatim>\<open>src/src/common/vscp-aes.c\<close>): key expansion, the cipher and
  its inverse for 128, 192 and 256 bit keys, and the buffer routines in ECB and CBC mode. The state
  matrix \<^verbatim>\<open>state[i][j]\<close> lies over the sixteen bytes of the output block, so it is modelled as that
  block: the entry \<open>4 * i + j\<close> of a list of sixteen bytes. The theorems show that decryption is the
  inverse of encryption for every key, initialisation vector and number of blocks.
\<close>

section \<open>Tables\<close>

definition sbox :: "u8 list" where
  "sbox = [0x63, 0x7c, 0x77, 0x7b, 0xf2, 0x6b, 0x6f, 0xc5, 0x30, 0x01, 0x67, 0x2b, 0xfe, 0xd7, 0xab, 0x76,
    0xca, 0x82, 0xc9, 0x7d, 0xfa, 0x59, 0x47, 0xf0, 0xad, 0xd4, 0xa2, 0xaf, 0x9c, 0xa4, 0x72, 0xc0,
    0xb7, 0xfd, 0x93, 0x26, 0x36, 0x3f, 0xf7, 0xcc, 0x34, 0xa5, 0xe5, 0xf1, 0x71, 0xd8, 0x31, 0x15,
    0x04, 0xc7, 0x23, 0xc3, 0x18, 0x96, 0x05, 0x9a, 0x07, 0x12, 0x80, 0xe2, 0xeb, 0x27, 0xb2, 0x75,
    0x09, 0x83, 0x2c, 0x1a, 0x1b, 0x6e, 0x5a, 0xa0, 0x52, 0x3b, 0xd6, 0xb3, 0x29, 0xe3, 0x2f, 0x84,
    0x53, 0xd1, 0x00, 0xed, 0x20, 0xfc, 0xb1, 0x5b, 0x6a, 0xcb, 0xbe, 0x39, 0x4a, 0x4c, 0x58, 0xcf,
    0xd0, 0xef, 0xaa, 0xfb, 0x43, 0x4d, 0x33, 0x85, 0x45, 0xf9, 0x02, 0x7f, 0x50, 0x3c, 0x9f, 0xa8,
    0x51, 0xa3, 0x40, 0x8f, 0x92, 0x9d, 0x38, 0xf5, 0xbc, 0xb6, 0xda, 0x21, 0x10, 0xff, 0xf3, 0xd2,
    0xcd, 0x0c, 0x13, 0xec, 0x5f, 0x97, 0x44, 0x17, 0xc4, 0xa7, 0x7e, 0x3d, 0x64, 0x5d, 0x19, 0x73,
    0x60, 0x81, 0x4f, 0xdc, 0x22, 0x2a, 0x90, 0x88, 0x46, 0xee, 0xb8, 0x14, 0xde, 0x5e, 0x0b, 0xdb,
    0xe0, 0x32, 0x3a, 0x0a, 0x49, 0x06, 0x24, 0x5c, 0xc2, 0xd3, 0xac, 0x62, 0x91, 0x95, 0xe4, 0x79,
    0xe7, 0xc8, 0x37, 0x6d, 0x8d, 0xd5, 0x4e, 0xa9, 0x6c, 0x56, 0xf4, 0xea, 0x65, 0x7a, 0xae, 0x08,
    0xba, 0x78, 0x25, 0x2e, 0x1c, 0xa6, 0xb4, 0xc6, 0xe8, 0xdd, 0x74, 0x1f, 0x4b, 0xbd, 0x8b, 0x8a,
    0x70, 0x3e, 0xb5, 0x66, 0x48, 0x03, 0xf6, 0x0e, 0x61, 0x35, 0x57, 0xb9, 0x86, 0xc1, 0x1d, 0x9e,
    0xe1, 0xf8, 0x98, 0x11, 0x69, 0xd9, 0x8e, 0x94, 0x9b, 0x1e, 0x87, 0xe9, 0xce, 0x55, 0x28, 0xdf,
    0x8c, 0xa1, 0x89, 0x0d, 0xbf, 0xe6, 0x42, 0x68, 0x41, 0x99, 0x2d, 0x0f, 0xb0, 0x54, 0xbb, 0x16]"

definition rsbox :: "u8 list" where
  "rsbox = [0x52, 0x09, 0x6a, 0xd5, 0x30, 0x36, 0xa5, 0x38, 0xbf, 0x40, 0xa3, 0x9e, 0x81, 0xf3, 0xd7, 0xfb,
    0x7c, 0xe3, 0x39, 0x82, 0x9b, 0x2f, 0xff, 0x87, 0x34, 0x8e, 0x43, 0x44, 0xc4, 0xde, 0xe9, 0xcb,
    0x54, 0x7b, 0x94, 0x32, 0xa6, 0xc2, 0x23, 0x3d, 0xee, 0x4c, 0x95, 0x0b, 0x42, 0xfa, 0xc3, 0x4e,
    0x08, 0x2e, 0xa1, 0x66, 0x28, 0xd9, 0x24, 0xb2, 0x76, 0x5b, 0xa2, 0x49, 0x6d, 0x8b, 0xd1, 0x25,
    0x72, 0xf8, 0xf6, 0x64, 0x86, 0x68, 0x98, 0x16, 0xd4, 0xa4, 0x5c, 0xcc, 0x5d, 0x65, 0xb6, 0x92,
    0x6c, 0x70, 0x48, 0x50, 0xfd, 0xed, 0xb9, 0xda, 0x5e, 0x15, 0x46, 0x57, 0xa7, 0x8d, 0x9d, 0x84,
    0x90, 0xd8, 0xab, 0x00, 0x8c, 0xbc, 0xd3, 0x0a, 0xf7, 0xe4, 0x58, 0x05, 0xb8, 0xb3, 0x45, 0x06,
    0xd0, 0x2c, 0x1e, 0x8f, 0xca, 0x3f, 0x0f, 0x02, 0xc1, 0xaf, 0xbd, 0x03, 0x01, 0x13, 0x8a, 0x6b,
    0x3a, 0x91, 0x11, 0x41, 0x4f, 0x67, 0xdc, 0xea, 0x97, 0xf2, 0xcf, 0xce, 0xf0, 0xb4, 0xe6, 0x73,
    0x96, 0xac, 0x74, 0x22, 0xe7, 0xad, 0x35, 0x85, 0xe2, 0xf9, 0x37, 0xe8, 0x1c, 0x75, 0xdf, 0x6e,
    0x47, 0xf1, 0x1a, 0x71, 0x1d, 0x29, 0xc5, 0x89, 0x6f, 0xb7, 0x62, 0x0e, 0xaa, 0x18, 0xbe, 0x1b,
    0xfc, 0x56, 0x3e, 0x4b, 0xc6, 0xd2, 0x79, 0x20, 0x9a, 0xdb, 0xc0, 0xfe, 0x78, 0xcd, 0x5a, 0xf4,
    0x1f, 0xdd, 0xa8, 0x33, 0x88, 0x07, 0xc7, 0x31, 0xb1, 0x12, 0x10, 0x59, 0x27, 0x80, 0xec, 0x5f,
    0x60, 0x51, 0x7f, 0xa9, 0x19, 0xb5, 0x4a, 0x0d, 0x2d, 0xe5, 0x7a, 0x9f, 0x93, 0xc9, 0x9c, 0xef,
    0xa0, 0xe0, 0x3b, 0x4d, 0xae, 0x2a, 0xf5, 0xb0, 0xc8, 0xeb, 0xbb, 0x3c, 0x83, 0x53, 0x99, 0x61,
    0x17, 0x2b, 0x04, 0x7e, 0xba, 0x77, 0xd6, 0x26, 0xe1, 0x69, 0x14, 0x63, 0x55, 0x21, 0x0c, 0x7d]"

definition Rcon :: "u8 list" where
  "Rcon = [0x8d, 0x01, 0x02, 0x04, 0x08, 0x10, 0x20, 0x40, 0x80, 0x1b, 0x36, 0x6c, 0xd8, 0xab, 0x4d, 0x9a,
    0x2f, 0x5e, 0xbc, 0x63, 0xc6, 0x97, 0x35, 0x6a, 0xd4, 0xb3, 0x7d, 0xfa, 0xef, 0xc5, 0x91, 0x39,
    0x72, 0xe4, 0xd3, 0xbd, 0x61, 0xc2, 0x9f, 0x25, 0x4a, 0x94, 0x33, 0x66, 0xcc, 0x83, 0x1d, 0x3a,
    0x74, 0xe8, 0xcb, 0x8d, 0x01, 0x02, 0x04, 0x08, 0x10, 0x20, 0x40, 0x80, 0x1b, 0x36, 0x6c, 0xd8,
    0xab, 0x4d, 0x9a, 0x2f, 0x5e, 0xbc, 0x63, 0xc6, 0x97, 0x35, 0x6a, 0xd4, 0xb3, 0x7d, 0xfa, 0xef,
    0xc5, 0x91, 0x39, 0x72, 0xe4, 0xd3, 0xbd, 0x61, 0xc2, 0x9f, 0x25, 0x4a, 0x94, 0x33, 0x66, 0xcc,
    0x83, 0x1d, 0x3a, 0x74, 0xe8, 0xcb, 0x8d, 0x01, 0x02, 0x04, 0x08, 0x10, 0x20, 0x40, 0x80, 0x1b,
    0x36, 0x6c, 0xd8, 0xab, 0x4d, 0x9a, 0x2f, 0x5e, 0xbc, 0x63, 0xc6, 0x97, 0x35, 0x6a, 0xd4, 0xb3,
    0x7d, 0xfa, 0xef, 0xc5, 0x91, 0x39, 0x72, 0xe4, 0xd3, 0xbd, 0x61, 0xc2, 0x9f, 0x25, 0x4a, 0x94,
    0x33, 0x66, 0xcc, 0x83, 0x1d, 0x3a, 0x74, 0xe8, 0xcb, 0x8d, 0x01, 0x02, 0x04, 0x08, 0x10, 0x20,
    0x40, 0x80, 0x1b, 0x36, 0x6c, 0xd8, 0xab, 0x4d, 0x9a, 0x2f, 0x5e, 0xbc, 0x63, 0xc6, 0x97, 0x35,
    0x6a, 0xd4, 0xb3, 0x7d, 0xfa, 0xef, 0xc5, 0x91, 0x39, 0x72, 0xe4, 0xd3, 0xbd, 0x61, 0xc2, 0x9f,
    0x25, 0x4a, 0x94, 0x33, 0x66, 0xcc, 0x83, 0x1d, 0x3a, 0x74, 0xe8, 0xcb, 0x8d, 0x01, 0x02, 0x04,
    0x08, 0x10, 0x20, 0x40, 0x80, 0x1b, 0x36, 0x6c, 0xd8, 0xab, 0x4d, 0x9a, 0x2f, 0x5e, 0xbc, 0x63,
    0xc6, 0x97, 0x35, 0x6a, 0xd4, 0xb3, 0x7d, 0xfa, 0xef, 0xc5, 0x91, 0x39, 0x72, 0xe4, 0xd3, 0xbd,
    0x61, 0xc2, 0x9f, 0x25, 0x4a, 0x94, 0x33, 0x66, 0xcc, 0x83, 0x1d, 0x3a, 0x74, 0xe8, 0xcb, 0x8d]"

definition getSBoxValue :: "u8 \<Rightarrow> u8" where "getSBoxValue num = sbox ! unat num"
definition getSBoxInvert :: "u8 \<Rightarrow> u8" where "getSBoxInvert num = rsbox ! unat num"

section \<open>Parameters\<close>

text \<open>The fields of \<^verbatim>\<open>aes_state_t\<close> that \<^verbatim>\<open>init\<close> sets: key words, key bytes, rounds, size of the round keys.\<close>

record aes_params =
  Nk :: nat
  KEYLEN :: nat
  Nr :: nat
  keyExpSize :: nat
  is256 :: bool

definition AES128 :: u8 where "AES128 = 0"
definition AES192 :: u8 where "AES192 = 1"
definition AES256 :: u8 where "AES256 = 2"

text \<open>An unknown type leaves the structure uninitialised; every later use of it is undefined.\<close>

definition init :: "u8 \<Rightarrow> aes_params safe" where
  "init t =
     (if t = AES256 then Some \<lparr>Nk = 8, KEYLEN = 32, Nr = 14, keyExpSize = 240, is256 = True\<rparr>
      else if t = AES192 then Some \<lparr>Nk = 6, KEYLEN = 24, Nr = 12, keyExpSize = 208, is256 = False\<rparr>
      else if t = AES128 then Some \<lparr>Nk = 4, KEYLEN = 16, Nr = 10, keyExpSize = 176, is256 = False\<rparr>
      else None)"

section \<open>Key expansion\<close>

definition RotWord :: "u8 list \<Rightarrow> u8 list" where
  "RotWord tempa = [tempa ! 1, tempa ! 2, tempa ! 3, tempa ! 0]"

definition SubWord :: "u8 list \<Rightarrow> u8 list" where
  "SubWord tempa = map getSBoxValue tempa"

definition xor_list :: "u8 list \<Rightarrow> u8 list \<Rightarrow> u8 list" where
  "xor_list a b = map2 (XOR) a b"

text \<open>The four bytes written in round \<open>i\<close> of the loop.\<close>

definition key_word :: "aes_params \<Rightarrow> nat \<Rightarrow> u8 list \<Rightarrow> u8 list" where
  "key_word p i RoundKey =
     (let tempa = take 4 (drop ((i - 1) * 4) RoundKey);
          tempa = (if i mod Nk p = 0
                   then (let tempa = SubWord (RotWord tempa) in tempa[0 := tempa ! 0 XOR Rcon ! (i div Nk p)])
                   else tempa);
          tempa = (if is256 p \<and> i mod Nk p = 4 then SubWord tempa else tempa)
      in xor_list (take 4 (drop ((i - Nk p) * 4) RoundKey)) tempa)"

fun key_loop :: "aes_params \<Rightarrow> nat \<Rightarrow> nat \<Rightarrow> u8 list \<Rightarrow> u8 list" where
  "key_loop p i 0 RoundKey = RoundKey"
| "key_loop p i (Suc n) RoundKey = key_loop p (i + 1) n (RoundKey @ key_word p i RoundKey)"

definition KeyExpansion :: "aes_params \<Rightarrow> u8 list \<Rightarrow> u8 list safe" where
  "KeyExpansion p Key = do {
     first \<leftarrow> rd_block Key 0 (Nk p * 4);
     Some (key_loop p (Nk p) (4 * (Nr p + 1) - Nk p) first) }"

section \<open>The steps of a round\<close>

definition AddRoundKey :: "u8 list \<Rightarrow> nat \<Rightarrow> u8 list \<Rightarrow> u8 list" where
  "AddRoundKey RoundKey rnd s = map (\<lambda>k. s ! k XOR RoundKey ! (rnd * 4 * 4 + k)) [0..<16]"

definition SubBytes :: "u8 list \<Rightarrow> u8 list" where
  "SubBytes s = map getSBoxValue s"

definition ShiftRows :: "u8 list \<Rightarrow> u8 list" where
  "ShiftRows s =
     (let temp = s ! 1; s = s[1 := s ! 5]; s = s[5 := s ! 9]; s = s[9 := s ! 13]; s = s[13 := temp];
          temp = s ! 2; s = s[2 := s ! 10]; s = s[10 := temp];
          temp = s ! 6; s = s[6 := s ! 14]; s = s[14 := temp];
          temp = s ! 3; s = s[3 := s ! 15]; s = s[15 := s ! 11]; s = s[11 := s ! 7]; s = s[7 := temp]
      in s)"

definition xtime :: "u8 \<Rightarrow> u8" where
  "xtime x = push_bit 1 x XOR ((drop_bit 7 x AND 1) * 0x1b)"

text \<open>One turn of the loop over the columns.\<close>

definition mix_column :: "u8 list \<Rightarrow> nat \<Rightarrow> u8 list" where
  "mix_column s i =
     (let t = s ! (4 * i);
          Tmp = s ! (4 * i) XOR s ! (4 * i + 1) XOR s ! (4 * i + 2) XOR s ! (4 * i + 3);
          Tm = xtime (s ! (4 * i) XOR s ! (4 * i + 1));
          s = s[4 * i := s ! (4 * i) XOR (Tm XOR Tmp)];
          Tm = xtime (s ! (4 * i + 1) XOR s ! (4 * i + 2));
          s = s[4 * i + 1 := s ! (4 * i + 1) XOR (Tm XOR Tmp)];
          Tm = xtime (s ! (4 * i + 2) XOR s ! (4 * i + 3));
          s = s[4 * i + 2 := s ! (4 * i + 2) XOR (Tm XOR Tmp)];
          Tm = xtime (s ! (4 * i + 3) XOR t);
          s = s[4 * i + 3 := s ! (4 * i + 3) XOR (Tm XOR Tmp)]
      in s)"

definition MixColumns :: "u8 list \<Rightarrow> u8 list" where
  "MixColumns s = foldl mix_column s [0, 1, 2, 3]"

definition Multiply :: "u8 \<Rightarrow> u8 \<Rightarrow> u8" where
  "Multiply x y =
     ((y AND 1) * x) XOR ((drop_bit 1 y AND 1) * xtime x) XOR ((drop_bit 2 y AND 1) * xtime (xtime x))
     XOR ((drop_bit 3 y AND 1) * xtime (xtime (xtime x)))
     XOR ((drop_bit 4 y AND 1) * xtime (xtime (xtime (xtime x))))"

definition inv_mix_column :: "u8 list \<Rightarrow> nat \<Rightarrow> u8 list" where
  "inv_mix_column s i =
     (let a = s ! (4 * i); b = s ! (4 * i + 1); c = s ! (4 * i + 2); d = s ! (4 * i + 3);
          s = s[4 * i := Multiply a 0x0e XOR Multiply b 0x0b XOR Multiply c 0x0d XOR Multiply d 0x09];
          s = s[4 * i + 1 := Multiply a 0x09 XOR Multiply b 0x0e XOR Multiply c 0x0b XOR Multiply d 0x0d];
          s = s[4 * i + 2 := Multiply a 0x0d XOR Multiply b 0x09 XOR Multiply c 0x0e XOR Multiply d 0x0b];
          s = s[4 * i + 3 := Multiply a 0x0b XOR Multiply b 0x0d XOR Multiply c 0x09 XOR Multiply d 0x0e]
      in s)"

definition InvMixColumns :: "u8 list \<Rightarrow> u8 list" where
  "InvMixColumns s = foldl inv_mix_column s [0, 1, 2, 3]"

definition InvSubBytes :: "u8 list \<Rightarrow> u8 list" where
  "InvSubBytes s = map getSBoxInvert s"

definition InvShiftRows :: "u8 list \<Rightarrow> u8 list" where
  "InvShiftRows s =
     (let temp = s ! 13; s = s[13 := s ! 9]; s = s[9 := s ! 5]; s = s[5 := s ! 1]; s = s[1 := temp];
          temp = s ! 2; s = s[2 := s ! 10]; s = s[10 := temp];
          temp = s ! 6; s = s[6 := s ! 14]; s = s[14 := temp];
          temp = s ! 3; s = s[3 := s ! 7]; s = s[7 := s ! 11]; s = s[11 := s ! 15]; s = s[15 := temp]
      in s)"

section \<open>The cipher and its inverse\<close>

definition cipher_round :: "u8 list \<Rightarrow> u8 list \<Rightarrow> nat \<Rightarrow> u8 list" where
  "cipher_round RoundKey s rnd = AddRoundKey RoundKey rnd (MixColumns (ShiftRows (SubBytes s)))"

definition Cipher :: "aes_params \<Rightarrow> u8 list \<Rightarrow> u8 list \<Rightarrow> u8 list" where
  "Cipher p RoundKey s =
     (let s = AddRoundKey RoundKey 0 s;
          s = foldl (cipher_round RoundKey) s [1..<Nr p]
      in AddRoundKey RoundKey (Nr p) (ShiftRows (SubBytes s)))"

definition inv_cipher_round :: "u8 list \<Rightarrow> u8 list \<Rightarrow> nat \<Rightarrow> u8 list" where
  "inv_cipher_round RoundKey s rnd = InvMixColumns (AddRoundKey RoundKey rnd (InvSubBytes (InvShiftRows s)))"

definition InvCipher :: "aes_params \<Rightarrow> u8 list \<Rightarrow> u8 list \<Rightarrow> u8 list" where
  "InvCipher p RoundKey s =
     (let s = AddRoundKey RoundKey (Nr p) s;
          s = foldl (inv_cipher_round RoundKey) s (rev [1..<Nr p])
      in AddRoundKey RoundKey 0 (InvSubBytes (InvShiftRows s)))"

section \<open>Buffers\<close>

text \<open>
  \<^verbatim>\<open>AES_ECB_encrypt\<close> copies \<open>len\<close> bytes but works on the first block only. Here and below input and
  output are different buffers, a null key or initialisation vector is used uninitialised.
\<close>

definition AES_ECB_encrypt :: "u8 \<Rightarrow> u8 list \<Rightarrow> u8 list \<Rightarrow> u8 list \<Rightarrow> nat \<Rightarrow> u8 list safe" where
  "AES_ECB_encrypt t input key output len = do {
     p \<leftarrow> init t;
     bs \<leftarrow> rd_block input 0 len;
     output \<leftarrow> wr_block output 0 bs;
     RoundKey \<leftarrow> KeyExpansion p key;
     s \<leftarrow> rd_block output 0 16;
     wr_block output 0 (Cipher p RoundKey s) }"

definition AES_ECB_decrypt :: "u8 \<Rightarrow> u8 list \<Rightarrow> u8 list \<Rightarrow> u8 list \<Rightarrow> nat \<Rightarrow> u8 list safe" where
  "AES_ECB_decrypt t input key output len = do {
     p \<leftarrow> init t;
     bs \<leftarrow> rd_block input 0 len;
     output \<leftarrow> wr_block output 0 bs;
     RoundKey \<leftarrow> KeyExpansion p key;
     s \<leftarrow> rd_block output 0 16;
     wr_block output 0 (InvCipher p RoundKey s) }"

text \<open>
  The CBC loops: \<open>n\<close> blocks are left, \<open>pos\<close> is how far the two pointers have moved. Encryption
  overwrites its input with the block that enters the cipher.
\<close>

fun cbc_encrypt_loop ::
  "(u8 list \<Rightarrow> u8 list) \<Rightarrow> nat \<Rightarrow> nat \<Rightarrow> u8 list \<Rightarrow> u8 list \<Rightarrow> u8 list \<Rightarrow> (u8 list \<times> u8 list) safe" where
  "cbc_encrypt_loop E 0 pos Iv input output = Some (input, output)"
| "cbc_encrypt_loop E (Suc n) pos Iv input output = do {
     b \<leftarrow> rd_block input pos 16;
     let b = xor_list b Iv;
     input \<leftarrow> wr_block input pos b;
     output \<leftarrow> wr_block output pos (E b);
     cbc_encrypt_loop E n (pos + 16) (E b) input output }"

fun cbc_decrypt_loop ::
  "(u8 list \<Rightarrow> u8 list) \<Rightarrow> nat \<Rightarrow> nat \<Rightarrow> u8 list \<Rightarrow> u8 list \<Rightarrow> u8 list \<Rightarrow> u8 list safe" where
  "cbc_decrypt_loop D 0 pos Iv input output = Some output"
| "cbc_decrypt_loop D (Suc n) pos Iv input output = do {
     b \<leftarrow> rd_block input pos 16;
     output \<leftarrow> wr_block output pos (xor_list (D b) Iv);
     cbc_decrypt_loop D n (pos + 16) b input output }"

text \<open>The number of turns of \<^verbatim>\<open>for (i = 0; i < length; i += BLOCKLEN)\<close>.\<close>

definition block_count :: "nat \<Rightarrow> nat" where "block_count len = (len + 15) div 16"

definition cbc_extra ::
  "(u8 list \<Rightarrow> u8 list) \<Rightarrow> nat \<Rightarrow> u8 list \<Rightarrow> u8 list \<Rightarrow> u8 list safe" where
  "cbc_extra C len input output =
     (if len mod 16 \<noteq> 0
      then do { let pos = 16 * block_count len;
                bs \<leftarrow> rd_block input pos (len mod 16);
                output \<leftarrow> wr_block output pos bs;
                s \<leftarrow> rd_block output pos 16;
                wr_block output pos (C s) }
      else Some output)"

definition AES_CBC_encrypt_buffer ::
  "u8 \<Rightarrow> u8 list \<Rightarrow> u8 list \<Rightarrow> nat \<Rightarrow> u8 list \<Rightarrow> u8 list \<Rightarrow> u8 list safe" where
  "AES_CBC_encrypt_buffer t output input len key iv = do {
     p \<leftarrow> init t;
     b \<leftarrow> rd_block input 0 16;
     output \<leftarrow> wr_block output 0 b;
     RoundKey \<leftarrow> KeyExpansion p key;
     Iv \<leftarrow> rd_block iv 0 16;
     (input, output) \<leftarrow> cbc_encrypt_loop (Cipher p RoundKey) (block_count len) 0 Iv input output;
     cbc_extra (Cipher p RoundKey) len input output }"

definition AES_CBC_decrypt_buffer ::
  "u8 \<Rightarrow> u8 list \<Rightarrow> u8 list \<Rightarrow> nat \<Rightarrow> u8 list \<Rightarrow> u8 list \<Rightarrow> u8 list safe" where
  "AES_CBC_decrypt_buffer t output input len key iv = do {
     p \<leftarrow> init t;
     b \<leftarrow> rd_block input 0 16;
     output \<leftarrow> wr_block output 0 b;
     RoundKey \<leftarrow> KeyExpansion p key;
     Iv \<leftarrow> rd_block iv 0 16;
     output \<leftarrow> cbc_decrypt_loop (InvCipher p RoundKey) (block_count len) 0 Iv input output;
     cbc_extra (InvCipher p RoundKey) len input output }"

section \<open>The steps are invertible\<close>

lemma sbox_rows: "list_all (\<lambda>i. rsbox ! unat (sbox ! i) = of_nat i) [0..<256]"
  by code_simp

lemma invert_SBox [simp]: "getSBoxInvert (getSBoxValue x) = x"
proof -
  have "unat x \<in> set [0..<256]" using unat_u8_less [of x] by simp
  then have "rsbox ! unat (sbox ! unat x) = of_nat (unat x)"
    using sbox_rows by (simp only: list_all_iff)
  then show ?thesis by (simp add: getSBoxInvert_def getSBoxValue_def)
qed

lemma InvSubBytes_SubBytes [simp]: "InvSubBytes (SubBytes s) = s"
  by (simp add: InvSubBytes_def SubBytes_def comp_def)

lemma block_cases:
  assumes "length s = 16"
  obtains a0 a1 a2 a3 a4 a5 a6 a7 a8 a9 a10 a11 a12 a13 a14 a15
    where "s = [a0, a1, a2, a3, a4, a5, a6, a7, a8, a9, a10, a11, a12, a13, a14, a15]"
proof -
  have "s = map ((!) s) [0..<16]" using map_nth [of s] assms by simp
  also have "[0..<16] = [0, 1, 2, 3, 4, 5, 6, 7, 8, 9, 10, 11, 12, 13, 14, 15]"
    by (simp add: upt_conv_Cons)
  finally show ?thesis using that by simp
qed

lemma InvShiftRows_ShiftRows: "length s = 16 \<Longrightarrow> InvShiftRows (ShiftRows s) = s"
  by (erule block_cases) (simp add: ShiftRows_def InvShiftRows_def Let_def)

lemma xtime_xor: "xtime (x XOR y) = xtime x XOR xtime y"
proof -
  have "push_bit 1 (x XOR y) = push_bit 1 x XOR push_bit 1 y" by (rule push_bit_xor)
  moreover have "(drop_bit 7 (x XOR y) AND 1) * 0x1b = ((drop_bit 7 x AND 1) * 0x1b) XOR ((drop_bit 7 y AND 1) * 0x1b)"
    by (simp add: drop_bit_xor and_one_eq mod2_eq_if even_xor_iff)
  ultimately show ?thesis unfolding xtime_def by (simp only: xor.assoc xor.commute xor.left_commute)
qed

lemma Multiply_values:
  "Multiply x 0x0e = xtime x XOR xtime (xtime x) XOR xtime (xtime (xtime x))"
  "Multiply x 0x0b = x XOR xtime x XOR xtime (xtime (xtime x))"
  "Multiply x 0x0d = x XOR xtime (xtime x) XOR xtime (xtime (xtime x))"
  "Multiply x 0x09 = x XOR xtime (xtime (xtime x))"
  by (simp_all add: Multiply_def)

lemma xor_cancel: "x XOR (x XOR y) = (y :: u8)" "x XOR x = (0 :: u8)"
  by (simp_all flip: xor.assoc)

lemmas xor_norm = xtime_xor xor.assoc xor.commute xor.left_commute xor_cancel

definition mixed :: "u8 \<Rightarrow> u8 \<Rightarrow> u8 \<Rightarrow> u8" where
  "mixed x T y = x XOR (xtime (x XOR y) XOR T)"

text \<open>The inverse matrix undoes the matrix of the column step, without reduction in the field: the
  identity holds by additivity of \<^term>\<open>xtime\<close> alone.\<close>

lemma inv_mix_values:
  fixes a b c d :: u8
  defines "T \<equiv> a XOR b XOR c XOR d"
  shows "Multiply (mixed a T b) 0x0e XOR Multiply (mixed b T c) 0x0b XOR Multiply (mixed c T d) 0x0d
           XOR Multiply (mixed d T a) 0x09 = a"
    and "Multiply (mixed a T b) 0x09 XOR Multiply (mixed b T c) 0x0e XOR Multiply (mixed c T d) 0x0b
           XOR Multiply (mixed d T a) 0x0d = b"
    and "Multiply (mixed a T b) 0x0d XOR Multiply (mixed b T c) 0x09 XOR Multiply (mixed c T d) 0x0e
           XOR Multiply (mixed d T a) 0x0b = c"
    and "Multiply (mixed a T b) 0x0b XOR Multiply (mixed b T c) 0x0d XOR Multiply (mixed c T d) 0x09
           XOR Multiply (mixed d T a) 0x0e = d"
  unfolding mixed_def T_def Multiply_values
  by (simp_all add: xor_norm)

lemma MixColumns_block:
  "MixColumns [a0, a1, a2, a3, a4, a5, a6, a7, a8, a9, a10, a11, a12, a13, a14, a15]
   = (let T = a0 XOR a1 XOR a2 XOR a3
      in [mixed a0 T a1, mixed a1 T a2, mixed a2 T a3, mixed a3 T a0])
     @ (let T = a4 XOR a5 XOR a6 XOR a7
        in [mixed a4 T a5, mixed a5 T a6, mixed a6 T a7, mixed a7 T a4])
     @ (let T = a8 XOR a9 XOR a10 XOR a11
        in [mixed a8 T a9, mixed a9 T a10, mixed a10 T a11, mixed a11 T a8])
     @ (let T = a12 XOR a13 XOR a14 XOR a15
        in [mixed a12 T a13, mixed a13 T a14, mixed a14 T a15, mixed a15 T a12])"
  by (simp add: MixColumns_def mix_column_def mixed_def Let_def)

lemma InvMixColumns_MixColumns:
  assumes "length s = 16"
  shows "InvMixColumns (MixColumns s) = s"
proof -
  obtain a0 a1 a2 a3 a4 a5 a6 a7 a8 a9 a10 a11 a12 a13 a14 a15
    where s: "s = [a0, a1, a2, a3, a4, a5, a6, a7, a8, a9, a10, a11, a12, a13, a14, a15]"
    using assms by (rule block_cases)
  show ?thesis
    unfolding s MixColumns_block Let_def append_Cons append_Nil
    by (simp add: InvMixColumns_def inv_mix_column_def Let_def inv_mix_values)
qed

lemma length_block_ops [simp]:
  "length (AddRoundKey RoundKey rnd s) = 16"
  "length (SubBytes s) = length s" "length (ShiftRows s) = length s" "length (MixColumns s) = length s"
  by (simp_all add: AddRoundKey_def SubBytes_def ShiftRows_def MixColumns_def mix_column_def Let_def)

lemma AddRoundKey_twice: "length s = 16 \<Longrightarrow> AddRoundKey RoundKey rnd (AddRoundKey RoundKey rnd s) = s"
  by (rule nth_equalityI) (simp_all add: AddRoundKey_def xor.assoc)

lemma length_cipher_round [simp]: "length (cipher_round RoundKey s rnd) = 16"
  by (simp add: cipher_round_def)

lemma length_rounds: "length s = 16 \<Longrightarrow> length (foldl (cipher_round RoundKey) s rs) = 16"
  by (induction rs arbitrary: s) simp_all

text \<open>One inverse round undoes the substitution and shift that follow a round, and the round itself.\<close>

lemma inv_round:
  assumes "length s = 16"
  shows "InvSubBytes (InvShiftRows (ShiftRows (SubBytes s))) = s"
  using assms by (simp add: InvShiftRows_ShiftRows)

lemma inv_rounds:
  assumes "length s = 16"
  shows "InvSubBytes (InvShiftRows (foldl (inv_cipher_round RoundKey)
           (ShiftRows (SubBytes (foldl (cipher_round RoundKey) s rs))) (rev rs))) = s"
proof (induction rs rule: rev_induct)
  case (snoc r rs)
  let ?m = "foldl (cipher_round RoundKey) s rs"
  have m: "length ?m = 16" using length_rounds assms by simp
  have "inv_cipher_round RoundKey (ShiftRows (SubBytes (cipher_round RoundKey ?m r))) r
      = ShiftRows (SubBytes ?m)"
    using m by (simp add: inv_cipher_round_def inv_round)
      (simp add: cipher_round_def AddRoundKey_twice InvMixColumns_MixColumns)
  then show ?case using snoc by simp
qed (simp add: inv_round assms)

lemma InvCipher_Cipher:
  assumes "length s = 16"
  shows "InvCipher p RoundKey (Cipher p RoundKey s) = s"
proof -
  let ?s = "AddRoundKey RoundKey 0 s"
  have "length (ShiftRows (SubBytes (foldl (cipher_round RoundKey) ?s [1..<Nr p]))) = 16"
    using length_rounds [of ?s RoundKey "[1..<Nr p]"] by simp
  then show ?thesis
    using inv_rounds [of ?s RoundKey "[1..<Nr p]"] assms
    by (simp add: InvCipher_def Cipher_def Let_def AddRoundKey_twice)
qed

lemma length_Cipher [simp]: "length (Cipher p RoundKey s) = 16"
  by (simp add: Cipher_def Let_def)

section \<open>Round keys\<close>

lemma length_key_word:
  assumes "1 \<le> i" and "Nk p \<le> i" and "1 \<le> Nk p" and "length RoundKey = 4 * i"
  shows "length (key_word p i RoundKey) = 4"
proof -
  have "length (take 4 (drop ((i - 1) * 4) RoundKey)) = 4"
    "length (take 4 (drop ((i - Nk p) * 4) RoundKey)) = 4"
    using assms by (simp_all add: diff_mult_distrib)
  then show ?thesis
    by (simp add: key_word_def xor_list_def SubWord_def RotWord_def Let_def)
qed

lemma length_key_loop:
  "1 \<le> i \<Longrightarrow> Nk p \<le> i \<Longrightarrow> 1 \<le> Nk p \<Longrightarrow> length RoundKey = 4 * i \<Longrightarrow>
   length (key_loop p i n RoundKey) = 4 * (i + n)"
proof (induction p i n RoundKey rule: key_loop.induct)
  case (2 p i n RoundKey)
  then show ?case using length_key_word [of i p RoundKey] by simp
qed simp

lemma KeyExpansion_ok:
  assumes "init t = Some p" and "KEYLEN p \<le> length Key"
  shows "\<exists>rk. KeyExpansion p Key = Some rk \<and> length rk = keyExpSize p"
proof -
  have "1 \<le> Nk p \<and> Nk p * 4 = KEYLEN p \<and> 4 * (Nk p + (4 * (Nr p + 1) - Nk p)) = keyExpSize p"
    using assms(1) by (auto simp: init_def split: if_splits)
  then show ?thesis
    using assms(2) length_key_loop [of "Nk p" p "take (Nk p * 4) Key" "4 * (Nr p + 1) - Nk p"]
    by (simp add: KeyExpansion_def rd_block_def)
qed

section \<open>Cipher block chaining\<close>

text \<open>What \<open>n\<close> turns of the encryption loop put out.\<close>

fun cbc :: "(u8 list \<Rightarrow> u8 list) \<Rightarrow> nat \<Rightarrow> u8 list \<Rightarrow> u8 list \<Rightarrow> u8 list" where
  "cbc E 0 Iv bs = []"
| "cbc E (Suc n) Iv bs = (let c = E (xor_list (take 16 bs) Iv) in c @ cbc E n c (drop 16 bs))"

lemma length_xor_list [simp]: "length (xor_list a b) = min (length a) (length b)"
  by (simp add: xor_list_def)

lemma xor_list_twice: "length a = length b \<Longrightarrow> xor_list (xor_list a b) b = a"
  by (induction a b rule: list_induct2) (simp_all add: xor_list_def xor.assoc)

text \<open>The contract of a block cipher, and what chaining makes of it.\<close>

locale block_cipher =
  fixes E :: "u8 list \<Rightarrow> u8 list" and D :: "u8 list \<Rightarrow> u8 list"
  assumes length_E: "length (E b) = 16"
    and D_E: "length b = 16 \<Longrightarrow> D (E b) = b"
begin

lemma length_cbc [simp]: "length (cbc E n Iv bs) = 16 * n"
  by (induction n arbitrary: Iv bs) (simp_all add: length_E Let_def)

lemma encrypt_loop:
  "pos + 16 * n \<le> length input \<Longrightarrow> pos + 16 * n \<le> length dst \<Longrightarrow> length Iv = 16 \<Longrightarrow>
   \<exists>input'. cbc_encrypt_loop E n pos Iv input dst
     = Some (input', take pos dst @ cbc E n Iv (drop pos input) @ drop (pos + 16 * n) dst)"
proof (induction n arbitrary: pos Iv input dst)
  case (Suc n)
  define b where "b = xor_list (take 16 (drop pos input)) Iv"
  have len: "length b = 16" using Suc.prems by (simp add: b_def)
  define input1 where "input1 = take pos input @ b @ drop (pos + 16) input"
  define dst1 where "dst1 = take pos dst @ E b @ drop (pos + 16) dst"
  have "rd_block input pos 16 = Some (take 16 (drop pos input))" "wr_block input pos b = Some input1"
    "wr_block dst pos (E b) = Some dst1"
    using Suc.prems len by (simp_all add: rd_block_def wr_block_def input1_def dst1_def length_E)
  moreover have "drop (pos + 16) input1 = drop 16 (drop pos input)" "length input1 = length input"
    "length dst1 = length dst"
    using Suc.prems len by (simp_all add: input1_def dst1_def length_E add.commute)
  moreover have "take (pos + 16) dst1 = take pos dst @ E b"
    "drop (pos + 16 + 16 * n) dst1 = drop (pos + 16 * Suc n) dst"
    using Suc.prems by (simp_all add: dst1_def length_E ac_simps)
  ultimately show ?case
    using Suc.IH [of "pos + 16" input1 dst1 "E b"] Suc.prems
    by (simp add: length_E Let_def b_def [symmetric])
qed (simp add: rd_block_def)

lemma decrypt_loop:
  "pos + 16 * n \<le> length dst \<Longrightarrow> length Iv = 16 \<Longrightarrow> 16 * n \<le> length bs \<Longrightarrow>
   drop pos input = cbc E n Iv bs @ rest \<Longrightarrow>
   cbc_decrypt_loop D n pos Iv input dst
     = Some (take pos dst @ take (16 * n) bs @ drop (pos + 16 * n) dst)"
proof (induction n arbitrary: pos Iv bs dst)
  case (Suc n)
  define b where "b = xor_list (take 16 bs) Iv"
  have len: "length b = 16" "xor_list b Iv = take 16 bs"
    using Suc.prems by (simp_all add: b_def xor_list_twice)
  have d: "drop pos input = E b @ cbc E n (E b) (drop 16 bs) @ rest"
    using Suc.prems(4) by (simp add: b_def Let_def)
  have "16 \<le> length (drop pos input)" unfolding d by (simp add: length_E)
  then have "pos + 16 \<le> length input" by simp
  then have r: "rd_block input pos 16 = Some (E b)"
    using d by (simp add: rd_block_def length_E)
  define dst1 where "dst1 = take pos dst @ take 16 bs @ drop (pos + 16) dst"
  have w: "wr_block dst pos (take 16 bs) = Some dst1"
    using Suc.prems by (simp add: wr_block_def dst1_def)
  have "drop (pos + 16) input = cbc E n (E b) (drop 16 bs) @ rest"
    using arg_cong [OF d, of "drop 16"] by (simp add: length_E add.commute)
  moreover have "take (pos + 16) dst1 = take pos dst @ take 16 bs"
    "drop (pos + 16 + 16 * n) dst1 = drop (pos + 16 * Suc n) dst" "length dst1 = length dst"
    using Suc.prems by (simp_all add: dst1_def ac_simps)
  moreover have "take 16 bs @ take (16 * n) (drop 16 bs) = take (16 * Suc n) bs"
    using take_add [of 16 "16 * n" bs] by (simp add: add.commute)
  ultimately show ?case
    using Suc.IH [of "pos + 16" dst1 "E b" "drop 16 bs"] Suc.prems r w len
    by (simp add: D_E length_E)
qed simp

end

interpretation aes: block_cipher "Cipher p RoundKey" "InvCipher p RoundKey" for p RoundKey
  by unfold_locales (simp_all add: InvCipher_Cipher)

lemma AES_CBC_encrypt_value:
  assumes "init t = Some p" and "KeyExpansion p key = Some rk" and "len mod 16 = 0" and "16 \<le> len"
    and "len \<le> length input" and "len \<le> length dst" and "16 \<le> length iv"
  shows "AES_CBC_encrypt_buffer t dst input len key iv
    = Some (cbc (Cipher p rk) (len div 16) (take 16 iv) input @ drop len dst)"
proof -
  have n: "block_count len = len div 16" "16 * (len div 16) = len"
    using assms(3) by (auto simp: block_count_def)
  let ?o = "take 16 input @ drop 16 dst"
  have "\<exists>input'. cbc_encrypt_loop (Cipher p rk) (len div 16) 0 (take 16 iv) input ?o
      = Some (input', take 0 ?o @ cbc (Cipher p rk) (len div 16) (take 16 iv) (drop 0 input) @ drop (0 + 16 * (len div 16)) ?o)"
    by (rule aes.encrypt_loop) (use assms n in simp_all)
  then show ?thesis
    using assms n
    by (auto simp: AES_CBC_encrypt_buffer_def rd_block_def wr_block_def cbc_extra_def)
qed

lemma AES_CBC_decrypt_value:
  assumes "init t = Some p" and "KeyExpansion p key = Some rk" and "len mod 16 = 0" and "16 \<le> len"
    and "len \<le> length bs" and "len \<le> length dst" and "16 \<le> length iv"
    and "input = cbc (Cipher p rk) (len div 16) (take 16 iv) bs @ rest"
  shows "AES_CBC_decrypt_buffer t dst input len key iv = Some (take len bs @ drop len dst)"
proof -
  have n: "block_count len = len div 16" "16 * (len div 16) = len"
    using assms(3) by (auto simp: block_count_def)
  then have "len \<le> length input" by (simp add: assms(8))
  let ?o = "take 16 input @ drop 16 dst"
  have "cbc_decrypt_loop (InvCipher p rk) (len div 16) 0 (take 16 iv) input ?o
      = Some (take 0 ?o @ take (16 * (len div 16)) bs @ drop (0 + 16 * (len div 16)) ?o)"
    by (rule aes.decrypt_loop [where rest = rest]) (use assms n \<open>len \<le> length input\<close> in simp_all)
  then show ?thesis
    using assms(1-4,6,7) n \<open>len \<le> length input\<close>
    by (simp add: AES_CBC_decrypt_buffer_def rd_block_def wr_block_def cbc_extra_def)
qed

lemma encrypt_loop_overruns:
  "0 < n \<Longrightarrow> length input < pos + 16 * n \<Longrightarrow> cbc_encrypt_loop E n pos Iv input dst = None"
proof (induction n arbitrary: pos Iv input dst)
  case (Suc n)
  show ?case
  proof (cases "n = 0")
    case True
    then show ?thesis using Suc.prems by (simp add: rd_block_def)
  next
    case False
    then have "cbc_encrypt_loop E n (pos + 16) I input' d = None" if "length input' = length input" for I input' d
      using Suc.IH [of input' "pos + 16"] Suc.prems that by simp
    then show ?thesis
      by (auto simp: Let_def split: bind_splits dest: length_wr_block)
  qed
qed simp

section \<open>Properties\<close>

text \<open>C29: For every key size, key, initialisation vector and whole number of blocks, CBC decryption gives
  back the bytes that were encrypted, and both directions stay inside their buffers.\<close>

theorem aes_cbc_round_trip:
  assumes "init t = Some p" and "KEYLEN p \<le> length key" and "16 \<le> length iv"
    and "len mod 16 = 0" and "16 \<le> len" and "len \<le> length input" and "len \<le> length dst"
    and "len \<le> length dst'"
  shows "\<exists>c. AES_CBC_encrypt_buffer t dst input len key iv = Some c \<and> length c = length dst
     \<and> AES_CBC_decrypt_buffer t dst' c len key iv = Some (take len input @ drop len dst')"
proof -
  obtain rk where rk: "KeyExpansion p key = Some rk" using KeyExpansion_ok [OF assms(1,2)] by blast
  have "16 * (len div 16) = len" using assms(4) by auto
  then show ?thesis
    using AES_CBC_encrypt_value [OF assms(1) rk assms(4,5,6,7,3)]
      AES_CBC_decrypt_value [OF assms(1) rk assms(4,5,6,8,3) refl, of "drop len dst"] assms(7)
    by auto
qed

theorem aes_cbc_round_trip_witness:
  "\<exists>c. AES_CBC_encrypt_buffer AES192 (replicate 32 0) (map of_nat [0..<32]) 32 (replicate 24 7) (replicate 16 9) = Some c
     \<and> length c = length (replicate 32 (0 :: u8))
     \<and> AES_CBC_decrypt_buffer AES192 (replicate 32 1) c 32 (replicate 24 7) (replicate 16 9)
       = Some (take 32 (map of_nat [0..<32]) @ drop 32 (replicate 32 1))"
  by (rule aes_cbc_round_trip [where p = "\<lparr>Nk = 6, KEYLEN = 24, Nr = 12, keyExpSize = 208, is256 = False\<rparr>"])
    (simp_all add: init_def AES192_def AES256_def)

text \<open>The single block routines are inverse to each other.\<close>

theorem aes_block_round_trip:
  assumes "init t = Some p" and "KEYLEN p \<le> length key" and "length input = 16"
    and "length dst = 16" and "length dst' = 16"
  shows "\<exists>c. AES_ECB_encrypt t input key dst 16 = Some c \<and> length c = 16
     \<and> AES_ECB_decrypt t c key dst' 16 = Some input"
proof -
  obtain rk where "KeyExpansion p key = Some rk" using KeyExpansion_ok [OF assms(1,2)] by blast
  then show ?thesis
    using assms
    by (simp add: AES_ECB_encrypt_def AES_ECB_decrypt_def rd_block_def wr_block_def InvCipher_Cipher)
qed

theorem aes_block_round_trip_witness:
  "\<exists>c. AES_ECB_encrypt AES128 (replicate 16 1) (replicate 16 2) (replicate 16 0) 16 = Some c \<and> length c = 16
     \<and> AES_ECB_decrypt AES128 c (replicate 16 2) (replicate 16 0) 16 = Some (replicate 16 1)"
  by (rule aes_block_round_trip [where p = "\<lparr>Nk = 4, KEYLEN = 16, Nr = 10, keyExpSize = 176, is256 = False\<rparr>"])
    (simp_all add: init_def AES128_def AES192_def AES256_def)

text \<open>A length that is no multiple of sixteen makes the encryption loop run one block too far: with a
  buffer of exactly that length it leaves the buffer.\<close>

lemma aes_cbc_partial_block_overruns:
  assumes "length input mod 16 \<noteq> 0"
  shows "AES_CBC_encrypt_buffer t dst input (length input) key iv = None"
proof -
  have "length input + 15 < 16 * block_count (length input) + 16"
    using dividend_less_times_div [of 16 "length input + 15"] by (simp add: block_count_def)
  moreover have "length input \<noteq> 16 * block_count (length input)" using assms by (metis mod_mult_self1_is_0)
  ultimately have "length input < 0 + 16 * block_count (length input)" by simp
  moreover from this have "0 < block_count (length input)" by simp
  ultimately show ?thesis
    by (simp add: AES_CBC_encrypt_buffer_def encrypt_loop_overruns split: bind_splits)
qed

end
