(* ===== verification/FrameCrypto.thy ===== *)
theory FrameCrypto
  imports Aes Frame
begin

text \<open>
  Encrypted frames (vscphelper.cpp): PKCS#7 padding, the encryption and decryption of binary frames
  with the AES implementation of the library or with OpenSSL, and the authenticated version 1 with
  an HMAC tag. OpenSSL is third-party code: its CBC cipher, HMAC and random generator are the
  fields of a record of functions that the definitions take as a parameter. What a failing library
  call leaves in the output buffer is not modelled.
\<close>

section \<open>Interfaces to OpenSSL\<close>

text \<open>
  The arguments of the cipher calls are the encryption code of the frame, key, initialisation vector
  and data; \<open>None\<close> is a call that reports failure. \<open>evp_cbc\<close> stands for the calls with padding
  switched off, \<open>evp_pad\<close> for those with the default padding.
\<close>

record openssl =
  evp_cbc_encrypt :: "u8 \<Rightarrow> u8 list \<Rightarrow> u8 list \<Rightarrow> u8 list \<Rightarrow> u8 list option"
  evp_cbc_decrypt :: "u8 \<Rightarrow> u8 list \<Rightarrow> u8 list \<Rightarrow> u8 list \<Rightarrow> u8 list option"
  evp_pad_encrypt :: "u8 \<Rightarrow> u8 list \<Rightarrow> u8 list \<Rightarrow> u8 list \<Rightarrow> u8 list option"
  evp_pad_decrypt :: "u8 \<Rightarrow> u8 list \<Rightarrow> u8 list \<Rightarrow> u8 list \<Rightarrow> u8 list option"
  hmac_sha256 :: "u8 list \<Rightarrow> u8 list \<Rightarrow> u8 list option"
  rand_bytes :: "u8 list option"

definition VSCP_ENCRYPTION_AES128 :: u8 where "VSCP_ENCRYPTION_AES128 = 1"
definition VSCP_ENCRYPTION_AES192 :: u8 where "VSCP_ENCRYPTION_AES192 = 2"
definition VSCP_ENCRYPTION_AES256 :: u8 where "VSCP_ENCRYPTION_AES256 = 3"
definition VSCP_ENCRYPTION_FROM_TYPE_BYTE :: u8 where "VSCP_ENCRYPTION_FROM_TYPE_BYTE = 15"

text \<open>Whether there is a cipher for an encryption code, and the type code of the AES routines.\<close>

definition vscp_getOpenSslCipherFromAlgorithm :: "u8 \<Rightarrow> u8 option" where
  "vscp_getOpenSslCipherFromAlgorithm algorithm =
     (if algorithm = VSCP_ENCRYPTION_AES128 \<or> algorithm = VSCP_ENCRYPTION_AES192
         \<or> algorithm = VSCP_ENCRYPTION_AES256 then Some algorithm else None)"

definition aes_type :: "u8 \<Rightarrow> u8 option" where
  "aes_type algorithm =
     (if algorithm = VSCP_ENCRYPTION_AES192 then Some AES192
      else if algorithm = VSCP_ENCRYPTION_AES256 then Some AES256
      else if algorithm = VSCP_ENCRYPTION_AES128 then Some AES128 else None)"

section \<open>Padding\<close>

text \<open>The inner \<open>None\<close> is the result \<^verbatim>\<open>false\<close>.\<close>

definition vscp_pkcs7Pad :: "u8 list ptr \<Rightarrow> nat \<Rightarrow> u8 list option safe" where
  "vscp_pkcs7Pad input len =
     (case input of None \<Rightarrow> Some None
      | Some inp \<Rightarrow>
         if len > 2 ^ 64 - 1 - 16 then Some None
         else do {
           let padlen = (of_nat (16 - len mod 16) :: u8);
           let padded = replicate (len + unat padlen) padlen;
           bs \<leftarrow> rd_block inp 0 len;
           padded \<leftarrow> wr_block padded 0 bs;
           Some (Some padded) })"

text \<open>The new contents of the buffer and the new length come with the result.\<close>

definition vscp_pkcs7Unpad :: "u8 list ptr \<Rightarrow> nat \<Rightarrow> (bool \<times> u8 list ptr \<times> nat) safe" where
  "vscp_pkcs7Unpad plaintext len =
     (case plaintext of None \<Rightarrow> Some (False, None, len)
      | Some p \<Rightarrow>
         if len = 0 \<or> len mod 16 \<noteq> 0 then Some (False, Some p, len)
         else do {
           padlen \<leftarrow> rd p (len - 1);
           if padlen = 0 \<or> unat padlen > 16 \<or> unat padlen > len then Some (False, Some p, len)
           else do {
             pad \<leftarrow> rd_block p (len - unat padlen) (unat padlen);
             if list_ex (\<lambda>b. b \<noteq> padlen) pad then Some (False, Some p, len)
             else do {
               p \<leftarrow> wr_block p (len - unat padlen) (replicate (unat padlen) 0);
               Some (True, Some p, len - unat padlen) } } })"

section \<open>Checks on frames\<close>

definition vscp_validFrameCrc :: "u8 list \<Rightarrow> nat \<Rightarrow> bool safe" where
  "vscp_validFrameCrc frame len =
     (if len < 5 \<or> len - 3 > 2147483647 then Some False
      else do {
        c1 \<leftarrow> rd frame (len - 2);
        c0 \<leftarrow> rd frame (len - 1);
        bs \<leftarrow> rd_block frame 1 (len - 3);
        Some (crcSlow bs = (push_bit 8 (ucast c1) OR ucast c0)) })"

text \<open>\<^verbatim>\<open>frame + 1\<close> is the tail of the array; the result carries the changed frame.\<close>

definition vscp_validateDecryptedFrame :: "u8 list \<Rightarrow> nat \<Rightarrow> (bool \<times> u8 list) safe" where
  "vscp_validateDecryptedFrame frame len = do {
     (ok, p, payload_len) \<leftarrow> vscp_pkcs7Unpad (Some (drop 1 frame)) (len - 1);
     p \<leftarrow> p;
     let frame = take 1 frame @ p;
     if \<not> ok then Some (False, frame)
     else do { valid \<leftarrow> vscp_validFrameCrc frame (payload_len + 1); Some (valid, frame) } }"

definition vscp_resolveFrameCryptoAlgorithm :: "u8 \<Rightarrow> u8 list \<Rightarrow> u8 safe" where
  "vscp_resolveFrameCryptoAlgorithm algorithm input =
     (if algorithm AND 0x0f = VSCP_ENCRYPTION_FROM_TYPE_BYTE
      then do { b \<leftarrow> rd input 0; Some (b AND 0x0f) } else Some algorithm)"

text \<open>\<open>random_iv\<close> is what \<^verbatim>\<open>getRandomIV\<close> delivers, \<open>None\<close> when it cannot read sixteen bytes.\<close>

definition vscp_getEncryptionIv :: "u8 list option \<Rightarrow> u8 list ptr \<Rightarrow> u8 list option safe" where
  "vscp_getEncryptionIv random_iv iv =
     (case iv of None \<Rightarrow> Some random_iv | Some v \<Rightarrow> map_option Some (rd_block v 0 16))"

section \<open>The two cipher engines\<close>

text \<open>
  Both fill a destination from data whose length is a multiple of the block size. The outer \<open>None\<close> is
  an access outside the buffers, the inner one a reported failure.
\<close>

definition vscp_evpEncryptBuffer ::
  "openssl \<Rightarrow> u8 \<Rightarrow> u8 list \<Rightarrow> u8 list \<Rightarrow> u8 list \<Rightarrow> u8 list \<Rightarrow> u8 list option safe" where
  "vscp_evpEncryptBuffer ssl algorithm dst input key iv =
     (case evp_cbc_encrypt ssl algorithm key iv input of None \<Rightarrow> Some None
      | Some c \<Rightarrow> if length c \<noteq> length input then Some None else map_option Some (wr_block dst 0 c))"

definition vscp_evpDecryptBuffer ::
  "openssl \<Rightarrow> u8 \<Rightarrow> u8 list \<Rightarrow> u8 list \<Rightarrow> u8 list \<Rightarrow> u8 list \<Rightarrow> u8 list option safe" where
  "vscp_evpDecryptBuffer ssl algorithm dst input key iv =
     (case evp_cbc_decrypt ssl algorithm key iv input of None \<Rightarrow> Some None
      | Some c \<Rightarrow> if length c \<noteq> length input then Some None else map_option Some (wr_block dst 0 c))"

definition aes_encrypt_buffer ::
  "u8 \<Rightarrow> u8 list \<Rightarrow> u8 list \<Rightarrow> u8 list \<Rightarrow> u8 list \<Rightarrow> u8 list option safe" where
  "aes_encrypt_buffer algorithm dst input key iv =
     (case aes_type algorithm of None \<Rightarrow> Some None
      | Some t \<Rightarrow> map_option Some (AES_CBC_encrypt_buffer t dst input (length input) key iv))"

definition aes_decrypt_buffer ::
  "u8 \<Rightarrow> u8 list \<Rightarrow> u8 list \<Rightarrow> u8 list \<Rightarrow> u8 list \<Rightarrow> u8 list option safe" where
  "aes_decrypt_buffer algorithm dst input key iv =
     (case aes_type algorithm of None \<Rightarrow> Some None
      | Some t \<Rightarrow> map_option Some (AES_CBC_decrypt_buffer t dst input (length input) key iv))"

section \<open>Encrypting a frame\<close>

text \<open>Without encryption the frame is copied and its packet type byte loses the encryption code.\<close>

definition plain_frame :: "u8 list \<Rightarrow> u8 list \<Rightarrow> nat \<Rightarrow> (nat \<times> u8 list) safe" where
  "plain_frame dst inp len = do {
     bs \<leftarrow> rd_block inp 0 len;
     dst \<leftarrow> wr_block dst 0 bs;
     b \<leftarrow> rd dst 0;
     Some (len, dst[0 := b AND 0xf0]) }"

text \<open>
  The body that \<^verbatim>\<open>vscp_encryptFrame\<close> and \<^verbatim>\<open>vscp_encryptFrameOpenSSL\<close> share; they differ in the cipher
  they call (and in the order of two tests that refuse in the same way).
\<close>

definition encrypt_frame_with ::
  "(u8 \<Rightarrow> u8 list \<Rightarrow> u8 list \<Rightarrow> u8 list \<Rightarrow> u8 list \<Rightarrow> u8 list option safe)
   \<Rightarrow> u8 list option \<Rightarrow> u8 list ptr \<Rightarrow> u8 list ptr \<Rightarrow> nat \<Rightarrow> u8 list ptr \<Rightarrow> u8 list ptr \<Rightarrow> u8
   \<Rightarrow> (nat \<times> u8 list ptr) safe" where
  "encrypt_frame_with engine random_iv outp input len pkey piv nAlgorithm =
     (case outp of None \<Rightarrow> Some (0, None)
      | Some dst \<Rightarrow> (case input of None \<Rightarrow> Some (0, Some dst)
      | Some inp \<Rightarrow>
         if len = 0 then Some (0, Some dst)
         else do {
           alg \<leftarrow> vscp_resolveFrameCryptoAlgorithm nAlgorithm inp;
           if alg = VSCP_ENCRYPTION_NONE then map_option (map_prod id Some) (plain_frame dst inp len)
           else (case pkey of None \<Rightarrow> Some (0, Some dst)
           | Some key \<Rightarrow>
              if vscp_getOpenSslCipherFromAlgorithm alg = None then Some (0, Some dst)
              else do {
                padded \<leftarrow> vscp_pkcs7Pad (Some (drop 1 inp)) (len - 1);
                (case padded of None \<Rightarrow> Some (0, Some dst)
                 | Some plaintext \<Rightarrow> do {
                     b0 \<leftarrow> rd inp 0;
                     dst \<leftarrow> wr_block dst 0 [(b0 AND 0xf0) OR alg];
                     generated \<leftarrow> vscp_getEncryptionIv random_iv piv;
                     (case generated of None \<Rightarrow> Some (0, Some dst)
                      | Some iv \<Rightarrow> do {
                          r \<leftarrow> engine alg (drop 1 dst) plaintext key iv;
                          (case r of None \<Rightarrow> Some (0, Some dst)
                           | Some rest \<Rightarrow> do {
                               dst \<leftarrow> wr_block (take 1 dst @ rest) (1 + length plaintext) iv;
                               Some (length plaintext + 16 + 1, Some dst) }) }) }) }) }))"

definition vscp_encryptFrameOpenSSL ::
  "openssl \<Rightarrow> u8 list option \<Rightarrow> u8 list ptr \<Rightarrow> u8 list ptr \<Rightarrow> nat \<Rightarrow> u8 list ptr \<Rightarrow> u8 list ptr \<Rightarrow> u8
   \<Rightarrow> (nat \<times> u8 list ptr) safe" where
  "vscp_encryptFrameOpenSSL ssl = encrypt_frame_with (vscp_evpEncryptBuffer ssl)"

definition vscp_encryptFrame ::
  "bool \<Rightarrow> openssl \<Rightarrow> u8 list option \<Rightarrow> u8 list ptr \<Rightarrow> u8 list ptr \<Rightarrow> nat \<Rightarrow> u8 list ptr \<Rightarrow> u8 list ptr \<Rightarrow> u8
   \<Rightarrow> (nat \<times> u8 list ptr) safe" where
  "vscp_encryptFrame use_openssl ssl =
     (if use_openssl then vscp_encryptFrameOpenSSL ssl else encrypt_frame_with aes_encrypt_buffer)"

section \<open>Decrypting a frame\<close>

text \<open>
  The initialisation vector comes from the caller or from the end of the frame: the vector and the
  length that is left, or \<open>None\<close> when the frame is too short.
\<close>

definition frame_iv :: "u8 list \<Rightarrow> nat \<Rightarrow> u8 list ptr \<Rightarrow> (u8 list \<times> nat) option safe" where
  "frame_iv inp len piv =
     (case piv of
        None \<Rightarrow> if len < 1 + 16 + 16 then Some None
                else do { iv \<leftarrow> rd_block inp (len - 16) 16; Some (Some (iv, len - 16)) }
      | Some v \<Rightarrow> do { iv \<leftarrow> rd_block v 0 16; Some (Some (iv, len)) })"

text \<open>Output and input are different buffers, or the same one (the code keeps a copy then).\<close>

definition decrypt_frame_with ::
  "(u8 \<Rightarrow> u8 list \<Rightarrow> u8 list \<Rightarrow> u8 list \<Rightarrow> u8 list \<Rightarrow> u8 list option safe)
   \<Rightarrow> u8 list ptr \<Rightarrow> u8 list ptr \<Rightarrow> nat \<Rightarrow> u8 list ptr \<Rightarrow> u8 list ptr \<Rightarrow> u8 \<Rightarrow> (bool \<times> u8 list ptr) safe" where
  "decrypt_frame_with engine outp input len pkey piv nAlgorithm =
     (case outp of None \<Rightarrow> Some (False, None)
      | Some dst \<Rightarrow> (case input of None \<Rightarrow> Some (False, Some dst)
      | Some inp \<Rightarrow>
         if len = 0 then Some (False, Some dst)
         else do {
           alg \<leftarrow> vscp_resolveFrameCryptoAlgorithm nAlgorithm inp;
           if alg = VSCP_ENCRYPTION_NONE
           then do {
             valid \<leftarrow> vscp_validFrameCrc inp len;
             if \<not> valid then Some (False, Some dst)
             else do { bs \<leftarrow> rd_block inp 0 len; dst \<leftarrow> wr_block dst 0 bs; Some (True, Some dst) } }
           else (case pkey of None \<Rightarrow> Some (False, Some dst)
           | Some key \<Rightarrow> do {
               fetched \<leftarrow> frame_iv inp len piv;
               (case fetched of None \<Rightarrow> Some (False, Some dst)
                | Some (iv, real_len) \<Rightarrow>
                   if real_len < 1 + 16 \<or> (real_len - 1) mod 16 \<noteq> 0 then Some (False, Some dst)
                   else do {
                     b0 \<leftarrow> rd inp 0;
                     dst \<leftarrow> wr_block dst 0 [b0];
                     encrypted \<leftarrow> rd_block inp 1 (real_len - 1);
                     r \<leftarrow> engine alg (drop 1 dst) encrypted key iv;
                     (case r of None \<Rightarrow> Some (False, Some dst)
                      | Some rest \<Rightarrow> do {
                          (ok, dst) \<leftarrow> vscp_validateDecryptedFrame (take 1 dst @ rest) real_len;
                          Some (ok, Some dst) }) }) }) }))"

definition vscp_decryptFrameOpenSSL ::
  "openssl \<Rightarrow> u8 list ptr \<Rightarrow> u8 list ptr \<Rightarrow> nat \<Rightarrow> u8 list ptr \<Rightarrow> u8 list ptr \<Rightarrow> u8 \<Rightarrow> (bool \<times> u8 list ptr) safe" where
  "vscp_decryptFrameOpenSSL ssl =
     decrypt_frame_with (\<lambda>alg dst input key iv.
       if vscp_getOpenSslCipherFromAlgorithm alg = None then Some None
       else vscp_evpDecryptBuffer ssl alg dst input key iv)"

definition vscp_decryptFrame ::
  "bool \<Rightarrow> openssl \<Rightarrow> u8 list ptr \<Rightarrow> u8 list ptr \<Rightarrow> nat \<Rightarrow> u8 list ptr \<Rightarrow> u8 list ptr \<Rightarrow> u8 \<Rightarrow> (bool \<times> u8 list ptr) safe" where
  "vscp_decryptFrame use_openssl ssl =
     (if use_openssl then vscp_decryptFrameOpenSSL ssl else decrypt_frame_with aes_decrypt_buffer)"

section \<open>Authenticated frames\<close>

text \<open>
  The tag covers the header the frame travels with, in which the length counts the tag.
\<close>

definition vscp_frameHmac :: "openssl \<Rightarrow> u8 list \<Rightarrow> u8 list \<Rightarrow> u8 list option" where
  "vscp_frameHmac ssl frame key =
     (let w = (0x2000 OR of_nat (length frame + 16) :: u16);
          authenticated = [0x55, ucast (drop_bit 8 w), ucast w] @ frame
      in case hmac_sha256 ssl (take 32 key) authenticated of None \<Rightarrow> None
         | Some digest \<Rightarrow> if length digest = 32 then Some digest else None)"

text \<open>The key and vector arguments have the sizes the C code reads: 32 bytes of HMAC key, 16 of vector.\<close>

definition vscp_encryptFrameV1 ::
  "openssl \<Rightarrow> u8 list ptr \<Rightarrow> nat \<Rightarrow> u8 list ptr \<Rightarrow> nat \<Rightarrow> u8 list ptr \<Rightarrow> u8 list ptr \<Rightarrow> u8 list ptr \<Rightarrow> u8
   \<Rightarrow> (nat \<times> u8 list ptr) safe" where
  "vscp_encryptFrameV1 ssl outp capacity input len pkey phmacKey piv nAlgorithm =
     (case (outp, input, pkey, phmacKey) of
        (Some dst, Some inp, Some key, Some hmacKey) \<Rightarrow>
          if len < 5 \<or> len > 0x1fff then Some (0, Some dst)
          else do {
            alg \<leftarrow> vscp_resolveFrameCryptoAlgorithm nAlgorithm inp;
            if vscp_getOpenSslCipherFromAlgorithm alg = None then Some (0, Some dst)
            else do {
              let ciphertext_len = ((len - 1) div 16 + 1) * 16;
              let wire_len = 1 + ciphertext_len + 32;
              if capacity < wire_len \<or> wire_len > 0x1fff then Some (0, Some dst)
              else do {
                generated \<leftarrow> vscp_getEncryptionIv (rand_bytes ssl) piv;
                padded \<leftarrow> vscp_pkcs7Pad (Some (drop 1 inp)) (len - 1);
                b0 \<leftarrow> rd inp 0;
                (case (generated, padded) of
                   (Some iv, Some plain) \<Rightarrow> do {
                     r \<leftarrow> vscp_evpEncryptBuffer ssl alg (replicate (wire_len - 1) 0) plain key iv;
                     (case r of None \<Rightarrow> Some (0, Some dst)
                      | Some rest \<Rightarrow> do {
                          frame \<leftarrow> wr_block (((b0 AND 0xf0) OR alg) # rest) (1 + ciphertext_len) iv;
                          bs \<leftarrow> rd_block frame 0 (wire_len - 16);
                          (case vscp_frameHmac ssl bs hmacKey of None \<Rightarrow> Some (0, Some dst)
                           | Some digest \<Rightarrow> do {
                               frame \<leftarrow> wr_block frame (wire_len - 16) (take 16 digest);
                               dst \<leftarrow> wr_block dst 0 frame;
                               Some (wire_len, Some dst) }) }) }
                 | _ \<Rightarrow> Some (0, Some dst)) } } }
      | _ \<Rightarrow> Some (0, outp))"

definition vscp_decryptFrameV1 ::
  "openssl \<Rightarrow> u8 list ptr \<Rightarrow> nat \<Rightarrow> u8 list ptr \<Rightarrow> nat \<Rightarrow> u8 list ptr \<Rightarrow> u8 list ptr
   \<Rightarrow> (nat \<times> u8 list ptr) safe" where
  "vscp_decryptFrameV1 ssl outp capacity input len pkey phmacKey =
     (case (outp, input, pkey, phmacKey) of
        (Some dst, Some inp, Some key, Some hmacKey) \<Rightarrow>
          if len < 49 \<or> len > 0x1fff \<or> (len - 33) mod 16 \<noteq> 0 then Some (0, Some dst)
          else do {
            b0 \<leftarrow> rd inp 0;
            (case vscp_getOpenSslCipherFromAlgorithm (b0 AND 0x0f) of None \<Rightarrow> Some (0, Some dst)
             | Some alg \<Rightarrow> do {
                 content \<leftarrow> rd_block inp 0 (len - 16);
                 tag \<leftarrow> rd_block inp (len - 16) 16;
                 (case vscp_frameHmac ssl content hmacKey of None \<Rightarrow> Some (0, Some dst)
                  | Some digest \<Rightarrow>
                     if take 16 digest \<noteq> tag then Some (0, Some dst)
                     else do {
                       let payload_len = len - 33;
                       cipher_text \<leftarrow> rd_block inp 1 payload_len;
                       iv \<leftarrow> rd_block inp (len - 32) 16;
                       r \<leftarrow> vscp_evpDecryptBuffer ssl alg (replicate payload_len 0) cipher_text key iv;
                       (case r of None \<Rightarrow> Some (0, Some dst)
                        | Some plain \<Rightarrow> do {
                            (ok, p, payload_len) \<leftarrow> vscp_pkcs7Unpad (Some plain) payload_len;
                            plain \<leftarrow> p;
                            valid \<leftarrow> (if ok then vscp_validFrameCrc (b0 # plain) (payload_len + 1) else Some False);
                            if \<not> valid \<or> capacity < payload_len + 1 then Some (0, Some dst)
                            else do {
                              bs \<leftarrow> rd_block (b0 # plain) 0 (payload_len + 1);
                              dst \<leftarrow> wr_block dst 0 bs;
                              Some (payload_len + 1, Some dst) } }) }) }) }
      | _ \<Rightarrow> Some (0, outp))"

section \<open>Padding is undone\<close>

definition pad_size :: "nat \<Rightarrow> nat" where "pad_size len = 16 - len mod 16"

lemma pad_size_bounds: "0 < pad_size len" "pad_size len \<le> 16" "(len + pad_size len) mod 16 = 0"
proof -
  show "0 < pad_size len" "pad_size len \<le> 16" by (simp_all add: pad_size_def)
  have fill: "n + (16 - r) = 16 * (q + 1)" if "r < 16" "q * 16 + r = n" for n q r :: nat
    using that by simp
  have "len + pad_size len = 16 * (len div 16 + 1)"
    unfolding pad_size_def by (rule fill) simp_all
  then show "(len + pad_size len) mod 16 = 0" by (metis mod_mult_self1_is_0)
qed

lemma unat_pad_size [simp]: "unat (of_nat (pad_size len) :: u8) = pad_size len"
  using pad_size_bounds(2) [of len] by (intro unat_of_nat_u8) simp

definition padded :: "u8 list \<Rightarrow> u8 list" where
  "padded bs = bs @ replicate (pad_size (length bs)) (of_nat (pad_size (length bs)))"

lemma length_padded: "length (padded bs) = length bs + pad_size (length bs)"
  by (simp add: padded_def)

lemma length_padded_mod: "length (padded bs) mod 16 = 0" "padded bs \<noteq> []"
  using pad_size_bounds [of "length bs"] by (simp_all only: length_padded) (auto simp: padded_def)

lemma pkcs7Pad_padded:
  assumes "len \<le> length inp" and "len \<le> 2 ^ 64 - 17"
  shows "vscp_pkcs7Pad (Some inp) len = Some (Some (padded (take len inp)))"
  using assms
  by (simp add: vscp_pkcs7Pad_def rd_block_def wr_block_def padded_def pad_size_def [symmetric] Let_def min_def
      del: of_nat_diff)

lemma pkcs7Unpad_padded:
  "vscp_pkcs7Unpad (Some (padded bs @ rest)) (length (padded bs))
     = Some (True, Some (bs @ replicate (pad_size (length bs)) 0 @ rest), length bs)"
proof -
  let ?k = "pad_size (length bs)"
  have k: "0 < ?k" "?k \<le> 16" by (rule pad_size_bounds)+
  then obtain m where m: "?k = Suc m" by (cases ?k) auto
  have nz: "(of_nat ?k :: u8) \<noteq> 0" using k(1) unat_pad_size [of "length bs"] by (metis unsigned_0 less_irrefl)
  have r: "rd (padded bs @ rest) (length (padded bs) - 1) = Some (of_nat ?k)"
    using m by (simp add: rd_def padded_def nth_append del: replicate_Suc)
  have b: "rd_block (padded bs @ rest) (length bs) ?k = Some (replicate ?k (of_nat ?k))"
    by (simp add: rd_block_def padded_def)
  have w: "wr_block (padded bs @ rest) (length bs) (replicate ?k 0) = Some (bs @ replicate ?k 0 @ rest)"
    by (simp add: wr_block_def padded_def)
  have l: "length (padded bs) - ?k = length bs" by (simp add: length_padded)
  have "\<not> list_ex (\<lambda>x. x \<noteq> of_nat ?k) (replicate ?k (of_nat ?k :: u8))" by (simp add: list_ex_iff)
  then show ?thesis
    using length_padded_mod [of bs] r b w l nz k
    by (simp add: vscp_pkcs7Unpad_def) (simp add: length_padded)
qed

section \<open>The checksum test\<close>

lemma validFrameCrc_same:
  assumes "take len f = b # r" and "take len g = c # r"
  shows "vscp_validFrameCrc f len = vscp_validFrameCrc g len"
proof (cases "len < 5")
  case False
  have lr: "take (len - 1) (tl f) = r" "take (len - 1) (tl g) = r"
    using assms by (cases f; cases g; cases len; simp)+
  have fg: "length f < len \<longleftrightarrow> length g < len"
    using arg_cong [OF assms(1), of length] arg_cong [OF assms(2), of length] by (auto simp: min_def split: if_splits)
  have n: "f ! i = g ! i" if "0 < i" "i < len" "i < length f" "i < length g" for i
  proof -
    have "f ! i = (b # r) ! i" "g ! i = (c # r) ! i" using that assms by (metis nth_take)+
    then show ?thesis using that(1) by (cases i) simp_all
  qed
  have t: "rd_block f 1 (len - 3) = rd_block g 1 (len - 3)" if "len \<le> length f" "len \<le> length g"
  proof -
    have "take (len - 3) (tl f) = take (len - 3) (take (len - 1) (tl f))"
      "take (len - 3) (tl g) = take (len - 3) (take (len - 1) (tl g))" by simp_all
    then have "take (len - 3) (tl f) = take (len - 3) (tl g)" unfolding lr by simp
    moreover have "Suc (len - 3) \<le> length f" "Suc (len - 3) \<le> length g" using that False by linarith+
    ultimately show ?thesis by (simp add: rd_block_def drop_Suc)
  qed
  show ?thesis
  proof (cases "len \<le> length f")
    case True
    then have g: "len \<le> length g" using fg by simp
    have "rd f i = rd g i" if "0 < i" "i < len" for i
      using True g that n by (simp add: rd_def)
    then have "rd f (len - 2) = rd g (len - 2)" "rd f (len - 1) = rd g (len - 1)"
      using False by simp_all
    then show ?thesis using t [OF True g] by (simp only: vscp_validFrameCrc_def)
  next
    case short: False
    then have "\<not> len \<le> length g" using fg by simp
    moreover have "length f = length g"
      using short fg assms by (metis length_Cons linorder_not_le take_all less_imp_le)
    ultimately show ?thesis
      using short False by (cases "len - 1 < length f") (simp_all add: vscp_validFrameCrc_def rd_def, linarith?)
  qed
qed (simp add: vscp_validFrameCrc_def)

section \<open>The contract of a cipher engine\<close>

text \<open>
  What the frame routines rely on: whole blocks are encrypted into the front of the destination, and
  decrypting the result under the same key and vector gives the data back.
\<close>

definition key_ok :: "u8 \<Rightarrow> u8 list \<Rightarrow> bool" where
  "key_ok alg key \<longleftrightarrow>
     alg = VSCP_ENCRYPTION_AES128 \<and> 16 \<le> length key \<or> alg = VSCP_ENCRYPTION_AES192 \<and> 24 \<le> length key
     \<or> alg = VSCP_ENCRYPTION_AES256 \<and> 32 \<le> length key"

lemma key_ok_algorithm:
  assumes "key_ok alg key"
  shows "vscp_getOpenSslCipherFromAlgorithm alg = Some alg" "alg \<noteq> VSCP_ENCRYPTION_NONE"
    "(b AND 0xf0 OR alg) AND 0x0f = alg" "alg AND 0x0f \<noteq> VSCP_ENCRYPTION_FROM_TYPE_BYTE"
proof -
  have three: "alg = 1 \<or> alg = 2 \<or> alg = 3"
    using assms by (auto simp: key_ok_def VSCP_ENCRYPTION_AES128_def VSCP_ENCRYPTION_AES192_def VSCP_ENCRYPTION_AES256_def)
  then show "vscp_getOpenSslCipherFromAlgorithm alg = Some alg" "alg \<noteq> VSCP_ENCRYPTION_NONE"
    "alg AND 0x0f \<noteq> VSCP_ENCRYPTION_FROM_TYPE_BYTE"
    by (auto simp: vscp_getOpenSslCipherFromAlgorithm_def VSCP_ENCRYPTION_AES128_def VSCP_ENCRYPTION_AES192_def
        VSCP_ENCRYPTION_AES256_def VSCP_ENCRYPTION_NONE_def VSCP_ENCRYPTION_FROM_TYPE_BYTE_def)
  have "(b AND 0xf0) AND 0x0f = (0 :: u8)" by (simp add: and.assoc)
  moreover have "alg AND 0x0f = alg" using three by auto
  ultimately show "(b AND 0xf0 OR alg) AND 0x0f = alg" by (simp add: bit.conj_disj_distrib2)
qed

locale cipher_engine =
  fixes enc :: "u8 \<Rightarrow> u8 list \<Rightarrow> u8 list \<Rightarrow> u8 list \<Rightarrow> u8 list \<Rightarrow> u8 list option safe"
    and dec :: "u8 \<Rightarrow> u8 list \<Rightarrow> u8 list \<Rightarrow> u8 list \<Rightarrow> u8 list \<Rightarrow> u8 list option safe"
  assumes dec_enc: "\<lbrakk>key_ok alg key; length iv = 16; p \<noteq> []; length p mod 16 = 0\<rbrakk>
    \<Longrightarrow> \<exists>c. length c = length p
        \<and> (\<forall>dst. length p \<le> length dst \<longrightarrow> enc alg dst p key iv = Some (Some (c @ drop (length p) dst)))
        \<and> (\<forall>dst. length p \<le> length dst \<longrightarrow> dec alg dst c key iv = Some (Some (p @ drop (length p) dst)))"
begin

lemma engine_round_trip:
  assumes "key_ok alg key" and "length iv = 16"
    and "vscp_getEncryptionIv random_iv piv = Some (Some iv)"
    and "vscp_resolveFrameCryptoAlgorithm nAlgorithm (b # r) = Some alg"
    and "vscp_validFrameCrc (b # r) (Suc (length r)) = Some True" and "length r < 2 ^ 32"
    and n: "n = length r + pad_size (length r) + 17" and "n \<le> length dst" and "n - 16 \<le> length dst'"
  shows "\<exists>c. length c = n \<and> c ! 0 = (b AND 0xf0 OR alg)
     \<and> encrypt_frame_with enc random_iv (Some dst) (Some (b # r)) (Suc (length r)) (Some key) piv nAlgorithm
         = Some (n, Some (c @ drop n dst))
     \<and> (\<forall>rest. decrypt_frame_with dec (Some dst') (Some (c @ rest)) n (Some key) None VSCP_ENCRYPTION_FROM_TYPE_BYTE
         = Some (True, Some ((b AND 0xf0 OR alg) # r @ replicate (pad_size (length r)) 0 @ drop (n - 16) dst')))"
proof -
  let ?b = "b AND 0xf0 OR alg" and ?p = "padded r"
  have l: "length ?p = n - 17" "length ?p mod 16 = 0" "?p \<noteq> []"
    using length_padded_mod [of r] by (simp_all add: n length_padded)
  obtain c where c: "length c = length ?p"
      "\<And>dst. length ?p \<le> length dst \<Longrightarrow> enc alg dst ?p key iv = Some (Some (c @ drop (length ?p) dst))"
      "\<And>dst. length ?p \<le> length dst \<Longrightarrow> dec alg dst c key iv = Some (Some (?p @ drop (length ?p) dst))"
    using dec_enc [OF assms(1,2) l(3,2)] by blast
  have n17: "17 \<le> n" "n - 17 + 16 + 1 = n" using n by simp_all
  have "\<not> length ?p < 16" using l(2,3) by (metis length_0_conv mod_less)
  then have n33: "16 \<le> length r + pad_size (length r)" "16 + (length r + pad_size (length r)) \<le> length dst - Suc 0"
    using assms(8) by (simp_all add: length_padded n)
  obtain d rest where dst: "dst = d # rest" using assms(8) n17 by (cases dst) auto
  obtain d' rest' where dst': "dst' = d' # rest'" using assms(9) n17 by (cases dst') auto
  let ?c = "?b # c @ iv"
  have lc: "length ?c = n" using l c(1) assms(2) n17 by simp
  have enc: "encrypt_frame_with enc random_iv (Some dst) (Some (b # r)) (Suc (length r)) (Some key) piv nAlgorithm
      = Some (n, Some (?c @ drop n dst))"
    using assms l c n17 key_ok_algorithm [OF assms(1)] pkcs7Pad_padded [of "length r" r] dst
    by (simp add: encrypt_frame_with_def wr_block_def rd_def drop_Cons' )
  have crc: "vscp_validFrameCrc (?b # r @ zs) (Suc (length r)) = Some True" for zs
    using assms(5) validFrameCrc_same [of "Suc (length r)" "b # r" b r "?b # r @ zs" ?b] by simp
  have dec: "decrypt_frame_with dec (Some dst') (Some (?c @ rest)) n (Some key) None VSCP_ENCRYPTION_FROM_TYPE_BYTE
      = Some (True, Some (?b # r @ replicate (pad_size (length r)) 0 @ drop (n - 16) dst'))" for rest
    using assms l c n17 n33 key_ok_algorithm [OF assms(1)] dst' lc crc pkcs7Unpad_padded [of r "drop (n - 17) rest'"]
    by (simp add: decrypt_frame_with_def wr_block_def rd_def drop_Cons' frame_iv_def rd_block_def
        vscp_resolveFrameCryptoAlgorithm_def vscp_validateDecryptedFrame_def VSCP_ENCRYPTION_FROM_TYPE_BYTE_def)
  show ?thesis using enc dec lc by (intro exI [of _ ?c]) simp
qed

end

text \<open>The engine built on the AES routines of the library keeps the contract.\<close>

lemma aes_engine_dec_enc:
  assumes "key_ok alg key" and "length iv = 16" and "p \<noteq> []" and "length p mod 16 = 0"
  shows "\<exists>c. length c = length p
        \<and> (\<forall>dst. length p \<le> length dst \<longrightarrow> aes_encrypt_buffer alg dst p key iv = Some (Some (c @ drop (length p) dst)))
        \<and> (\<forall>dst. length p \<le> length dst \<longrightarrow> aes_decrypt_buffer alg dst c key iv = Some (Some (p @ drop (length p) dst)))"
proof -
  obtain t q where t: "aes_type alg = Some t" "init t = Some q" "KEYLEN q \<le> length key"
    using assms(1) unfolding key_ok_def
    by (auto simp: aes_type_def init_def AES128_def AES192_def AES256_def VSCP_ENCRYPTION_AES128_def
        VSCP_ENCRYPTION_AES192_def VSCP_ENCRYPTION_AES256_def)
  obtain rk where rk: "KeyExpansion q key = Some rk" using KeyExpansion_ok [OF t(2,3)] by blast
  have len: "16 \<le> length p" using assms(3,4) by (metis length_0_conv mod_less linorder_not_le)
  define c where "c = cbc (Cipher q rk) (length p div 16) (take 16 iv) p"
  have "16 * (length p div 16) = length p" using assms(4) by auto
  then have lc: "length c = length p" by (simp add: c_def)
  have "aes_encrypt_buffer alg dst p key iv = Some (Some (c @ drop (length p) dst))" if "length p \<le> length dst" for dst
    using AES_CBC_encrypt_value [OF t(2) rk assms(4) len order.refl that, of iv] assms(2) t(1)
    by (simp add: aes_encrypt_buffer_def c_def)
  moreover have "aes_decrypt_buffer alg dst c key iv = Some (Some (p @ drop (length p) dst))" if "length p \<le> length dst" for dst
    using AES_CBC_decrypt_value [OF t(2) rk assms(4) len order.refl that, of iv "c" "[]"] assms(2) t(1) lc
    by (simp add: aes_decrypt_buffer_def c_def)
  ultimately show ?thesis using lc by blast
qed

interpretation aes_engine: cipher_engine aes_encrypt_buffer aes_decrypt_buffer
  by unfold_locales (rule aes_engine_dec_enc)

text \<open>The documented behaviour of the CBC functions of OpenSSL with padding off.\<close>

definition openssl_cbc_ok :: "openssl \<Rightarrow> bool" where
  "openssl_cbc_ok ssl \<longleftrightarrow>
     (\<forall>alg key iv p. key_ok alg key \<and> length iv = 16 \<and> p \<noteq> [] \<and> length p mod 16 = 0
        \<longrightarrow> (\<exists>c. evp_cbc_encrypt ssl alg key iv p = Some c \<and> length c = length p
              \<and> evp_cbc_decrypt ssl alg key iv c = Some p))"

lemma evp_dec_enc:
  assumes "openssl_cbc_ok ssl" and "key_ok alg key" and "length iv = 16" and "p \<noteq> []" and "length p mod 16 = 0"
  shows "\<exists>c. length c = length p
        \<and> (\<forall>dst. length p \<le> length dst \<longrightarrow> vscp_evpEncryptBuffer ssl alg dst p key iv = Some (Some (c @ drop (length p) dst)))
        \<and> (\<forall>dst. length p \<le> length dst \<longrightarrow> vscp_evpDecryptBuffer ssl alg dst c key iv = Some (Some (p @ drop (length p) dst)))"
proof -
  obtain c where c: "evp_cbc_encrypt ssl alg key iv p = Some c" "length c = length p"
      "evp_cbc_decrypt ssl alg key iv c = Some p"
    using assms(1) [unfolded openssl_cbc_ok_def, rule_format, of alg key iv p] assms(2-5) by auto
  have w: "wr_block dst 0 x = Some (x @ drop (length p) dst)" if "length x = length p" "length p \<le> length dst"
    for x dst :: "u8 list"
    using wr_block_zero [of x dst] that by simp
  have "vscp_evpEncryptBuffer ssl alg dst p key iv = Some (Some (c @ drop (length p) dst))" if "length p \<le> length dst" for dst
    unfolding vscp_evpEncryptBuffer_def c(1) using c(2) w [OF c(2) that] by simp
  moreover have "vscp_evpDecryptBuffer ssl alg dst c key iv = Some (Some (p @ drop (length p) dst))" if "length p \<le> length dst" for dst
    unfolding vscp_evpDecryptBuffer_def c(3) using c(2) w [OF refl that] by simp
  ultimately show ?thesis using c(2) by blast
qed

lemma openssl_engine:
  assumes "openssl_cbc_ok ssl"
  shows "cipher_engine (vscp_evpEncryptBuffer ssl)
    (\<lambda>alg dst input key iv. if vscp_getOpenSslCipherFromAlgorithm alg = None then Some None
       else vscp_evpDecryptBuffer ssl alg dst input key iv)"
proof
  fix alg and key iv p :: "u8 list"
  assume p: "key_ok alg key" "length iv = 16" "p \<noteq> []" "length p mod 16 = 0"
  have "vscp_getOpenSslCipherFromAlgorithm alg \<noteq> None" using key_ok_algorithm(1) [OF p(1)] by simp
  then show "\<exists>c. length c = length p
      \<and> (\<forall>dst. length p \<le> length dst \<longrightarrow> vscp_evpEncryptBuffer ssl alg dst p key iv = Some (Some (c @ drop (length p) dst)))
      \<and> (\<forall>dst. length p \<le> length dst \<longrightarrow> (if vscp_getOpenSslCipherFromAlgorithm alg = None then Some None
           else vscp_evpDecryptBuffer ssl alg dst c key iv) = Some (Some (p @ drop (length p) dst)))"
    using evp_dec_enc [OF assms p] by (simp only: if_False)
qed

section \<open>Properties of encrypted frames\<close>

text \<open>A library that computes CBC with the AES routines above and a digest by copying: it keeps the
  documented behaviour, so the hypotheses about OpenSSL can hold.\<close>

definition sample_ssl :: openssl where
  "sample_ssl = \<lparr>
     evp_cbc_encrypt = \<lambda>alg key iv p. Option.bind (aes_encrypt_buffer alg p p key iv) id,
     evp_cbc_decrypt = \<lambda>alg key iv p. Option.bind (aes_decrypt_buffer alg p p key iv) id,
     evp_pad_encrypt = \<lambda>_ _ _ p. Some p, evp_pad_decrypt = \<lambda>_ _ _ p. Some p,
     hmac_sha256 = \<lambda>key msg. Some (take 32 (msg @ key @ replicate 32 0)),
     rand_bytes = Some (replicate 16 7) \<rparr>"

lemma sample_ssl_ok: "openssl_cbc_ok sample_ssl"
  unfolding openssl_cbc_ok_def
proof (intro allI impI, elim conjE)
  fix alg and key iv p :: "u8 list"
  assume p: "key_ok alg key" "length iv = 16" "p \<noteq> []" "length p mod 16 = 0"
  obtain c where c: "length c = length p"
      "\<And>dst. length p \<le> length dst \<Longrightarrow> aes_encrypt_buffer alg dst p key iv = Some (Some (c @ drop (length p) dst))"
      "\<And>dst. length p \<le> length dst \<Longrightarrow> aes_decrypt_buffer alg dst c key iv = Some (Some (p @ drop (length p) dst))"
    using aes_engine_dec_enc [OF p] by blast
  show "\<exists>c. evp_cbc_encrypt sample_ssl alg key iv p = Some c \<and> length c = length p
        \<and> evp_cbc_decrypt sample_ssl alg key iv c = Some p"
    using c(1) c(2) [of p] c(3) [of c] by (auto simp: sample_ssl_def)
qed

lemma sample_frame:
  "vscp_validFrameCrc (b # 1 # 2 # 0x0e # 0x7c # rest) 5 = Some True"
  "vscp_validFrameCrc (b # 1 # 2 # 0x0e # 0x7c # rest) (Suc (Suc (Suc (Suc (Suc 0))))) = Some True"
proof -
  have "crcSlow [1, 2] = 0x0e7c" by code_simp
  then show f: "vscp_validFrameCrc (b # 1 # 2 # 0x0e # 0x7c # rest) 5 = Some True"
    by (simp add: vscp_validFrameCrc_def rd_def rd_block_def)
  have "Suc (Suc (Suc (Suc (Suc 0)))) = 5" by simp
  then show "vscp_validFrameCrc (b # 1 # 2 # 0x0e # 0x7c # rest) (Suc (Suc (Suc (Suc (Suc 0))))) = Some True"
    using f by (simp only:)
qed

text \<open>With either engine, a frame with a right checksum that is encrypted and then decrypted is
  accepted and delivered with its content; its type byte carries the code of the cipher.\<close>

theorem encrypted_frame_round_trip:
  assumes "use_openssl \<Longrightarrow> openssl_cbc_ok ssl"
    and "key_ok alg key" and "length iv = 16"
    and "vscp_getEncryptionIv random_iv piv = Some (Some iv)"
    and "vscp_resolveFrameCryptoAlgorithm nAlgorithm (b # r) = Some alg"
    and "vscp_validFrameCrc (b # r) (Suc (length r)) = Some True" and "length r < 2 ^ 32"
    and "n = length r + pad_size (length r) + 17" and "n \<le> length dst" and "n - 16 \<le> length dst'"
  shows "\<exists>c. length c = n \<and> c ! 0 = (b AND 0xf0 OR alg)
     \<and> vscp_encryptFrame use_openssl ssl random_iv (Some dst) (Some (b # r)) (Suc (length r)) (Some key) piv nAlgorithm
         = Some (n, Some (c @ drop n dst))
     \<and> (\<forall>rest. vscp_decryptFrame use_openssl ssl (Some dst') (Some (c @ rest)) n (Some key) None VSCP_ENCRYPTION_FROM_TYPE_BYTE
         = Some (True, Some ((b AND 0xf0 OR alg) # r @ replicate (pad_size (length r)) 0 @ drop (n - 16) dst')))"
proof (cases use_openssl)
  case True
  then show ?thesis
    using cipher_engine.engine_round_trip [OF openssl_engine assms(2-10)] assms(1)
    by (simp add: vscp_encryptFrame_def vscp_decryptFrame_def vscp_encryptFrameOpenSSL_def vscp_decryptFrameOpenSSL_def)
next
  case False
  then show ?thesis
    using aes_engine.engine_round_trip [OF assms(2-10)]
    by (simp add: vscp_encryptFrame_def vscp_decryptFrame_def)
qed

theorem encrypted_frame_round_trip_witness:
  "\<exists>c. length c = 33 \<and> c ! 0 = (0 AND 0xf0 OR 2)
     \<and> vscp_encryptFrame True sample_ssl None (Some (replicate 40 0)) (Some (0 # [1, 2, 0x0e, 0x7c]))
         (Suc (length [1, 2, 0x0e, 0x7c :: u8])) (Some (replicate 24 5)) (Some (replicate 16 9)) 2
         = Some (33, Some (c @ drop 33 (replicate 40 0)))
     \<and> (\<forall>rest. vscp_decryptFrame True sample_ssl (Some (replicate 20 0)) (Some (c @ rest)) 33
         (Some (replicate 24 5)) None VSCP_ENCRYPTION_FROM_TYPE_BYTE
         = Some (True, Some ((0 AND 0xf0 OR 2) # [1, 2, 0x0e, 0x7c]
             @ replicate (pad_size (length [1, 2, 0x0e, 0x7c :: u8])) 0 @ drop (33 - 16) (replicate 20 0))))"
  by (rule encrypted_frame_round_trip [where iv = "replicate 16 9"])
    (simp_all add: sample_ssl_ok sample_frame key_ok_def VSCP_ENCRYPTION_AES192_def vscp_getEncryptionIv_def rd_block_def
    vscp_resolveFrameCryptoAlgorithm_def VSCP_ENCRYPTION_FROM_TYPE_BYTE_def pad_size_def)

lemma validFrameCrc_take:
  assumes "take len f = take len g"
  shows "vscp_validFrameCrc f len = vscp_validFrameCrc g len"
proof (cases "take len g")
  case Nil
  then have "len < 5 \<or> f = [] \<and> g = []" using assms by (cases len) simp_all
  then show ?thesis by (auto simp: vscp_validFrameCrc_def)
qed (use assms validFrameCrc_same in metis)

lemma delivered_crc:
  assumes "vscp_validFrameCrc inp n = Some True" and "rd_block inp 0 n = Some bs" and "wr_block dst0 0 bs = Some dst"
  shows "vscp_validFrameCrc dst n = Some True"
proof -
  have "bs = take n inp" "n \<le> length inp" using assms(2) by (simp_all add: rd_block_def split: if_splits)
  moreover have "take (length bs) dst = bs"
    using assms(3) by (simp add: wr_block_def split: if_splits) (metis append_eq_conv_conj)
  ultimately have "take n dst = take n inp" by simp
  then show ?thesis using assms(1) validFrameCrc_take [of n dst inp] by simp
qed

lemma decrypt_frame_with_valid_crc:
  assumes run: "decrypt_frame_with engine outp input len pkey piv nAlgorithm = Some (True, outp')"
  shows "\<exists>frame n. outp' = Some frame \<and> vscp_validFrameCrc frame n = Some True"
proof -
  have validated: "\<exists>n. vscp_validFrameCrc dst n = Some True" if "vscp_validateDecryptedFrame f n = Some (True, dst)" for f n dst
    using that by (auto simp: vscp_validateDecryptedFrame_def Let_def split: bind_splits prod.splits if_splits)
  show ?thesis
    using run unfolding decrypt_frame_with_def
    by (auto split: option.splits bind_splits if_splits prod.splits dest!: sym [of "Some _"] dest: delivered_crc validated)
qed

text \<open>Whatever the input, a frame is reported as decrypted only when what was delivered has a right
  checksum.\<close>

theorem decrypted_frame_has_valid_crc:
  assumes "vscp_decryptFrame use_openssl ssl outp input len pkey piv nAlgorithm = Some (True, outp')"
  shows "\<exists>frame n. outp' = Some frame \<and> vscp_validFrameCrc frame n = Some True"
  using assms by (cases use_openssl)
    (simp_all only: vscp_decryptFrame_def vscp_decryptFrameOpenSSL_def if_True if_False decrypt_frame_with_valid_crc)

theorem decrypted_frame_has_valid_crc_witness:
  "\<exists>frame n. Some [0x10, 1, 2, 0x0e, 0x7c, 0] = Some frame \<and> vscp_validFrameCrc frame n = Some True"
  by (rule decrypted_frame_has_valid_crc [of False sample_ssl "Some (replicate 6 0)" "Some [0x10, 1, 2, 0x0e, 0x7c]" 5 None None 0])
    (simp add: vscp_decryptFrame_def decrypt_frame_with_def vscp_resolveFrameCryptoAlgorithm_def
      VSCP_ENCRYPTION_FROM_TYPE_BYTE_def VSCP_ENCRYPTION_NONE_def sample_frame rd_block_def wr_block_def)

section \<open>Properties of authenticated frames\<close>

definition openssl_hmac_ok :: "openssl \<Rightarrow> bool" where
  "openssl_hmac_ok ssl \<longleftrightarrow> (\<forall>key msg. \<exists>digest. hmac_sha256 ssl key msg = Some digest \<and> length digest = 32)"

text \<open>C23: An authenticated frame is delivered only when the sixteen bytes at its end are the tag of all that
  is before them; so whoever changes a frame and is not refused has found a message with the tag
  he sent.\<close>

theorem authentic_frames_only:
  assumes "vscp_decryptFrameV1 ssl outp capacity (Some inp) len pkey (Some hmacKey) = Some (n, outp')" and "0 < n"
  shows "\<exists>digest frame. vscp_frameHmac ssl (take (len - 16) inp) hmacKey = Some digest
     \<and> take 16 digest = take 16 (drop (len - 16) inp)
     \<and> outp' = Some frame \<and> n \<le> capacity \<and> vscp_validFrameCrc frame n = Some True"
  using assms unfolding vscp_decryptFrameV1_def
  by (auto split: option.splits bind_splits if_splits prod.splits simp: Let_def
      dest!: sym [of "Some _"] dest: delivered_crc) (auto simp: rd_block_Some_iff dest: delivered_crc)

definition sample_plain :: "u8 list" where
  "sample_plain = [1, 2, 0x0e, 0x7c] @ replicate 12 12"

definition sample_v1 :: "u8 list" where
  "sample_v1 = 0x11 # sample_plain @ replicate 16 9 @ [0x55, 0x20, 0x31, 0x11, 1, 2, 0x0e, 0x7c] @ replicate 8 12"

lemma sample_v1_parts:
  "rd sample_v1 0 = Some 0x11" "rd_block sample_v1 0 33 = Some (take 33 sample_v1)"
  "rd_block sample_v1 33 16 = Some (take 16 (drop 33 sample_v1))"
  "rd_block sample_v1 (Suc 0) 16 = Some sample_plain" "rd_block sample_v1 17 16 = Some (replicate 16 9)"
  "vscp_frameHmac (sample_ssl\<lparr>evp_cbc_decrypt := \<lambda>_ _ _ p. Some p\<rparr>) (take 33 sample_v1) (replicate 32 3)
     = Some ([0x55, 0x20, 0x31] @ take 29 sample_v1)"
  "take 16 ([0x55, 0x20, 0x31] @ take 29 sample_v1) = take 16 (drop 33 sample_v1)"
  "vscp_getOpenSslCipherFromAlgorithm (0x11 AND 15) = Some 1"
  "vscp_evpDecryptBuffer (sample_ssl\<lparr>evp_cbc_decrypt := \<lambda>_ _ _ p. Some p\<rparr>) 1 (replicate 16 0) sample_plain key iv
     = Some (Some sample_plain)"
  "vscp_pkcs7Unpad (Some sample_plain) 16 = Some (True, Some ([1, 2, 0x0e, 0x7c] @ replicate 12 0), 4)"
  by code_simp+

theorem authentic_frames_only_witness:
  "\<exists>digest frame. vscp_frameHmac (sample_ssl\<lparr>evp_cbc_decrypt := \<lambda>_ _ _ p. Some p\<rparr>) (take (49 - 16) sample_v1) (replicate 32 3)
       = Some digest
     \<and> take 16 digest = take 16 (drop (49 - 16) sample_v1)
     \<and> Some [0x11, 1, 2, 0x0e, 0x7c] = Some frame \<and> 5 \<le> (5 :: nat) \<and> vscp_validFrameCrc frame 5 = Some True"
proof (rule authentic_frames_only)
  show "vscp_decryptFrameV1 (sample_ssl\<lparr>evp_cbc_decrypt := \<lambda>_ _ _ p. Some p\<rparr>) (Some (replicate 5 0)) 5 (Some sample_v1) 49
      (Some []) (Some (replicate 32 3)) = Some (5, Some [0x11, 1, 2, 0x0e, 0x7c])"
    using sample_v1_parts
    by (simp add: vscp_decryptFrameV1_def sample_frame rd_block_def [of "_ # _"] wr_block_def)
qed simp

lemma frameHmac_succeeds:
  assumes "openssl_hmac_ok ssl"
  shows "\<exists>digest. vscp_frameHmac ssl frame key = Some digest \<and> length digest = 32"
proof -
  have "\<exists>digest. hmac_sha256 ssl k m = Some digest \<and> length digest = 32" for k m
    using assms by (simp add: openssl_hmac_ok_def)
  then obtain d where "\<And>k m. hmac_sha256 ssl k m = Some (d k m) \<and> length (d k m) = 32" by metis
  then show ?thesis by (simp add: vscp_frameHmac_def Let_def)
qed

lemma padded_length_div: "16 + n div 16 * 16 = n + pad_size n"
  unfolding pad_size_def using mult_div_mod_eq [of 16 n] mod_less_divisor [of 16 n] by linarith

text \<open>Encrypting a frame with the authenticated version and decrypting the result delivers the frame,
  with the code of the cipher in its type byte.\<close>

theorem authenticated_frame_round_trip:
  assumes ssl: "openssl_cbc_ok ssl" "openssl_hmac_ok ssl"
    and "key_ok alg key" and "length iv = 16"
    and "vscp_getEncryptionIv (rand_bytes ssl) piv = Some (Some iv)"
    and "vscp_resolveFrameCryptoAlgorithm nAlgorithm (b # r) = Some alg"
    and "vscp_validFrameCrc (b # r) (Suc (length r)) = Some True"
    and n: "n = length r + pad_size (length r) + 33" and "n \<le> 0x1fff" and "n \<le> capacity" and "n \<le> length dst"
    and "Suc (length r) \<le> capacity'" and "Suc (length r) \<le> length dst'"
  shows "\<exists>c. length c = n \<and> c ! 0 = (b AND 0xf0 OR alg)
     \<and> vscp_encryptFrameV1 ssl (Some dst) capacity (Some (b # r)) (Suc (length r)) (Some key) (Some hmacKey) piv nAlgorithm
         = Some (n, Some (c @ drop n dst))
     \<and> (\<forall>rest. vscp_decryptFrameV1 ssl (Some dst') capacity' (Some (c @ rest)) n (Some key) (Some hmacKey)
         = Some (Suc (length r), Some ((b AND 0xf0 OR alg) # r @ drop (Suc (length r)) dst')))"
proof -
  let ?b = "b AND 0xf0 OR alg" and ?p = "padded r"
  have l: "length ?p = n - 33" "length ?p mod 16 = 0" "?p \<noteq> []"
    using length_padded_mod [of r] by (simp_all add: n length_padded)
  obtain c where c: "length c = length ?p"
      "\<And>dst. length ?p \<le> length dst \<Longrightarrow> vscp_evpEncryptBuffer ssl alg dst ?p key iv = Some (Some (c @ drop (length ?p) dst))"
      "\<And>dst. length ?p \<le> length dst \<Longrightarrow> vscp_evpDecryptBuffer ssl alg dst c key iv = Some (Some (?p @ drop (length ?p) dst))"
    using evp_dec_enc [OF ssl(1) assms(3,4) l(3,2)] by metis
  obtain digest where digest: "vscp_frameHmac ssl (?b # c @ iv) hmacKey = Some digest" "length digest = 32"
    using frameHmac_succeeds [OF ssl(2)] by blast
  have five: "\<not> Suc (length r) < 5"
    using assms(7) by (auto simp: vscp_validFrameCrc_def split: if_splits)
  have "\<not> length ?p < 16" using l(2,3) by (metis length_0_conv mod_less)
  then have n16: "16 \<le> n - 33" "33 \<le> n" "n - 33 + 33 = n" using l(1) n by simp_all
  let ?c = "?b # c @ iv @ take 16 digest"
  have lc: "length ?c = n" using l c(1) assms(4) n16 digest(2) by simp
  have cut: "take (17 + (length r + pad_size (length r))) (?b # c @ iv @ zs) = ?b # c @ iv"
      "drop (17 + (length r + pad_size (length r))) (?b # c @ iv @ zs) = zs"
      "33 + (length r + pad_size (length r)) - 16 = 17 + (length r + pad_size (length r))" for zs
  proof -
    have "17 + (length r + pad_size (length r)) = length (?b # c @ iv)" using l c(1) n assms(4) by simp
    then show "take (17 + (length r + pad_size (length r))) (?b # c @ iv @ zs) = ?b # c @ iv"
        "drop (17 + (length r + pad_size (length r))) (?b # c @ iv @ zs) = zs"
      by (metis append_Cons append_assoc append_eq_conv_conj)+
  qed simp
  have enc: "vscp_encryptFrameV1 ssl (Some dst) capacity (Some (b # r)) (Suc (length r)) (Some key) (Some hmacKey) piv nAlgorithm
      = Some (n, Some (?c @ drop n dst))"
    using assms(3-13) l c n16 digest lc five key_ok_algorithm [OF assms(3)] pkcs7Pad_padded [of "length r" r]
      padded_length_div [of "length r"]
    by (simp add: vscp_encryptFrameV1_def wr_block_def rd_block_def rd_def drop_Cons' Let_def cut)
      (simp add: add.commute)
  have crc: "vscp_validFrameCrc (?b # r @ zs) (Suc (length r)) = Some True" for zs
    using assms(7) validFrameCrc_same [of "Suc (length r)" "b # r" b r "?b # r @ zs" ?b] by simp
  have room: "32 + (length r + pad_size (length r)) \<le> length dst - Suc 0" using assms(11) n by simp
  have dec: "vscp_decryptFrameV1 ssl (Some dst') capacity' (Some (?c @ rest)) n (Some key) (Some hmacKey)
         = Some (Suc (length r), Some (?b # r @ drop (Suc (length r)) dst'))" for rest
    using assms(3-13) l c n16 digest lc five crc key_ok_algorithm [OF assms(3)] pkcs7Unpad_padded [of r "[]"]
    by (simp add: vscp_decryptFrameV1_def wr_block_def rd_block_def rd_def drop_Cons' Let_def cut room)
  show ?thesis using enc dec lc by (intro exI [of _ ?c]) simp
qed

theorem authenticated_frame_round_trip_witness:
  "\<exists>c. length c = 49 \<and> c ! 0 = (0x10 AND 0xf0 OR 3)
     \<and> vscp_encryptFrameV1 sample_ssl (Some (replicate 60 0)) 60 (Some (0x10 # [1, 2, 0x0e, 0x7c]))
         (Suc (length [1, 2, 0x0e, 0x7c :: u8])) (Some (replicate 32 5)) (Some (replicate 32 3)) None 3
         = Some (49, Some (c @ drop 49 (replicate 60 0)))
     \<and> (\<forall>rest. vscp_decryptFrameV1 sample_ssl (Some (replicate 8 0)) 8 (Some (c @ rest)) 49
         (Some (replicate 32 5)) (Some (replicate 32 3))
         = Some (Suc (length [1, 2, 0x0e, 0x7c :: u8]), Some ((0x10 AND 0xf0 OR 3) # [1, 2, 0x0e, 0x7c]
             @ drop (Suc (length [1, 2, 0x0e, 0x7c :: u8])) (replicate 8 0))))"
proof (rule authenticated_frame_round_trip [where iv = "replicate 16 7"])
  show "openssl_hmac_ok sample_ssl" by (auto simp: openssl_hmac_ok_def sample_ssl_def min_def)
  show "vscp_getEncryptionIv (rand_bytes sample_ssl) None = Some (Some (replicate 16 7))"
    by (simp add: vscp_getEncryptionIv_def sample_ssl_def)
qed (simp_all add: sample_ssl_ok sample_frame key_ok_def VSCP_ENCRYPTION_AES256_def
    vscp_resolveFrameCryptoAlgorithm_def VSCP_ENCRYPTION_FROM_TYPE_BYTE_def pad_size_def)

end
