(* ===== verification/BinaryProtocol.thy ===== *)
theory BinaryProtocol
  imports FrameCrypto
begin

unbundle bit_operations_syntax

text \<open>
  The framing of the binary link protocol (\<^verbatim>\<open>vscp-binary-protocol.h\<close>): a header of three bytes, a
  synchronisation byte and a word with version and length, in front of a frame that is plain,
  encrypted (version 0) or encrypted and authenticated (version 1). The theorems: what is encoded is
  recognised by the header parser and decoded to the frame it was made from.
\<close>

section \<open>Constants and small helpers\<close>

definition maxFrameSize :: nat where "maxFrameSize = 4096"
definition syncByte :: u8 where "syncByte = 0x55"
definition framingVersion :: u8 where "framingVersion = 0"
definition authenticatedVersion :: u8 where "authenticatedVersion = 1"
definition headerSize :: nat where "headerSize = 3"

definition read16 :: "u8 list \<Rightarrow> nat \<Rightarrow> u16 safe" where
  "read16 data off = do {
     a \<leftarrow> rd data off; b \<leftarrow> rd data (off + 1); Some (push_bit 8 (ucast a) OR ucast b) }"

definition append_be :: "u8 list \<Rightarrow> u64 \<Rightarrow> nat \<Rightarrow> u8 list" where
  "append_be data val bytes = data @ map (\<lambda>i. ucast (drop_bit (8 * (i - 1)) val)) (rev [1..<Suc bytes])"

definition setCrc :: "u8 list \<Rightarrow> u8 list safe" where
  "setCrc frame = do {
     bs \<leftarrow> (if length frame < 3 then None else rd_block frame 1 (length frame - 3));
     let val = crcFast bs;
     frame \<leftarrow> wr_block frame (length frame - 2) [ucast (drop_bit 8 val)];
     wr_block frame (length frame - 1) [ucast val] }"

definition validCrc :: "u8 list \<Rightarrow> nat \<Rightarrow> bool safe" where
  "validCrc data sz =
     (if sz \<ge> 3 then do { bs \<leftarrow> rd_block data 1 (sz - 3); c \<leftarrow> read16 data (sz - 2); Some (crcFast bs = c) }
      else Some False)"

section \<open>Headers\<close>

definition plausibleFrame :: "u8 \<Rightarrow> nat \<Rightarrow> u8 \<Rightarrow> bool" where
  "plausibleFrame lead len version =
     (let t = drop_bit 4 lead; encryption = lead AND 0x0f
      in if (1 < t \<and> t < 14) \<or> encryption > VSCP_ENCRYPTION_AES256 \<or> len < 5 \<or> len > maxFrameSize
            \<or> version > authenticatedVersion
         then False
         else if version = authenticatedVersion
         then encryption \<noteq> 0 \<and> len \<ge> 49 \<and> (len - 33) mod 16 = 0
         else encryption = 0 \<or> (len \<ge> 33 \<and> (len - 17) mod 16 = 0))"

text \<open>The result comes with the length and the version that the header gives.\<close>

definition parseHeader :: "u8 list \<Rightarrow> (bool \<times> nat \<times> u8) safe" where
  "parseHeader data = do {
     word \<leftarrow> read16 data 1;
     let len = unat (word AND 0x1fff);
     let version = (ucast (drop_bit 13 word) :: u8);
     sync \<leftarrow> rd data 0;
     if sync \<noteq> syncByte then Some (False, len, version)
     else do { lead \<leftarrow> rd data headerSize; Some (plausibleFrame lead len version, len, version) } }"

definition parseHeader_legacy :: "u8 list \<Rightarrow> (bool \<times> nat) safe" where
  "parseHeader_legacy data =
     map_option (\<lambda>(ok, len, version). (ok \<and> version = framingVersion, len)) (parseHeader data)"

definition cipher :: "u8 \<Rightarrow> u8 option" where
  "cipher encryption = (if encryption = 1 \<or> encryption = 2 \<or> encryption = 3 then Some encryption else None)"

section \<open>Encoding and decoding\<close>

text \<open>
  The inner \<open>None\<close> is the result \<^verbatim>\<open>false\<close>; the output vector is not used by any caller then.
  \<open>wire_bytes\<close> is the common end of \<^verbatim>\<open>encode\<close>.
\<close>

definition wire_bytes :: "u8 \<Rightarrow> u8 list \<Rightarrow> u8 list" where
  "wire_bytes version frame =
     append_be [syncByte] (push_bit 13 (ucast version) OR of_nat (length frame)) 2 @ frame"

definition encode :: "openssl \<Rightarrow> u8 list \<Rightarrow> u8 \<Rightarrow> u8 list ptr \<Rightarrow> u8 \<Rightarrow> u8 list ptr \<Rightarrow> u8 list option safe" where
  "encode ssl frame encryption key version hmacKey =
     (if length frame < 5 \<or> length frame > maxFrameSize - 34 \<or> encryption > VSCP_ENCRYPTION_AES256
         \<or> version > authenticatedVersion
      then Some None
      else do {
        b0 \<leftarrow> rd frame 0;
        let lead = (b0 AND 0xf0) OR encryption;
        let frame = frame[0 := lead];
        if version = authenticatedVersion
        then do {
          let encrypted = replicate (length frame + 48) (0 :: u8);
          (len, encrypted) \<leftarrow> vscp_encryptFrameV1 ssl (Some encrypted) (length encrypted) (Some frame) (length frame)
                               key hmacKey None encryption;
          encrypted \<leftarrow> encrypted;
          if len = 0 \<or> len > maxFrameSize then Some None
          else Some (Some (wire_bytes version (take len encrypted))) }
        else if encryption \<noteq> 0
        then (case (key, rand_bytes ssl) of
            (Some k, Some iv) \<Rightarrow> do {
              let encrypted = (replicate (length frame + 32) (0 :: u8))[0 := lead];
              (case evp_pad_encrypt ssl encryption k iv (drop 1 frame) of
                 None \<Rightarrow> Some None
               | Some c \<Rightarrow> do {
                   encrypted \<leftarrow> wr_block encrypted 1 c;
                   Some (Some (wire_bytes version (take (1 + length c) encrypted @ iv))) }) }
          | _ \<Rightarrow> Some None)
        else Some (Some (wire_bytes version frame)) })"

definition decode :: "openssl \<Rightarrow> u8 list \<Rightarrow> u8 list ptr \<Rightarrow> u8 \<Rightarrow> u8 list ptr \<Rightarrow> u8 list option safe" where
  "decode ssl wire key version hmacKey =
     (case wire of [] \<Rightarrow> Some None
      | lead # content \<Rightarrow>
         if \<not> plausibleFrame lead (length wire) version then Some None
         else if version = authenticatedVersion
         then do {
           let plaintext = replicate (length wire) (0 :: u8);
           (len, plaintext) \<leftarrow> vscp_decryptFrameV1 ssl (Some plaintext) (length plaintext) (Some wire) (length wire) key hmacKey;
           plaintext \<leftarrow> plaintext;
           Some (if len = 0 then None else Some (take len plaintext)) }
         else if lead AND 0x0f = 0
         then do { ok \<leftarrow> validCrc wire (length wire); Some (if ok then Some wire else None) }
         else (case key of None \<Rightarrow> Some None
           | Some k \<Rightarrow> do {
               iv \<leftarrow> rd_block wire (length wire - 16) 16;
               bs \<leftarrow> rd_block wire 1 (length wire - 17);
               (case evp_pad_decrypt ssl (lead AND 0x0f) k iv bs of
                  None \<Rightarrow> Some None
                | Some p \<Rightarrow> do {
                    frame \<leftarrow> wr_block (lead # replicate (length wire - 1) 0) 1 p;
                    let frame = take (1 + length p) frame;
                    ok \<leftarrow> (if length frame \<ge> 5 then validCrc frame (length frame) else Some False);
                    Some (if ok then Some frame else None) }) }))"

section \<open>Headers are recognised\<close>

lemma read16_be16: "off + 1 < length data \<Longrightarrow> read16 data off = Some (be16 (data ! off) (data ! (off + 1)))"
  by (simp add: read16_def rd_def be16_or)

lemma wire_bytes_eq:
  "wire_bytes version frame =
     syncByte # (let w = push_bit 13 (ucast version) OR of_nat (length frame) :: u64
                 in [ucast (drop_bit 8 w), ucast w]) @ frame"
  by (simp add: wire_bytes_def append_be_def numeral_2_eq_2 Let_def)

lemma word_of_bytes: "be16 (ucast (drop_bit 8 w)) (ucast w) = ucast (w :: u64)"
  unfolding be16_or by (rule bit_word_eqI) (auto simp: bit_simps)

lemma header_word:
  fixes version :: u8
  assumes "version \<le> 1" and "len < 0x2000"
  defines "w \<equiv> ucast (push_bit 13 (ucast version) OR of_nat len :: u64) :: u16"
  shows "unat (w AND 0x1fff) = len" "ucast (drop_bit 13 w) = version"
proof -
  have l: "take_bit 13 len = len" using assms(2) by (simp add: take_bit_nat_eq_self)
  then have small: "bit len n \<Longrightarrow> n < 13" for n by (metis bit_take_bit_iff)
  have "version = 0 \<or> version = 1" using assms(1) by (metis word_le_nat_alt unat_1 le_Suc_eq le_zero_eq One_nat_def unat_eq_zero_iff word_unat_eq_iff)
  then have v: "bit version n \<Longrightarrow> n = 0" for n by (auto simp: bit_1_iff)
  have m: "(0x1fff :: u16) = mask 13" by (simp add: mask_eq_exp_minus_1)
  have "w AND 0x1fff = of_nat len"
    unfolding m w_def by (rule bit_word_eqI) (auto simp: bit_simps bit_of_nat_iff_bit dest: small v)
  moreover have "unat (of_nat len :: u16) = len" using assms(2) by (intro unat_of_nat_u16) simp
  ultimately show "unat (w AND 0x1fff) = len" by simp
  show "ucast (drop_bit 13 w) = version"
    unfolding w_def by (rule bit_word_eqI) (auto simp: bit_simps bit_of_nat_iff_bit dest: small v)
qed

lemma parseHeader_wire:
  assumes "version \<le> 1" and "length frame < 0x2000" and "frame \<noteq> []"
  shows "parseHeader (wire_bytes version frame @ rest)
    = Some (plausibleFrame (frame ! 0) (length frame) version, length frame, version)"
proof -
  obtain lead r where f: "frame = lead # r" using assms(3) by (cases frame) auto
  define w :: u64 where "w = push_bit 13 (ucast version) OR of_nat (length frame)"
  have wire: "wire_bytes version frame = syncByte # ucast (drop_bit 8 w) # ucast w # frame"
    by (simp only: wire_bytes_eq w_def Let_def append_Cons append_Nil)
  then have "read16 (wire_bytes version frame @ rest) 1 = Some (ucast w)"
    by (simp add: read16_be16 word_of_bytes)
  then show ?thesis
    using header_word [OF assms(1,2), folded w_def] f wire
    by (simp add: parseHeader_def rd_def headerSize_def Let_def numeral_3_eq_3)
qed

lemma length_wire_bytes [simp]: "length (wire_bytes version frame) = length frame + 3"
  and drop_wire_bytes [simp]: "drop 3 (wire_bytes version frame) = frame"
  by (simp_all add: wire_bytes_eq Let_def numeral_3_eq_3)

section \<open>Properties\<close>

lemma plausible_type:
  assumes "drop_bit 4 b \<in> {0, 1, 14, 15 :: u8}" and "enc \<le> 3"
  shows "(b AND 0xf0 OR enc) AND 0x0f = enc" "drop_bit 4 (b AND 0xf0 OR enc) = drop_bit 4 b"
proof -
  have e: "take_bit 4 enc = enc"
    using assms(2) by (simp add: word_unat_eq_iff unsigned_take_bit_eq take_bit_nat_eq_self word_le_nat_alt)
  have small: "bit enc n \<Longrightarrow> n < 4" for n by (metis bit_take_bit_iff e)
  have m: "(0x0f :: u8) = mask 4" "(0xf0 :: u8) = push_bit 4 (mask 4)" by (simp_all add: mask_eq_exp_minus_1)
  show "(b AND 0xf0 OR enc) AND 0x0f = enc"
    unfolding m by (rule bit_word_eqI) (auto simp: bit_simps dest: small)
  show "drop_bit 4 (b AND 0xf0 OR enc) = drop_bit 4 b"
    unfolding m by (rule bit_word_eqI) (auto simp: bit_simps dest: small bit_imp_le_length)
qed

lemma validCrc_frame:
  assumes "5 \<le> n" and "n \<le> length f" and "n < 2 ^ 31"
  shows "validCrc f n = vscp_validFrameCrc f n"
proof -
  have n: "n - 2 + 1 = n - 1" "n - 2 < length f" "n - 1 < length f" "1 + (n - 3) \<le> length f" "\<not> n < 5" "\<not> 2147483647 < n - 3"
    using assms by simp_all
  have "rd_block f 1 (n - 3) = Some (take (n - 3) (drop 1 f))" using n by (simp add: rd_block_def)
  then show ?thesis
    using n assms(1)
    by (simp add: validCrc_def vscp_validFrameCrc_def read16_def rd_def crcFast_def crcSlow_def crcFast_loop_eq)
qed

text \<open>The documented behaviour of the CBC functions of OpenSSL with their default padding.\<close>

definition openssl_pad_ok :: "openssl \<Rightarrow> bool" where
  "openssl_pad_ok ssl \<longleftrightarrow>
     (\<forall>alg key iv p. key_ok alg key \<and> length iv = 16
        \<longrightarrow> (\<exists>c. evp_pad_encrypt ssl alg key iv p = Some c \<and> length c = length p + pad_size (length p)
              \<and> evp_pad_decrypt ssl alg key iv c = Some p))"

lemma key_ok_small: "key_ok alg key \<Longrightarrow> alg \<le> 3 \<and> alg \<noteq> 0"
  by (auto simp: key_ok_def VSCP_ENCRYPTION_AES128_def VSCP_ENCRYPTION_AES192_def VSCP_ENCRYPTION_AES256_def)

lemma plausible_plain:
  assumes "drop_bit 4 b \<in> {0, 1, 14, 15 :: u8}" and "5 \<le> n" and "n \<le> 4096"
  shows "plausibleFrame (b AND 0xf0) n 0"
  using assms plausible_type [OF assms(1), of 0]
  by (auto simp: plausibleFrame_def Let_def maxFrameSize_def authenticatedVersion_def VSCP_ENCRYPTION_AES256_def)

lemma plausible_encrypted:
  assumes "drop_bit 4 b \<in> {0, 1, 14, 15 :: u8}" and "enc \<le> 3" and "n = m + pad_size m + 17" and "n \<le> 4096"
  shows "plausibleFrame (b AND 0xf0 OR enc) n 0"
proof -
  have "(n - 17) mod 16 = 0" "33 \<le> n"
    using assms(3) pad_size_bounds [of m] by (auto simp: mod_eq_0_iff_dvd dest: dvd_imp_le)
  then show ?thesis
    using assms plausible_type [OF assms(1,2)]
    by (auto simp: plausibleFrame_def Let_def maxFrameSize_def authenticatedVersion_def VSCP_ENCRYPTION_AES256_def)
qed

lemma plausible_authenticated:
  assumes "drop_bit 4 b \<in> {0, 1, 14, 15 :: u8}" and "enc \<le> 3" and "enc \<noteq> 0" and "n = m + pad_size m + 33" and "n \<le> 4096"
  shows "plausibleFrame (b AND 0xf0 OR enc) n 1"
proof -
  have "(n - 33) mod 16 = 0" "49 \<le> n"
    using assms(4) pad_size_bounds [of m] by (auto simp: mod_eq_0_iff_dvd dest: dvd_imp_le)
  then show ?thesis
    using assms plausible_type [OF assms(1,2)]
    by (auto simp: plausibleFrame_def Let_def maxFrameSize_def authenticatedVersion_def VSCP_ENCRYPTION_AES256_def)
qed

text \<open>The three modes, one after the other.\<close>

lemma encode_decode_plain:
  assumes "drop_bit 4 b \<in> {0, 1, 14, 15 :: u8}" and "4 \<le> length r" and "length r \<le> 4000"
    and "vscp_validFrameCrc (b # r) (Suc (length r)) = Some True"
  shows "encode ssl (b # r) 0 key 0 hmacKey = Some (Some (wire_bytes 0 ((b AND 0xf0) # r)))"
    and "decode ssl ((b AND 0xf0) # r) key 0 hmacKey = Some (Some ((b AND 0xf0) # r))"
proof -
  show "encode ssl (b # r) 0 key 0 hmacKey = Some (Some (wire_bytes 0 ((b AND 0xf0) # r)))"
    using assms(2,3)
    by (simp add: encode_def maxFrameSize_def VSCP_ENCRYPTION_AES256_def authenticatedVersion_def rd_def)
  have "vscp_validFrameCrc ((b AND 0xf0) # r) (Suc (length r)) = Some True"
    using assms(4) validFrameCrc_same [of "Suc (length r)" "b # r" b r "(b AND 0xf0) # r" "b AND 0xf0"] by simp
  then have "validCrc ((b AND 0xf0) # r) (Suc (length r)) = Some True"
    using assms(2,3) by (simp add: validCrc_frame)
  moreover have "(b AND 0xf0) AND 0x0f = 0" by (simp add: and.assoc)
  ultimately show "decode ssl ((b AND 0xf0) # r) key 0 hmacKey = Some (Some ((b AND 0xf0) # r))"
    using plausible_plain [OF assms(1), of "Suc (length r)"] assms(2,3)
    by (simp add: decode_def authenticatedVersion_def)
qed

lemma encode_decode_encrypted:
  assumes "drop_bit 4 b \<in> {0, 1, 14, 15 :: u8}" and "4 \<le> length r" and "length r \<le> 4000"
    and "vscp_validFrameCrc (b # r) (Suc (length r)) = Some True"
    and "openssl_pad_ok ssl" and "key_ok alg k" and "rand_bytes ssl = Some iv" and "length iv = 16"
  shows "\<exists>w. length w = length r + pad_size (length r) + 17 \<and> w ! 0 = (b AND 0xf0 OR alg)
    \<and> encode ssl (b # r) alg (Some k) 0 hmacKey = Some (Some (wire_bytes 0 w))
    \<and> decode ssl w (Some k) 0 hmacKey = Some (Some ((b AND 0xf0 OR alg) # r))"
proof -
  let ?b = "b AND 0xf0 OR alg"
  obtain c where c: "evp_pad_encrypt ssl alg k iv r = Some c" "length c = length r + pad_size (length r)"
      "evp_pad_decrypt ssl alg k iv c = Some r"
    using assms(5-8) unfolding openssl_pad_ok_def by metis
  let ?w = "?b # c @ iv"
  have small: "alg \<le> 3" "alg \<noteq> 0" using key_ok_small [OF assms(6)] by simp_all
  have pad: "pad_size (length r) \<le> 16" by (rule pad_size_bounds)
  have "(replicate (33 + length r) 0)[0 := ?b] = ?b # replicate (32 + length r) 0"
    by (simp add: eval_nat_numeral)
  then have "wr_block ((replicate (33 + length r) 0)[0 := ?b]) (Suc 0) c = Some (?b # c @ replicate (32 - pad_size (length r)) 0)"
    using c(2) pad by (simp add: wr_block_def)
  then have enc: "encode ssl (b # r) alg (Some k) 0 hmacKey = Some (Some (wire_bytes 0 ?w))"
    using assms(2,3,7) small c
    by (simp add: encode_def maxFrameSize_def VSCP_ENCRYPTION_AES256_def authenticatedVersion_def rd_def)
  have lead: "?b AND 0x0f = alg" using plausible_type [OF assms(1) small(1)] by simp
  have "rd_block ?w (length ?w - 16) 16 = Some iv" "rd_block ?w 1 (length ?w - 17) = Some c"
    using assms(8) by (simp_all add: rd_block_def)
  moreover have "wr_block (?b # replicate (length ?w - 1) 0) 1 r
      = Some (?b # r @ replicate (pad_size (length r) + 16) 0)"
    using c(2) assms(8) by (simp add: wr_block_def)
  moreover have "validCrc (?b # r) (Suc (length r)) = Some True"
    using assms(2-4) validFrameCrc_same [of "Suc (length r)" "b # r" b r "?b # r" ?b] by (simp add: validCrc_frame)
  moreover have "plausibleFrame ?b (length ?w) 0"
    using plausible_encrypted [OF assms(1) small(1), of "length ?w" "length r"] c(2) assms(3,8) pad by simp
  ultimately have dec: "decode ssl ?w (Some k) 0 hmacKey = Some (Some (?b # r))"
    using lead small c assms(2) by (simp add: decode_def authenticatedVersion_def)
  show ?thesis using enc dec c(2) assms(8) by (intro exI [of _ ?w]) simp
qed

lemma encode_authenticated:
  assumes "4 \<le> length r" and "length r \<le> 4000"
    and "vscp_validFrameCrc (b # r) (Suc (length r)) = Some True"
    and "openssl_cbc_ok ssl" and "openssl_hmac_ok ssl" and "key_ok alg k" and "rand_bytes ssl = Some iv" and "length iv = 16"
  obtains w where "length w = length r + pad_size (length r) + 33" and "w ! 0 = (b AND 0xf0 OR alg)"
    and "encode ssl (b # r) alg (Some k) 1 (Some hmacKey) = Some (Some (wire_bytes 1 w))"
    and "\<And>dst capacity rest. Suc (length r) \<le> capacity \<Longrightarrow> Suc (length r) \<le> length dst \<Longrightarrow>
      vscp_decryptFrameV1 ssl (Some dst) capacity (Some (w @ rest)) (length w) (Some k) (Some hmacKey)
        = Some (Suc (length r), Some ((b AND 0xf0 OR alg) # r @ drop (Suc (length r)) dst))"
proof -
  let ?b = "b AND 0xf0 OR alg" and ?n = "length r + pad_size (length r) + 33"
  have small: "alg \<le> 3" "alg \<noteq> 0" using key_ok_small [OF assms(6)] by simp_all
  have pad: "pad_size (length r) \<le> 16" by (rule pad_size_bounds)
  have "?b AND 0xf0 = b AND 0xf0"
  proof -
    have "alg AND 0xf0 = 0" using assms(6)
      by (auto simp: key_ok_def VSCP_ENCRYPTION_AES128_def VSCP_ENCRYPTION_AES192_def VSCP_ENCRYPTION_AES256_def)
    then show ?thesis by (simp add: bit.conj_disj_distrib2 and.assoc)
  qed
  then have b: "?b AND 0xf0 OR alg = ?b" by simp
  have crc: "vscp_validFrameCrc (?b # r) (Suc (length r)) = Some True"
    using assms(3) validFrameCrc_same [of "Suc (length r)" "b # r" b r "?b # r" ?b] by simp
  have iv: "vscp_getEncryptionIv (rand_bytes ssl) None = Some (Some iv)"
    using assms(7) by (simp add: vscp_getEncryptionIv_def)
  have res: "vscp_resolveFrameCryptoAlgorithm alg (?b # r) = Some alg"
    using key_ok_algorithm(4) [OF assms(6)] by (simp add: vscp_resolveFrameCryptoAlgorithm_def)
  let ?d = "replicate (Suc (length r) + 48) (0 :: u8)"
  let ?enc = "\<lambda>w. vscp_encryptFrameV1 ssl (Some ?d) (Suc (length r) + 48) (Some (?b # r)) (Suc (length r))
         (Some k) (Some hmacKey) None alg = Some (?n, Some (w @ drop ?n ?d))"
  have room: "?n \<le> 0x1fff" "?n \<le> Suc (length r) + 48" "?n \<le> length ?d"
    using assms(2) pad by simp_all
  have trip: "\<exists>w. length w = ?n \<and> w ! 0 = ?b \<and> ?enc w
       \<and> (\<forall>rest. vscp_decryptFrameV1 ssl (Some dst) capacity (Some (w @ rest)) ?n (Some k) (Some hmacKey)
            = Some (Suc (length r), Some (?b # r @ drop (Suc (length r)) dst)))"
    if "Suc (length r) \<le> capacity" "Suc (length r) \<le> length dst" for dst capacity
    using authenticated_frame_round_trip [OF assms(4,5,6,8) iv res crc refl room that] unfolding b .
  obtain w where w: "length w = ?n" "w ! 0 = ?b" "?enc w"
    using trip [of "Suc (length r)" "?b # r"] by auto
  show thesis
  proof (rule that)
    show "length w = ?n" "w ! 0 = ?b" by (fact w)+
    show "encode ssl (b # r) alg (Some k) 1 (Some hmacKey) = Some (Some (wire_bytes 1 w))"
      using assms(1,2) small w(1,3) pad
      by (simp add: encode_def maxFrameSize_def VSCP_ENCRYPTION_AES256_def authenticatedVersion_def rd_def)
    fix dst :: "u8 list" and capacity and rest :: "u8 list"
    assume "Suc (length r) \<le> capacity" "Suc (length r) \<le> length dst"
    from trip [OF this] obtain w' where w': "length w' = ?n" "?enc w'"
      "vscp_decryptFrameV1 ssl (Some dst) capacity (Some (w' @ rest)) ?n (Some k) (Some hmacKey)
         = Some (Suc (length r), Some (?b # r @ drop (Suc (length r)) dst))" by blast
    have "w' = w" using w(1,3) w'(1,2) by simp
    then show "vscp_decryptFrameV1 ssl (Some dst) capacity (Some (w @ rest)) (length w) (Some k) (Some hmacKey)
        = Some (Suc (length r), Some (?b # r @ drop (Suc (length r)) dst))"
      using w'(3) unfolding w(1) by simp
  qed
qed

lemma encode_decode_authenticated:
  assumes "drop_bit 4 b \<in> {0, 1, 14, 15 :: u8}" and "4 \<le> length r" and "length r \<le> 4000"
    and "vscp_validFrameCrc (b # r) (Suc (length r)) = Some True"
    and "openssl_cbc_ok ssl" and "openssl_hmac_ok ssl" and "key_ok alg k" and "rand_bytes ssl = Some iv" and "length iv = 16"
  shows "\<exists>w. length w = length r + pad_size (length r) + 33 \<and> w ! 0 = (b AND 0xf0 OR alg)
    \<and> encode ssl (b # r) alg (Some k) 1 (Some hmacKey) = Some (Some (wire_bytes 1 w))
    \<and> decode ssl w (Some k) 1 (Some hmacKey) = Some (Some ((b AND 0xf0 OR alg) # r))"
proof -
  let ?b = "b AND 0xf0 OR alg"
  have small: "alg \<le> 3" "alg \<noteq> 0" using key_ok_small [OF assms(7)] by simp_all
  obtain w where w: "length w = length r + pad_size (length r) + 33" "w ! 0 = ?b"
      "encode ssl (b # r) alg (Some k) 1 (Some hmacKey) = Some (Some (wire_bytes 1 w))"
      and d: "\<And>dst capacity rest. Suc (length r) \<le> capacity \<Longrightarrow> Suc (length r) \<le> length dst \<Longrightarrow>
        vscp_decryptFrameV1 ssl (Some dst) capacity (Some (w @ rest)) (length w) (Some k) (Some hmacKey)
          = Some (Suc (length r), Some (?b # r @ drop (Suc (length r)) dst))"
    using encode_authenticated [OF assms(2-9)] by blast
  have "w \<noteq> []" using w(1) by auto
  then obtain w' where w': "w = ?b # w'" using w(2) by (cases w) auto
  have "plausibleFrame ?b (length w) 1"
    using plausible_authenticated [OF assms(1) small w(1)] w(1) assms(3) pad_size_bounds(2) [of "length r"] by simp
  moreover have "Suc (length r) \<le> length w" using w(1) by simp
  with d [of "length w" "replicate (length w) 0" "[]"]
  have "vscp_decryptFrameV1 ssl (Some (replicate (length w) 0)) (length w) (Some w) (length w) (Some k) (Some hmacKey)
      = Some (Suc (length r), Some (?b # r @ drop (Suc (length r)) (replicate (length w) 0)))" by simp
  ultimately have dec: "decode ssl w (Some k) 1 (Some hmacKey) = Some (Some (?b # r))"
    unfolding decode_def w' by (simp add: authenticatedVersion_def)
  show ?thesis using dec w by blast
qed

text \<open>C12: In every mode, plain, encrypted or authenticated, a frame with a right checksum is encoded; the
  header in front of it is recognised with the right length and version, and decoding what follows
  the header gives the frame back, with the code of the cipher in its lead byte.\<close>

theorem link_frame_round_trip:
  assumes "drop_bit 4 b \<in> {0, 1, 14, 15 :: u8}" and "4 \<le> length r" and "length r \<le> 4000"
    and "vscp_validFrameCrc (b # r) (Suc (length r)) = Some True"
    and "openssl_cbc_ok ssl" and "openssl_pad_ok ssl" and "openssl_hmac_ok ssl"
    and "rand_bytes ssl = Some iv" and "length iv = 16"
    and "enc = 0 \<and> version = 0 \<or> key_ok enc k \<and> version \<le> 1"
  shows "\<exists>wire. encode ssl (b # r) enc (Some k) version (Some hmacKey) = Some (Some wire)
    \<and> parseHeader wire = Some (True, length wire - 3, version)
    \<and> decode ssl (drop 3 wire) (Some k) version (Some hmacKey) = Some (Some ((b AND 0xf0 OR enc) # r))"
proof -
  consider "enc = 0" "version = 0" | "key_ok enc k" "version = 0" | "key_ok enc k" "version = 1"
    using assms(10) by (metis word_le_nat_alt unat_1 le_Suc_eq le_zero_eq One_nat_def unat_eq_zero_iff word_unat_eq_iff)
  then show ?thesis
  proof cases
    case 1
    then show ?thesis
      using encode_decode_plain [OF assms(1-4), of ssl "Some k" "Some hmacKey"]
        parseHeader_wire [of 0 "(b AND 0xf0) # r" "[]"] plausible_plain [OF assms(1), of "Suc (length r)"] assms(2,3)
      by simp
  next
    case 2
    obtain w where w: "length w = length r + pad_size (length r) + 17" "w ! 0 = (b AND 0xf0 OR enc)"
      "encode ssl (b # r) enc (Some k) 0 (Some hmacKey) = Some (Some (wire_bytes 0 w))"
      "decode ssl w (Some k) 0 (Some hmacKey) = Some (Some ((b AND 0xf0 OR enc) # r))"
      using encode_decode_encrypted [OF assms(1-4,6) 2(1) assms(8,9)] by blast
    have "length w \<le> 4096" using w(1) assms(3) pad_size_bounds(2) [of "length r"] by simp
    moreover from this have "plausibleFrame (w ! 0) (length w) 0"
      using plausible_encrypted [OF assms(1) _ w(1)] key_ok_small [OF 2(1)] w(2) by simp
    moreover have "w \<noteq> []" using w(1) by auto
    ultimately have "parseHeader (wire_bytes 0 w) = Some (True, length w, 0)"
      using parseHeader_wire [of 0 w "[]"] by simp
    then show ?thesis using 2(2) w(3,4) by (intro exI [of _ "wire_bytes 0 w"]) simp
  next
    case 3
    obtain w where w: "length w = length r + pad_size (length r) + 33" "w ! 0 = (b AND 0xf0 OR enc)"
      "encode ssl (b # r) enc (Some k) 1 (Some hmacKey) = Some (Some (wire_bytes 1 w))"
      "decode ssl w (Some k) 1 (Some hmacKey) = Some (Some ((b AND 0xf0 OR enc) # r))"
      using encode_decode_authenticated [OF assms(1-5,7) 3(1) assms(8,9)] by blast
    have "length w \<le> 4096" using w(1) assms(3) pad_size_bounds(2) [of "length r"] by simp
    moreover from this have "plausibleFrame (w ! 0) (length w) 1"
      using plausible_authenticated [OF assms(1) _ _ w(1)] key_ok_small [OF 3(1)] w(2) by simp
    moreover have "w \<noteq> []" using w(1) by auto
    ultimately have "parseHeader (wire_bytes 1 w) = Some (True, length w, 1)"
      using parseHeader_wire [of 1 w "[]"] by simp
    then show ?thesis using 3(2) w(3,4) by (intro exI [of _ "wire_bytes 1 w"]) simp
  qed
qed

text \<open>An instance of the functions of OpenSSL with the documented padding.\<close>

definition sample_link_ssl :: openssl where
  "sample_link_ssl = sample_ssl\<lparr>
     evp_pad_encrypt := (\<lambda>alg key iv p. Some (padded p)),
     evp_pad_decrypt := (\<lambda>alg key iv c. Some (take (length c - unat (last c)) c)) \<rparr>"

lemma sample_link_ssl_ok: "openssl_cbc_ok sample_link_ssl" "openssl_pad_ok sample_link_ssl" "openssl_hmac_ok sample_link_ssl"
proof -
  show "openssl_cbc_ok sample_link_ssl"
    using sample_ssl_ok by (simp add: openssl_cbc_ok_def sample_link_ssl_def)
  show "openssl_hmac_ok sample_link_ssl"
    by (auto simp: openssl_hmac_ok_def sample_link_ssl_def sample_ssl_def min_def)
  have "unat (last (padded p)) = pad_size (length p)" for p
  proof -
    have "unat (of_nat (pad_size (length p)) :: u8) = pad_size (length p)"
      using pad_size_bounds(2) [of "length p"] by (intro unat_of_nat_u8) simp
    then show ?thesis using pad_size_bounds(1) [of "length p"] by (simp add: padded_def)
  qed
  then show "openssl_pad_ok sample_link_ssl"
    by (simp add: openssl_pad_ok_def sample_link_ssl_def length_padded) (simp add: padded_def)
qed

lemma sample_link_ssl_rand: "rand_bytes sample_link_ssl = Some (replicate 16 7)"
  by (simp add: sample_link_ssl_def sample_ssl_def)

lemma link_frame_round_trip_witness:
  "\<exists>wire. encode sample_link_ssl (0x10 # [1, 2, 0x0e, 0x7c]) 1 (Some (replicate 16 7)) 1 (Some (replicate 32 9)) = Some (Some wire)
    \<and> parseHeader wire = Some (True, length wire - 3, 1)
    \<and> decode sample_link_ssl (drop 3 wire) (Some (replicate 16 7)) 1 (Some (replicate 32 9))
      = Some (Some ((0x10 AND 0xf0 OR 1) # [1, 2, 0x0e, 0x7c]))"
  by (rule link_frame_round_trip [of _ _ _ "replicate 16 7"])
    (simp_all add: sample_link_ssl_ok sample_frame key_ok_def VSCP_ENCRYPTION_AES128_def sample_link_ssl_rand)

end
