(* ===== verification/FrameSafety.thy ===== *)
theory FrameSafety
  imports BinaryProtocol
begin

unbundle bit_operations_syntax

text \<open>
  Decryption of hostile input: whatever bytes arrive, the decryption routines of \<open>FrameCrypto\<close> neither
  read nor write outside their buffers. The contract of a cipher that may fail, but stays inside, is
  the locale \<open>contained_engine\<close>; the AES routines and the calls to OpenSSL meet it, and both versions
  of the frame routine rest on it.
\<close>

section \<open>Ciphers on arbitrary bytes\<close>

lemma cbc_decrypt_loop_contained:
  "pos + 16 * n \<le> length input \<Longrightarrow> pos + 16 * n \<le> length dst \<Longrightarrow> length Iv = 16 \<Longrightarrow>
   \<exists>out. cbc_decrypt_loop D n pos Iv input dst = Some out \<and> length out = length dst"
proof (induction n arbitrary: pos Iv dst)
  case (Suc n)
  define b where "b = take 16 (drop pos input)"
  define x where "x = xor_list (D b) Iv"
  have b: "rd_block input pos 16 = Some b" "length b = 16"
    using Suc.prems(1) by (simp_all add: rd_block_def b_def)
  have "wr_block dst pos x \<noteq> None"
    using Suc.prems(2,3) by (simp add: wr_block_None_iff x_def)
  then obtain dst' where w: "wr_block dst pos x = Some dst'" by blast
  note l = length_wr_block [OF w]
  have "pos + 16 + 16 * n \<le> length input" "pos + 16 + 16 * n \<le> length dst'" using Suc.prems(1,2) l by simp_all
  from Suc.IH [OF this b(2)] show ?case
    unfolding cbc_decrypt_loop.simps b(1) bind.bind_lunit Let_def x_def [symmetric] w using l by simp
qed simp

text \<open>
  A decryption of whole blocks into a destination that has room for them: it may refuse, and it
  changes the contents of the destination only.
\<close>

locale contained_engine =
  fixes dec :: "u8 \<Rightarrow> u8 list \<Rightarrow> u8 list \<Rightarrow> u8 list \<Rightarrow> u8 list \<Rightarrow> u8 list option safe"
  assumes contained: "\<lbrakk>inp \<noteq> []; length inp mod 16 = 0; length inp \<le> length dst; length iv = 16; 32 \<le> length key\<rbrakk>
    \<Longrightarrow> \<exists>r. dec alg dst inp key iv = Some r \<and> (\<forall>out. r = Some out \<longrightarrow> length out = length dst)"

lemma aes_contained:
  assumes "inp \<noteq> []" and "length inp mod 16 = 0" and "length inp \<le> length dst" and "length iv = 16" and "32 \<le> length key"
  shows "\<exists>r. aes_decrypt_buffer alg dst inp key iv = Some r \<and> (\<forall>out. r = Some out \<longrightarrow> length out = length dst)"
proof (cases "aes_type alg")
  case (Some t)
  obtain p where p: "init t = Some p" "KEYLEN p \<le> 32"
    using Some by (auto simp: aes_type_def init_def AES128_def AES192_def AES256_def split: if_splits)
  obtain rk where rk: "KeyExpansion p key = Some rk" using KeyExpansion_ok [OF p(1), of key] p(2) assms(5) by auto
  have n: "16 * block_count (length inp) = length inp" "16 \<le> length inp"
    using assms(1,2) by (auto simp: block_count_def dest: dvd_imp_le)
  let ?dst = "take 16 inp @ drop 16 dst"
  have w: "wr_block dst 0 (take 16 inp) = Some ?dst" "length ?dst = length dst"
    using n(2) assms(3) wr_block_zero [of "take 16 inp" dst] by simp_all
  have "length inp \<le> length ?dst" using assms(3) w(2) by simp
  then obtain out where "cbc_decrypt_loop (InvCipher p rk) (block_count (length inp)) 0 iv inp ?dst = Some out"
      "length out = length dst"
    using cbc_decrypt_loop_contained [of 0 "block_count (length inp)" inp ?dst iv] n(1) assms(4) w(2) by auto
  then show ?thesis
    using p rk n assms(2,4) w(1)
    by (simp add: aes_decrypt_buffer_def Some AES_CBC_decrypt_buffer_def rd_block_def cbc_extra_def)
qed (simp add: aes_decrypt_buffer_def)

lemma evp_contained:
  assumes "length inp \<le> length dst"
  shows "\<exists>r. vscp_evpDecryptBuffer ssl alg dst inp key iv = Some r \<and> (\<forall>out. r = Some out \<longrightarrow> length out = length dst)"
proof (cases "evp_cbc_decrypt ssl alg key iv inp")
  case (Some c)
  show ?thesis
  proof (cases "length c = length inp")
    case True
    then show ?thesis using assms wr_block_zero [of c dst] by (simp add: vscp_evpDecryptBuffer_def Some)
  qed (simp add: vscp_evpDecryptBuffer_def Some)
qed (simp add: vscp_evpDecryptBuffer_def)

interpretation aes_inside: contained_engine aes_decrypt_buffer
  by unfold_locales (rule aes_contained)

interpretation evp_inside: contained_engine "\<lambda>alg dst inp key iv.
    if vscp_getOpenSslCipherFromAlgorithm alg = None then Some None else vscp_evpDecryptBuffer ssl alg dst inp key iv"
  for ssl
proof (unfold_locales)
  fix inp dst iv key :: "u8 list" and alg
  assume "length inp \<le> length dst"
  from evp_contained [OF this, of ssl alg key iv]
  show "\<exists>r. (if vscp_getOpenSslCipherFromAlgorithm alg = None then Some None
      else vscp_evpDecryptBuffer ssl alg dst inp key iv) = Some r \<and> (\<forall>out. r = Some out \<longrightarrow> length out = length dst)"
    by simp
qed

section \<open>Padding and checksum on arbitrary bytes\<close>

lemma pkcs7Unpad_contained:
  assumes "len \<le> length p"
  shows "\<exists>ok p' len'. vscp_pkcs7Unpad (Some p) len = Some (ok, Some p', len') \<and> length p' = length p \<and> len' \<le> len"
  using assms by (auto simp: vscp_pkcs7Unpad_def rd_def rd_block_def wr_block_def Let_def)

lemma validFrameCrc_contained: "len \<le> length f \<Longrightarrow> \<exists>ok. vscp_validFrameCrc f len = Some ok"
  by (auto simp: vscp_validFrameCrc_def rd_def rd_block_def)

lemma validateDecryptedFrame_contained:
  assumes "1 \<le> len" and "len \<le> length f"
  shows "\<exists>ok g. vscp_validateDecryptedFrame f len = Some (ok, g) \<and> length g = length f"
proof -
  have "len - 1 \<le> length (drop 1 f)" using assms by simp
  from pkcs7Unpad_contained [OF this] obtain ok p n where
    u: "vscp_pkcs7Unpad (Some (drop 1 f)) (len - 1) = Some (ok, Some p, n)"
      "length p = length (drop 1 f)" "n \<le> len - 1" by blast
  have l: "length (take 1 f @ p) = length f" using u(2) assms by simp
  have "n + 1 \<le> length (take 1 f @ p)" using u(3) assms l by simp
  from validFrameCrc_contained [OF this] obtain v where "vscp_validFrameCrc (take 1 f @ p) (n + 1) = Some v" by blast
  then show ?thesis using u(1) l by (cases ok) (simp_all add: vscp_validateDecryptedFrame_def Let_def ex_bool_eq)
qed

section \<open>The frame routines\<close>

context contained_engine
begin

text \<open>A frame with its vector at the end, of any length and content.\<close>

lemma decrypt_frame_contained:
  assumes "n \<le> length inp" and "33 \<le> n" and "n - 16 \<le> length dst" and "n \<le> length dst" and "32 \<le> length key"
  shows "\<exists>ok out. decrypt_frame_with dec (Some dst) (Some inp) n (Some key) None alg0 = Some (ok, Some out)
    \<and> length out = length dst"
proof -
  obtain b r where inp: "inp = b # r" using assms(1,2) by (cases inp) auto
  obtain d dr where dst: "dst = d # dr" using assms(2,4) by (cases dst) auto
  obtain alg where a: "vscp_resolveFrameCryptoAlgorithm alg0 inp = Some alg"
    by (cases "alg0 AND 0x0f = VSCP_ENCRYPTION_FROM_TYPE_BYTE")
      (auto simp: vscp_resolveFrameCryptoAlgorithm_def rd_def inp)
  let ?iv = "take 16 (drop (n - 16) inp)" and ?x = "take (n - 17) (drop 1 inp)"
  have iv: "rd_block inp (n - 16) 16 = Some ?iv" "length ?iv = 16" "n - 16 - 1 = n - 17"
    using assms(1,2) by (simp_all add: rd_block_def)
  have x: "rd_block inp 1 (n - 17) = Some ?x" "length ?x = n - 17"
    using assms(1,2) by (simp_all add: rd_block_def)
  have crc: "\<exists>v. vscp_validFrameCrc inp n = Some v" by (rule validFrameCrc_contained [OF assms(1)])
  show ?thesis
  proof (cases "alg = VSCP_ENCRYPTION_NONE")
    case True
    have "wr_block dst 0 (take n inp) = Some (take n inp @ drop n dst)"
      using assms(1,4) wr_block_zero [of "take n inp" dst] by simp
    then show ?thesis using True a crc assms
      by (auto simp: decrypt_frame_with_def rd_block_def)
  next
    case False
    show ?thesis
    proof (cases "(n - 17) mod 16 = 0")
      case True
      have "?x \<noteq> []" "length ?x mod 16 = 0" "length ?x \<le> length dr"
        using x(2) True assms dst by auto
      from contained [OF this iv(2) assms(5), of alg]
      obtain r where r: "dec alg dr ?x key ?iv = Some r" "\<forall>out. r = Some out \<longrightarrow> length out = length dr" by blast
      have w: "wr_block dst 0 [b] = Some (b # dr)" by (simp add: wr_block_def dst)
      show ?thesis
      proof (cases r)
        case None
        then show ?thesis
          using False a assms(2) iv x r(1) w True
          by (simp add: decrypt_frame_with_def frame_iv_def rd_def inp dst ex_bool_eq)
      next
        case (Some rest)
        then have "1 \<le> n - 16" "n - 16 \<le> length (b # rest)" "length (b # rest) = length dst"
          using r(2) assms dst by simp_all
        with validateDecryptedFrame_contained [OF this(1,2)] obtain ok g where
          "vscp_validateDecryptedFrame (b # rest) (n - 16) = Some (ok, g)" "length g = length dst" by auto
        moreover have "\<not> n - 16 < 17" using assms(2) by simp
        ultimately show ?thesis
          using False a assms(2) iv x r(1) w True Some
          by (simp add: decrypt_frame_with_def frame_iv_def rd_def inp)
      qed
    next
      case mod: False
      then show ?thesis
        using False a assms(2) iv by (simp add: decrypt_frame_with_def frame_iv_def ex_bool_eq)
    qed
  qed
qed

end

lemma decryptFrame_contained:
  assumes "n \<le> length inp" and "33 \<le> n" and "n \<le> length dst" and "32 \<le> length key"
  shows "\<exists>ok out. vscp_decryptFrame use_openssl ssl (Some dst) (Some inp) n (Some key) None alg0 = Some (ok, Some out)
    \<and> length out = length dst"
  using aes_inside.decrypt_frame_contained [OF assms(1,2) _ assms(3,4)]
    evp_inside.decrypt_frame_contained [OF assms(1,2) _ assms(3,4)] assms(3)
  by (simp add: vscp_decryptFrame_def vscp_decryptFrameOpenSSL_def)

lemma decryptFrameV1_contained:
  assumes "n \<le> length inp" and "capacity \<le> length dst"
  shows "\<exists>len out. vscp_decryptFrameV1 ssl (Some dst) capacity (Some inp) n (Some key) (Some hmacKey) = Some (len, Some out)
    \<and> len \<le> capacity \<and> length out = length dst"
proof (cases "n < 49 \<or> n > 0x1fff \<or> (n - 33) mod 16 \<noteq> 0")
  case False
  then have n: "49 \<le> n" "n \<le> 0x1fff" "(n - 33) mod 16 = 0" by simp_all
  obtain b r where inp: "inp = b # r" using assms(1) n by (cases inp) auto
  let ?x = "take (n - 33) (drop 1 inp)" and ?iv = "take 16 (drop (n - 32) inp)"
  have blocks: "rd_block inp 0 (n - 16) = Some (take (n - 16) inp)"
      "rd_block inp (n - 16) 16 = Some (take 16 (drop (n - 16) inp))" "rd_block inp 1 (n - 33) = Some ?x"
      "rd_block inp (n - 32) 16 = Some ?iv"
    using assms(1) n by (simp_all add: rd_block_def)
  have x: "length ?x \<le> length (replicate (n - 33) (0 :: u8))" using assms(1) n by simp
  show ?thesis
  proof (cases "vscp_getOpenSslCipherFromAlgorithm (b AND 0x0f)")
    case (Some alg)
    show ?thesis
    proof (cases "vscp_frameHmac ssl (take (n - 16) inp) hmacKey")
      case hm: (Some digest)
      obtain res where res: "vscp_evpDecryptBuffer ssl alg (replicate (n - 33) 0) ?x key ?iv = Some res"
          "\<forall>out. res = Some out \<longrightarrow> length out = n - 33"
        using evp_contained [OF x, of ssl alg key ?iv] by auto
      show ?thesis
      proof (cases "take 16 digest \<noteq> take 16 (drop (n - 16) inp) \<or> res = None")
        case True
        then show ?thesis using assms(2) n blocks Some hm res(1)
          by (auto simp: vscp_decryptFrameV1_def rd_def inp [symmetric] Let_def) (auto simp: inp)
      next
        case f: False
        then obtain plain where plain: "res = Some plain" "length plain = n - 33" using res(2) by auto
        obtain ok p m where u: "vscp_pkcs7Unpad (Some plain) (n - 33) = Some (ok, Some p, m)" "length p = n - 33" "m \<le> n - 33"
          using pkcs7Unpad_contained [of "n - 33" plain] plain(2) by auto
        obtain v where v: "vscp_validFrameCrc (b # p) (m + 1) = Some v"
          using validFrameCrc_contained [of "m + 1" "b # p"] u by auto
        have out: "rd_block (b # p) 0 (m + 1) = Some (take (m + 1) (b # p))" using u by (simp add: rd_block_def)
        show ?thesis
        proof (cases "\<not> (ok \<and> v) \<or> capacity < m + 1")
          case True
          then show ?thesis using assms(2) n blocks Some hm res(1) f plain u(1) v
            by (cases ok) (simp_all add: vscp_decryptFrameV1_def rd_def inp [symmetric] Let_def, simp_all add: inp)
        next
          case False
          then have "length (take (m + 1) (b # p)) \<le> length dst" using assms(2) u by simp
          note w = wr_block_zero [OF this]
          moreover have "0 < length dst" using False assms(2) by linarith
          ultimately show ?thesis using assms(2) n blocks Some hm res(1) f plain u v out False
            by (simp add: vscp_decryptFrameV1_def rd_def inp [symmetric] Let_def) (simp add: inp)
        qed
      qed
    next
      case None
      then show ?thesis using assms(2) n blocks Some
        by (simp add: vscp_decryptFrameV1_def rd_def inp [symmetric]) (simp add: inp)
    qed
  next
    case None
    then show ?thesis using n by (simp add: vscp_decryptFrameV1_def rd_def inp)
  qed
qed (simp add: vscp_decryptFrameV1_def)

end
