(* ===== verification/EventFilter.thy ===== *)
theory EventFilter
  imports EventTime Guid
begin

text \<open>
  Event filters (\<^verbatim>\<open>vscpEventFilter\<close> of vscp.h and the filter routines of vscphelper.cpp): the
  decision whether an event passes a filter, for both event representations, clearing and copying,
  and the three text forms (comma separated, XML, JSON). The XML and JSON parsers are third-party
  code and are parameters of the definitions that use them; the handlers they call are modelled,
  with the global nesting counter of the XML handler as explicit state.
\<close>

section \<open>The filter structure\<close>

record vscpEventFilter =
  filter_priority :: u8
  mask_priority :: u8
  filter_class :: u16
  mask_class :: u16
  filter_type :: u16
  mask_type :: u16
  filter_GUID :: "u8 list"
  mask_GUID :: "u8 list"

definition wf_filter :: "vscpEventFilter \<Rightarrow> bool" where
  "wf_filter f \<longleftrightarrow> length (filter_GUID f) = 16 \<and> length (mask_GUID f) = 16"

section \<open>Deciding\<close>

text \<open>\<^verbatim>\<open>0xffff != (uint16_t) (~(filter ^ value) | ~mask)\<close> and its eight bit form.\<close>

definition bits_differ :: "'a::len word \<Rightarrow> 'a word \<Rightarrow> 'a word \<Rightarrow> bool" where
  "bits_differ flt v msk \<longleftrightarrow> - 1 \<noteq> (NOT (flt XOR v) OR NOT msk)"

fun guid_test :: "u8 list \<Rightarrow> u8 list \<Rightarrow> u8 list \<Rightarrow> nat \<Rightarrow> bool" where
  "guid_test flt g msk 0 = True"
| "guid_test flt g msk (Suc k) =
     (if bits_differ (flt ! (15 - k)) (g ! (15 - k)) (msk ! (15 - k)) then False
      else guid_test flt g msk k)"

definition vscp_doLevel2Filter :: "vscpEvent ptr \<Rightarrow> vscpEventFilter ptr \<Rightarrow> bool" where
  "vscp_doLevel2Filter pev pFilter =
     (case pFilter of None \<Rightarrow> True
      | Some f \<Rightarrow> (case pev of None \<Rightarrow> False
      | Some ev \<Rightarrow>
         if bits_differ (filter_class f) (vscp_class ev) (mask_class f) then False
         else if bits_differ (filter_type f) (vscp_type ev) (mask_type f) then False
         else if \<not> guid_test (filter_GUID f) (GUID ev) (mask_GUID f) 16 then False
         else if bits_differ (filter_priority f) (vscp_getEventPriority (Some ev)) (mask_priority f)
         then False
         else True))"

definition vscp_doLevel2FilterEx :: "vscpEventEx ptr \<Rightarrow> vscpEventFilter ptr \<Rightarrow> bool" where
  "vscp_doLevel2FilterEx pex pFilter =
     (case pFilter of None \<Rightarrow> False
      | Some f \<Rightarrow> (case pex of None \<Rightarrow> False
      | Some ex \<Rightarrow>
         if bits_differ (filter_class f) (xvscp_class ex) (mask_class f) then False
         else if bits_differ (filter_type f) (xvscp_type ex) (mask_type f) then False
         else if \<not> guid_test (filter_GUID f) (xGUID ex) (mask_GUID f) 16 then False
         else if bits_differ (filter_priority f) (vscp_getEventExPriority (Some ex)) (mask_priority f)
         then False
         else True))"

section \<open>Clearing and copying\<close>

definition zero_filter :: vscpEventFilter where
  "zero_filter = \<lparr>filter_priority = 0, mask_priority = 0, filter_class = 0, mask_class = 0,
     filter_type = 0, mask_type = 0, filter_GUID = replicate 16 0, mask_GUID = replicate 16 0\<rparr>"

definition vscp_clearVSCPFilter :: "vscpEventFilter ptr \<Rightarrow> vscpEventFilter ptr" where
  "vscp_clearVSCPFilter pFilter = (case pFilter of None \<Rightarrow> None | Some f \<Rightarrow> Some zero_filter)"

definition vscp_copyVSCPFilter ::
  "vscpEventFilter ptr \<Rightarrow> vscpEventFilter ptr \<Rightarrow> vscpEventFilter ptr safe" where
  "vscp_copyVSCPFilter pToFilter pFromFilter =
     (case pToFilter of None \<Rightarrow> Some None
      | Some to \<Rightarrow> (case pFromFilter of None \<Rightarrow> Some (Some to)
      | Some from \<Rightarrow> do {
          let to = to\<lparr>filter_priority := filter_priority from, mask_priority := mask_priority from,
                      filter_class := filter_class from, mask_class := mask_class from,
                      filter_type := filter_type from, mask_type := mask_type from\<rparr>;
          fg \<leftarrow> rd_block (filter_GUID from) 0 16;
          fg \<leftarrow> wr_block (filter_GUID to) 0 fg;
          mg \<leftarrow> rd_block (mask_GUID from) 0 16;
          mg \<leftarrow> wr_block (mask_GUID to) 0 mg;
          Some (Some (to\<lparr>filter_GUID := fg, mask_GUID := mg\<rparr>)) }))"

section \<open>Comma separated text\<close>

text \<open>The assignments that the readers make from one token each.\<close>

type_synonym field_setter = "string \<Rightarrow> vscpEventFilter \<Rightarrow> vscpEventFilter safe"

definition set_filter_priority :: field_setter where
  "set_filter_priority s f = Some (f\<lparr>filter_priority := word_of_int (vscp_readStringValue s)\<rparr>)"

definition set_filter_class :: field_setter where
  "set_filter_class s f = Some (f\<lparr>filter_class := word_of_int (vscp_readStringValue s)\<rparr>)"

definition set_filter_type :: field_setter where
  "set_filter_type s f = Some (f\<lparr>filter_type := word_of_int (vscp_readStringValue s)\<rparr>)"

definition set_filter_guid :: field_setter where
  "set_filter_guid s f =
     do { (_, g) \<leftarrow> vscp_getGuidFromStringToArray (Some (filter_GUID f)) s;
          g \<leftarrow> g; Some (f\<lparr>filter_GUID := g\<rparr>) }"

definition set_mask_priority :: field_setter where
  "set_mask_priority s f = Some (f\<lparr>mask_priority := word_of_int (vscp_readStringValue s)\<rparr>)"

definition set_mask_class :: field_setter where
  "set_mask_class s f = Some (f\<lparr>mask_class := word_of_int (vscp_readStringValue s)\<rparr>)"

definition set_mask_type :: field_setter where
  "set_mask_type s f = Some (f\<lparr>mask_type := word_of_int (vscp_readStringValue s)\<rparr>)"

definition set_mask_guid :: field_setter where
  "set_mask_guid s f =
     do { (_, g) \<leftarrow> vscp_getGuidFromStringToArray (Some (mask_GUID f)) s;
          g \<leftarrow> g; Some (f\<lparr>mask_GUID := g\<rparr>) }"

text \<open>One step per field: take the next token and assign it, or return when there is none.\<close>

fun read_fields :: "field_setter list \<Rightarrow> string list \<Rightarrow> vscpEventFilter \<Rightarrow> vscpEventFilter safe" where
  "read_fields [] tokens f = Some f"
| "read_fields (s # setters) [] f = Some f"
| "read_fields (s # setters) (t # tokens) f = do { f \<leftarrow> s t f; read_fields setters tokens f }"

definition vscp_readFilterFromString ::
  "vscpEventFilter ptr \<Rightarrow> string \<Rightarrow> (bool \<times> vscpEventFilter ptr) safe" where
  "vscp_readFilterFromString pFilter strFilter =
     (case pFilter of None \<Rightarrow> Some (False, None)
      | Some f \<Rightarrow> do {
          let f = f\<lparr>filter_priority := 0, filter_class := 0, filter_type := 0,
                    filter_GUID := replicate 16 0\<rparr>;
          f \<leftarrow> read_fields [set_filter_priority, set_filter_class, set_filter_type, set_filter_guid]
                 (vscp_split strFilter (CHR '','')) f;
          Some (True, Some f) })"

definition vscp_readMaskFromString ::
  "vscpEventFilter ptr \<Rightarrow> string \<Rightarrow> (bool \<times> vscpEventFilter ptr) safe" where
  "vscp_readMaskFromString pFilter strMask =
     (case pFilter of None \<Rightarrow> Some (False, None)
      | Some f \<Rightarrow> do {
          let f = f\<lparr>mask_priority := 0, mask_class := 0, mask_type := 0,
                    mask_GUID := replicate 16 0\<rparr>;
          f \<leftarrow> read_fields [set_mask_priority, set_mask_class, set_mask_type, set_mask_guid]
                 (vscp_split strMask (CHR '','')) f;
          Some (True, Some f) })"

definition vscp_readFilterMaskFromString ::
  "vscpEventFilter ptr \<Rightarrow> string \<Rightarrow> (bool \<times> vscpEventFilter ptr) safe" where
  "vscp_readFilterMaskFromString pFilter strFilterMask =
     (case pFilter of None \<Rightarrow> Some (False, None)
      | Some f \<Rightarrow> do {
          cleared \<leftarrow> vscp_clearVSCPFilter (Some f);
          f \<leftarrow> read_fields
                 [set_filter_priority, set_filter_class, set_filter_type, set_filter_guid,
                  set_mask_priority, set_mask_class, set_mask_type, set_mask_guid]
                 (vscp_split strFilterMask (CHR '','')) cleared;
          Some (True, Some f) })"

definition vscp_writeFilterToString ::
  "string \<Rightarrow> vscpEventFilter ptr \<Rightarrow> (bool \<times> string) safe" where
  "vscp_writeFilterToString strFilter pFilter =
     (case pFilter of None \<Rightarrow> Some (False, strFilter)
      | Some f \<Rightarrow> do {
          guid \<leftarrow> cguid_getFromArray (filter_GUID f);
          Some (True, join (CHR '','')
            [fmt_d (unat (filter_priority f)), fmt_d (unat (filter_class f)),
             fmt_d (unat (filter_type f)), cguid_toString guid]) })"

definition vscp_writeMaskToString ::
  "string \<Rightarrow> vscpEventFilter ptr \<Rightarrow> (bool \<times> string) safe" where
  "vscp_writeMaskToString strFilter pFilter =
     (case pFilter of None \<Rightarrow> Some (False, strFilter)
      | Some f \<Rightarrow> do {
          guid \<leftarrow> cguid_getFromArray (mask_GUID f);
          Some (True, join (CHR '','')
            [fmt_d (unat (mask_priority f)), fmt_d (unat (mask_class f)),
             fmt_d (unat (mask_type f)), cguid_toString guid]) })"

section \<open>XML\<close>

text \<open>
  What expat reports to the element handlers while it parses a text: the start of an element with
  its attributes in document order, and the end of an element.
\<close>

datatype sax_event = Start_element string "(string \<times> string) list" | End_element string

definition xml_attribute :: "string \<times> string \<Rightarrow> vscpEventFilter \<Rightarrow> vscpEventFilter safe" where
  "xml_attribute a f =
     (case a of (key, attribute) \<Rightarrow>
        if key = ''mask_priority'' then set_mask_priority attribute f
        else if key = ''mask_class'' then set_mask_class attribute f
        else if key = ''mask_type'' then set_mask_type attribute f
        else if key = ''mask_guid'' then set_mask_guid attribute f
        else if key = ''filter_priority'' then set_filter_priority attribute f
        else if key = ''filter_class'' then set_filter_class attribute f
        else if key = ''filter_type'' then set_filter_type attribute f
        else if key = ''filter_guid'' then set_filter_guid attribute f
        else Some f)"

fun xml_attributes :: "(string \<times> string) list \<Rightarrow> vscpEventFilter \<Rightarrow> vscpEventFilter safe" where
  "xml_attributes [] f = Some f"
| "xml_attributes (a # attr) f = do { f \<leftarrow> xml_attribute a f; xml_attributes attr f }"

text \<open>The global nesting counter and the filter that is the user data of the handlers.\<close>

definition startFilterMaskXMLParser ::
  "string \<Rightarrow> (string \<times> string) list \<Rightarrow> int \<times> vscpEventFilter \<Rightarrow> (int \<times> vscpEventFilter) safe" where
  "startFilterMaskXMLParser name attr s =
     (case s of (depth, f) \<Rightarrow> do {
        f \<leftarrow> (if name = ''filter'' \<and> depth = 0 then xml_attributes attr f else Some f);
        Some (depth + 1, f) })"

definition endFilterMaskXMLParser :: "int \<times> vscpEventFilter \<Rightarrow> int \<times> vscpEventFilter" where
  "endFilterMaskXMLParser s = (case s of (depth, f) \<Rightarrow> (depth - 1, f))"

fun sax_run :: "sax_event list \<Rightarrow> int \<times> vscpEventFilter \<Rightarrow> (int \<times> vscpEventFilter) safe" where
  "sax_run [] s = Some s"
| "sax_run (Start_element name attr # evs) s =
     do { s \<leftarrow> startFilterMaskXMLParser name attr s; sax_run evs s }"
| "sax_run (End_element name # evs) s = sax_run evs (endFilterMaskXMLParser s)"

definition XML_BUFF_SIZE :: nat where "XML_BUFF_SIZE = 0xffff"

text \<open>
  \<open>expat\<close> stands for \<^verbatim>\<open>XML_ParseBuffer\<close>: the events it reports and whether it accepted the text. The
  text is copied into a buffer of \<^verbatim>\<open>XML_BUFF_SIZE\<close> bytes without a check of its length.
\<close>

definition vscp_readFilterMaskFromXML ::
  "(string \<Rightarrow> sax_event list \<times> bool) \<Rightarrow> int \<Rightarrow> vscpEventFilter ptr \<Rightarrow> string
   \<Rightarrow> (bool \<times> int \<times> vscpEventFilter ptr) safe" where
  "vscp_readFilterMaskFromXML expat depth pFilter strFilter =
     (case pFilter of None \<Rightarrow> Some (False, depth, None)
      | Some f \<Rightarrow>
         if length strFilter = 0 then Some (False, depth, Some f)
         else if length strFilter > XML_BUFF_SIZE then None
         else (case expat strFilter of (evs, ok) \<Rightarrow> do {
                 (depth, f) \<leftarrow> sax_run evs (depth, f);
                 Some (ok, depth, Some f) }))"

definition quoted :: "string \<Rightarrow> string" where
  "quoted s = [CHR 0x22] @ s @ [CHR 0x22]"

definition vscp_writeFilterMaskToXML ::
  "string \<Rightarrow> vscpEventFilter ptr \<Rightarrow> bool \<times> string" where
  "vscp_writeFilterMaskToXML strFilter pFilter =
     (case pFilter of None \<Rightarrow> (False, strFilter)
      | Some f \<Rightarrow>
         (let strmaskguid = snd (vscp_writeGuidArrayToString [] (Some (mask_GUID f)) False VSCP_GUID_STR_FORMAT_NORMAL);
              strfilterguid = snd (vscp_writeGuidArrayToString [] (Some (filter_GUID f)) False VSCP_GUID_STR_FORMAT_NORMAL)
          in (True,
              ''<filter mask_priority='' @ quoted (fmt_d (unat (mask_priority f))) @ '' '' @ [CHR 0x0A]
              @ ''mask_class='' @ quoted (fmt_d (unat (mask_class f))) @ '' '' @ [CHR 0x0A]
              @ ''mask_type='' @ quoted (fmt_d (unat (mask_type f))) @ '' '' @ [CHR 0x0A]
              @ ''mask_guid='' @ quoted strmaskguid @ '' '' @ [CHR 0x0A]
              @ ''filter_priority='' @ quoted (fmt_d (unat (filter_priority f))) @ '' '' @ [CHR 0x0A]
              @ ''filter_class='' @ quoted (fmt_d (unat (filter_class f))) @ '' '' @ [CHR 0x0A]
              @ ''filter_type='' @ quoted (fmt_d (unat (filter_type f))) @ '' '' @ [CHR 0x0A]
              @ ''filter_guid='' @ quoted strfilterguid @ '' />'')))"

section \<open>JSON\<close>

text \<open>
  The values the reader looks at in a parsed object. \<open>json_parse\<close> stands for \<^verbatim>\<open>json::parse\<close>: it gives
  the members of the object, or \<open>None\<close> when it throws.
\<close>

datatype json_value = J_number int | J_bool bool | J_string string | J_other

fun json_uint :: "json_value \<Rightarrow> int option" where
  "json_uint (J_number n) = Some n"
| "json_uint (J_bool b) = Some (if b then 1 else 0)"
| "json_uint _ = None"

fun json_text :: "json_value \<Rightarrow> string option" where
  "json_text (J_string s) = Some s"
| "json_text _ = None"

text \<open>One member: not present, or assigned, or of a type whose conversion throws.\<close>

datatype step = Go vscpEventFilter | Thrown vscpEventFilter

definition json_number ::
  "(string \<Rightarrow> json_value option) \<Rightarrow> string \<Rightarrow> (int \<Rightarrow> vscpEventFilter \<Rightarrow> vscpEventFilter) \<Rightarrow> step \<Rightarrow> step" where
  "json_number j key upd s =
     (case s of Thrown f \<Rightarrow> Thrown f
      | Go f \<Rightarrow> (case j key of None \<Rightarrow> Go f
      | Some v \<Rightarrow> (case json_uint v of None \<Rightarrow> Thrown f | Some n \<Rightarrow> Go (upd n f))))"

definition json_guid ::
  "(string \<Rightarrow> json_value option) \<Rightarrow> string \<Rightarrow> (u8 list \<Rightarrow> vscpEventFilter \<Rightarrow> vscpEventFilter) \<Rightarrow> step \<Rightarrow> step" where
  "json_guid j key upd s =
     (case s of Thrown f \<Rightarrow> Thrown f
      | Go f \<Rightarrow> (case j key of None \<Rightarrow> Go f
      | Some v \<Rightarrow> (case json_text v of None \<Rightarrow> Thrown f
                   | Some t \<Rightarrow> Go (upd (cguid_getFromString t) f))))"

definition vscp_readFilterMaskFromJSON ::
  "(string \<Rightarrow> (string \<Rightarrow> json_value option) option) \<Rightarrow> vscpEventFilter ptr \<Rightarrow> string
   \<Rightarrow> bool \<times> vscpEventFilter ptr" where
  "vscp_readFilterMaskFromJSON json_parse pFilter strFilter =
     (case pFilter of None \<Rightarrow> (False, None)
      | Some f \<Rightarrow> (case json_parse strFilter of None \<Rightarrow> (False, Some f)
      | Some j \<Rightarrow>
         (let s = Go f;
              s = json_number j ''mask_priority'' (\<lambda>n. mask_priority_update (\<lambda>_. word_of_int n)) s;
              s = json_number j ''mask_class'' (\<lambda>n. mask_class_update (\<lambda>_. word_of_int n)) s;
              s = json_number j ''mask_type'' (\<lambda>n. mask_type_update (\<lambda>_. word_of_int n)) s;
              s = json_guid j ''mask_guid'' (\<lambda>g. mask_GUID_update (\<lambda>_. g)) s;
              s = json_number j ''filter_priority'' (\<lambda>n. filter_priority_update (\<lambda>_. word_of_int n)) s;
              s = json_number j ''filter_class'' (\<lambda>n. filter_class_update (\<lambda>_. word_of_int n)) s;
              s = json_number j ''filter_type'' (\<lambda>n. filter_type_update (\<lambda>_. word_of_int n)) s;
              s = json_guid j ''filter_guid'' (\<lambda>g. filter_GUID_update (\<lambda>_. g)) s
          in case s of Go f \<Rightarrow> (True, Some f) | Thrown f \<Rightarrow> (False, Some f))))"

text \<open>A line of the JSON template: key, value, comma, line feed.\<close>

definition json_line :: "string \<Rightarrow> string \<Rightarrow> string" where
  "json_line key v = quoted key @ '': '' @ v @ '','' @ [CHR 0x0A]"

definition vscp_writeFilterMaskToJSON :: "vscpEventFilter ptr \<Rightarrow> string \<Rightarrow> bool \<times> string" where
  "vscp_writeFilterMaskToJSON pFilter strFilter =
     (case pFilter of None \<Rightarrow> (False, strFilter)
      | Some f \<Rightarrow>
         (let strmaskguid = snd (vscp_writeGuidArrayToString [] (Some (mask_GUID f)) False VSCP_GUID_STR_FORMAT_NORMAL);
              strfilterguid = snd (vscp_writeGuidArrayToString [] (Some (filter_GUID f)) False VSCP_GUID_STR_FORMAT_NORMAL)
          in (True,
              ''{'' @ [CHR 0x0A]
              @ json_line ''mask_priority'' (fmt_d (unat (mask_priority f)))
              @ json_line ''mask_class'' (fmt_d (unat (mask_class f)))
              @ json_line ''mask_type'' (fmt_d (unat (mask_type f)))
              @ json_line ''mask_guid'' (quoted strmaskguid)
              @ json_line ''filter_priority'' (fmt_d (unat (filter_priority f)))
              @ json_line ''filter_class'' (fmt_d (unat (filter_class f)))
              @ json_line ''filter_type'' (fmt_d (unat (filter_type f)))
              @ json_line ''filter_guid'' (quoted strfilterguid)
              @ ''}'')))"

section \<open>What a filter accepts\<close>

text \<open>
  The meaning of a filter: on the positions where the mask has a one, the value equals the filter.
\<close>

definition masked_eq :: "'a::len word \<Rightarrow> 'a word \<Rightarrow> 'a word \<Rightarrow> bool" where
  "masked_eq msk flt v \<longleftrightarrow> v AND msk = flt AND msk"

definition accepts :: "vscpEventFilter \<Rightarrow> event_view \<Rightarrow> bool" where
  "accepts f v \<longleftrightarrow> masked_eq (mask_class f) (filter_class f) (v_class v)
     \<and> masked_eq (mask_type f) (filter_type f) (v_type v)
     \<and> (\<forall>i<16. masked_eq (mask_GUID f ! i) (filter_GUID f ! i) (v_guid v ! i))
     \<and> masked_eq (mask_priority f) (filter_priority f) (head_priority (v_head v))"

lemma accepts_view_norm [simp]: "accepts f (view_norm v) \<longleftrightarrow> accepts f v"
  by (simp add: accepts_def view_norm_def)

lemma bits_differ_iff: "bits_differ flt v msk \<longleftrightarrow> \<not> masked_eq msk flt v"
  unfolding bits_differ_def masked_eq_def
  by (auto simp: bit_eq_iff bit_or_iff bit_and_iff bit_xor_iff bit_not_iff)

lemma masked_eq_and: "masked_eq m x y \<Longrightarrow> masked_eq (m AND n) x y"
  unfolding masked_eq_def by (simp flip: and.assoc)

lemma guid_test_iff:
  "k \<le> 16 \<Longrightarrow> guid_test flt g msk k \<longleftrightarrow> (\<forall>i. 16 - k \<le> i \<and> i < 16 \<longrightarrow> masked_eq (msk ! i) (flt ! i) (g ! i))"
proof (induction k)
  case (Suc k)
  have "16 - Suc k \<le> i \<and> i < 16 \<longleftrightarrow> i = 15 - k \<or> 16 - k \<le> i \<and> i < 16" for i
    using Suc.prems by auto
  then have "(\<forall>i. 16 - Suc k \<le> i \<and> i < 16 \<longrightarrow> P i) \<longleftrightarrow> P (15 - k) \<and> (\<forall>i. 16 - k \<le> i \<and> i < 16 \<longrightarrow> P i)" for P
    by auto
  with Suc show ?case by (simp only: guid_test.simps bits_differ_iff) simp
qed auto

text \<open>
  The contract of a filter routine on some representation of events, and what follows from it:
  a clear mask lets everything through, clearing mask bits only widens a filter, and the decision
  depends on the content of the event alone.
\<close>

locale event_filter =
  fixes do_filter :: "'e ptr \<Rightarrow> vscpEventFilter ptr \<Rightarrow> bool" and content :: "'e \<Rightarrow> event_view"
  assumes null_event: "\<not> do_filter None (Some f)"
    and decides: "do_filter (Some e) (Some f) \<longleftrightarrow> accepts f (content e)"
begin

lemma clear_mask_accepts:
  assumes "mask_priority f = 0" "mask_class f = 0" "mask_type f = 0" "\<forall>i<16. mask_GUID f ! i = 0"
  shows "do_filter (Some e) (Some f)"
  using assms by (simp add: decides accepts_def masked_eq_def)

lemma cleared_accepts: "do_filter (Some e) (vscp_clearVSCPFilter (Some f))"
  by (simp add: vscp_clearVSCPFilter_def zero_filter_def clear_mask_accepts)

lemma wider_mask_accepts:
  assumes "do_filter (Some e) (Some f)"
  shows "do_filter (Some e) (Some (f\<lparr>mask_class := mask_class f AND c, mask_type := mask_type f AND t,
            mask_priority := mask_priority f AND p\<rparr>))"
proof -
  show ?thesis
    using assms unfolding decides accepts_def by (simp add: masked_eq_and)
qed

end

interpretation ev_filter: event_filter vscp_doLevel2Filter ev_view
  by unfold_locales
    (auto simp: vscp_doLevel2Filter_def accepts_def bits_differ_iff guid_test_iff ev_view_def
      vscp_getEventPriority_def)

interpretation ex_filter: event_filter vscp_doLevel2FilterEx ex_view
  by unfold_locales
    (auto simp: vscp_doLevel2FilterEx_def accepts_def bits_differ_iff guid_test_iff ex_view_def
      vscp_getEventExPriority_def)

text \<open>Two representations of the same content are treated alike.\<close>

locale filter_pair = a: event_filter fa ca + b: event_filter fb cb for fa ca fb cb
begin

lemma same_decision:
  "ca x = view_norm (cb y) \<Longrightarrow> fa (Some x) (Some f) \<longleftrightarrow> fb (Some y) (Some f)"
  by (simp add: a.decides b.decides)

end

interpretation ev_ex_filter: filter_pair vscp_doLevel2Filter ev_view vscp_doLevel2FilterEx ex_view ..
interpretation ex_ev_filter: filter_pair vscp_doLevel2FilterEx ex_view vscp_doLevel2Filter ev_view ..
interpretation ev_ev_filter: filter_pair vscp_doLevel2Filter ev_view vscp_doLevel2Filter ev_view ..

section \<open>Text forms\<close>

lemma set_fields_text:
  "set_filter_priority (fmt_d (unat p)) f = Some (f\<lparr>filter_priority := p\<rparr>)"
  "set_filter_class (fmt_d (unat c)) f = Some (f\<lparr>filter_class := c\<rparr>)"
  "set_filter_type (fmt_d (unat t)) f = Some (f\<lparr>filter_type := t\<rparr>)"
  "set_mask_priority (fmt_d (unat p)) f = Some (f\<lparr>mask_priority := p\<rparr>)"
  "set_mask_class (fmt_d (unat c)) f = Some (f\<lparr>mask_class := c\<rparr>)"
  "set_mask_type (fmt_d (unat t)) f = Some (f\<lparr>mask_type := t\<rparr>)"
proof -
  have "unat x < 2 ^ 63" for x :: u8 using unat_u8_less [of x] by simp
  moreover have "unat x < 2 ^ 63" for x :: u16 using unat_u16_less [of x] by simp
  ultimately show
    "set_filter_priority (fmt_d (unat p)) f = Some (f\<lparr>filter_priority := p\<rparr>)"
    "set_filter_class (fmt_d (unat c)) f = Some (f\<lparr>filter_class := c\<rparr>)"
    "set_filter_type (fmt_d (unat t)) f = Some (f\<lparr>filter_type := t\<rparr>)"
    "set_mask_priority (fmt_d (unat p)) f = Some (f\<lparr>mask_priority := p\<rparr>)"
    "set_mask_class (fmt_d (unat c)) f = Some (f\<lparr>mask_class := c\<rparr>)"
    "set_mask_type (fmt_d (unat t)) f = Some (f\<lparr>mask_type := t\<rparr>)"
    by (simp_all add: set_filter_priority_def set_filter_class_def set_filter_type_def
        set_mask_priority_def set_mask_class_def set_mask_type_def readStringValue_fmt_d)
qed

lemma set_guids_text:
  "length g = 16 \<Longrightarrow> length (filter_GUID f) = 16 \<Longrightarrow>
   set_filter_guid (cguid_toString g) f = Some (f\<lparr>filter_GUID := g\<rparr>)"
  "length g = 16 \<Longrightarrow> length (mask_GUID f) = 16 \<Longrightarrow>
   set_mask_guid (cguid_toString g) f = Some (f\<lparr>mask_GUID := g\<rparr>)"
  by (simp_all add: set_filter_guid_def set_mask_guid_def standard.to_array)

lemma no_comma: "CHR '','' \<notin> set (fmt_d n)" "CHR '','' \<notin> set (cguid_toString g)"
proof -
  show "CHR '','' \<notin> set (fmt_d n)" using fmt_d_digit [of "CHR '',''" n] by auto
  have "c \<in> set (cguid_toString g) \<Longrightarrow> c = CHR '':'' \<or> isHexDigit c" for c
    by (auto simp: cguid_toString_def dest!: set_join fmt_02X_hex)
  then show "CHR '','' \<notin> set (cguid_toString g)" by (fastforce simp: isHexDigit_def)
qed

lemma split_filter_text:
  "vscp_split (join (CHR '','') [fmt_d a, fmt_d b, fmt_d c, cguid_toString g]) (CHR '','')
     = [fmt_d a, fmt_d b, fmt_d c, cguid_toString g]"
  by (rule split_join) (auto simp: no_comma fmt_d_nonempty)

text \<open>Reading any sequence of fields never fails on a filter with sixteen byte GUIDs and keeps it one.\<close>

lemma wf_setters:
  "wf_filter f \<Longrightarrow> s \<in> {set_filter_priority, set_filter_class, set_filter_type, set_filter_guid,
      set_mask_priority, set_mask_class, set_mask_type, set_mask_guid}
   \<Longrightarrow> \<exists>f'. s t f = Some f' \<and> wf_filter f'"
  using guid_parse_length [of t]
  by (auto simp: wf_filter_def set_filter_priority_def set_filter_class_def set_filter_type_def
      set_filter_guid_def set_mask_priority_def set_mask_class_def set_mask_type_def
      set_mask_guid_def vscp_getGuidFromStringToArray_def cguid_getFromString_def wr_block_zero)

lemma wf_read_fields:
  "wf_filter f \<Longrightarrow> set setters \<subseteq> {set_filter_priority, set_filter_class, set_filter_type, set_filter_guid,
      set_mask_priority, set_mask_class, set_mask_type, set_mask_guid}
   \<Longrightarrow> \<exists>f'. read_fields setters tokens f = Some f' \<and> wf_filter f'"
proof (induction setters tokens f rule: read_fields.induct)
  case (3 s setters t tokens f)
  obtain f' where "s t f = Some f'" "wf_filter f'" using wf_setters [of f s t] 3(2,3) by auto
  with 3 show ?case by auto
qed simp_all

lemma wf_xml_attributes: "wf_filter f \<Longrightarrow> \<exists>f'. xml_attributes attr f = Some f' \<and> wf_filter f'"
proof (induction attr arbitrary: f)
  case (Cons a attr)
  have "\<exists>f'. xml_attribute a f = Some f' \<and> wf_filter f'"
    using wf_setters [OF Cons.prems] Cons.prems by (simp add: xml_attribute_def split: prod.split)
  with Cons.IH show ?case by auto
qed simp

section \<open>The nesting counter of the XML handlers\<close>

text \<open>A document whose elements are all closed.\<close>

inductive balanced :: "sax_event list \<Rightarrow> bool" where
  Empty: "balanced []"
| Element: "balanced xs \<Longrightarrow> balanced ys \<Longrightarrow> balanced (Start_element n attr # xs @ End_element n # ys)"

lemma sax_run_append: "sax_run (xs @ ys) s = Option.bind (sax_run xs s) (sax_run ys)"
  by (induction xs s rule: sax_run.induct) (auto split: bind_splits)

lemma sax_run_inside:
  "balanced evs \<Longrightarrow> 0 < d \<Longrightarrow> sax_run evs (d, f) = Some (d, f)"
proof (induction arbitrary: d f rule: balanced.induct)
  case (Element xs ys n attr)
  then show ?case
    by (simp add: startFilterMaskXMLParser_def endFilterMaskXMLParser_def sax_run_append)
qed simp

lemma sax_run_document:
  assumes "balanced xs"
  shows "sax_run (Start_element n attr # xs @ [End_element n]) (0, f)
       = map_option (Pair 0) (if n = ''filter'' then xml_attributes attr f else Some f)"
  using sax_run_inside [OF assms, of 1]
  by (cases "xml_attributes attr f")
    (auto simp: startFilterMaskXMLParser_def endFilterMaskXMLParser_def sax_run_append)

definition filter_attributes :: "vscpEventFilter \<Rightarrow> (string \<times> string) list" where
  "filter_attributes f =
     [(''mask_priority'', fmt_d (unat (mask_priority f))), (''mask_class'', fmt_d (unat (mask_class f))),
      (''mask_type'', fmt_d (unat (mask_type f))), (''mask_guid'', cguid_toString (mask_GUID f)),
      (''filter_priority'', fmt_d (unat (filter_priority f))),
      (''filter_class'', fmt_d (unat (filter_class f))),
      (''filter_type'', fmt_d (unat (filter_type f))), (''filter_guid'', cguid_toString (filter_GUID f))]"

lemma xml_attributes_filter:
  "wf_filter f \<Longrightarrow> wf_filter g \<Longrightarrow> xml_attributes (filter_attributes f) g = Some f"
  by (simp add: filter_attributes_def xml_attribute_def set_fields_text set_guids_text wf_filter_def)

section \<open>Properties\<close>

text \<open>C30: An event passes a filter exactly when class, type, every GUID byte and the priority agree with
  the filter on the bits the mask selects; both routines decide alike.\<close>

theorem filter_decides_by_masked_bits:
  "(vscp_doLevel2Filter (Some ev) (Some f) \<longleftrightarrow> accepts f (ev_view ev))
   \<and> (vscp_doLevel2FilterEx (Some ex) (Some f) \<longleftrightarrow> accepts f (ex_view ex))"
  using ev_filter.decides ex_filter.decides by blast

text \<open>Converting an event to the other representation does not change what a filter says about it.\<close>

theorem filter_agrees_after_conversion:
  assumes "wf_event ev" and "raw_eventEx ex"
  shows "\<exists>ex'. vscp_convertEventToEventEx (Some ex) (Some ev) = Some (True, Some ex')
     \<and> vscp_doLevel2FilterEx (Some ex') (Some f) = vscp_doLevel2Filter (Some ev) (Some f)"
proof -
  obtain ex' where "vscp_convertEventToEventEx (Some ex) (Some ev) = Some (True, Some ex')"
      "ex_view ex' = view_norm (ev_view ev)"
    using to_ex.copies [OF assms] by blast
  then show ?thesis using ex_ev_filter.same_decision by blast
qed

theorem filter_agrees_after_conversion_witness:
  "\<exists>ex'. vscp_convertEventToEventEx (Some blank_eventEx) (Some sample_event) = Some (True, Some ex')
     \<and> vscp_doLevel2FilterEx (Some ex') (Some zero_filter) = vscp_doLevel2Filter (Some sample_event) (Some zero_filter)"
  by (rule filter_agrees_after_conversion [OF sample_event_ok(1,2)])

text \<open>C31: A filter written as text, filter part and mask part, and read into any other filter
  structure, part after part, gives the filter back.\<close>

theorem filter_text_round_trip:
  assumes "wf_filter f" and "wf_filter g"
  shows "\<exists>s m g'. vscp_writeFilterToString str (Some f) = Some (True, s)
     \<and> vscp_writeMaskToString str (Some f) = Some (True, m)
     \<and> vscp_readFilterFromString (Some g) s = Some (True, Some g')
     \<and> vscp_readMaskFromString (Some g') m = Some (True, Some f)"
  using assms
  by (simp add: vscp_writeFilterToString_def vscp_writeMaskToString_def cguid_getFromArray_def
      rd_block_in_range wf_filter_def vscp_readFilterFromString_def vscp_readMaskFromString_def
      split_filter_text set_fields_text set_guids_text del: join.simps)

theorem filter_text_round_trip_witness:
  "\<exists>s m g'. vscp_writeFilterToString [] (Some (zero_filter\<lparr>mask_class := 20\<rparr>)) = Some (True, s)
     \<and> vscp_writeMaskToString [] (Some (zero_filter\<lparr>mask_class := 20\<rparr>)) = Some (True, m)
     \<and> vscp_readFilterFromString (Some zero_filter) s = Some (True, Some g')
     \<and> vscp_readMaskFromString (Some g') m = Some (True, Some (zero_filter\<lparr>mask_class := 20\<rparr>))"
  by (rule filter_text_round_trip) (simp_all add: wf_filter_def zero_filter_def)

text \<open>Whatever the text, the readers return, stay inside the arrays and leave a filter with two
  sixteen byte GUIDs.\<close>

theorem filter_readers_keep_invariant:
  assumes "wf_filter f"
  shows "\<exists>a b c. vscp_readFilterFromString (Some f) s = Some (True, Some a) \<and> wf_filter a
     \<and> vscp_readMaskFromString (Some f) s = Some (True, Some b) \<and> wf_filter b
     \<and> vscp_readFilterMaskFromString (Some f) s = Some (True, Some c) \<and> wf_filter c"
proof -
  let ?a = "f\<lparr>filter_priority := 0, filter_class := 0, filter_type := 0, filter_GUID := replicate 16 0\<rparr>"
  let ?b = "f\<lparr>mask_priority := 0, mask_class := 0, mask_type := 0, mask_GUID := replicate 16 0\<rparr>"
  have "wf_filter ?a" "wf_filter ?b" "wf_filter zero_filter"
    using assms by (simp_all add: wf_filter_def zero_filter_def)
  then have "\<exists>a. read_fields [set_filter_priority, set_filter_class, set_filter_type, set_filter_guid]
       (vscp_split s (CHR '','')) ?a = Some a \<and> wf_filter a"
    and "\<exists>b. read_fields [set_mask_priority, set_mask_class, set_mask_type, set_mask_guid]
       (vscp_split s (CHR '','')) ?b = Some b \<and> wf_filter b"
    and "\<exists>c. read_fields [set_filter_priority, set_filter_class, set_filter_type, set_filter_guid,
       set_mask_priority, set_mask_class, set_mask_type, set_mask_guid]
       (vscp_split s (CHR '','')) zero_filter = Some c \<and> wf_filter c"
    by (auto intro!: wf_read_fields)
  then show ?thesis
    by (auto simp: vscp_readFilterFromString_def vscp_readMaskFromString_def
        vscp_readFilterMaskFromString_def vscp_clearVSCPFilter_def)
qed

theorem filter_readers_keep_invariant_witness:
  "\<exists>a b c. vscp_readFilterFromString (Some zero_filter) ''1,x,3'' = Some (True, Some a) \<and> wf_filter a
     \<and> vscp_readMaskFromString (Some zero_filter) ''1,x,3'' = Some (True, Some b) \<and> wf_filter b
     \<and> vscp_readFilterMaskFromString (Some zero_filter) ''1,x,3'' = Some (True, Some c) \<and> wf_filter c"
  by (rule filter_readers_keep_invariant) (simp add: wf_filter_def zero_filter_def)

text \<open>When expat reports the element written by the XML writer, with its attributes, the reader
  restores the filter, provided no element is open from an earlier text.\<close>

theorem filter_xml_round_trip:
  assumes "wf_filter f" and "wf_filter g"
    and "snd (vscp_writeFilterMaskToXML [] (Some f)) = text" and "length text \<le> XML_BUFF_SIZE"
    and "expat text = ([Start_element ''filter'' (filter_attributes f), End_element ''filter''], True)"
  shows "vscp_readFilterMaskFromXML expat 0 (Some g) text = Some (True, 0, Some f)"
proof -
  have "text \<noteq> []" using assms(3) by (auto simp: vscp_writeFilterMaskToXML_def Let_def)
  then show ?thesis
    using assms(4,5) sax_run_document [OF Empty, of "''filter''" "filter_attributes f" g]
      xml_attributes_filter [OF assms(1,2)]
    by (simp add: vscp_readFilterMaskFromXML_def)
qed

theorem filter_xml_round_trip_witness:
  "vscp_readFilterMaskFromXML
     (\<lambda>t. ([Start_element ''filter'' (filter_attributes zero_filter), End_element ''filter''], True)) 0
     (Some zero_filter) (snd (vscp_writeFilterMaskToXML [] (Some zero_filter)))
   = Some (True, 0, Some zero_filter)"
proof (rule filter_xml_round_trip [where f = zero_filter])
  have "length (snd (vscp_writeFilterMaskToXML [] (Some zero_filter))) = 239" by code_simp
  then show "length (snd (vscp_writeFilterMaskToXML [] (Some zero_filter))) \<le> XML_BUFF_SIZE"
    by (simp add: XML_BUFF_SIZE_def)
qed (simp_all add: wf_filter_def zero_filter_def)

text \<open>The nesting counter is global and the parser is never told that the text is complete: a text
  with an unclosed element is accepted and leaves the counter above zero, and from then on every
  well-formed filter text is accepted without any effect.\<close>

theorem filter_xml_open_element_blocks_reader:
  assumes "expat bad = ([Start_element n attr], True)" and "expat good = (evs, True)" and "balanced evs"
    and "bad \<noteq> []" and "good \<noteq> []" and "length bad \<le> XML_BUFF_SIZE" and "length good \<le> XML_BUFF_SIZE"
    and "wf_filter f"
  shows "\<exists>f'. vscp_readFilterMaskFromXML expat 0 (Some f) bad = Some (True, 1, Some f')
     \<and> vscp_readFilterMaskFromXML expat 1 (Some g) good = Some (True, 1, Some g)"
proof -
  obtain f' where "startFilterMaskXMLParser n attr (0, f) = Some (1, f')"
    using wf_xml_attributes [OF assms(8), of attr]
    by (cases "n = ''filter''") (auto simp: startFilterMaskXMLParser_def)
  then show ?thesis
    using assms sax_run_inside [OF assms(3), of 1 g] by (simp add: vscp_readFilterMaskFromXML_def)
qed

theorem filter_xml_open_element_blocks_reader_witness:
  "\<exists>f'. vscp_readFilterMaskFromXML
       (\<lambda>t. if t = ''<a>'' then ([Start_element ''a'' []], True)
            else ([Start_element ''filter'' [(''mask_class'', ''7'')], End_element ''filter''], True))
       0 (Some zero_filter) ''<a>'' = Some (True, 1, Some f')
     \<and> vscp_readFilterMaskFromXML
       (\<lambda>t. if t = ''<a>'' then ([Start_element ''a'' []], True)
            else ([Start_element ''filter'' [(''mask_class'', ''7'')], End_element ''filter''], True))
       1 (Some zero_filter) ''<filter />'' = Some (True, 1, Some zero_filter)"
  by (rule filter_xml_open_element_blocks_reader [where n = "''a''" and attr = "[]"
        and evs = "[Start_element ''filter'' [(''mask_class'', ''7'')], End_element ''filter'']"])
    (use balanced.Element [OF Empty Empty] in
      \<open>simp_all add: XML_BUFF_SIZE_def wf_filter_def zero_filter_def\<close>)

text \<open>The JSON writer puts a comma behind the last member, which JSON does not allow: with a parser
  that refuses such texts, no filter it writes can be read back.\<close>

theorem filter_json_text_is_refused:
  assumes "\<And>t. json_parse (t @ '','' @ [CHR 0x0A] @ ''}'') = None"
  shows "vscp_readFilterMaskFromJSON json_parse (Some g) (snd (vscp_writeFilterMaskToJSON (Some f) str))
       = (False, Some g)"
proof -
  have "\<exists>t. snd (vscp_writeFilterMaskToJSON (Some f) str) = t @ '','' @ [CHR 0x0A] @ ''}''"
    by (simp add: vscp_writeFilterMaskToJSON_def Let_def json_line_def [of "''filter_guid''"])
  then show ?thesis using assms by (auto simp: vscp_readFilterMaskFromJSON_def)
qed

theorem filter_json_text_is_refused_witness:
  "vscp_readFilterMaskFromJSON (\<lambda>t. if take 3 (rev t) = [CHR ''}'', CHR 0x0A, CHR '',''] then None else Some (\<lambda>_. None))
     (Some zero_filter) (snd (vscp_writeFilterMaskToJSON (Some zero_filter) [])) = (False, Some zero_filter)"
  by (rule filter_json_text_is_refused) simp

end
