(* ===== verification/Endpoint.thy ===== *)
theory Endpoint
  imports EventFilter
begin

text \<open>
  The configuration side of the datagram clients (\<^verbatim>\<open>vscp-client-datagram.h\<close>): ports, endpoints,
  network interfaces and the options of a JSON object. The address functions of the socket library
  and the interface tables of the operating system are parameters; a parsed JSON object is a map
  from its keys to values.
\<close>

section \<open>Ports\<close>

text \<open>\<open>None\<close> is the result \<^verbatim>\<open>false\<close>, which leaves the port alone. A \<^verbatim>\<open>char\<close> above 127 is negative.\<close>

fun parsePort_loop :: "string \<Rightarrow> u32 \<Rightarrow> u32 option" where
  "parsePort_loop [] val = Some val"
| "parsePort_loop (ch # text) val =
     (if ord ch < 48 \<or> ord ch > 57 then None
      else let val = val * 10 + of_nat (ord ch - 48)
           in if val > 65535 then None else parsePort_loop text val)"

definition parsePort :: "string \<Rightarrow> u16 option" where
  "parsePort text =
     (if text = [] then None
      else case parsePort_loop text 0 of None \<Rightarrow> None
           | Some val \<Rightarrow> if val = 0 then None else Some (ucast val))"

section \<open>Numbers in JSON\<close>

type_synonym json_object = "string \<Rightarrow> json_value option"

text \<open>An integer outside 64 bits is a floating point number to the JSON parser.\<close>

definition jsonUnsigned :: "json_value \<Rightarrow> u64 \<Rightarrow> u64 option" where
  "jsonUnsigned v maximum =
     (case v of
        J_number n \<Rightarrow>
          (if n < 0 then None
           else let result = word_of_int n in if result \<le> maximum then Some result else None)
      | _ \<Rightarrow> None)"

definition jsonPort :: "json_value \<Rightarrow> u16 option" where
  "jsonPort v =
     (case jsonUnsigned v 65535 of None \<Rightarrow> None
      | Some number \<Rightarrow> if number = 0 then None else Some (ucast number))"

definition optionalUnsigned :: "json_object \<Rightarrow> string \<Rightarrow> 'a::len word \<Rightarrow> 'a word option" where
  "optionalUnsigned config name val =
     (case config name of None \<Rightarrow> Some val
      | Some v \<Rightarrow> (case jsonUnsigned v (2 ^ LENGTH('a) - 1) of None \<Rightarrow> None
                    | Some number \<Rightarrow> Some (ucast number)))"

section \<open>Endpoints\<close>

text \<open>\<^verbatim>\<open>c_str()\<close> as the C library reads it.\<close>

definition until_NUL :: "string \<Rightarrow> string" where
  "until_NUL s = takeWhile (\<lambda>c. c \<noteq> NUL) s"

definition validIpv6Literal :: "(string \<Rightarrow> bool) \<Rightarrow> string \<Rightarrow> bool" where
  "validIpv6Literal inet_pton6 host =
     (case str_find host (CHR ''%'') of
        None \<Rightarrow> inet_pton6 (until_NUL host)
      | Some percent \<Rightarrow>
          if percent = 0 \<or> percent + 1 = length host \<or> CHR ''%'' \<in> set (drop (percent + 1) host) then False
          else inet_pton6 (until_NUL (take percent host)))"

definition bad_in_endpoint :: "char \<Rightarrow> bool" where
  "bad_in_endpoint c \<longleftrightarrow> c \<in> {CHR '' '', CHR 0x09, CHR 0x0D, CHR 0x0A, CHR ''/'', CHR ''?'', CHR ''#''}"

text \<open>The two branches of \<^verbatim>\<open>parseEndpoint\<close>, after the prefix of a URI was removed.\<close>

definition parse_bracketed :: "(string \<Rightarrow> bool) \<Rightarrow> bool \<Rightarrow> string \<Rightarrow> u16 \<Rightarrow> (string \<times> u16) option" where
  "parse_bracketed inet_pton6 uri val port =
     (case str_find val (CHR '']'') of None \<Rightarrow> None
      | Some fin \<Rightarrow>
         if fin = 1 then None
         else let parsedHost = take (fin - 1) (drop 1 val);
                  parsedHost =
                    (case (if uri then find_sub ''%25'' parsedHost else None) of None \<Rightarrow> parsedHost
                     | Some zone \<Rightarrow> take zone parsedHost @ ''%'' @ drop (zone + 3) parsedHost)
              in if \<not> validIpv6Literal inet_pton6 parsedHost then None
                 else if fin + 1 < length val
                 then (if val ! (fin + 1) \<noteq> CHR '':'' then None
                       else case parsePort (drop (fin + 2) val) of None \<Rightarrow> None
                            | Some port \<Rightarrow> Some (parsedHost, port))
                 else Some (parsedHost, port))"

definition parse_plain ::
  "(string \<Rightarrow> bool) \<Rightarrow> (string \<Rightarrow> bool) \<Rightarrow> string \<Rightarrow> u16 \<Rightarrow> (string \<times> u16) option" where
  "parse_plain inet_pton6 inet_pton4 val port =
     (if CHR ''['' \<in> set val \<or> CHR '']'' \<in> set val then None
      else let colons = length (filter (\<lambda>c. c = CHR '':'') val)
           in case (if colons \<ge> 2
                    then (if \<not> validIpv6Literal inet_pton6 val then None else Some (val, port))
                    else if colons = 1
                    then (let colon = the (str_find val (CHR '':''))
                          in case parsePort (drop (colon + 1) val) of None \<Rightarrow> None
                             | Some port \<Rightarrow> Some (take colon val, port))
                    else Some (val, port)) of
                None \<Rightarrow> None
              | Some (parsedHost, port) \<Rightarrow>
                  if parsedHost = [] \<or> (colons < 2 \<and> CHR ''%'' \<in> set parsedHost) then None
                  else if colons < 2 \<and> list_all (\<lambda>c. c \<in> set ''0123456789.'') parsedHost
                          \<and> \<not> inet_pton4 (until_NUL parsedHost)
                  then None else Some (parsedHost, port))"

definition parseEndpoint ::
  "(string \<Rightarrow> bool) \<Rightarrow> (string \<Rightarrow> bool) \<Rightarrow> string \<Rightarrow> u16 \<Rightarrow> (string \<times> u16) option" where
  "parseEndpoint inet_pton6 inet_pton4 inp port =
     (let uri = (take 6 inp = ''udp://'');
          val = (if uri then drop 6 inp else inp)
      in if val = [] \<or> list_ex bad_in_endpoint val then None
         else if hd val = CHR ''['' then parse_bracketed inet_pton6 uri val port
         else parse_plain inet_pton6 inet_pton4 val port)"

definition formatEndpoint :: "string \<Rightarrow> u16 \<Rightarrow> string" where
  "formatEndpoint host port =
     (case str_find host (CHR '':'') of
        None \<Rightarrow> ''udp://'' @ host @ '':'' @ fmt_d (unat port)
      | Some _ \<Rightarrow>
          (let encoded = (case str_find host (CHR ''%'') of None \<Rightarrow> host
                          | Some zone \<Rightarrow> take zone host @ ''%25'' @ drop (zone + 1) host)
           in ''udp://['' @ encoded @ '']:'' @ fmt_d (unat port)))"

section \<open>Network interfaces\<close>

text \<open>\<open>None\<close> is the return of 0 when the number does not fit \<^verbatim>\<open>unsigned int\<close>.\<close>

fun index_number :: "string \<Rightarrow> u64 \<Rightarrow> u64 option" where
  "index_number [] number = Some number"
| "index_number (ch # name) number =
     (let d = of_nat (ord ch - 48) :: u32
      in if number > ucast ((0xffffffff - d) div 10) then None
         else index_number name (number * 10 + ucast d))"

definition interface_lookup :: "(u32 \<Rightarrow> bool) \<Rightarrow> (string \<Rightarrow> u32) \<Rightarrow> string \<Rightarrow> u32" where
  "interface_lookup indextoname nametoindex name =
     (if name = [] then 0
      else if list_all (\<lambda>c. c \<in> set ''0123456789'') name
      then (case index_number name 0 of None \<Rightarrow> 0
            | Some number \<Rightarrow> if number = 0 then 0
                else if indextoname (ucast number) then ucast number else 0)
      else nametoindex (until_NUL name))"

definition interfaceIndex :: "(u32 \<Rightarrow> bool) \<Rightarrow> (string \<Rightarrow> u32) \<Rightarrow> string \<Rightarrow> u32 option" where
  "interfaceIndex indextoname nametoindex val =
     (if val = [] then Some 0
      else let index = interface_lookup indextoname nametoindex val;
               index = (if index = 0
                        then (case str_find val (CHR '' '') of None \<Rightarrow> 0
                              | Some space \<Rightarrow> interface_lookup indextoname nametoindex (take space val))
                        else index)
           in if index = 0 then None else Some index)"

section \<open>Addresses\<close>

datatype sockaddr = Ipv4 u32 | Ipv6 "u8 list" | Other_family

text \<open>The IPv4 address is in host byte order; \<^verbatim>\<open>IN6_IS_ADDR_MULTICAST\<close> tests the first byte for 0xff.\<close>

definition isMulticast :: "sockaddr \<Rightarrow> bool" where
  "isMulticast address =
     (case address of Ipv4 a \<Rightarrow> a AND 0xf0000000 = 0xe0000000
      | Ipv6 bs \<Rightarrow> bs ! 0 = 0xff
      | Other_family \<Rightarrow> False)"

section \<open>Keys\<close>

definition aesKeyLength :: "u8 \<Rightarrow> u8" where
  "aesKeyLength encryption =
     (if encryption = 1 then 16 else if encryption = 2 then 24 else if encryption = 3 then 32 else 0)"

text \<open>\<^verbatim>\<open>CRYPTO_memcmp\<close> gives 0 exactly for equal memory.\<close>

definition memory_differs :: "u8 list \<Rightarrow> u8 list \<Rightarrow> nat \<Rightarrow> bool" where
  "memory_differs a b n \<longleftrightarrow> take n a \<noteq> take n b"

definition authenticatedKeysValid :: "u8 \<Rightarrow> u8 list \<Rightarrow> u8 \<Rightarrow> u8 list \<Rightarrow> bool" where
  "authenticatedKeysValid encryption key keyLength hmacKey =
     (let expectedLength = aesKeyLength encryption
      in expectedLength \<noteq> 0 \<and> keyLength = expectedLength \<and> memory_differs key hmacKey (unat expectedLength))"

definition authenticationStateValid ::
  "u8 \<Rightarrow> u8 list \<Rightarrow> u8 \<Rightarrow> u8 list \<Rightarrow> u8 \<Rightarrow> u8 list \<Rightarrow> bool" where
  "authenticationStateValid encryption key keyLength hmacKey configuredEncryption configuredKey =
     (encryption = configuredEncryption \<and> \<not> memory_differs key configuredKey 32
      \<and> authenticatedKeysValid encryption key keyLength hmacKey)"

definition authenticationOptionsExplicit ::
  "json_object \<Rightarrow> u8 \<Rightarrow> u8 list \<Rightarrow> u8 \<Rightarrow> u8 list \<Rightarrow> bool" where
  "authenticationOptionsExplicit config encryption key configuredEncryption configuredKey =
     ((config ''encryption'' \<noteq> None \<or> encryption = configuredEncryption)
      \<and> (config ''key'' \<noteq> None \<or> \<not> memory_differs key configuredKey 32))"

definition authenticationChanged ::
  "bool \<Rightarrow> bool \<Rightarrow> u8 \<Rightarrow> u8 \<Rightarrow> u8 list \<Rightarrow> u8 list \<Rightarrow> u8 list \<Rightarrow> u8 list \<Rightarrow> bool" where
  "authenticationChanged oldEnabled newEnabled oldEncryption newEncryption oldKey newKey oldHmacKey newHmacKey =
     ((oldEnabled \<or> newEnabled)
      \<and> (oldEnabled \<noteq> newEnabled \<or> oldEncryption \<noteq> newEncryption
         \<or> memory_differs oldKey newKey 32 \<or> memory_differs oldHmacKey newHmacKey 32))"

section \<open>The options of an event connection\<close>

record options =
  o_encryption :: u8
  o_key :: "u8 list"
  o_keyLength :: u8
  o_hmacEnabled :: bool
  o_hmacKey :: "u8 list"
  o_filter :: vscpEventFilter

text \<open>An option is refused (\<^verbatim>\<open>false\<close>; the caller drops its copies), or an exception escapes.\<close>

datatype option_error = Refused | Exception_escapes

type_synonym option_step = "options \<Rightarrow> option_error + options"

fun in_turn :: "option_step list \<Rightarrow> option_step" where
  "in_turn [] opts = Inr opts"
| "in_turn (step # steps) opts = (case step opts of Inl e \<Rightarrow> Inl e | Inr opts \<Rightarrow> in_turn steps opts)"

definition isxdigit :: "char \<Rightarrow> bool" where
  "isxdigit c = digit_in 16 c"

definition option_encryption :: "json_object \<Rightarrow> option_step" where
  "option_encryption config opts =
     (case config ''encryption'' of None \<Rightarrow> Inr opts
      | Some v \<Rightarrow> (case jsonUnsigned v 3 of None \<Rightarrow> Inl Refused
                    | Some number \<Rightarrow> Inr (opts\<lparr>o_encryption := ucast number\<rparr>)))"

definition option_padding :: "json_object \<Rightarrow> option_step" where
  "option_padding config opts =
     (case config ''padding'' of None \<Rightarrow> Inr opts
      | Some v \<Rightarrow> if v = J_string ''pkcs7'' then Inr opts else Inl Refused)"

definition option_key :: "json_object \<Rightarrow> option_step" where
  "option_key config opts =
     (case config ''key'' of None \<Rightarrow> Inr opts
      | Some v \<Rightarrow> (case v of
          J_string hex \<Rightarrow>
            if o_encryption opts = 0 then Inr (opts\<lparr>o_key := replicate 32 0, o_keyLength := 0\<rparr>)
            else let expectedLength = aesKeyLength (o_encryption opts)
                 in if expectedLength = 0 \<or> length hex \<noteq> unat expectedLength * 2 \<or> \<not> list_all isxdigit hex
                    then Inl Refused
                    else (case vscp_hexStr2ByteArray (unat expectedLength) hex of
                            None \<Rightarrow> Inl Exception_escapes
                          | Some bs \<Rightarrow>
                              if length bs \<noteq> unat expectedLength then Inl Refused
                              else Inr (opts\<lparr>o_key := bs @ drop (length bs) (replicate 32 0),
                                             o_keyLength := expectedLength\<rparr>))
        | _ \<Rightarrow> Inl Refused))"

definition option_hmac :: "json_object \<Rightarrow> option_step" where
  "option_hmac config opts =
     (case config ''hmac-key'' of None \<Rightarrow> Inr opts
      | Some v \<Rightarrow> (case v of
          J_string hex \<Rightarrow>
            if hex = [] then Inr (opts\<lparr>o_hmacEnabled := False, o_hmacKey := replicate 32 0\<rparr>)
            else if length hex \<noteq> 64 \<or> \<not> list_all isxdigit hex then Inl Refused
            else (case vscp_hexStr2ByteArray 32 hex of
                    None \<Rightarrow> Inl Exception_escapes
                  | Some bs \<Rightarrow>
                      if length bs \<noteq> 32 then Inl Refused
                      else Inr (opts\<lparr>o_hmacKey := bs, o_hmacEnabled := True\<rparr>))
        | _ \<Rightarrow> Inl Refused))"

definition check_keys :: option_step where
  "check_keys opts =
     (if o_hmacEnabled opts
      then (let expectedLength = aesKeyLength (o_encryption opts)
            in if expectedLength = 0 \<or> o_keyLength opts \<noteq> expectedLength then Inl Refused
               else if \<not> memory_differs (o_key opts) (o_hmacKey opts) (unat expectedLength) then Inl Refused
               else Inr opts)
      else Inr opts)"

definition option_number ::
  "json_object \<Rightarrow> string \<Rightarrow> (vscpEventFilter \<Rightarrow> 'a::len word)
   \<Rightarrow> (('a word \<Rightarrow> 'a word) \<Rightarrow> vscpEventFilter \<Rightarrow> vscpEventFilter) \<Rightarrow> option_step" where
  "option_number config name get upd opts =
     (case optionalUnsigned config name (get (o_filter opts)) of None \<Rightarrow> Inl Refused
      | Some v \<Rightarrow> Inr (opts\<lparr>o_filter := upd (\<lambda>_. v) (o_filter opts)\<rparr>))"

definition option_guid ::
  "json_object \<Rightarrow> string \<Rightarrow> (vscpEventFilter \<Rightarrow> u8 list)
   \<Rightarrow> ((u8 list \<Rightarrow> u8 list) \<Rightarrow> vscpEventFilter \<Rightarrow> vscpEventFilter) \<Rightarrow> option_step" where
  "option_guid config name get upd opts =
     (case config name of None \<Rightarrow> Inr opts
      | Some v \<Rightarrow> (case v of
          J_string s \<Rightarrow>
            (case vscp_parseGuid (Some (get (o_filter opts))) s of
               (True, Some g) \<Rightarrow> Inr (opts\<lparr>o_filter := upd (\<lambda>_. g) (o_filter opts)\<rparr>)
             | _ \<Rightarrow> Inl Refused)
        | _ \<Rightarrow> Inl Refused))"

definition eventOptions :: "json_object \<Rightarrow> option_step" where
  "eventOptions config =
     in_turn
       [option_encryption config, option_padding config, option_key config, option_hmac config, check_keys,
        option_number config ''priority-filter'' filter_priority filter_priority_update,
        option_number config ''priority-mask'' mask_priority mask_priority_update,
        option_number config ''class-filter'' filter_class filter_class_update,
        option_number config ''class-mask'' mask_class mask_class_update,
        option_number config ''type-filter'' filter_type filter_type_update,
        option_number config ''type-mask'' mask_type mask_type_update,
        option_guid config ''guid-filter'' filter_GUID filter_GUID_update,
        option_guid config ''guid-mask'' mask_GUID mask_GUID_update]"

section \<open>Ports and numbers\<close>

text \<open>The value of digits that follow a number already read.\<close>

definition dec_from :: "nat \<Rightarrow> string \<Rightarrow> nat" where
  "dec_from v ds = foldl (\<lambda>v c. v * 10 + the (digit_value c)) v ds"

lemma dec_from_simps [simp]:
  "dec_from v [] = v" "dec_from v (c # ds) = dec_from (v * 10 + the (digit_value c)) ds"
  by (simp_all add: dec_from_def)

lemma digits_value_dec: "digits_value 10 ds = dec_from 0 ds"
  by (simp add: digits_value_def dec_from_def)

lemma dec_from_ge: "v \<le> dec_from v ds"
proof (induction ds arbitrary: v)
  case (Cons c ds)
  show ?case using Cons.IH [of "v * 10 + the (digit_value c)"] by simp
qed simp

lemma digit_in_dec: "digit_in 10 c \<longleftrightarrow> 48 \<le> ord c \<and> ord c \<le> 57"
  by (auto simp: digit_in_def digit_value_def)

lemma digit_value_dec_char: "digit_in 10 c \<Longrightarrow> the (digit_value c) = ord c - 48"
  by (auto simp: digit_in_dec digit_value_def)

lemma unat_of_nat_u32: "n < 2 ^ 32 \<Longrightarrow> unat (of_nat n :: u32) = n"
  by (simp add: unsigned_of_nat take_bit_nat_eq_self)

lemma parsePort_loop_eq:
  "v \<le> 65535 \<Longrightarrow>
   parsePort_loop ds (of_nat v)
     = (if list_all (digit_in 10) ds \<and> dec_from v ds \<le> 65535 then Some (of_nat (dec_from v ds)) else None)"
proof (induction ds arbitrary: v)
  case (Cons c ds)
  show ?case
  proof (cases "digit_in 10 c")
    case True
    let ?w = "v * 10 + (ord c - 48)"
    have d: "48 \<le> ord c" "ord c \<le> 57" using True by (simp_all add: digit_in_dec)
    have small: "?w < 2 ^ 32" using Cons.prems d(2) by simp
    have val: "of_nat v * 10 + of_nat (ord c - 48) = (of_nat ?w :: u32)" by simp
    have gt: "(of_nat ?w :: u32) > 65535 \<longleftrightarrow> ?w > 65535"
      unfolding word_less_nat_alt unat_of_nat_u32 [OF small] by simp
    have step: "parsePort_loop (c # ds) (of_nat v)
        = (if ?w > 65535 then None else parsePort_loop ds (of_nat ?w))"
      using d by (simp only: parsePort_loop.simps Let_def val gt) simp
    show ?thesis
    proof (cases "?w > 65535")
      case True
      then have "\<not> dec_from ?w ds \<le> 65535" using dec_from_ge [of ?w ds] by simp
      then show ?thesis using step True \<open>digit_in 10 c\<close> by (simp add: digit_value_dec_char)
    next
      case False
      then show ?thesis using step Cons.IH [of ?w] \<open>digit_in 10 c\<close> by (simp add: digit_value_dec_char)
    qed
  qed (auto simp: digit_in_dec)
qed simp

lemma parsePort_eq:
  "parsePort s = (if s \<noteq> [] \<and> list_all (digit_in 10) s \<and> digits_value 10 s \<in> {1..65535}
                  then Some (of_nat (digits_value 10 s)) else None)"
proof -
  have loop: "parsePort_loop s 0
      = (if list_all (digit_in 10) s \<and> dec_from 0 s \<le> 65535 then Some (of_nat (dec_from 0 s)) else None)"
    using parsePort_loop_eq [of 0 s] by simp
  have zero: "(of_nat n :: u32) = 0 \<longleftrightarrow> n = 0" if "n \<le> 65535" for n
    using that by (simp add: word_unat_eq_iff unsigned_of_nat take_bit_nat_eq_self)
  have down: "(ucast (of_nat n :: u32) :: u16) = of_nat n" if "n \<le> 65535" for n
    using that by (simp add: word_unat_eq_iff unsigned_of_nat take_bit_nat_eq_self unsigned_ucast_eq)
  show ?thesis unfolding parsePort_def loop digits_value_dec using zero down by auto
qed

lemma fmt_d_digits: "list_all (digit_in 10) (fmt_d n)"
  by (auto simp: list_all_iff digit_in_dec dest: fmt_d_digit)

lemma parsePort_fmt_d: "port \<noteq> 0 \<Longrightarrow> parsePort (fmt_d (unat port)) = Some port"
  using unat_u16_less [of port] fmt_d_digits [of "unat port"]
  by (simp add: parsePort_eq digits_value_fmt_d Suc_le_eq unat_gt_0)

lemma parsePort_nonzero: "parsePort s = Some port \<Longrightarrow> port \<noteq> 0"
  by (auto simp: parsePort_eq word_unat_eq_iff unsigned_of_nat take_bit_nat_eq_self split: if_splits)

section \<open>Finding characters\<close>

lemma str_find_None_iff: "str_find s c = None \<longleftrightarrow> c \<notin> set s"
proof (induction s)
  case (Cons a s)
  then show ?case by (auto simp: str_find_def Let_def split: if_splits)
qed (simp add: str_find_def)

lemma str_find_at: "c \<notin> set a \<Longrightarrow> str_find (a @ c # b) c = Some (length a)"
  by (induction a) (auto simp: str_find_def Let_def split: if_splits)

lemma str_find_split: "str_find s c = Some n \<Longrightarrow> s = take n s @ c # drop (Suc n) s \<and> c \<notin> set (take n s)"
proof -
  assume f: "str_find s c = Some n"
  then have "n = length (takeWhile (\<lambda>x. x \<noteq> c) s)" by (auto simp: str_find_def Let_def split: if_splits)
  then have "take n s = takeWhile (\<lambda>x. x \<noteq> c) s" by (metis append_eq_conv_conj takeWhile_dropWhile_id)
  moreover have "c \<notin> set (takeWhile (\<lambda>x. x \<noteq> c) s)" by (auto dest: set_takeWhileD)
  moreover have "s = take n s @ s ! n # drop (Suc n) s" using str_find_Some [OF f] by (metis id_take_nth_drop)
  ultimately show ?thesis using str_find_Some [OF f] by simp
qed

lemma find_zone: "CHR ''%'' \<notin> set a \<Longrightarrow> find_sub ''%25'' (a @ ''%25'' @ b) = Some (length a)"
  by (induction a) auto

section \<open>Endpoints\<close>

text \<open>The hosts that an endpoint can name.\<close>

definition host_ok :: "(string \<Rightarrow> bool) \<Rightarrow> (string \<Rightarrow> bool) \<Rightarrow> string \<Rightarrow> bool" where
  "host_ok inet_pton6 inet_pton4 host \<longleftrightarrow>
     host \<noteq> [] \<and> \<not> list_ex bad_in_endpoint host \<and> CHR '']'' \<notin> set host
     \<and> (if CHR '':'' \<in> set host then validIpv6Literal inet_pton6 host
        else CHR ''['' \<notin> set host \<and> CHR ''%'' \<notin> set host
             \<and> (list_all (\<lambda>c. c \<in> set ''0123456789.'') host \<longrightarrow> inet_pton4 (until_NUL host)))"

lemma valid_literal_colon:
  assumes "\<And>s. inet_pton6 s \<Longrightarrow> CHR '':'' \<in> set s" and "validIpv6Literal inet_pton6 host"
  shows "CHR '':'' \<in> set host"
  using assms by (auto simp: validIpv6Literal_def until_NUL_def split: option.splits if_splits
      dest!: assms(1) set_takeWhileD in_set_takeD)

lemma bracketed_host:
  assumes six: "\<And>s. inet_pton6 s \<Longrightarrow> CHR '':'' \<in> set s"
    and "parse_bracketed inet_pton6 uri val port0 = Some (host, port)"
    and "\<not> list_ex bad_in_endpoint val" and "hd val = CHR ''[''" and "val \<noteq> []" and "port0 \<noteq> 0"
  shows "host_ok inet_pton6 inet_pton4 host \<and> port \<noteq> 0"
proof -
  obtain fin where f: "str_find val (CHR '']'') = Some fin" "fin \<noteq> 1"
    using assms(2) by (auto simp: parse_bracketed_def split: option.splits if_splits)
  define h where "h = take (fin - 1) (drop 1 val)"
  have "(case (if uri then find_sub ''%25'' h else None) of None \<Rightarrow> h
        | Some zone \<Rightarrow> take zone h @ ''%'' @ drop (zone + 3) h) = host"
    and v: "validIpv6Literal inet_pton6 host" and p: "port \<noteq> 0"
    using assms(2,6) f unfolding parse_bracketed_def h_def
    by (auto simp: Let_def split: option.splits if_splits dest: parsePort_nonzero)
  then have h: "set host \<subseteq> insert (CHR ''%'') (set h)"
    by (auto split: option.splits if_splits dest: in_set_takeD in_set_dropD)
  have "CHR '']'' \<notin> set (take fin val)" using str_find_split [OF f(1)] by simp
  moreover have "set h \<subseteq> set (take fin val)"
    unfolding h_def by (metis drop_take set_drop_subset One_nat_def)
  ultimately have "CHR '']'' \<notin> set host" using h by auto
  moreover have "set h \<subseteq> set val" using set_take_subset set_drop_subset by (fastforce simp: h_def)
  then have "\<not> list_ex bad_in_endpoint host"
    using h assms(3) by (auto simp: list_ex_iff bad_in_endpoint_def)
  moreover have "CHR '':'' \<in> set host" using valid_literal_colon [OF six v] .
  ultimately show ?thesis using v p by (auto simp: host_ok_def)
qed

lemma colons_none: "length (filter (\<lambda>c. c = d) s) = 0 \<longleftrightarrow> d \<notin> set s"
  by (simp add: filter_empty_conv) blast

lemma plain_host:
  assumes six: "\<And>s. inet_pton6 s \<Longrightarrow> CHR '':'' \<in> set s"
    and "parse_plain inet_pton6 inet_pton4 val port0 = Some (host, port)"
    and "\<not> list_ex bad_in_endpoint val" and "port0 \<noteq> 0"
  shows "host_ok inet_pton6 inet_pton4 host \<and> port \<noteq> 0"
proof -
  let ?n = "length (filter (\<lambda>c. c = CHR '':'') val)"
  have br: "CHR ''['' \<notin> set val" "CHR '']'' \<notin> set val"
    using assms(2) by (auto simp: parse_plain_def split: if_splits)
  consider "?n \<ge> 2" | "?n = 1" | "?n = 0" by linarith
  then show ?thesis
  proof cases
    case 1
    then have "host = val" "validIpv6Literal inet_pton6 val" "port = port0" "val \<noteq> []"
      using assms(2) br by (auto simp: parse_plain_def Let_def split: if_splits)
    then show ?thesis using assms(3,4) br valid_literal_colon [OF six] by (simp add: host_ok_def)
  next
    case 2
    then have "CHR '':'' \<in> set val" using colons_none [of "CHR '':''" val] by auto
    then obtain colon where c: "str_find val (CHR '':'') = Some colon"
      using str_find_None_iff [of val "CHR '':''"] by auto
    then have "host = take colon val" "port \<noteq> 0" "host \<noteq> []" "CHR ''%'' \<notin> set host"
      "list_all (\<lambda>c. c \<in> set ''0123456789.'') host \<longrightarrow> inet_pton4 (until_NUL host)"
      using assms(2) br 2
      by (auto simp: parse_plain_def Let_def split: if_splits option.splits dest: parsePort_nonzero)
    moreover have "set (take colon val) \<subseteq> set val" by (rule set_take_subset)
    ultimately show ?thesis
      using str_find_split [OF c] br assms(3) by (auto simp: host_ok_def list_ex_iff)
  next
    case 3
    then have "host = val" "port = port0" "val \<noteq> []" "CHR ''%'' \<notin> set host"
      "list_all (\<lambda>c. c \<in> set ''0123456789.'') host \<longrightarrow> inet_pton4 (until_NUL host)"
      using assms(2) br by (auto simp: parse_plain_def Let_def split: if_splits)
    then show ?thesis using 3 colons_none [of "CHR '':''" val] assms(3,4) br by (auto simp: host_ok_def)
  qed
qed

lemma endpoint_host:
  assumes "\<And>s. inet_pton6 s \<Longrightarrow> CHR '':'' \<in> set s"
    and "parseEndpoint inet_pton6 inet_pton4 inp port0 = Some (host, port)" and "port0 \<noteq> 0"
  shows "host_ok inet_pton6 inet_pton4 host \<and> port \<noteq> 0"
  using assms(2,3) bracketed_host [OF assms(1)] plain_host [OF assms(1)]
  by (auto simp: parseEndpoint_def Let_def split: if_splits)

lemma digits_no_special: "c \<in> set (fmt_d n) \<Longrightarrow> \<not> bad_in_endpoint c \<and> c \<notin> {CHR '':'', CHR ''['', CHR '']''}"
  using fmt_d_digit [of c n] by (auto simp: bad_in_endpoint_def)

lemma format_not_bad:
  "\<not> list_ex bad_in_endpoint host \<Longrightarrow>
   \<not> list_ex bad_in_endpoint (a @ fmt_d n) \<longleftrightarrow> \<not> list_ex bad_in_endpoint a"
  using digits_no_special by (auto simp: list_ex_iff)

lemma plain_round_trip:
  assumes "host_ok inet_pton6 inet_pton4 host" and "CHR '':'' \<notin> set host" and "port \<noteq> 0"
  shows "parseEndpoint inet_pton6 inet_pton4 (formatEndpoint host port) port0 = Some (host, port)"
proof -
  let ?val = "host @ CHR '':'' # fmt_d (unat port)"
  have d: "\<not> bad_in_endpoint c" "c \<noteq> CHR '':''" "c \<noteq> CHR ''[''" "c \<noteq> CHR '']''" if "c \<in> set (fmt_d n)" for c n
    using digits_no_special [OF that] by simp_all
  have h: "host \<noteq> []" "\<not> list_ex bad_in_endpoint host" "CHR ''['' \<notin> set host" "CHR '']'' \<notin> set host"
      "CHR ''%'' \<notin> set host" "list_all (\<lambda>c. c \<in> set ''0123456789.'') host \<longrightarrow> inet_pton4 (until_NUL host)"
    using assms(1,2) by (simp_all add: host_ok_def)
  have "\<not> bad_in_endpoint (CHR '':'')" by (simp add: bad_in_endpoint_def)
  then have hd: "?val \<noteq> []" "hd ?val \<noteq> CHR ''[''" "\<not> list_ex bad_in_endpoint ?val"
    using h d(1) by (simp, metis hd_append2 hd_in_set, auto simp: list_ex_iff)
  have br: "CHR ''['' \<notin> set ?val" "CHR '']'' \<notin> set ?val"
    using h d(3,4) by auto
  have "filter (\<lambda>c. c = CHR '':'') host = []" "filter (\<lambda>c. c = CHR '':'') (fmt_d (unat port)) = []"
    using assms(2) d(2) by (auto simp: filter_empty_conv)
  then have n: "length (filter (\<lambda>c. c = CHR '':'') ?val) = 1" by simp
  have "parse_plain inet_pton6 inet_pton4 ?val port0 = Some (host, port)"
    unfolding parse_plain_def n using br h str_find_at [OF assms(2)] parsePort_fmt_d [OF assms(3)] by simp
  moreover have "formatEndpoint host port = ''udp://'' @ ?val"
    using assms(2) str_find_None_iff [of host "CHR '':''"] by (simp add: formatEndpoint_def)
  ultimately show ?thesis using hd by (simp add: parseEndpoint_def)
qed

definition encoded_host :: "string \<Rightarrow> string" where
  "encoded_host host = (case str_find host (CHR ''%'') of None \<Rightarrow> host
                        | Some zone \<Rightarrow> take zone host @ ''%25'' @ drop (zone + 1) host)"

lemma encoded_host_decodes:
  "(case find_sub ''%25'' (encoded_host host) of None \<Rightarrow> encoded_host host
    | Some zone \<Rightarrow> take zone (encoded_host host) @ ''%'' @ drop (zone + 3) (encoded_host host)) = host"
proof (cases "str_find host (CHR ''%'')")
  case None
  then show ?thesis using find_sub_None [of "CHR ''%''" "''%25''" host] str_find_None_iff [of host "CHR ''%''"]
    by (simp add: encoded_host_def)
next
  case (Some zone)
  note z = str_find_split [OF Some] and l = str_find_Some(1) [OF Some]
  have "find_sub ''%25'' (encoded_host host) = Some zone"
    using find_zone [of "take zone host" "drop (zone + 1) host"] z l Some by (simp add: encoded_host_def)
  then show ?thesis using z l Some by (simp add: encoded_host_def)
qed

lemma encoded_host_chars: "c \<in> set (encoded_host host) \<Longrightarrow> c \<in> set host \<or> c \<in> {CHR ''%'', CHR ''2'', CHR ''5''}"
  by (auto simp: encoded_host_def split: option.splits dest: in_set_takeD in_set_dropD)

lemma literal_round_trip:
  assumes "host_ok inet_pton6 inet_pton4 host" and "CHR '':'' \<in> set host" and "port \<noteq> 0"
  shows "parseEndpoint inet_pton6 inet_pton4 (formatEndpoint host port) port0 = Some (host, port)"
proof -
  let ?e = "encoded_host host"
  let ?val = "CHR ''['' # ?e @ CHR '']'' # CHR '':'' # fmt_d (unat port)"
  have v: "validIpv6Literal inet_pton6 host" using assms(1,2) by (simp add: host_ok_def)
  have e: "?e \<noteq> []" "CHR '']'' \<notin> set (CHR ''['' # ?e)"
    using assms(1) encoded_host_chars [of "CHR '']''" host]
    by (auto simp: host_ok_def encoded_host_def split: option.splits)
  have f: "str_find ?val (CHR '']'') = Some (Suc (length ?e))"
    using str_find_at [OF e(2), of "CHR '':'' # fmt_d (unat port)"] by simp
  have "parse_bracketed inet_pton6 True ?val port0 = Some (host, port)"
    using e(1) v parsePort_fmt_d [OF assms(3)] encoded_host_decodes [of host]
    unfolding parse_bracketed_def f by (simp add: Let_def nth_append)
  moreover have "\<not> list_ex bad_in_endpoint ?val"
    using assms(1) encoded_host_chars digits_no_special
    by (fastforce simp: host_ok_def list_ex_iff bad_in_endpoint_def)
  moreover have "formatEndpoint host port = ''udp://'' @ ?val"
    using assms(2) str_find_None_iff [of host "CHR '':''"]
    by (auto simp: formatEndpoint_def encoded_host_def split: option.splits)
  ultimately show ?thesis by (simp add: parseEndpoint_def)
qed

text \<open>Whatever text names an endpoint, printing the endpoint and reading the text again gives the same
  host and port, IPv6 literals and their zones included. That a text with an IPv6 address has a
  colon is documented behaviour of \<^verbatim>\<open>inet_pton\<close>.\<close>

theorem endpoint_round_trip:
  assumes "\<And>s. inet_pton6 s \<Longrightarrow> CHR '':'' \<in> set s"
    and "parseEndpoint inet_pton6 inet_pton4 inp port0 = Some (host, port)" and "port0 \<noteq> 0"
  shows "parseEndpoint inet_pton6 inet_pton4 (formatEndpoint host port) port1 = Some (host, port)"
  using endpoint_host [OF assms] plain_round_trip literal_round_trip by blast

theorem endpoint_round_trip_witness:
  "parseEndpoint (\<lambda>s. s = ''fe80::1'') (\<lambda>s. False) (formatEndpoint ''fe80::1%eth0'' 9598) 1
     = Some (''fe80::1%eth0'', 9598)"
proof (rule endpoint_round_trip)
  show "parseEndpoint (\<lambda>s. s = ''fe80::1'') (\<lambda>s. False) ''udp://[fe80::1%25eth0]'' 9598
      = Some (''fe80::1%eth0'', 9598)" by code_simp
qed simp_all

section \<open>Options\<close>

lemma readHexChar_hex: "digit_in 16 c \<Longrightarrow> readHexChar c \<noteq> None \<and> c \<noteq> NUL"
  by (auto simp: digit_in_def digit_value_def readHexChar_def split: if_splits)

lemma hex_bytes:
  "list_all (digit_in 16) hex \<Longrightarrow> length hex = 2 * n \<Longrightarrow>
   \<exists>bs. vscp_hexStr2ByteArray n hex = Some bs \<and> length bs = n"
proof (induction n hex rule: vscp_hexStr2ByteArray.induct)
  case (1 sz a b hex)
  then show ?case using readHexChar_hex [of a] readHexChar_hex [of b] by fastforce
qed auto

text \<open>A step keeps what it needs, or refuses.\<close>

definition keeps :: "(options \<Rightarrow> bool) \<Rightarrow> option_step \<Rightarrow> bool" where
  "keeps P step \<longleftrightarrow>
     (\<forall>opts. P opts \<longrightarrow> (case step opts of Inl e \<Rightarrow> e = Refused | Inr opts' \<Rightarrow> P opts'))"

lemma keeps_in_turn: "list_all (keeps P) steps \<Longrightarrow> keeps P (in_turn steps)"
proof (induction steps)
  case (Cons step steps)
  then have k: "keeps P step" "keeps P (in_turn steps)" by simp_all
  show ?case
    unfolding keeps_def
  proof (intro allI impI)
    fix opts assume "P opts"
    then show "case in_turn (step # steps) opts of Inl e \<Rightarrow> e = Refused | Inr opts' \<Rightarrow> P opts'"
      using k(1) [unfolded keeps_def, rule_format, of opts] k(2) [unfolded keeps_def, rule_format]
      by (cases "step opts") simp_all
  qed
qed (simp add: keeps_def)

lemma in_turn_append:
  "in_turn (xs @ ys) opts = (case in_turn xs opts of Inl e \<Rightarrow> Inl e | Inr opts \<Rightarrow> in_turn ys opts)"
  by (induction xs arbitrary: opts) (auto split: sum.splits)

definition options_ok :: "options \<Rightarrow> bool" where
  "options_ok opts \<longleftrightarrow> o_encryption opts \<le> 3 \<and> length (o_key opts) = 32 \<and> length (o_hmacKey opts) = 32
     \<and> wf_filter (o_filter opts)"

definition keys_checked :: "options \<Rightarrow> bool" where
  "keys_checked opts \<longleftrightarrow> options_ok opts
     \<and> (o_hmacEnabled opts \<longrightarrow>
          authenticatedKeysValid (o_encryption opts) (o_key opts) (o_keyLength opts) (o_hmacKey opts))"

lemma keeps_numbers:
  fixes get :: "vscpEventFilter \<Rightarrow> 'a::len word"
  assumes "\<And>f v. filter_GUID (upd (\<lambda>_. v) f) = filter_GUID f" "\<And>f v. mask_GUID (upd (\<lambda>_. v) f) = mask_GUID f"
  shows "keeps keys_checked (option_number config name get upd)"
  using assms by (auto simp: keeps_def option_number_def keys_checked_def options_ok_def wf_filter_def
      split: option.splits)

lemma parseGuid_shape: "vscp_parseGuid (Some g) s = (ok, Some g') \<Longrightarrow> length g' = 16"
  using guid_parse_length [of s]
  by (auto simp: vscp_parseGuid_def vscp_guid_parse_def split: prod.splits option.splits)

lemma keeps_guids:
  "keeps keys_checked (option_guid config name filter_GUID filter_GUID_update)"
  "keeps keys_checked (option_guid config name mask_GUID mask_GUID_update)"
  by (auto simp: keeps_def option_guid_def keys_checked_def options_ok_def wf_filter_def
      split: option.splits json_value.splits prod.splits bool.splits dest: parseGuid_shape)

lemma keeps_encryption: "keeps options_ok (option_encryption config)"
proof -
  have "(ucast number :: u8) \<le> 3" if "number \<le> (3 :: u64)" for number
  proof -
    have "unat number \<le> 3" using that by (simp add: word_le_nat_alt)
    then show ?thesis by (simp add: word_le_nat_alt unsigned_ucast_eq take_bit_nat_eq_self)
  qed
  then show ?thesis
    by (auto simp: keeps_def option_encryption_def options_ok_def jsonUnsigned_def Let_def
        split: option.splits json_value.splits if_splits)
qed

lemma keeps_padding: "keeps options_ok (option_padding config)"
  by (auto simp: keeps_def option_padding_def split: option.splits)

lemma aesKeyLength_le: "unat (aesKeyLength encryption) \<le> 32"
  by (simp add: aesKeyLength_def)

lemma isxdigit_digit: "isxdigit = digit_in 16"
  by (auto simp: isxdigit_def)

lemma keeps_key: "keeps options_ok (option_key config)"
  unfolding keeps_def
proof (intro allI impI)
  fix opts assume ok: "options_ok opts"
  let ?n = "unat (aesKeyLength (o_encryption opts))"
  have "\<exists>bs. vscp_hexStr2ByteArray ?n hex = Some bs \<and> length bs = ?n"
    if "length hex = ?n * 2" "list_all isxdigit hex" for hex
    using hex_bytes [of hex ?n] that by (simp add: isxdigit_digit)
  then show "case option_key config opts of Inl e \<Rightarrow> e = Refused | Inr opts' \<Rightarrow> options_ok opts'"
    using ok aesKeyLength_le [of "o_encryption opts"]
    by (fastforce simp: option_key_def options_ok_def Let_def split: option.splits json_value.splits)
qed

lemma keeps_hmac: "keeps options_ok (option_hmac config)"
  unfolding keeps_def
proof (intro allI impI)
  fix opts assume ok: "options_ok opts"
  have "\<exists>bs. vscp_hexStr2ByteArray 32 hex = Some bs \<and> length bs = 32"
    if "length hex = 64" "list_all isxdigit hex" for hex
    using hex_bytes [of hex 32] that by (simp add: isxdigit_digit)
  then show "case option_hmac config opts of Inl e \<Rightarrow> e = Refused | Inr opts' \<Rightarrow> options_ok opts'"
    using ok by (fastforce simp: option_hmac_def options_ok_def split: option.splits json_value.splits)
qed

lemma check_keys_checks:
  "options_ok opts \<Longrightarrow> case check_keys opts of Inl e \<Rightarrow> e = Refused | Inr opts' \<Rightarrow> keys_checked opts'"
  by (auto simp: check_keys_def keys_checked_def authenticatedKeysValid_def Let_def)

lemma eventOptions_keeps:
  assumes "options_ok opts"
  shows "case eventOptions config opts of Inl e \<Rightarrow> e = Refused | Inr opts' \<Rightarrow> keys_checked opts'"
proof -
  let ?a = "[option_encryption config, option_padding config, option_key config, option_hmac config]"
  have "keeps options_ok (in_turn ?a)"
    by (rule keeps_in_turn) (simp add: keeps_encryption keeps_padding keeps_key keeps_hmac)
  then have a: "case in_turn ?a opts of Inl e \<Rightarrow> e = Refused | Inr opts' \<Rightarrow> options_ok opts'"
    using assms by (simp only: keeps_def)
  obtain bs where b: "eventOptions config = in_turn (?a @ [check_keys] @ bs)"
      and k: "list_all (keeps keys_checked) bs"
    by (simp add: eventOptions_def keeps_numbers keeps_guids)
  have r: "keeps keys_checked (in_turn bs)" by (rule keeps_in_turn) fact
  show ?thesis
  proof (cases "in_turn ?a opts")
    case (Inl e)
    then show ?thesis using a unfolding b in_turn_append by simp
  next
    case (Inr opts1)
    then have "options_ok opts1" using a by simp
    note c = check_keys_checks [OF this]
    show ?thesis
      using c r [unfolded keeps_def, rule_format] Inr unfolding b in_turn_append
      by (cases "check_keys opts1") simp_all
  qed
qed

text \<open>C13: Whatever an object holds, reading the options either refuses it or gives options of the right
  shape; no exception escapes. When the result asks for authentication, the AES key has the length
  of the cipher, and it differs from the HMAC key.\<close>

theorem event_options_well_typed:
  assumes "o_encryption opts \<le> 3" and "length (o_key opts) = 32" and "length (o_hmacKey opts) = 32"
    and "wf_filter (o_filter opts)"
  shows "eventOptions config opts = Inl Refused
    \<or> (\<exists>opts'. eventOptions config opts = Inr opts'
         \<and> o_encryption opts' \<le> 3 \<and> length (o_key opts') = 32 \<and> length (o_hmacKey opts') = 32
         \<and> wf_filter (o_filter opts')
         \<and> (\<not> o_hmacEnabled opts' \<or>
              0 < aesKeyLength (o_encryption opts') \<and> o_keyLength opts' = aesKeyLength (o_encryption opts')
              \<and> take (unat (o_keyLength opts')) (o_key opts') \<noteq> take (unat (o_keyLength opts')) (o_hmacKey opts')))"
proof -
  have "options_ok opts" using assms by (simp add: options_ok_def)
  then show ?thesis
    using eventOptions_keeps [of opts config]
    by (auto simp: keys_checked_def options_ok_def authenticatedKeysValid_def memory_differs_def Let_def
        word_neq_0_conv split: sum.splits)
qed

theorem event_options_well_typed_witness:
  "eventOptions (map_of [(''encryption'', J_number 4)])
     \<lparr>o_encryption = 0, o_key = replicate 32 0, o_keyLength = 0, o_hmacEnabled = False, o_hmacKey = replicate 32 0,
      o_filter = zero_filter\<rparr> = Inl Refused
   \<or> (\<exists>opts'. eventOptions (map_of [(''encryption'', J_number 4)])
       \<lparr>o_encryption = 0, o_key = replicate 32 0, o_keyLength = 0, o_hmacEnabled = False, o_hmacKey = replicate 32 0,
        o_filter = zero_filter\<rparr> = Inr opts' \<and> wf_filter (o_filter opts'))"
  using event_options_well_typed [of "\<lparr>o_encryption = 0, o_key = replicate 32 0, o_keyLength = 0, o_hmacEnabled = False,
      o_hmacKey = replicate 32 0, o_filter = zero_filter\<rparr>" "map_of [(''encryption'', J_number 4)]"]
  by (auto simp: zero_filter_def wf_filter_def)

end
