(* ===== verification/Datagram.thy ===== *)
theory Datagram
  imports FrameSafety Endpoint
begin

unbundle bit_operations_syntax

text \<open>
  The event transport that the UDP and the multicast client share (\<^verbatim>\<open>vscp-client-datagram.h\<close>): sending an
  event, one pass of the receive loop, and the receive queue with its semaphore. Sockets are replaced
  by what they report: the result of \<^verbatim>\<open>sendto\<close> is a function of the bytes, and the receive loop runs
  over a list of the outcomes of its waits. Memory allocation succeeds; callbacks leave the event
  and the client alone, and the model records what they are called with. Each routine runs under
  the mutex that the code takes, so an interleaving of threads is a sequence of these operations.
\<close>

section \<open>Constants\<close>

definition VSCP_ERROR_FIFO_EMPTY :: int where "VSCP_ERROR_FIFO_EMPTY = 8"
definition VSCP_ERROR_TIMEOUT :: int where "VSCP_ERROR_TIMEOUT = 32"
definition VSCP_ERROR_MEMORY :: int where "VSCP_ERROR_MEMORY = 35"
definition VSCP_ERROR_COMMUNICATION :: int where "VSCP_ERROR_COMMUNICATION = 37"
definition VSCP_ERROR_NOT_CONNECTED :: int where "VSCP_ERROR_NOT_CONNECTED = 54"
definition VSCP_ERROR_INVALID_FRAME :: int where "VSCP_ERROR_INVALID_FRAME = 63"

definition bufferSize :: nat where "bufferSize = 1024"
definition minimumFrameSize :: nat where "minimumFrameSize = 1 + FRAME0_HEADER_LENGTH + 2"

section \<open>State\<close>

record client =
  m_receiveQueue :: "vscpEvent ptr list"
  m_semReceiveQueue :: nat
  m_filter :: vscpEventFilter
  m_encryptType :: u8
  m_key :: "u8 list"
  m_bRun :: bool
  m_connected :: bool
  callbackEvActive :: bool
  callbackExActive :: bool
  ev_calls :: "vscpEvent list"
  ex_calls :: "vscpEventEx list"

text \<open>The authentication settings that the clients pass; no HMAC key means no authentication.\<close>

record authentication =
  a_keyLength :: u8
  a_hmacKey :: "u8 list ptr"
  a_configuredEncryption :: u8
  a_configuredKey :: "u8 list"

text \<open>The library the program is linked with, its build option, its clock and its random numbers.\<close>

record platform =
  p_ssl :: openssl
  p_use_openssl :: bool
  p_clock :: host_clock
  p_random :: "u8 list option"

section \<open>The receive queue\<close>

definition sem_value_max :: nat where "sem_value_max = 2147483647"

definition consumeSignal :: "bool \<Rightarrow> client \<Rightarrow> client" where
  "consumeSignal semReady c =
     (if \<not> semReady then c else c\<lparr>m_semReceiveQueue := m_semReceiveQueue c - 1\<rparr>)"

definition postSignal :: "bool \<Rightarrow> client \<Rightarrow> client" where
  "postSignal semReady c =
     (if \<not> semReady \<or> m_semReceiveQueue c \<ge> sem_value_max then c
      else c\<lparr>m_semReceiveQueue := m_semReceiveQueue c + 1\<rparr>)"

text \<open>
  A blocking call waits until the queue is not empty or the time is over: \<open>c\<close> is the client at the
  end of the wait. The event comes with the result; \<open>None\<close> when none was taken.
\<close>

definition popEvent :: "bool \<Rightarrow> bool \<Rightarrow> int \<Rightarrow> client \<Rightarrow> int \<times> vscpEvent ptr \<times> client" where
  "popEvent semReady blocking timeout c =
     (if blocking \<and> timeout < 0 then (VSCP_ERROR_PARAMETER, None, c)
      else (case m_receiveQueue c of
              [] \<Rightarrow> (if blocking then VSCP_ERROR_TIMEOUT else VSCP_ERROR_FIFO_EMPTY, None, c)
            | event # queue \<Rightarrow>
                (if event \<noteq> None then VSCP_ERROR_SUCCESS else VSCP_ERROR_MEMORY, event,
                 consumeSignal semReady (c\<lparr>m_receiveQueue := queue\<rparr>))))"

definition receiveEvent ::
  "bool \<Rightarrow> vscpEvent \<Rightarrow> bool \<Rightarrow> int \<Rightarrow> client \<Rightarrow> (int \<times> vscpEvent \<times> client) safe" where
  "receiveEvent semReady event blocking timeout c =
     (case popEvent semReady blocking timeout c of
        (result, queued, c) \<Rightarrow>
          if result \<noteq> VSCP_ERROR_SUCCESS then Some (result, event, c)
          else do {
            (copied, dest) \<leftarrow> vscp_copyEvent (Some event) queued;
            event \<leftarrow> dest;
            Some (if copied then VSCP_ERROR_SUCCESS else VSCP_ERROR_INVALID_FRAME, event, c) })"

definition receiveEventEx ::
  "bool \<Rightarrow> vscpEventEx \<Rightarrow> bool \<Rightarrow> int \<Rightarrow> client \<Rightarrow> (int \<times> vscpEventEx \<times> client) safe" where
  "receiveEventEx semReady event blocking timeout c =
     (case popEvent semReady blocking timeout c of
        (result, queued, c) \<Rightarrow>
          if result \<noteq> VSCP_ERROR_SUCCESS then Some (result, event, c)
          else do {
            (copied, dest) \<leftarrow> vscp_convertEventToEventEx (Some event) queued;
            event \<leftarrow> dest;
            Some (if copied then VSCP_ERROR_SUCCESS else VSCP_ERROR_INVALID_FRAME, event, c) })"

fun clear_loop :: "bool \<Rightarrow> vscpEvent ptr list \<Rightarrow> client \<Rightarrow> client" where
  "clear_loop semReady [] c = c"
| "clear_loop semReady (event # queue) c =
     clear_loop semReady queue (consumeSignal semReady (c\<lparr>m_receiveQueue := queue\<rparr>))"

definition clearQueue :: "bool \<Rightarrow> client \<Rightarrow> int \<times> client" where
  "clearQueue semReady c = (VSCP_ERROR_SUCCESS, clear_loop semReady (m_receiveQueue c) c)"

section \<open>Sending\<close>

text \<open>The event as the bytes of a datagram; the inner \<open>None\<close> is the error of an invalid frame.\<close>

definition authenticated_wire ::
  "platform \<Rightarrow> client \<Rightarrow> u8 list \<Rightarrow> u8 list \<Rightarrow> u8 list option safe" where
  "authenticated_wire p c hmacKey plaintext = do {
     r \<leftarrow> encode (p_ssl p) plaintext (m_encryptType c) (Some (m_key c)) authenticatedVersion (Some hmacKey);
     Some (case r of None \<Rightarrow> None | Some wire \<Rightarrow> if length wire > bufferSize then None else Some wire) }"

definition encrypted_wire :: "platform \<Rightarrow> client \<Rightarrow> u8 list \<Rightarrow> nat \<Rightarrow> u8 list option safe" where
  "encrypted_wire p c frame frameLength = do {
     let encrypted = replicate bufferSize (0 :: u8);
     (len, encrypted) \<leftarrow> vscp_encryptFrame (p_use_openssl p) (p_ssl p) (p_random p) (Some encrypted) (Some frame)
                           frameLength (Some (m_key c)) None (m_encryptType c);
     encrypted \<leftarrow> encrypted;
     Some (if len = 0 \<or> len > bufferSize then None else Some (take len encrypted)) }"

text \<open>
  \<open>connected\<close> is the flag when the socket is locked, after the frame was built. The datagram that was
  handed to \<^verbatim>\<open>sendto\<close> comes with the result.
\<close>

definition sendEvent ::
  "platform \<Rightarrow> authentication \<Rightarrow> client \<Rightarrow> bool \<Rightarrow> (u8 list \<Rightarrow> int) \<Rightarrow> vscpEvent
   \<Rightarrow> (int \<times> u8 list option) safe" where
  "sendEvent p a c connected sendto event =
     (if \<not> m_connected c then Some (VSCP_ERROR_NOT_CONNECTED, None)
      else if unat (sizeData event) > VSCP_LEVEL2_MAXDATA \<or> (sizeData event \<noteq> 0 \<and> pdata event = None)
      then Some (VSCP_ERROR_INVALID_FRAME, None)
      else if m_encryptType c > VSCP_ENCRYPTION_AES256 then Some (VSCP_ERROR_INVALID_FRAME, None)
      else if (case a_hmacKey a of None \<Rightarrow> False
               | Some hmacKey \<Rightarrow> \<not> authenticationStateValid (m_encryptType c) (m_key c) (a_keyLength a) hmacKey
                                    (a_configuredEncryption a) (a_configuredKey a))
      then Some (VSCP_ERROR_INVALID_FRAME, None)
      else do {
        let frame = replicate bufferSize (0 :: u8);
        let frameLength = vscp_getFrameSizeFromEvent (Some event);
        if frameLength > bufferSize - 32 then Some (VSCP_ERROR_INVALID_FRAME, None)
        else do {
          (written, frame) \<leftarrow> vscp_writeEventToFrame (Some frame) bufferSize 0 (Some event);
          frame \<leftarrow> frame;
          if \<not> written then Some (VSCP_ERROR_INVALID_FRAME, None)
          else do {
            plaintext \<leftarrow> rd_block frame 0 frameLength;
            wire \<leftarrow> (case a_hmacKey a of
                        Some hmacKey \<Rightarrow> authenticated_wire p c hmacKey plaintext
                      | None \<Rightarrow> if m_encryptType c \<noteq> 0 then encrypted_wire p c frame frameLength
                                else Some (Some plaintext));
            (case wire of None \<Rightarrow> Some (VSCP_ERROR_INVALID_FRAME, None)
             | Some datagram \<Rightarrow>
                 if \<not> connected then Some (VSCP_ERROR_NOT_CONNECTED, None)
                 else Some (if sendto datagram < 0 then VSCP_ERROR_COMMUNICATION
                            else if sendto datagram \<noteq> int (length datagram) then VSCP_ERROR_COMMUNICATION
                            else VSCP_ERROR_SUCCESS, Some datagram)) } } })"

section \<open>Receiving a datagram\<close>

text \<open>
  Authentication and decryption replace the front of the receive buffer. The inner \<open>None\<close> is a
  \<^verbatim>\<open>continue\<close>: the datagram is dropped.
\<close>

definition open_authenticated ::
  "platform \<Rightarrow> authentication \<Rightarrow> client \<Rightarrow> u8 list \<Rightarrow> u8 list \<Rightarrow> nat \<Rightarrow> (u8 list \<times> nat) option safe" where
  "open_authenticated p a c hmacKey buffer frameLength =
     (if \<not> authenticationStateValid (m_encryptType c) (m_key c) (a_keyLength a) hmacKey
           (a_configuredEncryption a) (a_configuredKey a)
         \<or> frameLength < headerSize + 1
      then Some None
      else do {
        (ok, innerLength, version) \<leftarrow> parseHeader buffer;
        lead \<leftarrow> rd buffer headerSize;
        if \<not> ok \<or> version \<noteq> authenticatedVersion \<or> innerLength \<noteq> frameLength - headerSize
           \<or> GET_VSCP_BINARY_PACKET_TYPE lead > VSCP_MULTICAST_TYPE_EVENT1
           \<or> lead AND 0x0f \<noteq> m_encryptType c
        then Some None
        else do {
          let decrypted = replicate bufferSize (0 :: u8);
          (len, decrypted) \<leftarrow> vscp_decryptFrameV1 (p_ssl p) (Some decrypted) bufferSize
                                (Some (drop headerSize buffer)) innerLength (Some (m_key c)) (Some hmacKey);
          decrypted \<leftarrow> decrypted;
          if len = 0 then Some None
          else do {
            bs \<leftarrow> rd_block decrypted 0 len;
            buffer \<leftarrow> wr_block buffer 0 bs;
            Some (Some (buffer, len)) } } })"

definition open_encrypted :: "platform \<Rightarrow> client \<Rightarrow> u8 list \<Rightarrow> nat \<Rightarrow> (u8 list \<times> nat) option safe" where
  "open_encrypted p c buffer frameLength =
     (if frameLength < 1 + 16 + 16 then Some None
      else do {
        let decrypted = replicate bufferSize (0 :: u8);
        (ok, decrypted) \<leftarrow> vscp_decryptFrame (p_use_openssl p) (p_ssl p) (Some decrypted) (Some buffer) frameLength
                             (Some (m_key c)) None VSCP_ENCRYPTION_FROM_TYPE_BYTE;
        decrypted \<leftarrow> decrypted;
        if \<not> ok then Some None
        else do {
          let frameLength = frameLength - 16;
          bs \<leftarrow> rd_block decrypted 0 frameLength;
          buffer \<leftarrow> wr_block buffer 0 bs;
          Some (Some (buffer, frameLength)) } })"

definition zero_eventEx :: vscpEventEx where
  "zero_eventEx = \<lparr>xhead = 0, xobid = 0, xyear = 0, xmonth = 0, xtimestamp_ns = 0, xcrc = 0,
     xvscp_class = 0, xvscp_type = 0, xGUID = replicate 16 0, xsizeData = 0, xdata = replicate 512 0\<rparr>"

definition read_event ::
  "platform \<Rightarrow> authentication \<Rightarrow> u8 list \<Rightarrow> nat \<Rightarrow> vscpEvent option safe" where
  "read_event p a buffer frameLength =
     (if frameLength < minimumFrameSize then Some None
      else do {
        size_msb \<leftarrow> rd buffer 34;
        size_lsb \<leftarrow> rd buffer 35;
        let dataSize = unat size_msb * 256 + unat size_lsb;
        if dataSize > VSCP_LEVEL2_MAXDATA then Some None
        else if a_hmacKey a \<noteq> None \<and> frameLength \<noteq> minimumFrameSize + dataSize then Some None
        else do {
          (ok, ev) \<leftarrow> vscp_getEventFromFrame (p_clock p) (Some zero_event) (Some buffer) frameLength;
          Some (if ok then ev else None) } })"

text \<open>Callbacks and queue. The queued event takes the data of the received one over.\<close>

definition deliver :: "bool \<Rightarrow> vscpEvent \<Rightarrow> client \<Rightarrow> client safe" where
  "deliver semReady event c =
     (if \<not> vscp_doLevel2Filter (Some event) (Some (m_filter c)) then Some c
      else do {
        let c = (if callbackEvActive c then c\<lparr>ev_calls := ev_calls c @ [event]\<rparr> else c);
        c \<leftarrow> (if callbackExActive c
              then do {
                (ok, extended) \<leftarrow> vscp_convertEventToEventEx (Some zero_eventEx) (Some event);
                extended \<leftarrow> extended;
                Some (if ok then c\<lparr>ex_calls := ex_calls c @ [extended]\<rparr> else c) }
              else Some c);
        Some (if \<not> callbackEvActive c \<or> \<not> callbackExActive c
              then postSignal semReady (c\<lparr>m_receiveQueue := m_receiveQueue c @ [Some event]\<rparr>)
              else c) })"

text \<open>\<^verbatim>\<open>recv\<close> stores at most the size of the buffer.\<close>

definition handle_datagram ::
  "platform \<Rightarrow> authentication \<Rightarrow> bool \<Rightarrow> u8 list \<Rightarrow> client \<Rightarrow> client safe" where
  "handle_datagram p a semReady datagram c =
     (let buffer = take (bufferSize + 1) datagram @ replicate (bufferSize + 1 - length datagram) 0;
          received = min (length datagram) (bufferSize + 1)
      in if received = 0 \<or> received > bufferSize then Some c
         else do {
           lead \<leftarrow> rd buffer 0;
           opened \<leftarrow> (case a_hmacKey a of
                         Some hmacKey \<Rightarrow> open_authenticated p a c hmacKey buffer received
                       | None \<Rightarrow> if lead AND 0x0f \<noteq> 0 then open_encrypted p c buffer received
                                 else Some (Some (buffer, received)));
           (case opened of None \<Rightarrow> Some c
            | Some (buffer, frameLength) \<Rightarrow> do {
                event \<leftarrow> read_event p a buffer frameLength;
                (case event of None \<Rightarrow> Some c | Some event \<Rightarrow> deliver semReady event c) }) })"

text \<open>
  The receive loop over the outcomes of its waits: another thread has cleared the run flag, the wait
  was interrupted, failed or timed out, \<^verbatim>\<open>recv\<close> failed, or a datagram came. At the end of the list the
  loop is still running.
\<close>

datatype wait_outcome = Stopped | Interrupted | Wait_failed | Timed_out | Recv_failed | Received "u8 list"

fun receiveLoop ::
  "platform \<Rightarrow> authentication \<Rightarrow> bool \<Rightarrow> wait_outcome list \<Rightarrow> client \<Rightarrow> client safe" where
  "receiveLoop p a semReady [] c = Some c"
| "receiveLoop p a semReady (w # ws) c =
     (if \<not> m_bRun c then Some (c\<lparr>m_connected := False\<rparr>)
      else case w of
        Stopped \<Rightarrow> Some (c\<lparr>m_bRun := False, m_connected := False\<rparr>)
      | Interrupted \<Rightarrow> receiveLoop p a semReady ws c
      | Wait_failed \<Rightarrow> Some (c\<lparr>m_bRun := False, m_connected := False\<rparr>)
      | Timed_out \<Rightarrow> receiveLoop p a semReady ws c
      | Recv_failed \<Rightarrow> receiveLoop p a semReady ws c
      | Received datagram \<Rightarrow> do {
          c \<leftarrow> handle_datagram p a semReady datagram c;
          receiveLoop p a semReady ws c })"

section \<open>The frame of an event inside a datagram\<close>

lemma frame_image_shape:
  assumes "wf_event ev"
  shows "length (frame_image t ev) = 38 + unat (sizeData ev)" "length (frame_image t ev) \<le> 550"
    "frame_image t ev = frame_type_byte t # drop 1 (frame_image u ev)"
proof -
  show "length (frame_image t ev) = 38 + unat (sizeData ev)"
    using length_frame_body [OF assms] by (simp add: frame_image_def)
  then show "length (frame_image t ev) \<le> 550" using assms by (simp add: wf_event_def VSCP_LEVEL2_MAXDATA_def)
  show "frame_image t ev = frame_type_byte t # drop 1 (frame_image u ev)" by (simp add: frame_image_def sealed_def)
qed

lemma frame_image_valid_crc:
  assumes "wf_event ev"
  shows "vscp_validFrameCrc (frame_image t ev) (38 + unat (sizeData ev)) = Some True"
proof -
  let ?b = "frame_body ev"
  have l: "length ?b = 35 + unat (sizeData ev)" by (rule length_frame_body [OF assms])
  have "unat (sizeData ev) \<le> 512" using assms by (simp add: wf_event_def VSCP_LEVEL2_MAXDATA_def)
  then have n: "\<not> 38 + unat (sizeData ev) < 5" "\<not> 2147483647 < 38 + unat (sizeData ev) - 3"
    "38 + unat (sizeData ev) - 3 = length ?b" "38 + unat (sizeData ev) - 2 = Suc (length ?b)"
    "38 + unat (sizeData ev) - 1 = Suc (Suc (length ?b))" using l by simp_all
  have "rd_block (frame_image t ev) 1 (length ?b) = Some ?b"
    "rd (frame_image t ev) (Suc (length ?b)) = Some (hi8 (crcFast ?b))"
    "rd (frame_image t ev) (Suc (Suc (length ?b))) = Some (lo8 (crcFast ?b))"
    by (simp_all add: frame_image_def sealed_def rd_block_def rd_def nth_append)
  then show ?thesis
    unfolding vscp_validFrameCrc_def n
    using n(1,2) l be16_or [of "hi8 (crcFast ?b)" "lo8 (crcFast ?b)"] be16_hi_lo [of "crcFast ?b"]
    by (simp add: crcFast_def crcSlow_def crcFast_loop_eq)
qed

lemma frame_type_byte_low:
  assumes "alg \<le> 3"
  shows "frame_type_byte alg AND 0x0f = alg" "frame_type_byte t AND 0xf0 OR alg = frame_type_byte alg"
    "drop_bit 4 (frame_type_byte t) = 1"
proof -
  have "unat alg \<le> 3" using assms by (simp add: word_le_nat_alt)
  then have "unat alg \<in> {0, 1, 2, 3}" by auto
  then have three: "alg \<in> {0, 1, 2, 3}" by (auto simp: word_unat_eq_iff)
  then show "frame_type_byte alg AND 0x0f = alg"
    by (auto simp: frame_type_byte_def VSCP_MULTICAST_TYPE_EVENT1_def)
  have "frame_type_byte t AND 0xf0 = 0x10"
    by (simp add: frame_type_byte_def VSCP_MULTICAST_TYPE_EVENT1_def bit.conj_disj_distrib2 and.assoc)
  then show "frame_type_byte t AND 0xf0 OR alg = frame_type_byte alg"
    using three by (auto simp: frame_type_byte_def VSCP_MULTICAST_TYPE_EVENT1_def)
  have "drop_bit 4 (t AND 0x0f) = 0" by (simp only: drop_bit_and) simp
  then show "drop_bit 4 (frame_type_byte t) = 1"
    by (simp add: frame_type_byte_def VSCP_MULTICAST_TYPE_EVENT1_def)
qed

lemma frame_type_byte_plain: "frame_type_byte 0 AND 0x0f = 0"
  by (rule frame_type_byte_low(1)) simp

lemma read_event_image:
  assumes "wf_event ev" and "38 + unat (sizeData ev) \<le> len"
    and "a_hmacKey a \<noteq> None \<Longrightarrow> len = 38 + unat (sizeData ev)"
  shows "read_event p a (frame_image t ev @ rest) len = Some (Some (received (p_clock p) ev zero_event))"
proof -
  let ?f = "frame_image t ev"
  have sz: "unat (sizeData ev) \<le> 512" using assms(1) by (simp add: wf_event_def VSCP_LEVEL2_MAXDATA_def)
  have "unat (be16 (hi8 (sizeData ev)) (lo8 (sizeData ev))) = unat (hi8 (sizeData ev)) * 256 + unat (lo8 (sizeData ev))"
    by (rule unat_be16)
  then have size: "unat (hi8 (sizeData ev)) * 256 + unat (lo8 (sizeData ev)) = unat (sizeData ev)"
    by (simp add: be16_hi_lo)
  note reads = frame_image_reads(10,11) [OF assms(1), of t rest]
  show ?thesis
    using assms(2,3) sz getEventFromFrame_image [OF assms(1,2), of "p_clock p" zero_event t rest]
    by (cases "a_hmacKey a") (simp_all add: read_event_def reads Let_def size minimumFrameSize_def FRAME0_HEADER_LENGTH_def VSCP_LEVEL2_MAXDATA_def)
qed

section \<open>What is sent is opened again\<close>

lemma encrypt_with_prefix:
  "encrypt_frame_with engine random_iv outp (Some (b # r @ zs)) (Suc (length r)) pkey piv alg
   = encrypt_frame_with engine random_iv outp (Some (b # r)) (Suc (length r)) pkey piv alg"
proof (cases outp)
  case (Some dst)
  have "rd (b # r @ zs) 0 = rd (b # r) 0" by (simp add: rd_def)
  moreover have "vscp_pkcs7Pad (Some (drop 1 (b # r @ zs))) (Suc (length r) - 1)
      = vscp_pkcs7Pad (Some (drop 1 (b # r))) (Suc (length r) - 1)"
    by (simp add: vscp_pkcs7Pad_def rd_block_def)
  moreover have "plain_frame dst (b # r @ zs) (Suc (length r)) = plain_frame dst (b # r) (Suc (length r))" for dst
    by (simp add: plain_frame_def rd_block_def)
  moreover from calculation(1) have "vscp_resolveFrameCryptoAlgorithm alg (b # r @ zs) = vscp_resolveFrameCryptoAlgorithm alg (b # r)"
    by (simp add: vscp_resolveFrameCryptoAlgorithm_def)
  ultimately show ?thesis
    unfolding encrypt_frame_with_def Some option.case by (simp only:)
qed (simp add: encrypt_frame_with_def)

lemma encrypt_prefix:
  "vscp_encryptFrame use_openssl ssl random_iv outp (Some (b # r @ zs)) (Suc (length r)) pkey piv alg
   = vscp_encryptFrame use_openssl ssl random_iv outp (Some (b # r)) (Suc (length r)) pkey piv alg"
  by (simp only: vscp_encryptFrame_def vscp_encryptFrameOpenSSL_def encrypt_with_prefix split: if_split) simp

text \<open>The settings under which a datagram can be sent.\<close>

definition link_ok :: "platform \<Rightarrow> authentication \<Rightarrow> client \<Rightarrow> bool" where
  "link_ok p a c \<longleftrightarrow>
     (case a_hmacKey a of
        None \<Rightarrow> m_encryptType c = 0
          \<or> key_ok (m_encryptType c) (m_key c) \<and> (p_use_openssl p \<longrightarrow> openssl_cbc_ok (p_ssl p))
            \<and> (\<exists>iv. p_random p = Some iv \<and> length iv = 16)
      | Some hmacKey \<Rightarrow> key_ok (m_encryptType c) (m_key c) \<and> openssl_cbc_ok (p_ssl p) \<and> openssl_hmac_ok (p_ssl p)
          \<and> (\<exists>iv. rand_bytes (p_ssl p) = Some iv \<and> length iv = 16)
          \<and> authenticationStateValid (m_encryptType c) (m_key c) (a_keyLength a) hmacKey
              (a_configuredEncryption a) (a_configuredKey a))"

lemma wire_encrypted:
  assumes "wf_event ev" and "key_ok (m_encryptType c) (m_key c)" and "p_use_openssl p \<Longrightarrow> openssl_cbc_ok (p_ssl p)"
    and "p_random p = Some iv" and "length iv = 16"
    and "p_ssl q = p_ssl p" and "p_use_openssl q = p_use_openssl p" and "m_key r = m_key c"
  shows "\<exists>d. encrypted_wire p c (frame_image 0 ev @ zs) (38 + unat (sizeData ev)) = Some (Some d)
    \<and> 33 \<le> length d \<and> length d \<le> 600 \<and> d ! 0 AND 0x0f = m_encryptType c
    \<and> (\<forall>rest. \<exists>rest' len. open_encrypted q r (d @ rest) (length d)
         = Some (Some (frame_image (m_encryptType c) ev @ rest', len)) \<and> 38 + unat (sizeData ev) \<le> len)"
proof -
  define body where "body = drop 1 (frame_image 0 ev)"
  let ?alg = "m_encryptType c"
  define z where "z = replicate bufferSize (0 :: u8)"
  let ?n = "length body + pad_size (length body) + 17"
  have f: "frame_image t ev = frame_type_byte t # body" for t unfolding body_def by (rule frame_image_shape(3) [OF assms(1)])
  have l: "Suc (length body) = 38 + unat (sizeData ev)" "length body \<le> 549"
    using frame_image_shape(1,2) [OF assms(1), of 0] by (simp_all add: body_def)
  have lz: "length z = 1024" by (simp only: z_def length_replicate bufferSize_def)
  have pad: "0 < pad_size (length body)" "pad_size (length body) \<le> 16" by (rule pad_size_bounds)+
  have alg: "?alg \<le> 3" "?alg \<noteq> 0" using key_ok_small [OF assms(2)] by simp_all
  have iv: "vscp_getEncryptionIv (p_random p) None = Some (Some iv)" by (simp add: vscp_getEncryptionIv_def assms(4))
  have res: "vscp_resolveFrameCryptoAlgorithm ?alg (frame_type_byte 0 # body) = Some ?alg"
    using key_ok_algorithm(4) [OF assms(2)] by (simp add: vscp_resolveFrameCryptoAlgorithm_def)
  have crc: "vscp_validFrameCrc (frame_type_byte 0 # body) (Suc (length body)) = Some True"
    using frame_image_valid_crc [OF assms(1), of 0] unfolding l(1) f [of 0] .
  have room: "length body < 2 ^ 32" "?n \<le> length z" "?n - 16 \<le> length z" using l(2) pad lz by simp_all
  obtain d where d: "length d = ?n" "d ! 0 = frame_type_byte ?alg"
      "vscp_encryptFrame (p_use_openssl p) (p_ssl p) (p_random p) (Some z) (Some (frame_type_byte 0 # body))
         (Suc (length body)) (Some (m_key c)) None ?alg = Some (?n, Some (d @ drop ?n z))"
      and "\<forall>rest. vscp_decryptFrame (p_use_openssl p) (p_ssl p) (Some z) (Some (d @ rest)) ?n (Some (m_key c)) None
         VSCP_ENCRYPTION_FROM_TYPE_BYTE
         = Some (True, Some (frame_type_byte ?alg # body @ replicate (pad_size (length body)) 0 @ drop (?n - 16) z))"
    using encrypted_frame_round_trip [where use_openssl = "p_use_openssl p",
        OF assms(3) assms(2,5) iv res crc room(1) refl room(2,3)]
    unfolding frame_type_byte_low(2) [OF alg(1)] by blast
  note dec = this(4) [rule_format]
  have "encrypted_wire p c (frame_image 0 ev @ zs) (38 + unat (sizeData ev)) = Some (Some d)"
    unfolding encrypted_wire_def l(1) [symmetric] f [of 0] append_Cons Let_def z_def [symmetric] encrypt_prefix d(3)
    using d(1) room(2) lz by (simp add: bufferSize_def)
  moreover have "\<exists>rest' len. open_encrypted q r (d @ rest) (length d)
       = Some (Some (frame_image ?alg ev @ rest', len)) \<and> 38 + unat (sizeData ev) \<le> len" for rest
  proof -
    let ?g = "frame_type_byte ?alg # body @ replicate (pad_size (length body)) 0"
    have g: "length ?g = ?n - 16" by simp
    have "rd_block (?g @ drop (?n - 16) z) 0 (?n - 16) = Some ?g"
      unfolding g [symmetric] rd_block_def by simp
    moreover have "wr_block (d @ rest) 0 ?g = Some (?g @ drop (?n - 16) (d @ rest))"
      unfolding g [symmetric] by (rule wr_block_zero) (simp add: d(1))
    moreover have "\<not> ?n < 33" "(?n < 1 + 16 + 16) = False" using l(1) by simp_all
    ultimately have "open_encrypted q r (d @ rest) (length d)
        = Some (Some (?g @ drop (?n - 16) (d @ rest), ?n - 16))"
      unfolding open_encrypted_def d(1) assms(6,7,8) Let_def z_def [symmetric] dec by simp
    then show ?thesis using l(1) unfolding f [of ?alg] by (auto intro!: exI)
  qed
  ultimately show ?thesis using d(1,2) l pad frame_type_byte_low(1) [OF alg(1)] by (intro exI [of _ d]) auto
qed

lemma wire_authenticated:
  assumes "wf_event ev" and "key_ok (m_encryptType c) (m_key c)" and "openssl_cbc_ok (p_ssl p)"
    and "openssl_hmac_ok (p_ssl p)" and "rand_bytes (p_ssl p) = Some iv" and "length iv = 16"
    and "authenticationStateValid (m_encryptType c) (m_key c) (a_keyLength a) hmacKey
           (a_configuredEncryption a) (a_configuredKey a)"
    and "p_ssl q = p_ssl p" and "m_key r = m_key c" and "m_encryptType r = m_encryptType c"
  shows "\<exists>d. authenticated_wire p c hmacKey (frame_image 0 ev) = Some (Some d)
    \<and> 33 \<le> length d \<and> length d \<le> 610
    \<and> (\<forall>rest. 4 \<le> length (d @ rest) \<longrightarrow> (\<exists>rest'. open_authenticated q a r hmacKey (d @ rest) (length d)
         = Some (Some (frame_image (m_encryptType c) ev @ rest', 38 + unat (sizeData ev)))))"
proof -
  define body where "body = drop 1 (frame_image 0 ev)"
  define z where "z = replicate bufferSize (0 :: u8)"
  let ?alg = "m_encryptType c"
  have lz: "length z = 1024" by (simp only: z_def length_replicate bufferSize_def)
  have f: "frame_image t ev = frame_type_byte t # body" for t
    unfolding body_def by (rule frame_image_shape(3) [OF assms(1)])
  have l: "Suc (length body) = 38 + unat (sizeData ev)" "length body \<le> 549"
    using frame_image_shape(1,2) [OF assms(1), of 0] by (simp_all add: body_def)
  have pad: "0 < pad_size (length body)" "pad_size (length body) \<le> 16" by (rule pad_size_bounds)+
  have alg: "?alg \<le> 3" "?alg \<noteq> 0" using key_ok_small [OF assms(2)] by simp_all
  have crc: "vscp_validFrameCrc (frame_type_byte 0 # body) (Suc (length body)) = Some True"
    using frame_image_valid_crc [OF assms(1), of 0] unfolding l(1) f [of 0] .
  have four: "4 \<le> length body" "length body \<le> 4000" using l by simp_all
  obtain w where w: "length w = length body + pad_size (length body) + 33" "w ! 0 = frame_type_byte ?alg"
      "encode (p_ssl p) (frame_type_byte 0 # body) ?alg (Some (m_key c)) 1 (Some hmacKey) = Some (Some (wire_bytes 1 w))"
      and dec: "\<And>dst capacity rest. Suc (length body) \<le> capacity \<Longrightarrow> Suc (length body) \<le> length dst \<Longrightarrow>
        vscp_decryptFrameV1 (p_ssl p) (Some dst) capacity (Some (w @ rest)) (length w) (Some (m_key c)) (Some hmacKey)
          = Some (Suc (length body), Some (frame_type_byte ?alg # body @ drop (Suc (length body)) dst))"
    using encode_authenticated [OF four crc assms(3,4,2,5,6)] unfolding frame_type_byte_low(2) [OF alg(1)] by blast
  let ?d = "wire_bytes 1 w"
  have wire: "authenticated_wire p c hmacKey (frame_image 0 ev) = Some (Some ?d)"
    using w(1) l pad by (simp add: authenticated_wire_def f [of 0] w(3) authenticatedVersion_def bufferSize_def)
  have lw: "length w \<le> 600" "w \<noteq> []" using w(1) l(2) pad by auto
  have plausible: "plausibleFrame (w ! 0) (length w) 1"
    using plausible_authenticated [of "frame_type_byte 0" ?alg, OF _ alg w(1)] lw(1)
    by (simp add: w(2) frame_type_byte_low [OF alg(1)])
  have opened: "\<exists>rest'. open_authenticated q a r hmacKey (?d @ rest) (length ?d)
      = Some (Some (frame_image ?alg ev @ rest', 38 + unat (sizeData ev)))" if "4 \<le> length (?d @ rest)" for rest
  proof -
    have head: "parseHeader (?d @ rest) = Some (True, length w, 1)"
      using parseHeader_wire [of 1 w rest] plausible lw by simp
    have lead: "rd (?d @ rest) headerSize = Some (frame_type_byte ?alg)"
    proof -
      have "(?d @ rest) ! 3 = w ! 0" using lw(2) by (simp add: wire_bytes_eq Let_def nth_append numeral_3_eq_3)
      then show ?thesis using lw(2) w(2) by (simp add: rd_def headerSize_def)
    qed
    have dropped: "drop headerSize (?d @ rest) = w @ rest" by (simp add: headerSize_def)
    have t: "\<not> GET_VSCP_BINARY_PACKET_TYPE (frame_type_byte ?alg) > VSCP_MULTICAST_TYPE_EVENT1"
      by (simp add: frame_type_byte_type)
    have big: "Suc (length body) \<le> bufferSize" "Suc (length body) \<le> length z" using l lz by (simp_all add: bufferSize_def)
    let ?g = "frame_type_byte ?alg # body"
    have out: "rd_block (?g @ drop (Suc (length body)) z) 0 (Suc (length body)) = Some ?g"
      unfolding rd_block_def by simp
    have wr: "wr_block (?d @ rest) 0 ?g = Some (?g @ drop (Suc (length body)) (?d @ rest))"
      using wr_block_zero [of ?g "?d @ rest"] w(1) by simp
    have len: "length ?d = length w + 3" "length w + 3 - headerSize = length w" by (simp_all add: headerSize_def)
    have "open_authenticated q a r hmacKey (?d @ rest) (length ?d)
        = Some (Some (?g @ drop (Suc (length body)) (?d @ rest), Suc (length body)))"
      using assms(7) lw(2) frame_type_byte_low(1) [OF alg(1)] t dec [OF big, of rest] out wr
      unfolding open_authenticated_def len(1) assms(8-10) head lead dropped Let_def z_def [symmetric]
      by (simp add: headerSize_def authenticatedVersion_def Suc_le_eq)
    then show ?thesis unfolding f [of ?alg] l(1) [symmetric] by (auto intro!: exI)
  qed
  show ?thesis using wire opened lw(1) w(1) by (intro exI [of _ ?d]) auto
qed

text \<open>One statement for all modes.\<close>

definition wire_of :: "platform \<Rightarrow> authentication \<Rightarrow> client \<Rightarrow> u8 list \<Rightarrow> nat \<Rightarrow> u8 list option safe" where
  "wire_of p a c frame n =
     (case a_hmacKey a of Some hmacKey \<Rightarrow> authenticated_wire p c hmacKey (take n frame)
      | None \<Rightarrow> if m_encryptType c \<noteq> 0 then encrypted_wire p c frame n else Some (Some (take n frame)))"

definition open_of :: "platform \<Rightarrow> authentication \<Rightarrow> client \<Rightarrow> u8 list \<Rightarrow> nat \<Rightarrow> (u8 list \<times> nat) option safe" where
  "open_of q a r buffer n =
     (case a_hmacKey a of Some hmacKey \<Rightarrow> open_authenticated q a r hmacKey buffer n
      | None \<Rightarrow> if buffer ! 0 AND 0x0f \<noteq> 0 then open_encrypted q r buffer n else Some (Some (buffer, n)))"

lemma wire_opens:
  assumes "wf_event ev" and "link_ok p a c" and "p_ssl q = p_ssl p" and "p_use_openssl q = p_use_openssl p"
    and "m_key r = m_key c" and "m_encryptType r = m_encryptType c"
  shows "\<exists>d. wire_of p a c (frame_image 0 ev @ zs) (38 + unat (sizeData ev)) = Some (Some d)
    \<and> 33 \<le> length d \<and> length d \<le> 610
    \<and> (\<forall>rest. \<exists>t rest' len. open_of q a r (d @ rest) (length d) = Some (Some (frame_image t ev @ rest', len))
         \<and> 38 + unat (sizeData ev) \<le> len \<and> (a_hmacKey a \<noteq> None \<longrightarrow> len = 38 + unat (sizeData ev)))"
proof -
  note shape = frame_image_shape(1,2) [OF assms(1), of 0]
  have cut: "take (38 + unat (sizeData ev)) (frame_image 0 ev @ zs) = frame_image 0 ev" using shape(1) by simp
  consider (auth) hmacKey where "a_hmacKey a = Some hmacKey" | (enc) "a_hmacKey a = None" "m_encryptType c \<noteq> 0"
    | (plain) "a_hmacKey a = None" "m_encryptType c = 0" by (cases "a_hmacKey a") auto
  then show ?thesis
  proof cases
    case auth
    then obtain iv where "key_ok (m_encryptType c) (m_key c)" "openssl_cbc_ok (p_ssl p)" "openssl_hmac_ok (p_ssl p)"
        "rand_bytes (p_ssl p) = Some iv" "length iv = 16"
        "authenticationStateValid (m_encryptType c) (m_key c) (a_keyLength a) hmacKey (a_configuredEncryption a) (a_configuredKey a)"
      using assms(2) by (auto simp: link_ok_def)
    from wire_authenticated [OF assms(1) this assms(3,5,6)] obtain d where
      d: "authenticated_wire p c hmacKey (frame_image 0 ev) = Some (Some d)" "33 \<le> length d" "length d \<le> 610"
      "\<forall>rest. 4 \<le> length (d @ rest) \<longrightarrow> (\<exists>rest'. open_authenticated q a r hmacKey (d @ rest) (length d)
         = Some (Some (frame_image (m_encryptType c) ev @ rest', 38 + unat (sizeData ev))))" by blast
    have "\<exists>t rest' len. open_of q a r (d @ rest) (length d) = Some (Some (frame_image t ev @ rest', len))
         \<and> 38 + unat (sizeData ev) \<le> len \<and> (a_hmacKey a \<noteq> None \<longrightarrow> len = 38 + unat (sizeData ev))" for rest
      using d(4) [rule_format, of rest] d(2) auth by (auto simp: open_of_def)
    then show ?thesis using d(1-3) auth by (intro exI [of _ d]) (auto simp: wire_of_def cut simp del: take_append)
  next
    case enc
    then obtain iv where e: "key_ok (m_encryptType c) (m_key c)" "p_use_openssl p \<Longrightarrow> openssl_cbc_ok (p_ssl p)"
        "p_random p = Some iv" "length iv = 16"
      using assms(2) by (auto simp: link_ok_def)
    from wire_encrypted [OF assms(1) this assms(3,4,5), of zs] obtain d where
      d: "encrypted_wire p c (frame_image 0 ev @ zs) (38 + unat (sizeData ev)) = Some (Some d)"
      "33 \<le> length d" "length d \<le> 600" "d ! 0 AND 0x0f = m_encryptType c"
      "\<forall>rest. \<exists>rest' len. open_encrypted q r (d @ rest) (length d)
         = Some (Some (frame_image (m_encryptType c) ev @ rest', len)) \<and> 38 + unat (sizeData ev) \<le> len" by blast
    have "\<exists>t rest' len. open_of q a r (d @ rest) (length d) = Some (Some (frame_image t ev @ rest', len))
         \<and> 38 + unat (sizeData ev) \<le> len \<and> (a_hmacKey a \<noteq> None \<longrightarrow> len = 38 + unat (sizeData ev))" for rest
    proof -
      have "(d @ rest) ! 0 = d ! 0" using d(2) by (cases d) auto
      moreover obtain rest' len where "open_encrypted q r (d @ rest) (length d)
          = Some (Some (frame_image (m_encryptType c) ev @ rest', len))" "38 + unat (sizeData ev) \<le> len"
        using d(5) by blast
      ultimately show ?thesis using d(4) enc
        by (intro exI [of _ "m_encryptType c"] exI [of _ rest'] exI [of _ len]) (simp add: open_of_def)
    qed
    then show ?thesis using d(1-3) enc by (intro exI [of _ d]) (auto simp: wire_of_def)
  next
    case plain
    have "(frame_image 0 ev @ rest) ! 0 AND 0x0f = 0" for rest
      by (simp add: frame_image_def sealed_def frame_type_byte_plain)
    then show ?thesis using plain shape
      by (intro exI [of _ "frame_image 0 ev"]) (auto simp: wire_of_def open_of_def cut simp del: take_append intro!: exI)
  qed
qed

section \<open>Delivery\<close>

lemma zero_eventEx_raw: "raw_eventEx zero_eventEx"
  by (simp add: raw_eventEx_def zero_eventEx_def VSCP_LEVEL2_MAXDATA_def)

text \<open>The client after an accepted event: what the callbacks got and what the queue got.\<close>

definition taken :: "bool \<Rightarrow> vscpEvent \<Rightarrow> vscpEventEx list \<Rightarrow> client \<Rightarrow> client" where
  "taken semReady event exs c =
     (let both = callbackEvActive c \<and> callbackExActive c
      in c\<lparr>m_receiveQueue := m_receiveQueue c @ (if both then [] else [Some event]),
           m_semReceiveQueue := (if both \<or> \<not> semReady \<or> sem_value_max \<le> m_semReceiveQueue c
              then m_semReceiveQueue c else m_semReceiveQueue c + 1),
           ev_calls := ev_calls c @ (if callbackEvActive c then [event] else []),
           ex_calls := ex_calls c @ exs\<rparr>)"

definition takes_event :: "bool \<Rightarrow> vscpEvent \<Rightarrow> client \<Rightarrow> client \<Rightarrow> bool" where
  "takes_event semReady event c c' \<longleftrightarrow>
     (\<exists>exs. c' = taken semReady event exs c
        \<and> map ex_view exs = (if callbackExActive c then [view_norm (ev_view event)] else []))"

lemma deliver_cases:
  assumes "wf_event event"
  shows "\<exists>c'. deliver semReady event c = Some c'
    \<and> (if vscp_doLevel2Filter (Some event) (Some (m_filter c)) then takes_event semReady event c c' else c' = c)"
proof -
  obtain ex where ex: "vscp_convertEventToEventEx (Some zero_eventEx) (Some event) = Some (True, Some ex)"
      "ex_view ex = view_norm (ev_view event)"
    using to_ex.copies [OF assms zero_eventEx_raw] by blast
  show ?thesis
  proof (cases "vscp_doLevel2Filter (Some event) (Some (m_filter c))")
    case True
    define exs where "exs = (if callbackExActive c then [ex] else [])"
    have "deliver semReady event c = Some (taken semReady event exs c)"
      using ex(1) True by (simp add: deliver_def postSignal_def taken_def exs_def)
    moreover have "map ex_view exs = (if callbackExActive c then [view_norm (ev_view event)] else [])"
      using ex(2) by (simp add: exs_def)
    ultimately have "deliver semReady event c \<noteq> None"
        "takes_event semReady event c (the (deliver semReady event c))"
      unfolding takes_event_def by auto
    then show ?thesis using True by auto
  next
    case False
    then show ?thesis by (simp add: deliver_def)
  qed
qed

lemma sendEvent_wire:
  assumes "wf_event ev" and "m_connected c" and "link_ok p a c"
  shows "\<exists>zs. sendEvent p a c True sendto ev = do {
      wire \<leftarrow> wire_of p a c (frame_image 0 ev @ zs) (38 + unat (sizeData ev));
      (case wire of None \<Rightarrow> Some (VSCP_ERROR_INVALID_FRAME, None)
       | Some d \<Rightarrow> Some (if sendto d = int (length d) then VSCP_ERROR_SUCCESS else VSCP_ERROR_COMMUNICATION, Some d)) }"
proof -
  define z where "z = replicate bufferSize (0 :: u8)"
  let ?zs = "drop (length (frame_image 0 ev)) z" and ?n = "38 + unat (sizeData ev)"
  note shape = frame_image_shape(1,2) [OF assms(1), of 0]
  have lz: "length z = 1024" by (simp only: z_def length_replicate bufferSize_def)
  have wf: "\<not> (unat (sizeData ev) > VSCP_LEVEL2_MAXDATA \<or> (sizeData ev \<noteq> 0 \<and> pdata ev = None))"
    using assms(1) by (auto simp: wf_event_def)
  have enc: "\<not> m_encryptType c > VSCP_ENCRYPTION_AES256"
    using assms(3) by (auto simp: link_ok_def VSCP_ENCRYPTION_AES256_def dest!: key_ok_small split: option.splits)
  have auth: "\<not> (case a_hmacKey a of None \<Rightarrow> False
     | Some hmacKey \<Rightarrow> \<not> authenticationStateValid (m_encryptType c) (m_key c) (a_keyLength a) hmacKey
         (a_configuredEncryption a) (a_configuredKey a))"
    using assms(3) by (auto simp: link_ok_def split: option.splits)
  have size: "vscp_getFrameSizeFromEvent (Some ev) = ?n" "\<not> ?n > bufferSize - 32" "?n \<le> bufferSize"
    using shape by (simp_all add: vscp_getFrameSizeFromEvent_def FRAME0_HEADER_LENGTH_def bufferSize_def)
  have w: "vscp_writeEventToFrame (Some z) bufferSize 0 (Some ev) = Some (True, Some (frame_image 0 ev @ ?zs))"
    by (rule writeEventToFrame_image [OF assms(1)]) (use size lz in \<open>simp_all add: bufferSize_def\<close>)
  have r: "rd_block (frame_image 0 ev @ ?zs) 0 ?n = Some (take ?n (frame_image 0 ev @ ?zs))"
    using shape by (simp add: rd_block_def)
  have rc: "(if sendto d < 0 then VSCP_ERROR_COMMUNICATION
      else if sendto d \<noteq> int (length d) then VSCP_ERROR_COMMUNICATION else VSCP_ERROR_SUCCESS)
    = (if sendto d = int (length d) then VSCP_ERROR_SUCCESS else VSCP_ERROR_COMMUNICATION)" for d by simp
  show ?thesis
    unfolding sendEvent_def Let_def z_def [symmetric] size(1) w r if_not_P [OF wf] if_not_P [OF enc] if_not_P [OF auth]
      if_not_P [OF size(2)] rc wire_of_def
    using assms(2) by (intro exI [of _ ?zs], cases "a_hmacKey a") (simp_all add: r del: take_append)
qed

lemma handle_open:
  assumes "0 < length d" and "length d \<le> bufferSize"
  shows "handle_datagram q a semReady d r = do {
     opened \<leftarrow> open_of q a r (d @ replicate (bufferSize + 1 - length d) 0) (length d);
     (case opened of None \<Rightarrow> Some r
      | Some (buffer, frameLength) \<Rightarrow> do {
          event \<leftarrow> read_event q a buffer frameLength;
          (case event of None \<Rightarrow> Some r | Some event \<Rightarrow> deliver semReady event r) }) }"
proof -
  define z where "z = replicate (bufferSize + 1 - length d) (0 :: u8)"
  have t: "take (bufferSize + 1) d = d" "min (length d) (bufferSize + 1) = length d" using assms(2) by simp_all
  have c: "\<not> (length d = 0 \<or> length d > bufferSize)" using assms by simp
  have "rd (d @ z) 0 = Some ((d @ z) ! 0)" using assms(1) by (simp add: rd_def)
  then show ?thesis
    unfolding handle_datagram_def Let_def t z_def [symmetric] if_not_P [OF c] open_of_def
    by (cases "a_hmacKey a") simp_all
qed

lemma sent_event_content:
  assumes "wf_event ev" and "m_connected sender" and "link_ok p a sender"
    and "p_ssl q = p_ssl p" and "p_use_openssl q = p_use_openssl p"
    and "m_key receiver = m_key sender" and "m_encryptType receiver = m_encryptType sender"
  shows "\<exists>datagram ev' receiver'.
      sendEvent p a sender True (\<lambda>d. int (length d)) ev = Some (VSCP_ERROR_SUCCESS, Some datagram)
    \<and> length datagram \<le> 610 \<and> wf_event ev' \<and> (event_unix_ns ev \<noteq> 0 \<longrightarrow> ev_view ev' = frame_view (ev_view ev))
    \<and> vscp_class ev' = vscp_class ev \<and> vscp_type ev' = vscp_type ev \<and> ev_data ev' = ev_data ev
    \<and> handle_datagram q a semReady datagram receiver = Some receiver'
    \<and> (if vscp_doLevel2Filter (Some ev') (Some (m_filter receiver))
       then takes_event semReady ev' receiver receiver' else receiver' = receiver)"
proof -
  obtain zs where send: "sendEvent p a sender True (\<lambda>d. int (length d)) ev = do {
      wire \<leftarrow> wire_of p a sender (frame_image 0 ev @ zs) (38 + unat (sizeData ev));
      (case wire of None \<Rightarrow> Some (VSCP_ERROR_INVALID_FRAME, None)
       | Some d \<Rightarrow> Some (if int (length d) = int (length d) then VSCP_ERROR_SUCCESS else VSCP_ERROR_COMMUNICATION, Some d)) }"
    using sendEvent_wire [OF assms(1,2,3)] by blast
  obtain d where d: "wire_of p a sender (frame_image 0 ev @ zs) (38 + unat (sizeData ev)) = Some (Some d)"
      "33 \<le> length d" "length d \<le> 610"
      "\<forall>rest. \<exists>t rest' len. open_of q a receiver (d @ rest) (length d) = Some (Some (frame_image t ev @ rest', len))
         \<and> 38 + unat (sizeData ev) \<le> len \<and> (a_hmacKey a \<noteq> None \<longrightarrow> len = 38 + unat (sizeData ev))"
    using wire_opens [OF assms(1,3-7)] by blast
  let ?ev = "received (p_clock q) ev zero_event"
  obtain t rest' len where o: "open_of q a receiver (d @ replicate (bufferSize + 1 - length d) 0) (length d)
        = Some (Some (frame_image t ev @ rest', len))"
      "38 + unat (sizeData ev) \<le> len" "a_hmacKey a \<noteq> None \<longrightarrow> len = 38 + unat (sizeData ev)"
    using d(4) by blast
  have "read_event q a (frame_image t ev @ rest') len = Some (Some ?ev)"
    by (rule read_event_image [OF assms(1) o(2)]) (use o(3) in blast)
  moreover have "0 < length d" "length d \<le> bufferSize" using d(2,3) by (linarith, simp add: bufferSize_def)
  ultimately have h: "handle_datagram q a semReady d receiver = deliver semReady ?ev receiver"
    using handle_open [of d q a semReady receiver] o(1) by simp
  have ev: "wf_event ?ev" "event_unix_ns ev \<noteq> 0 \<longrightarrow> ev_view ?ev = frame_view (ev_view ev)"
      "vscp_class ?ev = vscp_class ev" "vscp_type ?ev = vscp_type ev" "ev_data ?ev = ev_data ev"
    using received_ok [OF assms(1), of "p_clock q" zero_event] by (simp_all add: received_def)
  obtain r' where "deliver semReady ?ev receiver = Some r'"
    "if vscp_doLevel2Filter (Some ?ev) (Some (m_filter receiver)) then takes_event semReady ?ev receiver r'
     else r' = receiver"
    using deliver_cases [OF ev(1)] by blast
  then show ?thesis using send d(1,3) ev h by (intro exI [of _ d] exI [of _ ?ev] exI [of _ r']) simp
qed

lemma sent_event_received:
  assumes "wf_event ev" and "event_unix_ns ev \<noteq> 0" and "m_connected sender" and "link_ok p a sender"
    and "p_ssl q = p_ssl p" and "p_use_openssl q = p_use_openssl p"
    and "m_key receiver = m_key sender" and "m_encryptType receiver = m_encryptType sender"
  shows "\<exists>datagram ev' receiver'.
      sendEvent p a sender True (\<lambda>d. int (length d)) ev = Some (VSCP_ERROR_SUCCESS, Some datagram)
    \<and> length datagram \<le> 610 \<and> wf_event ev' \<and> ev_view ev' = frame_view (ev_view ev)
    \<and> handle_datagram q a semReady datagram receiver = Some receiver'
    \<and> (if vscp_doLevel2Filter (Some ev') (Some (m_filter receiver))
       then takes_event semReady ev' receiver receiver' else receiver' = receiver)"
  using sent_event_content [OF assms(1,3-8), of semReady] assms(2) by blast

section \<open>Any datagram\<close>

text \<open>What an opening step leaves: a buffer of the same size and a length inside it.\<close>

definition opens_inside :: "(u8 list \<times> nat) option safe \<Rightarrow> bool" where
  "opens_inside r \<longleftrightarrow>
     (\<exists>opened. r = Some opened
        \<and> (\<forall>buffer len. opened = Some (buffer, len) \<longrightarrow> length buffer = bufferSize + 1 \<and> len \<le> bufferSize))"

lemma zeros_length: "length (replicate bufferSize (0 :: u8)) = bufferSize"
  by simp

lemma parseHeader_contained: "4 \<le> length data \<Longrightarrow> \<exists>ok len version. parseHeader data = Some (ok, len, version)"
  by (auto simp: parseHeader_def read16_def rd_def headerSize_def Let_def)

lemma copy_back:
  assumes "length out = bufferSize" and "length buffer = bufferSize + 1" and "len \<le> bufferSize"
  shows "\<exists>buffer'. do { bs \<leftarrow> rd_block out 0 len; buffer \<leftarrow> wr_block buffer 0 bs; Some (Some (buffer, len)) }
      = Some (Some (buffer', len)) \<and> length buffer' = bufferSize + 1"
proof -
  have "length (take len out) \<le> length buffer" "length (take len out) = len" using assms by simp_all
  note w = wr_block_zero [OF this(1)] this(2)
  then show ?thesis using assms by (auto simp: rd_block_def)
qed

lemma open_authenticated_inside:
  assumes "length buffer = bufferSize + 1" and "n \<le> bufferSize"
  shows "opens_inside (open_authenticated p a c hmacKey buffer n)"
proof (cases "\<not> authenticationStateValid (m_encryptType c) (m_key c) (a_keyLength a) hmacKey
    (a_configuredEncryption a) (a_configuredKey a) \<or> n < headerSize + 1")
  case False
  have four: "4 \<le> length buffer" using assms(1) by (simp add: bufferSize_def)
  obtain ok len version where ph: "parseHeader buffer = Some (ok, len, version)"
    using parseHeader_contained [OF four] by blast
  obtain lead where lead: "rd buffer headerSize = Some lead" using four by (auto simp: rd_def headerSize_def)
  let ?bad = "\<not> ok \<or> version \<noteq> authenticatedVersion \<or> len \<noteq> n - headerSize
      \<or> GET_VSCP_BINARY_PACKET_TYPE lead > VSCP_MULTICAST_TYPE_EVENT1 \<or> lead AND 0x0f \<noteq> m_encryptType c"
  show ?thesis
  proof (cases ?bad)
    case True
    then show ?thesis using False ph lead by (auto simp: open_authenticated_def opens_inside_def)
  next
    case good: False
    then have l: "len \<le> length (drop headerSize buffer)" using assms by simp
    obtain m out where d: "vscp_decryptFrameV1 (p_ssl p) (Some (replicate bufferSize 0)) bufferSize
          (Some (drop headerSize buffer)) len (Some (m_key c)) (Some hmacKey) = Some (m, Some out)"
        "m \<le> bufferSize" "length out = bufferSize"
      using decryptFrameV1_contained [OF l eq_refl [OF zeros_length [symmetric]], of "p_ssl p" "m_key c" hmacKey] by auto
    obtain buffer' where b: "do { bs \<leftarrow> rd_block out 0 m; buffer \<leftarrow> wr_block buffer 0 bs; Some (Some (buffer, m)) }
        = Some (Some (buffer', m))" "length buffer' = bufferSize + 1"
      using copy_back [OF d(3) assms(1) d(2)] by blast
    have "open_authenticated p a c hmacKey buffer n = (if m = 0 then Some None else Some (Some (buffer', m)))"
      unfolding open_authenticated_def if_not_P [OF False] ph lead bind.bind_lunit prod.case if_not_P [OF good] Let_def d(1) b(1)
      by simp
    then show ?thesis using d(2) b(2) by (auto simp: opens_inside_def)
  qed
qed (auto simp: open_authenticated_def opens_inside_def)

lemma open_encrypted_inside:
  assumes "length buffer = bufferSize + 1" and "n \<le> bufferSize" and "32 \<le> length (m_key c)"
  shows "opens_inside (open_encrypted p c buffer n)"
proof (cases "n < 1 + 16 + 16")
  case False
  then have n: "n \<le> length buffer" "33 \<le> n" "n \<le> length (replicate bufferSize (0 :: u8))" using assms by simp_all
  obtain ok out where d: "vscp_decryptFrame (p_use_openssl p) (p_ssl p) (Some (replicate bufferSize 0)) (Some buffer) n
      (Some (m_key c)) None VSCP_ENCRYPTION_FROM_TYPE_BYTE = Some (ok, Some out)" "length out = bufferSize"
    using decryptFrame_contained [OF n assms(3), of "p_use_openssl p" "p_ssl p" VSCP_ENCRYPTION_FROM_TYPE_BYTE] by auto
  have "n - 16 \<le> bufferSize" using assms(2) by simp
  from copy_back [OF d(2) assms(1) this] obtain buffer' where
    b: "do { bs \<leftarrow> rd_block out 0 (n - 16); buffer \<leftarrow> wr_block buffer 0 bs; Some (Some (buffer, n - 16)) }
        = Some (Some (buffer', n - 16))" "length buffer' = bufferSize + 1" by blast
  have "open_encrypted p c buffer n = (if \<not> ok then Some None else Some (Some (buffer', n - 16)))"
    unfolding open_encrypted_def if_not_P [OF False] Let_def d(1) bind.bind_lunit prod.case b(1) by simp
  then show ?thesis using assms(2) b(2) by (auto simp: opens_inside_def)
qed (auto simp: open_encrypted_def opens_inside_def)

lemma read_event_inside:
  assumes "length buffer = bufferSize + 1" and "n \<le> bufferSize"
  shows "\<exists>r. read_event p a buffer n = Some r \<and> (\<forall>ev. r = Some ev \<longrightarrow> wf_event ev)"
proof (cases "n < minimumFrameSize")
  case False
  have b: "36 \<le> length buffer" "n \<le> length buffer" using assms by (simp_all add: bufferSize_def)
  have r: "rd buffer 34 = Some (buffer ! 34)" "rd buffer 35 = Some (buffer ! 35)" using b(1) by (simp_all add: rd_def)
  let ?size = "unat (buffer ! 34) * 256 + unat (buffer ! 35)"
  have size: "unat (be16 (buffer ! 34) (buffer ! 35)) = ?size" by (rule unat_be16)
  show ?thesis
  proof (cases "?size > VSCP_LEVEL2_MAXDATA \<or> a_hmacKey a \<noteq> None \<and> n \<noteq> minimumFrameSize + ?size")
    case True
    then show ?thesis using False r by (auto simp: read_event_def Let_def)
  next
    case good: False
    have "vscp_getEventFromFrame (p_clock p) (Some zero_event) (Some buffer) n = Some (False, Some zero_event)
      \<or> (\<exists>ev. vscp_getEventFromFrame (p_clock p) (Some zero_event) (Some buffer) n = Some (True, Some ev) \<and> wf_event ev)"
      using getEventFromFrame_safe [OF b, of "p_clock p" zero_event] good size
      by (auto simp: wf_event_def split: option.splits)
    then show ?thesis using False r good by (auto simp: read_event_def Let_def)
  qed
qed (simp add: read_event_def)

lemma handle_datagram_cases:
  assumes "32 \<le> length (m_key c)"
  shows "\<exists>c'. handle_datagram p a semReady datagram c = Some c'
    \<and> (c' = c \<or> (\<exists>ev. wf_event ev \<and> vscp_doLevel2Filter (Some ev) (Some (m_filter c)) \<and> takes_event semReady ev c c'))"
proof (cases "0 < length datagram \<and> length datagram \<le> bufferSize")
  case True
  let ?b = "datagram @ replicate (bufferSize + 1 - length datagram) 0" and ?n = "length datagram"
  have b: "length ?b = bufferSize + 1" "?n \<le> bufferSize" using True by simp_all
  have "opens_inside (open_of p a c ?b ?n)"
    using open_authenticated_inside [OF b] open_encrypted_inside [OF b assms] b
    by (auto simp: open_of_def opens_inside_def split: option.split)
  then obtain opened where o: "open_of p a c ?b ?n = Some opened"
      "\<And>buffer len. opened = Some (buffer, len) \<Longrightarrow> length buffer = bufferSize + 1 \<and> len \<le> bufferSize"
    by (auto simp: opens_inside_def)
  show ?thesis
  proof (cases opened)
    case None
    then show ?thesis using True o(1) by (simp add: handle_open)
  next
    case (Some bl)
    obtain buffer len where bl: "opened = Some (buffer, len)" using Some by (cases bl) auto
    from o(2) [OF bl] read_event_inside [of buffer len p a] obtain r where
      r: "read_event p a buffer len = Some r" "\<And>ev. r = Some ev \<Longrightarrow> wf_event ev" by blast
    show ?thesis
    proof (cases r)
      case None
      then show ?thesis using True o(1) bl r(1) by (simp add: handle_open)
    next
      case ev: (Some ev)
      have w: "wf_event ev" by (rule r(2) [OF ev])
      obtain c' where "deliver semReady ev c = Some c'"
        "if vscp_doLevel2Filter (Some ev) (Some (m_filter c)) then takes_event semReady ev c c' else c' = c"
        using deliver_cases [OF w] by blast
      then show ?thesis using True o(1) bl r(1) ev w
        by (cases "vscp_doLevel2Filter (Some ev) (Some (m_filter c))") (auto simp: handle_open)
    qed
  qed
next
  case False
  then show ?thesis by (auto simp: handle_datagram_def Let_def)
qed

section \<open>The client as a state machine\<close>

text \<open>
  What the threads of a client do to its state, one locked operation at a time, in any order and for
  any clock, library and datagram. A user may change the filter, the callbacks and the settings.
\<close>

inductive client_step :: "client \<Rightarrow> client \<Rightarrow> bool" where
  arrival: "handle_datagram p a True datagram c = Some c' \<Longrightarrow> client_step c c'"
| taking: "popEvent True blocking timeout c = (result, event, c') \<Longrightarrow> client_step c c'"
| clearing: "clearQueue True c = (result, c') \<Longrightarrow> client_step c c'"
| filtering: "client_step c (c\<lparr>m_filter := f\<rparr>)"
| callbacks: "client_step c (c\<lparr>callbackEvActive := x, callbackExActive := y\<rparr>)"
| settings: "32 \<le> length key \<Longrightarrow> client_step c (c\<lparr>m_encryptType := e, m_key := key\<rparr>)"
| lifecycle: "client_step c (c\<lparr>m_bRun := run, m_connected := connected\<rparr>)"

inductive reachable :: "client \<Rightarrow> bool" where
  start: "m_receiveQueue c = [] \<Longrightarrow> m_semReceiveQueue c = 0 \<Longrightarrow> 32 \<le> length (m_key c) \<Longrightarrow> reachable c"
| step: "reachable c \<Longrightarrow> client_step c c' \<Longrightarrow> reachable c'"

definition client_ok :: "client \<Rightarrow> bool" where
  "client_ok c \<longleftrightarrow> list_all (\<lambda>e. \<exists>ev. e = Some ev \<and> wf_event ev) (m_receiveQueue c)
     \<and> m_semReceiveQueue c \<le> length (m_receiveQueue c) \<and> 32 \<le> length (m_key c)"

lemma popEvent_queue:
  assumes "popEvent semReady blocking timeout c = (result, event, c')"
  shows "c' = c \<or> (\<exists>queue. m_receiveQueue c = event # queue \<and> c' = consumeSignal semReady (c\<lparr>m_receiveQueue := queue\<rparr>))"
  using assms by (auto simp: popEvent_def split: if_splits list.splits)

lemma clear_loop_empties:
  "m_receiveQueue (clear_loop semReady q c) = (if q = [] then m_receiveQueue c else [])
   \<and> m_semReceiveQueue (clear_loop semReady q c) = (if semReady then m_semReceiveQueue c - length q else m_semReceiveQueue c)
   \<and> m_key (clear_loop semReady q c) = m_key c"
  by (induction semReady q c rule: clear_loop.induct) (auto simp: consumeSignal_def)

lemma taken_queue [simp]:
  "m_receiveQueue (taken semReady ev exs c)
     = m_receiveQueue c @ (if callbackEvActive c \<and> callbackExActive c then [] else [Some ev])"
  "m_key (taken semReady ev exs c) = m_key c"
  by (simp_all add: taken_def Let_def)

lemma client_ok_takes: "client_ok c \<Longrightarrow> wf_event ev \<Longrightarrow> takes_event True ev c c' \<Longrightarrow> client_ok c'"
  by (auto simp: takes_event_def client_ok_def) (auto simp: taken_def Let_def)

lemma client_ok_step:
  assumes "client_ok c" and "client_step c c'"
  shows "client_ok c'"
  using assms(2)
proof (cases rule: client_step.cases)
  case (arrival p a datagram)
  have "32 \<le> length (m_key c)" using assms(1) by (simp add: client_ok_def)
  from handle_datagram_cases [OF this, of p a True datagram] arrival
  have "c' = c \<or> (\<exists>ev. wf_event ev \<and> takes_event True ev c c')" by auto
  then show ?thesis using assms(1) client_ok_takes by blast
next
  case (taking blocking timeout result event)
  then show ?thesis using assms(1) popEvent_queue [OF taking] by (auto simp: client_ok_def consumeSignal_def)
next
  case (clearing result)
  then have c': "c' = clear_loop True (m_receiveQueue c) c" by (simp add: clearQueue_def)
  show ?thesis using assms(1) clear_loop_empties [of True "m_receiveQueue c" c] unfolding c' by (auto simp: client_ok_def)
qed (use assms(1) in \<open>auto simp: client_ok_def\<close>)

lemma reachable_ok: "reachable c \<Longrightarrow> client_ok c"
proof (induction rule: reachable.induct)
  case (start c)
  then show ?case by (simp add: client_ok_def)
next
  case (step c c')
  show ?case by (rule client_ok_step [OF step.IH step.hyps(2)])
qed

lemma receive_outcome:
  assumes "client_ok c"
  shows "if blocking \<and> timeout < 0 then receiveEvent True dest blocking timeout c = Some (VSCP_ERROR_PARAMETER, dest, c)
     else case m_receiveQueue c of
       [] \<Rightarrow> receiveEvent True dest blocking timeout c
               = Some (if blocking then VSCP_ERROR_TIMEOUT else VSCP_ERROR_FIFO_EMPTY, dest, c)
     | e # queue \<Rightarrow> \<exists>ev dest' c'. e = Some ev
         \<and> receiveEvent True dest blocking timeout c = Some (VSCP_ERROR_SUCCESS, dest', c')
         \<and> wf_event dest' \<and> ev_view dest' = view_norm (ev_view ev)
         \<and> c' = c\<lparr>m_receiveQueue := queue, m_semReceiveQueue := m_semReceiveQueue c - 1\<rparr>"
proof (cases "m_receiveQueue c")
  case Nil
  then show ?thesis
    by (auto simp: receiveEvent_def popEvent_def VSCP_ERROR_PARAMETER_def VSCP_ERROR_TIMEOUT_def
        VSCP_ERROR_FIFO_EMPTY_def VSCP_ERROR_SUCCESS_def)
next
  case (Cons e queue)
  then obtain ev where e: "e = Some ev" "wf_event ev" using assms by (auto simp: client_ok_def)
  obtain dest' where "vscp_copyEvent (Some dest) (Some ev) = Some (True, Some dest')" "wf_event dest'"
      "ev_view dest' = view_norm (ev_view ev)"
    using ev_ev.copies [OF e(2) TrueI] by blast
  then show ?thesis
    using Cons e
    by (auto simp: receiveEvent_def popEvent_def consumeSignal_def VSCP_ERROR_PARAMETER_def VSCP_ERROR_SUCCESS_def)
qed

section \<open>Properties\<close>

text \<open>C2: An event that carries a time and is sent over a link, in the clear, encrypted or authenticated,
  leaves as one datagram of at most 610 bytes. A receiver with the same key settings takes from it a
  well-formed event with the same content: it puts it into its queue and hands it to its callbacks
  when its filter lets it pass, and is left as it was otherwise.\<close>

theorem sent_event_is_received:
  assumes "wf_event ev" and "event_unix_ns ev \<noteq> 0" and "m_connected sender" and "link_ok p a sender"
    and "p_ssl q = p_ssl p" and "p_use_openssl q = p_use_openssl p"
    and "m_key receiver = m_key sender" and "m_encryptType receiver = m_encryptType sender"
  shows "\<exists>datagram ev' receiver'.
      sendEvent p a sender True (\<lambda>d. int (length d)) ev = Some (VSCP_ERROR_SUCCESS, Some datagram)
    \<and> length datagram \<le> 610 \<and> wf_event ev' \<and> ev_view ev' = frame_view (ev_view ev)
    \<and> handle_datagram q a semReady datagram receiver = Some receiver'
    \<and> (if vscp_doLevel2Filter (Some ev') (Some (m_filter receiver))
       then takes_event semReady ev' receiver receiver' else receiver' = receiver)"
  by (rule sent_event_received [OF assms])

definition sample_client :: client where
  "sample_client = \<lparr>m_receiveQueue = [], m_semReceiveQueue = 0, m_filter = zero_filter, m_encryptType = 1,
     m_key = replicate 32 7, m_bRun = True, m_connected = True, callbackEvActive = False,
     callbackExActive = False, ev_calls = [], ex_calls = []\<rparr>"

definition sample_authentication :: authentication where
  "sample_authentication = \<lparr>a_keyLength = 16, a_hmacKey = Some (replicate 32 9), a_configuredEncryption = 1,
     a_configuredKey = replicate 32 7\<rparr>"

definition sample_platform :: platform where
  "sample_platform = \<lparr>p_ssl = sample_ssl, p_use_openssl = False,
     p_clock = \<lparr>clk_sec = 0, clk_nsec = 0, clk_ts = 0\<rparr>, p_random = None\<rparr>"

lemma sample_link_ok: "link_ok sample_platform sample_authentication sample_client"
proof -
  have "openssl_hmac_ok sample_ssl" by (auto simp: openssl_hmac_ok_def sample_ssl_def min_def)
  moreover have "rand_bytes sample_ssl = Some (replicate 16 7)" by (simp add: sample_ssl_def)
  ultimately show ?thesis
    using sample_ssl_ok
    by (simp add: link_ok_def sample_platform_def sample_authentication_def sample_client_def key_ok_def
        VSCP_ENCRYPTION_AES128_def authenticationStateValid_def authenticatedKeysValid_def memory_differs_def
        aesKeyLength_def)
qed

lemma sample_event_time: "event_unix_ns sample_event \<noteq> 0"
  by (simp add: sample_event_def event_unix_ns_def is_unix_ns_def FRAME_VERSION_MASK_def FRAME_VERSION_UNIX_NS_def)

theorem sent_event_is_received_witness:
  "\<exists>datagram ev' receiver'.
      sendEvent sample_platform sample_authentication sample_client True (\<lambda>d. int (length d)) sample_event
        = Some (VSCP_ERROR_SUCCESS, Some datagram)
    \<and> length datagram \<le> 610 \<and> wf_event ev' \<and> ev_view ev' = frame_view (ev_view sample_event)
    \<and> handle_datagram sample_platform sample_authentication True datagram sample_client = Some receiver'
    \<and> (if vscp_doLevel2Filter (Some ev') (Some (m_filter sample_client))
       then takes_event True ev' sample_client receiver' else receiver' = sample_client)"
  by (rule sent_event_is_received [OF sample_event_ok(1) sample_event_time _ sample_link_ok])
    (simp_all add: sample_client_def)

text \<open>C4: Whatever datagram arrives, of any length and content, and whatever the library answers, one pass of
  the receive loop touches no memory outside its buffers. It leaves the client as it was, or takes
  one well-formed event that passes the filter.\<close>

theorem any_datagram_is_handled:
  assumes "length (m_key c) = 32"
  shows "\<exists>c'. handle_datagram p a semReady datagram c = Some c'
    \<and> (c' = c \<or> (\<exists>ev. wf_event ev \<and> vscp_doLevel2Filter (Some ev) (Some (m_filter c)) \<and> takes_event semReady ev c c'))"
  using handle_datagram_cases [of c p a semReady datagram] assms by simp

theorem any_datagram_is_handled_witness:
  "\<exists>c'. handle_datagram sample_platform sample_authentication True [0x11, 0xff, 3] sample_client = Some c'
    \<and> (c' = sample_client \<or> (\<exists>ev. wf_event ev \<and> vscp_doLevel2Filter (Some ev) (Some (m_filter sample_client))
          \<and> takes_event True ev sample_client c'))"
  by (rule any_datagram_is_handled) (simp add: sample_client_def)

text \<open>C5: In every reachable state of a client, after any interleaving of arrivals, receive calls, clears and
  changes of its settings, a receive call reports a bad timeout, reports an empty queue, or succeeds
  with the content of the oldest event and removes it; the errors of a lost or invalid event cannot
  occur. The semaphore never counts more than the events that are queued.\<close>

theorem receive_in_reachable_state:
  assumes "reachable c"
  shows "m_semReceiveQueue c \<le> length (m_receiveQueue c)
    \<and> (if blocking \<and> timeout < 0 then receiveEvent True dest blocking timeout c = Some (VSCP_ERROR_PARAMETER, dest, c)
       else case m_receiveQueue c of
         [] \<Rightarrow> receiveEvent True dest blocking timeout c
                 = Some (if blocking then VSCP_ERROR_TIMEOUT else VSCP_ERROR_FIFO_EMPTY, dest, c)
       | e # queue \<Rightarrow> \<exists>ev dest' c'. e = Some ev
           \<and> receiveEvent True dest blocking timeout c = Some (VSCP_ERROR_SUCCESS, dest', c')
           \<and> wf_event dest' \<and> ev_view dest' = view_norm (ev_view ev)
           \<and> c' = c\<lparr>m_receiveQueue := queue, m_semReceiveQueue := m_semReceiveQueue c - 1\<rparr>)"
  using receive_outcome [OF reachable_ok [OF assms], of blocking timeout dest] reachable_ok [OF assms]
  by (simp add: client_ok_def)

theorem receive_in_reachable_state_witness:
  "receiveEvent True sample_event False 0 sample_client = Some (VSCP_ERROR_FIFO_EMPTY, sample_event, sample_client)"
proof -
  have "reachable sample_client" by (rule reachable.start) (simp_all add: sample_client_def)
  from receive_in_reachable_state [OF this, of False 0 sample_event]
  show ?thesis by (simp add: sample_client_def)
qed

section \<open>A stream of events\<close>

text \<open>Each event is sent and its datagram handled; then the queue is read empty.\<close>

fun transmit :: "platform \<Rightarrow> platform \<Rightarrow> authentication \<Rightarrow> client \<Rightarrow> vscpEvent list \<Rightarrow> client \<Rightarrow> client safe" where
  "transmit p q a sender [] receiver = Some receiver"
| "transmit p q a sender (ev # evs) receiver = do {
     (rc, datagram) \<leftarrow> sendEvent p a sender True (\<lambda>d. int (length d)) ev;
     receiver \<leftarrow> (case datagram of None \<Rightarrow> Some receiver | Some d \<Rightarrow> handle_datagram q a True d receiver);
     transmit p q a sender evs receiver }"

fun receive_all :: "nat \<Rightarrow> client \<Rightarrow> (event_view list \<times> client) safe" where
  "receive_all 0 c = Some ([], c)"
| "receive_all (Suc n) c = do {
     (rc, ev, c) \<leftarrow> receiveEvent True zero_event False 0 c;
     if rc = VSCP_ERROR_SUCCESS then do { (vs, c) \<leftarrow> receive_all n c; Some (ev_view ev # vs, c) } else Some ([], c) }"

definition queued_views :: "client \<Rightarrow> event_view list" where
  "queued_views c = map (\<lambda>e. case e of None \<Rightarrow> ev_view zero_event | Some ev \<Rightarrow> view_norm (ev_view ev)) (m_receiveQueue c)"

lemma receive_all_queue:
  "client_ok c \<Longrightarrow> length (m_receiveQueue c) = n \<Longrightarrow>
   \<exists>c'. receive_all n c = Some (queued_views c, c') \<and> m_receiveQueue c' = []"
proof (induction n arbitrary: c)
  case (Suc n)
  then obtain e queue where q: "m_receiveQueue c = e # queue" "length queue = n" by (cases "m_receiveQueue c") auto
  let ?c = "c\<lparr>m_receiveQueue := queue, m_semReceiveQueue := m_semReceiveQueue c - 1\<rparr>"
  obtain ev dest' where r: "e = Some ev" "receiveEvent True zero_event False 0 c = Some (VSCP_ERROR_SUCCESS, dest', ?c)"
      "ev_view dest' = view_norm (ev_view ev)"
    using receive_outcome [OF Suc.prems(1), of False 0 zero_event] q(1) by auto
  have ok: "client_ok ?c" using Suc.prems(1) q by (auto simp: client_ok_def)
  have "length (m_receiveQueue ?c) = n" using q(2) by simp
  from Suc.IH [OF ok this] obtain c' where c': "receive_all n ?c = Some (queued_views ?c, c')" "m_receiveQueue c' = []"
    by blast
  have "queued_views c = view_norm (ev_view ev) # queued_views ?c" using q(1) r(1) by (simp add: queued_views_def)
  then show ?case using r(2,3) c' by simp
qed (simp add: queued_views_def)

lemma zero_filter_passes: "vscp_doLevel2Filter (Some ev) (Some zero_filter)"
proof -
  have "guid_test (replicate 16 0) g (replicate 16 0) n" if "n \<le> 16" for g n
    using that by (induction n) (simp_all add: bits_differ_def)
  then show ?thesis by (simp add: vscp_doLevel2Filter_def zero_filter_def bits_differ_def)
qed

lemma transmit_queues:
  assumes "m_connected sender" and "link_ok p a sender" and "p_ssl q = p_ssl p" and "p_use_openssl q = p_use_openssl p"
  shows "list_all (\<lambda>ev. wf_event ev \<and> event_unix_ns ev \<noteq> 0) evs \<Longrightarrow> client_ok receiver \<Longrightarrow>
    m_key receiver = m_key sender \<Longrightarrow> m_encryptType receiver = m_encryptType sender \<Longrightarrow>
    m_filter receiver = zero_filter \<Longrightarrow> \<not> (callbackEvActive receiver \<and> callbackExActive receiver) \<Longrightarrow>
    \<exists>r'. transmit p q a sender evs receiver = Some r' \<and> client_ok r'
      \<and> queued_views r' = queued_views receiver @ map (\<lambda>ev. frame_view (ev_view ev)) evs"
proof (induction evs arbitrary: receiver)
  case (Cons ev evs)
  then have w: "wf_event ev" "event_unix_ns ev \<noteq> 0" by simp_all
  obtain d ev' r where s: "sendEvent p a sender True (\<lambda>d. int (length d)) ev = Some (VSCP_ERROR_SUCCESS, Some d)"
      "wf_event ev'" "ev_view ev' = frame_view (ev_view ev)" "handle_datagram q a True d receiver = Some r"
      "if vscp_doLevel2Filter (Some ev') (Some (m_filter receiver)) then takes_event True ev' receiver r else r = receiver"
    using sent_event_received [OF w assms Cons.prems(3,4), where semReady = True] by blast
  then have t: "takes_event True ev' receiver r" using Cons.prems(5) zero_filter_passes by simp
  then obtain exs where r: "r = taken True ev' exs receiver" by (auto simp: takes_event_def)
  have "client_ok r" by (rule client_ok_takes [OF Cons.prems(2) s(2) t])
  moreover have "queued_views r = queued_views receiver @ [frame_view (ev_view ev)]"
    using Cons.prems(6) s(3) by (auto simp: r queued_views_def)
  moreover have "m_key r = m_key sender" "m_encryptType r = m_encryptType sender" "m_filter r = zero_filter"
      "\<not> (callbackEvActive r \<and> callbackExActive r)"
    using Cons.prems(3-6) by (simp_all add: r taken_def Let_def)
  moreover have "list_all (\<lambda>ev. wf_event ev \<and> event_unix_ns ev \<noteq> 0) evs" using Cons.prems(1) by simp
  ultimately show ?case using Cons.IH [of r] s(1,4) by auto
qed simp

text \<open>C3: Every event of a stream that is sent to an idle client which accepts all events is delivered: as
  many receive calls as events were sent give their contents, each once and in the order of the
  sending, and leave the queue empty.\<close>

theorem stream_is_delivered_in_order:
  assumes "list_all (\<lambda>ev. wf_event ev \<and> event_unix_ns ev \<noteq> 0) evs"
    and "m_connected sender" and "link_ok p a sender" and "p_ssl q = p_ssl p" and "p_use_openssl q = p_use_openssl p"
    and "m_receiveQueue receiver = []" and "m_semReceiveQueue receiver = 0" and "32 \<le> length (m_key receiver)"
    and "m_key receiver = m_key sender" and "m_encryptType receiver = m_encryptType sender"
    and "m_filter receiver = zero_filter" and "\<not> (callbackEvActive receiver \<and> callbackExActive receiver)"
  shows "\<exists>r' r''. transmit p q a sender evs receiver = Some r'
    \<and> receive_all (length evs) r' = Some (map (\<lambda>ev. frame_view (ev_view ev)) evs, r'')
    \<and> m_receiveQueue r'' = []"
proof -
  have "client_ok receiver" using assms(6-8) by (simp add: client_ok_def)
  from transmit_queues [OF assms(2-5,1) this assms(9-12)] obtain r' where
    r: "transmit p q a sender evs receiver = Some r'" "client_ok r'"
      "queued_views r' = map (\<lambda>ev. frame_view (ev_view ev)) evs"
    using assms(6) by (auto simp: queued_views_def)
  have "length (m_receiveQueue r') = length evs" using arg_cong [OF r(3), of length] by (simp add: queued_views_def)
  from receive_all_queue [OF r(2) this] show ?thesis using r(1,3) by auto
qed

theorem stream_is_delivered_in_order_witness:
  "\<exists>r' r''. transmit sample_platform sample_platform sample_authentication sample_client [sample_event, sample_event]
        sample_client = Some r'
    \<and> receive_all (length [sample_event, sample_event]) r'
        = Some (map (\<lambda>ev. frame_view (ev_view ev)) [sample_event, sample_event], r'')
    \<and> m_receiveQueue r'' = []"
  by (rule stream_is_delivered_in_order)
    (simp_all add: sample_event_ok sample_event_time sample_link_ok, simp_all add: sample_client_def)

end
