(* ===== verification/Canal.thy ===== *)
theory Canal
  imports EventTime
begin

text \<open>
  Conversion between VSCP events and CANAL messages (canal.h and the \<^verbatim>\<open>vscp_convert*Canal*\<close>
  routines of vscphelper.cpp). A CANAL message is a CAN frame with a 29 bit id that carries
  priority, hard-coded flag, class, type and nickname, and at most eight bytes of data. The
  conversion of an event with a class from 512 to 1023 strips the interface GUID in front of its
  data by moving the bytes inside the caller's event, so the event is part of the result.
\<close>

section \<open>CANAL messages\<close>

text \<open>\<^verbatim>\<open>unsigned long\<close> has 64 bits on the platforms modelled here.\<close>

record canalMsg =
  c_flags :: u64
  c_obid :: u64
  c_id :: u64
  c_sizeData :: u8
  c_data :: "u8 list"
  c_timestamp :: u64

definition CANAL_IDFLAG_EXTENDED :: u64 where "CANAL_IDFLAG_EXTENDED = 1"
definition VSCP_CAN_ID_HARD_CODED :: u64 where "VSCP_CAN_ID_HARD_CODED = 0x02000000"

definition wf_canalMsg :: "canalMsg \<Rightarrow> bool" where
  "wf_canalMsg m \<longleftrightarrow> length (c_data m) = 8"

section \<open>From CANAL to VSCP\<close>

definition vscp_convertCanalToEvent ::
  "host_clock \<Rightarrow> vscpEvent ptr \<Rightarrow> canalMsg ptr \<Rightarrow> u8 list ptr \<Rightarrow> (bool \<times> vscpEvent ptr) safe" where
  "vscp_convertCanalToEvent clk pev pcanalMsg pGUID =
     (case pGUID of None \<Rightarrow> Some (False, pev)
      | Some guid \<Rightarrow> (case pcanalMsg of None \<Rightarrow> Some (False, pev)
      | Some msg \<Rightarrow> (case pev of None \<Rightarrow> Some (False, None)
      | Some ev \<Rightarrow> do {
          g \<leftarrow> rd_block guid 0 16;
          let ev = ev\<lparr>GUID := g, head := 0\<rparr>;
          if unat (c_sizeData msg) > 8 then Some (False, Some ev)
          else do {
            ev \<leftarrow> (if unat (c_sizeData msg) > 0
                   then do { d \<leftarrow> rd_block (c_data msg) 0 (unat (c_sizeData msg));
                             Some (ev\<lparr>sizeData := ucast (c_sizeData msg), pdata := Some d\<rparr>) }
                   else Some (ev\<lparr>pdata := None, sizeData := 0\<rparr>));
            let ev = ev\<lparr>head := ucast (vscp_getHeadFromCANALid (ucast (c_id msg)))\<rparr>;
            let ev = (if c_id msg AND 0x02000000 \<noteq> 0
                      then ev\<lparr>head := head ev OR VSCP_HEADER_HARD_CODED\<rparr> else ev);
            let ev = ev\<lparr>head := head ev OR FRAME_VERSION_UNIX_NS,
                        vscp_class := vscp_getVscpClassFromCANALid (ucast (c_id msg)),
                        vscp_type := vscp_getVscpTypeFromCANALid (ucast (c_id msg))\<rparr>;
            ev \<leftarrow> snd (vscp_setEventDateTimeBlockToNow clk (Some ev));
            let ev = ev\<lparr>timestamp_ns := tb_set_timestamp (ucast (c_timestamp msg)) (timestamp_ns ev)\<rparr>;
            ev \<leftarrow> snd (vscp_setEventToNow clk (Some ev));
            g \<leftarrow> wr_block (GUID ev) 15 [ucast (0xff AND c_id msg)];
            Some (True, Some (ev\<lparr>GUID := g\<rparr>)) } })))"

definition vscp_convertCanalToEventEx ::
  "host_clock \<Rightarrow> vscpEvent \<Rightarrow> vscpEventEx ptr \<Rightarrow> canalMsg ptr \<Rightarrow> u8 list ptr \<Rightarrow> (bool \<times> vscpEventEx ptr) safe" where
  "vscp_convertCanalToEventEx clk fresh pex pcanalMsg pGUID = do {
     let pev = vscp_newEvent fresh FRAME_VERSION_UNIX_NS;
     (rv, pev) \<leftarrow> vscp_convertCanalToEvent clk (Some pev) pcanalMsg pGUID;
     if rv then do { (_, pex) \<leftarrow> vscp_convertEventToEventEx pex pev; Some (rv, pex) }
     else Some (rv, pex) }"

section \<open>From VSCP to CANAL\<close>

text \<open>
  The local \<^verbatim>\<open>short sizeData\<close> is signed. \<open>strip_interface\<close> is the branch for classes 512 to 1023: the
  new size, the class, and the event whose data bytes were moved.
\<close>

definition strip_interface :: "vscpEvent \<Rightarrow> (16 word \<times> u16 \<times> vscpEvent) safe" where
  "strip_interface ev =
     (if 512 \<le> unat (vscp_class ev) \<and> unat (vscp_class ev) < 1024 \<and> 16 \<le> unat (sizeData ev)
      then do {
        let sz = sizeData ev - 16;
        ev' \<leftarrow> (if sz \<noteq> 0
               then (if sint sz < 0 then None
                     else do {
                       d \<leftarrow> pdata ev;
                       moved \<leftarrow> rd_block d 16 (unat sz);
                       d \<leftarrow> wr_block d 0 moved;
                       Some (ev\<lparr>pdata := Some d\<rparr>) })
               else Some ev);
        Some (sz, vscp_class ev - 512, ev') }
      else Some (sizeData ev, vscp_class ev, ev))"

definition canal_id :: "u8 \<Rightarrow> u16 \<Rightarrow> u16 \<Rightarrow> u8 \<Rightarrow> u64" where
  "canal_id priority vclass vtype nodeid =
     push_bit 26 (ucast priority) OR push_bit 16 (ucast vclass) OR push_bit 8 (ucast vtype) OR ucast nodeid"

definition vscp_convertEventToCanal ::
  "canalMsg ptr \<Rightarrow> vscpEvent ptr \<Rightarrow> (bool \<times> canalMsg ptr \<times> vscpEvent ptr) safe" where
  "vscp_convertEventToCanal pcanalMsg pev =
     (case pcanalMsg of None \<Rightarrow> Some (False, None, pev)
      | Some msg \<Rightarrow> (case pev of None \<Rightarrow> Some (False, Some msg, None)
      | Some ev \<Rightarrow>
         if sizeData ev \<noteq> 0 \<and> pdata ev = None then Some (False, Some msg, Some ev)
         else do {
           nodeid \<leftarrow> rd (GUID ev) 15;
           (sz, vclass, ev) \<leftarrow> strip_interface ev;
           let priority = (ucast (drop_bit 5 (head ev AND VSCP_HEADER_PRIORITY_MASK)) :: u8);
           let ident = canal_id priority vclass (vscp_type ev) nodeid;
           let ident = (if head ev AND VSCP_HEADER_HARD_CODED \<noteq> 0 then ident OR VSCP_CAN_ID_HARD_CODED
                        else ident);
           let msg = msg\<lparr>c_obid := ucast (obid ev), c_flags := CANAL_IDFLAG_EXTENDED,
                         c_sizeData := (if sint sz \<le> 8 then ucast sz else 8), c_id := ident\<rparr>;
           d \<leftarrow> (case pdata ev of None \<Rightarrow> Some (c_data msg)
                 | Some p \<Rightarrow> do { bs \<leftarrow> rd_block p 0 (unat (c_sizeData msg)); wr_block (c_data msg) 0 bs });
           Some (True, Some (msg\<lparr>c_data := d\<rparr>), Some ev) }))"

definition vscp_convertEventExToCanal ::
  "vscpEvent \<Rightarrow> canalMsg ptr \<Rightarrow> vscpEventEx ptr \<Rightarrow> (bool \<times> canalMsg ptr) safe" where
  "vscp_convertEventExToCanal fresh pcanalMsg pex =
     (case pcanalMsg of None \<Rightarrow> Some (False, None)
      | Some msg \<Rightarrow> (case pex of None \<Rightarrow> Some (False, Some msg)
      | Some ex \<Rightarrow> do {
          let pev = vscp_newEvent fresh FRAME_VERSION_UNIX_NS;
          (ok, pev) \<leftarrow> vscp_convertEventExToEvent (Some pev) (Some ex);
          if \<not> ok then Some (False, Some msg)
          else do { (rv, pcanalMsg, _) \<leftarrow> vscp_convertEventToCanal (Some msg) pev;
                    Some (rv, pcanalMsg) } }))"

section \<open>The id\<close>

definition level1_id :: "u16 \<Rightarrow> u16 \<Rightarrow> u16 \<Rightarrow> u8 \<Rightarrow> u64" where
  "level1_id h c t n =
     (if h AND VSCP_HEADER_HARD_CODED \<noteq> 0 then canal_id (head_priority h) c t n OR VSCP_CAN_ID_HARD_CODED
      else canal_id (head_priority h) c t n)"

lemma priority_of_head: "ucast (drop_bit 5 (h AND VSCP_HEADER_PRIORITY_MASK)) = head_priority h"
  by (rule bit_word_eqI)
    (auto simp: bit_head_priority priority_mask bit_simps add.commute)

lemma hard_coded_bit: "h AND VSCP_HEADER_HARD_CODED \<noteq> 0 \<longleftrightarrow> bit h 4"
proof -
  have "VSCP_HEADER_HARD_CODED = push_bit 4 1" by (simp add: VSCP_HEADER_HARD_CODED_def)
  then show ?thesis unfolding bit_iff_and_push_bit_not_eq_0 by simp
qed

lemma id_hard_coded_bit: "w AND 0x02000000 \<noteq> 0 \<longleftrightarrow> bit (w :: u64) 25"
  unfolding bit_iff_and_push_bit_not_eq_0 by simp

lemma bit_id_hard_coded: "bit VSCP_CAN_ID_HARD_CODED k \<longleftrightarrow> k = 25"
proof -
  have hc: "VSCP_CAN_ID_HARD_CODED = push_bit 25 1" by (simp add: VSCP_CAN_ID_HARD_CODED_def)
  show ?thesis unfolding hc by (simp only: bit_push_bit_iff bit_1_iff) auto
qed

lemma bit_level1_id:
  assumes "unat c < 512" and "unat t < 256"
  shows "bit (level1_id h c t n) k \<longleftrightarrow>
     (if k < 8 then bit n k else if k < 16 then bit t (k - 8) else if k < 25 then bit c (k - 16)
      else if k = 25 then bit h 4 else k < 29 \<and> bit h (k - 21))"
  using small_word_bit [of c 9 "k - 16"] small_word_bit [of t 8 "k - 8"] assms
  unfolding level1_id_def canal_id_def hard_coded_bit
  by (auto simp: bit_simps bit_id_hard_coded bit_head_priority dest: bit_imp_le_length)

lemma level1_id_fields:
  assumes "unat c < 512" and "unat t < 256"
  shows "vscp_getVscpClassFromCANALid (ucast (level1_id h c t n)) = c"
    and "vscp_getVscpTypeFromCANALid (ucast (level1_id h c t n)) = t"
    and "ucast (0xff AND level1_id h c t n) = n"
    and "ucast (vscp_getHeadFromCANALid (ucast (level1_id h c t n))) = h AND 0xF0"
proof -
  note id = bit_level1_id [OF assms]
  have m: "(0xff :: u64) = mask 8" "(0xF0 :: u16) = push_bit 4 (mask 4)"
    by (simp_all add: mask_eq_exp_minus_1)
  show "vscp_getVscpClassFromCANALid (ucast (level1_id h c t n)) = c"
    using small_word_bit [of c 9] assms
    by (intro bit_word_eqI)
      (auto simp: vscp_getVscpClassFromCANALid_def and_masks_u32 bit_simps id add.commute not_less)
  show "vscp_getVscpTypeFromCANALid (ucast (level1_id h c t n)) = t"
    using small_word_bit [of t 8] assms
    by (intro bit_word_eqI)
      (auto simp: vscp_getVscpTypeFromCANALid_def and_masks_u32 bit_simps id add.commute not_less)
  show "ucast (0xff AND level1_id h c t n) = n"
    unfolding m(1) by (rule bit_word_eqI) (auto simp: bit_simps id)
  have hb: "(ucast (level1_id h c t n) :: u32) AND push_bit 25 1 \<noteq> 0 \<longleftrightarrow> bit h 4"
    unfolding bit_iff_and_push_bit_not_eq_0 [symmetric] by (simp add: bit_simps id)
  have prio: "bit (ucast (0x07 AND drop_bit 26 (ucast (level1_id h c t n) :: u32)) :: u8) k \<longleftrightarrow> k < 3 \<and> bit h (k + 5)" for k
    by (auto simp: and_masks_u32 bit_simps id add.commute)
  have b16: "bit (0x10 :: u8) k \<longleftrightarrow> k = 4" for k
    using bit_push_bit_iff [of 4 "1 :: u8" k] by (auto simp: bit_1_iff)
  have hd: "bit (vscp_getHeadFromCANALid (ucast (level1_id h c t n))) k \<longleftrightarrow> 4 \<le> k \<and> k < 8 \<and> bit h k" for k
    unfolding vscp_getHeadFromCANALid_def Let_def hb
    by (cases "bit h 4"; cases "k = 4"; simp only: if_True if_False bit_or_iff bit_push_bit_iff prio b16 bit_0_eq; auto)
  show "ucast (vscp_getHeadFromCANALid (ucast (level1_id h c t n))) = h AND 0xF0"
    unfolding m(2)
    by (rule bit_word_eqI) (simp only: bit_and_iff bit_unsigned_iff bit_push_bit_iff bit_mask_iff hd, auto)
qed

section \<open>What the conversions produce\<close>

definition canal_image :: "canalMsg \<Rightarrow> vscpEvent \<Rightarrow> u16 \<Rightarrow> u8 list \<Rightarrow> canalMsg" where
  "canal_image msg ev vclass bytes =
     msg\<lparr>c_obid := ucast (obid ev), c_flags := CANAL_IDFLAG_EXTENDED,
         c_sizeData := of_nat (length bytes), c_id := level1_id (head ev) vclass (vscp_type ev) (GUID ev ! 15),
         c_data := bytes @ drop (length bytes) (c_data msg)\<rparr>"

lemma sint_small:
  assumes "unat (sz :: 16 word) \<le> 512"
  shows "sint sz = int (unat sz)"
proof -
  have u: "uint sz \<le> 512" using assms by (metis of_nat_le_iff of_nat_numeral uint_nat)
  have "0 \<le> uint sz" by simp
  then have "- 32768 \<le> uint sz" by linarith
  with u have "signed_take_bit 15 (uint sz) = uint sz" by (intro signed_take_bit_int_eq_self) simp_all
  then show ?thesis by (simp add: sint_uint)
qed

lemma canal_size:
  assumes "unat sz \<le> 512"
  shows "(if sint (sz :: 16 word) \<le> 8 then ucast sz else 8) = (of_nat (min (unat sz) 8) :: u8)"
proof -
  have "sint sz \<le> 8 \<longleftrightarrow> unat sz \<le> 8"
    unfolding sint_small [OF assms] by (metis of_nat_le_iff of_nat_numeral)
  then show ?thesis by (simp add: min_def)
qed

lemma convertEventToCanal_level1:
  assumes "wf_event ev" and "unat (vscp_class ev) < 512" and "wf_canalMsg msg"
  shows "vscp_convertEventToCanal (Some msg) (Some ev)
       = Some (True, Some (canal_image msg ev (vscp_class ev) (take 8 (ev_data ev))), Some ev)"
proof (cases "pdata ev")
  case None
  then show ?thesis
    using assms
    by (simp add: vscp_convertEventToCanal_def strip_interface_def rd_in_range wf_event_def wf_canalMsg_def
        canal_image_def ev_data_def level1_id_def priority_of_head [unfolded drop_bit_and] Let_def)
next
  case (Some d)
  have sz: "unat (sizeData ev) \<le> 512" "unat (sizeData ev) \<le> length d"
    using assms(1) Some by (auto simp: wf_event_def VSCP_LEVEL2_MAXDATA_def)
  have "unat (of_nat (min (unat (sizeData ev)) 8) :: u8) = min (unat (sizeData ev)) 8"
    by (rule unat_of_nat_u8) simp
  then show ?thesis
    using assms sz Some
    by (simp add: vscp_convertEventToCanal_def strip_interface_def rd_in_range wf_event_def wf_canalMsg_def
        canal_image_def ev_data_def level1_id_def priority_of_head [unfolded drop_bit_and] Let_def canal_size rd_block_in_range
        wr_block_zero min.commute)
qed

lemma hard_coded_kept: "bit h 4 \<Longrightarrow> (h AND 0xF0) OR VSCP_HEADER_HARD_CODED = h AND 0xF0"
proof -
  assume "bit h 4"
  moreover have hc: "VSCP_HEADER_HARD_CODED = push_bit 4 1" by (simp add: VSCP_HEADER_HARD_CODED_def)
  have "bit VSCP_HEADER_HARD_CODED k \<longleftrightarrow> k = 4" for k
    unfolding hc by (simp only: bit_push_bit_iff bit_1_iff) auto
  moreover have "bit (0xF0 :: u16) 4" by simp
  ultimately show ?thesis
    by (intro bit_word_eqI) (simp only: bit_or_iff bit_and_iff, auto)
qed

lemma canal_head_ns:
  "is_unix_ns ((ucast (b :: u8) OR VSCP_HEADER_HARD_CODED) OR FRAME_VERSION_UNIX_NS)"
  "is_unix_ns (ucast b OR FRAME_VERSION_UNIX_NS)"
  using bit_imp_le_length [of b 9]
  by (auto simp: is_unix_ns_bits bit_or_iff bit_unsigned_iff unix_ns_bit VSCP_HEADER_HARD_CODED_def)

lemma convertCanalToEvent_ok:
  assumes "unat (c_sizeData msg) \<le> 8" and "wf_canalMsg msg" and "length guid = 16"
  shows "\<exists>ev'. vscp_convertCanalToEvent clk (Some ev) (Some msg) (Some guid) = Some (True, Some ev')
     \<and> wf_event ev' \<and> vscp_class ev' = vscp_getVscpClassFromCANALid (ucast (c_id msg))
     \<and> vscp_type ev' = vscp_getVscpTypeFromCANALid (ucast (c_id msg))
     \<and> ev_data ev' = take (unat (c_sizeData msg)) (c_data msg)
     \<and> GUID ev' = take 15 guid @ [ucast (0xff AND c_id msg)]
     \<and> timestamp_ns ev' = word_of_int (clk_sec clk) * 1000000000
     \<and> head ev' = (if bit (c_id msg) 25
                    then ucast (vscp_getHeadFromCANALid (ucast (c_id msg))) OR VSCP_HEADER_HARD_CODED
                    else ucast (vscp_getHeadFromCANALid (ucast (c_id msg)))) OR FRAME_VERSION_UNIX_NS"
proof -
  have "unat (c_sizeData msg) \<le> VSCP_LEVEL2_MAXDATA"
    using assms(1) by (simp add: VSCP_LEVEL2_MAXDATA_def)
  then show ?thesis
    using assms
    by (cases "c_sizeData msg = 0"; cases "bit (c_id msg) 25")
      (simp_all add: vscp_convertCanalToEvent_def rd_block_in_range wf_canalMsg_def Let_def canal_head_ns
        vscp_setEventDateTimeBlockToNow_def vscp_setEventToNow_def wr_block_def id_hard_coded_bit
        wf_event_def ev_data_def unat_gt_0)
qed

lemma canal_image_fields:
  assumes "length bytes \<le> 8" and "wf_canalMsg msg"
  shows "unat (c_sizeData (canal_image msg ev c bytes)) = length bytes"
    and "wf_canalMsg (canal_image msg ev c bytes)"
    and "take (length bytes) (c_data (canal_image msg ev c bytes)) = bytes"
    and "c_id (canal_image msg ev c bytes) = level1_id (head ev) c (vscp_type ev) (GUID ev ! 15)"
  using assms by (simp_all add: canal_image_def wf_canalMsg_def)

section \<open>Properties\<close>

text \<open>C32: A Level I event (class below 512, type below 256, at most eight data bytes) that is converted to a CAN
  message and back is a well-formed event with the same class, type, data and nickname, and with the priority and the
  hard-coded flag of its head; the other GUID bytes are those of the receiving interface. (The message's origin id and
  time stamp are not part of the event that is read.)\<close>

theorem canal_round_trip:
  assumes "wf_event ev" and "unat (vscp_class ev) < 512" and "unat (vscp_type ev) < 256"
    and "unat (sizeData ev) \<le> 8" and "wf_canalMsg msg" and "length guid = 16"
  shows "\<exists>msg' ev'. vscp_convertEventToCanal (Some msg) (Some ev) = Some (True, Some msg', Some ev)
     \<and> vscp_convertCanalToEvent clk (Some dest) (Some msg') (Some guid) = Some (True, Some ev')
     \<and> wf_event ev' \<and> vscp_class ev' = vscp_class ev \<and> vscp_type ev' = vscp_type ev
     \<and> ev_data ev' = ev_data ev \<and> GUID ev' = take 15 guid @ [GUID ev ! 15]
     \<and> head ev' = (head ev AND 0xF0) OR FRAME_VERSION_UNIX_NS"
proof -
  have "length (ev_data ev) \<le> 8"
    using assms(4) by (auto simp: ev_data_def min_def split: option.split)
  then have d: "take 8 (ev_data ev) = ev_data ev" by simp
  let ?m = "canal_image msg ev (vscp_class ev) (ev_data ev)"
  note m = canal_image_fields [OF \<open>length (ev_data ev) \<le> 8\<close> assms(5), of ev "vscp_class ev"]
  note l = level1_id_fields [OF assms(2,3), of "head ev" "GUID ev ! 15"]
  have hc: "bit (c_id ?m) 25 \<longleftrightarrow> bit (head ev) 4"
    unfolding m(4) bit_level1_id [OF assms(2,3)] by simp
  obtain ev' where "vscp_convertCanalToEvent clk (Some dest) (Some ?m) (Some guid) = Some (True, Some ev')"
      "wf_event ev'" "vscp_class ev' = vscp_class ev" "vscp_type ev' = vscp_type ev"
      "ev_data ev' = ev_data ev" "GUID ev' = take 15 guid @ [GUID ev ! 15]"
      "head ev' = (head ev AND 0xF0) OR FRAME_VERSION_UNIX_NS"
    using convertCanalToEvent_ok [of ?m guid clk dest] m l hc assms(6) \<open>length (ev_data ev) \<le> 8\<close>
      hard_coded_kept [of "head ev"]
    by (auto split: if_splits)
  then show ?thesis
    using convertEventToCanal_level1 [OF assms(1,2,5)] d by auto
qed

theorem canal_round_trip_witness:
  "\<exists>msg' ev'. vscp_convertEventToCanal (Some \<lparr>c_flags = 0, c_obid = 0, c_id = 0, c_sizeData = 0,
        c_data = replicate 8 0, c_timestamp = 0\<rparr>) (Some (sample_event\<lparr>vscp_class := 20, vscp_type := 3\<rparr>))
      = Some (True, Some msg', Some (sample_event\<lparr>vscp_class := 20, vscp_type := 3\<rparr>))
     \<and> vscp_convertCanalToEvent \<lparr>clk_sec = 0, clk_nsec = 0, clk_ts = 0\<rparr> (Some sample_event) (Some msg')
         (Some (replicate 16 1)) = Some (True, Some ev')
     \<and> wf_event ev' \<and> vscp_class ev' = vscp_class (sample_event\<lparr>vscp_class := 20, vscp_type := 3\<rparr>)
     \<and> vscp_type ev' = vscp_type (sample_event\<lparr>vscp_class := 20, vscp_type := 3\<rparr>)
     \<and> ev_data ev' = ev_data (sample_event\<lparr>vscp_class := 20, vscp_type := 3\<rparr>)
     \<and> GUID ev' = take 15 (replicate 16 1) @ [GUID (sample_event\<lparr>vscp_class := 20, vscp_type := 3\<rparr>) ! 15]
     \<and> head ev' = (head (sample_event\<lparr>vscp_class := 20, vscp_type := 3\<rparr>) AND 0xF0) OR FRAME_VERSION_UNIX_NS"
  by (rule canal_round_trip) (simp_all add: sample_event_def wf_event_def wf_canalMsg_def VSCP_LEVEL2_MAXDATA_def)

text \<open>An event of a class from 512 to 1023 is sent as the Level I event behind its interface GUID;
  the routine does so by overwriting the data of the event it was given.\<close>

theorem canal_strips_interface_guid:
  assumes "wf_event ev" and "512 \<le> unat (vscp_class ev)" and "unat (vscp_class ev) < 1024"
    and "16 < unat (sizeData ev)" and "pdata ev = Some d" and "wf_canalMsg msg"
  shows "vscp_convertEventToCanal (Some msg) (Some ev)
    = Some (True, Some (canal_image msg ev (vscp_class ev - 512) (take 8 (drop 16 (ev_data ev)))),
        Some (ev\<lparr>pdata := Some (drop 16 (ev_data ev) @ drop (unat (sizeData ev) - 16) d)\<rparr>))"
proof -
  have sz: "unat (sizeData ev) \<le> 512" "unat (sizeData ev) \<le> length d" "length (GUID ev) = 16"
    using assms(1,5) by (auto simp: wf_event_def VSCP_LEVEL2_MAXDATA_def)
  have s: "unat (sizeData ev - 16) = unat (sizeData ev) - 16"
    using assms(4) unat_sub [of 16 "sizeData ev"] by (simp add: word_le_nat_alt)
  then have le: "unat (sizeData ev - 16) \<le> 512" and nz: "sizeData ev - 16 \<noteq> 0" "sizeData ev \<noteq> 0"
    using sz assms(4) by auto
  have pos: "0 \<le> sint (sizeData ev - 16)"
    using sint_small [OF le] by simp
  have "rd_block d 16 (unat (sizeData ev - 16)) = Some (drop 16 (ev_data ev))"
    using sz s assms(4,5) by (simp add: rd_block_def ev_data_def drop_take)
  moreover have "wr_block d 0 (drop 16 (ev_data ev)) = Some (drop 16 (ev_data ev) @ drop (unat (sizeData ev) - 16) d)"
    using sz assms(4,5) by (auto simp: wr_block_def ev_data_def min_def)
  ultimately have st: "strip_interface ev = Some (sizeData ev - 16, vscp_class ev - 512,
      ev\<lparr>pdata := Some (drop 16 (ev_data ev) @ drop (unat (sizeData ev) - 16) d)\<rparr>)"
    using assms(2-5) nz pos by (simp add: strip_interface_def)
  have u: "unat (of_nat (min (unat (sizeData ev - 16)) 8) :: u8) = min (unat (sizeData ev - 16)) 8"
    by (rule unat_of_nat_u8) simp
  define B where "B = drop 16 (ev_data ev)"
  have B: "length B = unat (sizeData ev - 16)" using sz assms(5) s by (simp add: B_def ev_data_def)
  have t: "take (min (length B) 8) (B @ R) = take 8 B" for R by (simp add: min_def)
  show ?thesis
    using assms(5,6) sz(3) nz st u t unfolding B_def [symmetric] B [symmetric]
    by (simp add: vscp_convertEventToCanal_def rd_in_range canal_image_def level1_id_def
        priority_of_head [unfolded drop_bit_and] canal_size [OF le] rd_block_in_range wr_block_zero
        wf_canalMsg_def Let_def B [symmetric] min.commute)
qed

theorem canal_strips_interface_guid_witness:
  "vscp_convertEventToCanal (Some \<lparr>c_flags = 0, c_obid = 0, c_id = 0, c_sizeData = 0,
      c_data = replicate 8 0, c_timestamp = 0\<rparr>)
      (Some (sample_event\<lparr>vscp_class := 532, sizeData := 18, pdata := Some (replicate 16 0 @ [1, 2])\<rparr>))
   = Some (True, Some (canal_image \<lparr>c_flags = 0, c_obid = 0, c_id = 0, c_sizeData = 0,
         c_data = replicate 8 0, c_timestamp = 0\<rparr>
         (sample_event\<lparr>vscp_class := 532, sizeData := 18, pdata := Some (replicate 16 0 @ [1, 2])\<rparr>) 20 [1, 2]),
       Some (sample_event\<lparr>vscp_class := 532, sizeData := 18, pdata := Some ([1, 2] @ replicate 14 0 @ [1, 2])\<rparr>))"
  using canal_strips_interface_guid [of "sample_event\<lparr>vscp_class := 532, sizeData := 18,
      pdata := Some (replicate 16 0 @ [1, 2])\<rparr>" "replicate 16 0 @ [1, 2]"
      "\<lparr>c_flags = 0, c_obid = 0, c_id = 0, c_sizeData = 0, c_data = replicate 8 0, c_timestamp = 0\<rparr>"]
  by (simp add: sample_event_def wf_event_def wf_canalMsg_def VSCP_LEVEL2_MAXDATA_def ev_data_def)

text \<open>The time stamp of the CAN message is written into the time block and overwritten right after:
  messages that differ in it alone give the same event.\<close>

lemma canal_timestamp_is_lost:
  assumes "length guid = 16" and "unat (c_sizeData msg) \<le> 8" and "wf_canalMsg msg"
  shows "vscp_convertCanalToEvent clk (Some ev) (Some (msg\<lparr>c_timestamp := t\<rparr>)) (Some guid)
       = vscp_convertCanalToEvent clk (Some ev) (Some msg) (Some guid)"
  using assms
  by (simp add: vscp_convertCanalToEvent_def rd_block_in_range wf_canalMsg_def Let_def canal_head_ns
      vscp_setEventDateTimeBlockToNow_def vscp_setEventToNow_def)

text \<open>The size is kept in a signed short: an event that claims 0x80FF bytes passes the test against
  eight and overruns the eight data bytes of the message.\<close>

lemma canal_oversized_event_overflows:
  assumes "sizeData ev = 0x80FF" and "unat (vscp_class ev) < 512" and "pdata ev = Some d"
    and "wf_canalMsg msg"
  shows "vscp_convertEventToCanal (Some msg) (Some ev) = None"
proof -
  have "wr_block (c_data msg) 0 bs = None" if "rd_block d 0 255 = Some bs" for bs
    using length_rd_block [OF that] assms(4) by (simp add: wr_block_None_iff wf_canalMsg_def)
  then show ?thesis
    using assms
    by (cases "rd_block d 0 255"; cases "rd (GUID ev) 15")
      (simp_all add: vscp_convertEventToCanal_def strip_interface_def Let_def)
qed

end
