(* ===== verification/UdpClient.thy ===== *)
theory UdpClient
  imports Datagram Canal
begin

text \<open>
  The UDP client (\<^verbatim>\<open>vscp-client-udp.cpp\<close>): configuration from and to JSON, the life cycle of its socket
  and worker thread, and the calls of the client interface, which run the shared datagram transport.
  The JSON library, the socket functions and the creation of threads are parameters. A call of
  \<^verbatim>\<open>connect\<close> or \<^verbatim>\<open>disconnect\<close> is taken from the point where it holds the life cycle mutex and no other
  thread is joining the worker.
\<close>

section \<open>State\<close>

record vscpClientUdp =
  u_client :: client
  m_interface :: string
  m_udpAddr :: string
  m_udpPort :: u16
  m_configuredKeyLength :: u8
  m_hmacEnabled :: bool
  m_hmacKey :: "u8 list"
  m_configuredEncryption :: u8
  m_configuredKey :: "u8 list"
  m_j_config :: json_object
  m_socketOpen :: bool
  m_destination :: sockaddr
  m_pworkerthread :: bool
  m_joining :: bool
  m_semReady :: bool

definition VSCP_DEFAULT_UDP_PORT :: u16 where "VSCP_DEFAULT_UDP_PORT = 33333"

definition VSCP_DEFAULT_KEY16 :: string where "VSCP_DEFAULT_KEY16 = ''A4A86F7D7E119BA3F0CD06881E371B98''"

text \<open>\<open>semReady\<close> is the result of creating the semaphore. The default key fills the front of the key.\<close>

definition new_vscpClientUdp :: "bool \<Rightarrow> vscpClientUdp option" where
  "new_vscpClientUdp semReady = do {
     k \<leftarrow> vscp_hexStr2ByteArray 32 VSCP_DEFAULT_KEY16;
     Some \<lparr>u_client = \<lparr>m_receiveQueue = [], m_semReceiveQueue = 0, m_filter = zero_filter, m_encryptType = 0,
             m_key = k @ drop (length k) (replicate 32 0), m_bRun = False, m_connected = False,
             callbackEvActive = False, callbackExActive = False, ev_calls = [], ex_calls = []\<rparr>,
           m_interface = [], m_udpAddr = ''255.255.255.255'', m_udpPort = VSCP_DEFAULT_UDP_PORT,
           m_configuredKeyLength = 0, m_hmacEnabled = False, m_hmacKey = replicate 32 0,
           m_configuredEncryption = 0, m_configuredKey = replicate 32 0, m_j_config = Map.empty,
           m_socketOpen = False, m_destination = Other_family, m_pworkerthread = False, m_joining = False,
           m_semReady = semReady\<rparr> }"

text \<open>The settings that the transport is called with.\<close>

definition authentication_of :: "vscpClientUdp \<Rightarrow> authentication" where
  "authentication_of u =
     \<lparr>a_keyLength = m_configuredKeyLength u, a_hmacKey = (if m_hmacEnabled u then Some (m_hmacKey u) else None),
      a_configuredEncryption = m_configuredEncryption u, a_configuredKey = m_configuredKey u\<rparr>"

section \<open>Configuration\<close>

definition guid_string :: "u8 list \<Rightarrow> string" where
  "guid_string g = snd (vscp_writeGuidArrayToString [] (Some g) False VSCP_GUID_STR_FORMAT_NORMAL)"

definition key_string :: "u8 \<Rightarrow> u8 list \<Rightarrow> string" where
  "key_string encryption key =
     (if encryption = 1 then vscp_byteArray2HexStr (take 16 key)
      else if encryption = 2 then vscp_byteArray2HexStr (take 24 key)
      else if encryption = 3 then vscp_byteArray2HexStr (take 32 key)
      else [])"

text \<open>The object that is dumped.\<close>

definition config_object :: "vscpClientUdp \<Rightarrow> json_object" where
  "config_object u =
     (let c = u_client u; f = m_filter c
      in map_of
        [(''interface'', J_string (until_NUL (m_interface u))),
         (''ip'', J_string (formatEndpoint (m_udpAddr u) (m_udpPort u))),
         (''encryption'', J_number (uint (m_encryptType c))),
         (''padding'', J_string ''pkcs7''),
         (''hmac-key'', J_string (if m_hmacEnabled u then vscp_byteArray2HexStr (m_hmacKey u) else [])),
         (''key'', J_string (key_string (m_encryptType c) (m_key c))),
         (''priority-filter'', J_number (uint (filter_priority f))),
         (''priority-mask'', J_number (uint (mask_priority f))),
         (''class-filter'', J_number (uint (filter_class f))),
         (''class-mask'', J_number (uint (mask_class f))),
         (''type-filter'', J_number (uint (filter_type f))),
         (''type-mask'', J_number (uint (mask_type f))),
         (''guid-filter'', J_string (guid_string (filter_GUID f))),
         (''guid-mask'', J_string (guid_string (mask_GUID f)))])"

definition getConfigAsJson :: "(json_object \<Rightarrow> string) \<Rightarrow> vscpClientUdp \<Rightarrow> string" where
  "getConfigAsJson dump u = dump (config_object u)"

text \<open>What the JSON parser says of a text: it throws, or gives a value that is an object or not.\<close>

datatype parsed_json = Parse_error | Not_an_object | Object json_object

definition read_interface :: "json_object \<Rightarrow> string \<Rightarrow> string option" where
  "read_interface config interfaceName =
     (case config ''interface'' of None \<Rightarrow> Some interfaceName
      | Some (J_string s) \<Rightarrow> Some s
      | Some _ \<Rightarrow> None)"

definition read_address ::
  "(string \<Rightarrow> bool) \<Rightarrow> (string \<Rightarrow> bool) \<Rightarrow> json_object \<Rightarrow> string \<Rightarrow> u16 \<Rightarrow> (string \<times> u16) option" where
  "read_address inet_pton6 inet_pton4 config address port =
     (case (case config ''ip'' of None \<Rightarrow> Some (address, port)
            | Some (J_string s) \<Rightarrow> parseEndpoint inet_pton6 inet_pton4 s port
            | Some _ \<Rightarrow> None) of
        None \<Rightarrow> None
      | Some (address, port) \<Rightarrow>
          (case config ''port'' of None \<Rightarrow> Some (address, port)
           | Some v \<Rightarrow> (case jsonPort v of None \<Rightarrow> None | Some port \<Rightarrow> Some (address, port))))"

text \<open>The assignments at the end, when nothing was refused.\<close>

definition commit_config ::
  "json_object \<Rightarrow> string \<Rightarrow> string \<times> u16 \<Rightarrow> options \<Rightarrow> vscpClientUdp \<Rightarrow> vscpClientUdp" where
  "commit_config config interfaceName endpoint opts u =
     u\<lparr>m_interface := interfaceName, m_udpAddr := fst endpoint, m_udpPort := snd endpoint,
       u_client := (u_client u)\<lparr>m_encryptType := o_encryption opts, m_key := o_key opts, m_filter := o_filter opts\<rparr>,
       m_configuredKeyLength := o_keyLength opts, m_hmacEnabled := o_hmacEnabled opts, m_hmacKey := o_hmacKey opts,
       m_configuredEncryption := (if config ''encryption'' \<noteq> None then o_encryption opts else m_configuredEncryption u),
       m_configuredKey := (if config ''key'' \<noteq> None then o_key opts else m_configuredKey u),
       m_j_config := config\<rparr>"

text \<open>The outer \<open>None\<close> is an exception that escapes.\<close>

definition initFromJson ::
  "(string \<Rightarrow> parsed_json) \<Rightarrow> (string \<Rightarrow> bool) \<Rightarrow> (string \<Rightarrow> bool) \<Rightarrow> string \<Rightarrow> vscpClientUdp
   \<Rightarrow> (bool \<times> vscpClientUdp) option" where
  "initFromJson json_parse inet_pton6 inet_pton4 config u =
     (if m_connected (u_client u) \<or> m_joining u \<or> m_pworkerthread u then Some (False, u)
      else case json_parse config of Parse_error \<Rightarrow> Some (False, u) | Not_an_object \<Rightarrow> Some (False, u)
      | Object nextConfig \<Rightarrow>
         let c = u_client u;
             opts = \<lparr>o_encryption = m_encryptType c, o_key = m_key c, o_keyLength = m_configuredKeyLength u,
                     o_hmacEnabled = m_hmacEnabled u, o_hmacKey = m_hmacKey u, o_filter = m_filter c\<rparr>
         in case read_interface nextConfig (m_interface u) of None \<Rightarrow> Some (False, u)
         | Some interfaceName \<Rightarrow>
         (case read_address inet_pton6 inet_pton4 nextConfig (m_udpAddr u) (m_udpPort u) of None \<Rightarrow> Some (False, u)
         | Some endpoint \<Rightarrow>
         (case eventOptions nextConfig opts of
            Inl Exception_escapes \<Rightarrow> None
          | Inl Refused \<Rightarrow> Some (False, u)
          | Inr opts \<Rightarrow>
             if o_hmacEnabled opts
                \<and> \<not> authenticationOptionsExplicit nextConfig (o_encryption opts) (o_key opts)
                      (m_configuredEncryption u) (m_configuredKey u)
             then Some (False, u)
             else if m_receiveQueue c \<noteq> []
                \<and> authenticationChanged (m_hmacEnabled u) (o_hmacEnabled opts)
                      (if m_hmacEnabled u then m_configuredEncryption u else m_encryptType c) (o_encryption opts)
                      (if m_hmacEnabled u then m_configuredKey u else m_key c) (o_key opts)
                      (m_hmacKey u) (o_hmacKey opts)
             then Some (False, u)
             else Some (True, commit_config nextConfig interfaceName endpoint opts u))))"

section \<open>Life cycle\<close>

definition VSCP_ERROR_OPERATION_FAILED :: int where "VSCP_ERROR_OPERATION_FAILED = 42"

datatype thread_start = Started | No_thread | No_memory

definition closeClientSocket :: "vscpClientUdp \<Rightarrow> vscpClientUdp" where
  "closeClientSocket u = (if m_socketOpen u then u\<lparr>m_socketOpen := False\<rparr> else u)"

definition set_run :: "bool \<Rightarrow> bool \<Rightarrow> vscpClientUdp \<Rightarrow> vscpClientUdp" where
  "set_run run connected u = u\<lparr>u_client := (u_client u)\<lparr>m_bRun := run, m_connected := connected\<rparr>\<rparr>"

text \<open>Stopping the worker and joining it; the receive loop clears the connection flag when it ends.\<close>

definition join_worker :: "vscpClientUdp \<Rightarrow> vscpClientUdp" where
  "join_worker u = closeClientSocket ((set_run False False u)\<lparr>m_pworkerthread := False\<rparr>)"

text \<open>
  \<open>in_callback\<close>: the calling thread is the worker. \<open>openSocket\<close> gives an error code or the destination;
  \<open>start\<close> is what creating the thread does.
\<close>

definition udp_connect ::
  "bool \<Rightarrow> (string \<Rightarrow> u16 \<Rightarrow> string \<Rightarrow> int + sockaddr) \<Rightarrow> thread_start \<Rightarrow> vscpClientUdp \<Rightarrow> int \<times> vscpClientUdp" where
  "udp_connect in_callback openSocket start u =
     (if m_connected (u_client u) then (VSCP_ERROR_SUCCESS, u)
      else if m_pworkerthread u \<and> in_callback then (VSCP_ERROR_OPERATION_FAILED, u)
      else let u = (if m_pworkerthread u then join_worker u else u);
               c = u_client u
           in if m_hmacEnabled u
                 \<and> \<not> authenticationStateValid (m_encryptType c) (m_key c) (m_configuredKeyLength u) (m_hmacKey u)
                       (m_configuredEncryption u) (m_configuredKey u)
              then (VSCP_ERROR_PARAMETER, u)
              else case openSocket (m_udpAddr u) (m_udpPort u) (m_interface u) of
                Inl result \<Rightarrow> (result, u)
              | Inr destination \<Rightarrow>
                  let u = set_run True True (u\<lparr>m_socketOpen := True, m_destination := destination\<rparr>)
                  in case start of
                       Started \<Rightarrow> (VSCP_ERROR_SUCCESS, u\<lparr>m_pworkerthread := True\<rparr>)
                     | No_thread \<Rightarrow> (VSCP_ERROR_OPERATION_FAILED, closeClientSocket (set_run False False u))
                     | No_memory \<Rightarrow> (VSCP_ERROR_MEMORY, closeClientSocket (set_run False False u)))"

definition udp_disconnect :: "bool \<Rightarrow> vscpClientUdp \<Rightarrow> int \<times> vscpClientUdp" where
  "udp_disconnect in_callback u =
     (if m_pworkerthread u \<and> in_callback then (VSCP_ERROR_SUCCESS, closeClientSocket (set_run False False u))
      else let u = set_run False False u
           in if m_pworkerthread u then (VSCP_ERROR_SUCCESS, join_worker u)
              else (VSCP_ERROR_SUCCESS, closeClientSocket u))"

definition isConnected :: "vscpClientUdp \<Rightarrow> bool" where
  "isConnected u = m_connected (u_client u)"

section \<open>Calls of the client interface\<close>

definition udp_send ::
  "platform \<Rightarrow> bool \<Rightarrow> (u8 list \<Rightarrow> int) \<Rightarrow> vscpClientUdp \<Rightarrow> vscpEvent \<Rightarrow> (int \<times> u8 list option) safe" where
  "udp_send p connected sendto u ev = sendEvent p (authentication_of u) (u_client u) connected sendto ev"

definition udp_send_ex ::
  "platform \<Rightarrow> bool \<Rightarrow> (u8 list \<Rightarrow> int) \<Rightarrow> vscpClientUdp \<Rightarrow> vscpEventEx \<Rightarrow> (int \<times> u8 list option) safe" where
  "udp_send_ex p connected sendto u ex =
     (if unat (xsizeData ex) > VSCP_LEVEL2_MAXDATA then Some (VSCP_ERROR_INVALID_FRAME, None)
      else do {
        (ok, ev) \<leftarrow> vscp_convertEventExToEvent (Some zero_event) (Some ex);
        ev \<leftarrow> ev;
        if \<not> ok then Some (VSCP_ERROR_INVALID_FRAME, None) else udp_send p connected sendto u ev })"

definition udp_send_canal ::
  "platform \<Rightarrow> bool \<Rightarrow> (u8 list \<Rightarrow> int) \<Rightarrow> vscpClientUdp \<Rightarrow> canalMsg \<Rightarrow> (int \<times> u8 list option) safe" where
  "udp_send_canal p connected sendto u msg = do {
     (ok, ev) \<leftarrow> vscp_convertCanalToEvent (p_clock p) (Some zero_event) (Some msg) (Some (replicate 16 0));
     ev \<leftarrow> ev;
     if \<not> ok then Some (VSCP_ERROR_INVALID_FRAME, None) else udp_send p connected sendto u ev }"

text \<open>The blocking and the immediate calls differ in the two arguments they pass on.\<close>

definition udp_receive ::
  "bool \<Rightarrow> int \<Rightarrow> vscpClientUdp \<Rightarrow> vscpEvent \<Rightarrow> (int \<times> vscpEvent \<times> vscpClientUdp) safe" where
  "udp_receive blocking timeout u ev = do {
     (rv, ev, c) \<leftarrow> receiveEvent (m_semReady u) ev blocking timeout (u_client u);
     Some (rv, ev, u\<lparr>u_client := c\<rparr>) }"

definition udp_receive_ex ::
  "bool \<Rightarrow> int \<Rightarrow> vscpClientUdp \<Rightarrow> vscpEventEx \<Rightarrow> (int \<times> vscpEventEx \<times> vscpClientUdp) safe" where
  "udp_receive_ex blocking timeout u ex = do {
     (rv, ex, c) \<leftarrow> receiveEventEx (m_semReady u) ex blocking timeout (u_client u);
     Some (rv, ex, u\<lparr>u_client := c\<rparr>) }"

text \<open>\<open>ex\<close> is the local event (cleared in the blocking call only), \<open>fresh\<close> the memory of a temporary one.\<close>

definition udp_receive_canal ::
  "vscpEventEx \<Rightarrow> vscpEvent \<Rightarrow> bool \<Rightarrow> int \<Rightarrow> vscpClientUdp \<Rightarrow> canalMsg \<Rightarrow> (int \<times> canalMsg \<times> vscpClientUdp) safe" where
  "udp_receive_canal ex fresh blocking timeout u msg = do {
     (rv, ex, u) \<leftarrow> udp_receive_ex blocking timeout u ex;
     if rv \<noteq> VSCP_ERROR_SUCCESS then Some (rv, msg, u)
     else do {
       (ok, m) \<leftarrow> vscp_convertEventExToCanal fresh (Some msg) (Some ex);
       msg \<leftarrow> m;
       Some (if ok then VSCP_ERROR_SUCCESS else VSCP_ERROR_INVALID_FRAME, msg, u) } }"

text \<open>Of a callback it matters only that there is one.\<close>

definition setCallbackEv :: "vscpClientUdp \<Rightarrow> int \<times> vscpClientUdp" where
  "setCallbackEv u = (VSCP_ERROR_SUCCESS, u\<lparr>u_client := (u_client u)\<lparr>callbackEvActive := True\<rparr>\<rparr>)"

definition setCallbackEx :: "vscpClientUdp \<Rightarrow> int \<times> vscpClientUdp" where
  "setCallbackEx u = (VSCP_ERROR_SUCCESS, u\<lparr>u_client := (u_client u)\<lparr>callbackExActive := True\<rparr>\<rparr>)"

definition udp_setfilter :: "vscpClientUdp \<Rightarrow> vscpEventFilter \<Rightarrow> (int \<times> vscpClientUdp) safe" where
  "udp_setfilter u flt = do {
     let c = u_client u;
     let f = (m_filter c)\<lparr>filter_priority := filter_priority flt, mask_priority := mask_priority flt,
               filter_class := filter_class flt, mask_class := mask_class flt,
               filter_type := filter_type flt, mask_type := mask_type flt\<rparr>;
     g \<leftarrow> rd_block (filter_GUID flt) 0 16;
     fg \<leftarrow> wr_block (filter_GUID f) 0 g;
     g \<leftarrow> rd_block (mask_GUID flt) 0 16;
     mg \<leftarrow> wr_block (mask_GUID f) 0 g;
     Some (VSCP_ERROR_SUCCESS, u\<lparr>u_client := c\<lparr>m_filter := f\<lparr>filter_GUID := fg, mask_GUID := mg\<rparr>\<rparr>\<rparr>) }"

text \<open>The count is stored in sixteen bits; without a place for it the call fails.\<close>

definition udp_getcount :: "vscpClientUdp \<Rightarrow> u16 ptr \<Rightarrow> int \<times> u16 ptr" where
  "udp_getcount u pcount =
     (case pcount of None \<Rightarrow> (VSCP_ERROR_INVALID_POINTER, None)
      | Some _ \<Rightarrow> (VSCP_ERROR_SUCCESS, Some (of_nat (length (m_receiveQueue (u_client u))))))"

definition udp_clear :: "vscpClientUdp \<Rightarrow> int \<times> vscpClientUdp" where
  "udp_clear u = (case clearQueue (m_semReady u) (u_client u) of (rv, c) \<Rightarrow> (rv, u\<lparr>u_client := c\<rparr>))"

definition udp_getversion ::
  "u8 ptr \<Rightarrow> u8 ptr \<Rightarrow> u8 ptr \<Rightarrow> u8 ptr \<Rightarrow> int \<times> u8 ptr \<times> u8 ptr \<times> u8 ptr \<times> u8 ptr" where
  "udp_getversion pmajor pminor prelease pbuild =
     (if pmajor = None \<or> pminor = None \<or> prelease = None \<or> pbuild = None
      then (VSCP_ERROR_INVALID_POINTER, pmajor, pminor, prelease, pbuild)
      else (VSCP_ERROR_SUCCESS, Some 1, Some 0, Some 0, Some 0))"

definition udp_getinterfaces :: "string list \<Rightarrow> int \<times> string list" where
  "udp_getinterfaces iflist = (VSCP_ERROR_SUCCESS, [])"

definition udp_getwcyd :: "u64 \<Rightarrow> int \<times> u64" where
  "udp_getwcyd wcyd = (VSCP_ERROR_SUCCESS, 0)"

definition udp_workerThread :: "platform \<Rightarrow> wait_outcome list \<Rightarrow> vscpClientUdp ptr \<Rightarrow> vscpClientUdp ptr safe" where
  "udp_workerThread p waits pClient =
     (case pClient of None \<Rightarrow> Some None
      | Some u \<Rightarrow> do {
          c \<leftarrow> receiveLoop p (authentication_of u) (m_semReady u) waits (u_client u);
          Some (Some (u\<lparr>u_client := c\<rparr>)) })"

section \<open>A configuration is read back\<close>

lemma guid_string_parses: "length g = 16 \<Longrightarrow> vscp_parseGuid (Some d) (guid_string g) = (True, Some g)"
  using standard.parseGuid [of g d]
  by (simp add: guid_string_def vscp_writeGuidArrayToString_def guid_text_def cguid_toString_def)

lemma hex_string_digits: "list_all isxdigit (vscp_byteArray2HexStr bs)"
proof -
  have "digit_in 16 (hexdig_lower n)" if "n < 16" for n
    using that by (cases rule: less_16_cases) (auto simp: digit_in_def digit_value_def hexdig_lower_def)
  then show ?thesis
    using nibble_less by (auto simp: isxdigit_digit vscp_byteArray2HexStr_def list_all_iff nibbles)
qed

lemma length_hex_string [simp]: "length (vscp_byteArray2HexStr bs) = 2 * length bs"
  by (induction bs) (simp_all add: vscp_byteArray2HexStr_def)

lemma optionalUnsigned_word:
  fixes v :: "'a::len word"
  assumes "config name = Some (J_number (uint v))" and "LENGTH('a) \<le> 64"
  shows "optionalUnsigned config name w = Some v"
proof -
  have up: "is_up (ucast :: 'a word \<Rightarrow> u64)" using assms(2) by (simp add: is_up)
  have "take_bit LENGTH('a) (ucast v :: u64) = ucast v"
    by (rule bit_word_eqI) (auto simp: bit_simps dest: bit_imp_le_length)
  then have "(ucast v :: u64) AND mask LENGTH('a) = ucast v" by (simp add: take_bit_eq_mask)
  then have "(ucast v :: u64) \<le> mask LENGTH('a)" by (metis word_and_le1)
  then have "(ucast v :: u64) \<le> 2 ^ LENGTH('a) - 1" by (simp add: mask_eq_exp_minus_1)
  moreover have "(ucast (ucast v :: u64) :: 'a word) = v" by (rule ucast_up_ucast_id [OF up])
  ultimately show ?thesis using assms(1) by (simp add: optionalUnsigned_def jsonUnsigned_def)
qed

lemma config_members:
  "config_object u ''interface'' = Some (J_string (until_NUL (m_interface u)))"
  "config_object u ''ip'' = Some (J_string (formatEndpoint (m_udpAddr u) (m_udpPort u)))"
  "config_object u ''encryption'' = Some (J_number (uint (m_encryptType (u_client u))))"
  "config_object u ''padding'' = Some (J_string ''pkcs7'')"
  "config_object u ''hmac-key'' = Some (J_string (if m_hmacEnabled u then vscp_byteArray2HexStr (m_hmacKey u) else []))"
  "config_object u ''key'' = Some (J_string (key_string (m_encryptType (u_client u)) (m_key (u_client u))))"
  "config_object u ''port'' = None"
  by (simp_all add: config_object_def Let_def)

lemma config_filter_members:
  "config_object u ''priority-filter'' = Some (J_number (uint (filter_priority (m_filter (u_client u)))))"
  "config_object u ''priority-mask'' = Some (J_number (uint (mask_priority (m_filter (u_client u)))))"
  "config_object u ''class-filter'' = Some (J_number (uint (filter_class (m_filter (u_client u)))))"
  "config_object u ''class-mask'' = Some (J_number (uint (mask_class (m_filter (u_client u)))))"
  "config_object u ''type-filter'' = Some (J_number (uint (filter_type (m_filter (u_client u)))))"
  "config_object u ''type-mask'' = Some (J_number (uint (mask_type (m_filter (u_client u)))))"
  "config_object u ''guid-filter'' = Some (J_string (guid_string (filter_GUID (m_filter (u_client u)))))"
  "config_object u ''guid-mask'' = Some (J_string (guid_string (mask_GUID (m_filter (u_client u)))))"
  by (simp_all add: config_object_def Let_def)

text \<open>The settings that a configuration carries over: the key bytes that the cipher uses.\<close>

definition carried_key :: "u8 \<Rightarrow> u8 list \<Rightarrow> u8 list" where
  "carried_key encryption key =
     take (unat (aesKeyLength encryption)) key @ drop (unat (aesKeyLength encryption)) (replicate 32 0)"

definition carried_options :: "vscpClientUdp \<Rightarrow> options" where
  "carried_options u =
     \<lparr>o_encryption = m_encryptType (u_client u),
      o_key = carried_key (m_encryptType (u_client u)) (m_key (u_client u)),
      o_keyLength = aesKeyLength (m_encryptType (u_client u)), o_hmacEnabled = m_hmacEnabled u,
      o_hmacKey = (if m_hmacEnabled u then m_hmacKey u else replicate 32 0), o_filter = m_filter (u_client u)\<rparr>"

definition options_of :: "vscpClientUdp \<Rightarrow> options" where
  "options_of u =
     \<lparr>o_encryption = m_encryptType (u_client u), o_key = m_key (u_client u), o_keyLength = m_configuredKeyLength u,
      o_hmacEnabled = m_hmacEnabled u, o_hmacKey = m_hmacKey u, o_filter = m_filter (u_client u)\<rparr>"

lemma encryption_cases: "(e :: u8) \<le> 3 \<Longrightarrow> e = 0 \<or> e = 1 \<or> e = 2 \<or> e = 3"
proof -
  assume "e \<le> 3"
  then have "unat e \<le> 3" by (simp add: word_le_nat_alt)
  then have "unat e \<in> {0, 1, 2, 3}" by auto
  then show ?thesis by (auto simp: word_unat_eq_iff)
qed

lemma read_encryption:
  assumes "m_encryptType (u_client u) \<le> 3"
  shows "option_encryption (config_object u) opts = Inr (opts\<lparr>o_encryption := m_encryptType (u_client u)\<rparr>)"
  using encryption_cases [OF assms]
  by (auto simp: option_encryption_def config_members jsonUnsigned_def)

lemma read_key:
  assumes "m_encryptType (u_client u) \<le> 3" and "length (m_key (u_client u)) = 32"
    and "o_encryption opts = m_encryptType (u_client u)"
  shows "option_key (config_object u) opts
     = Inr (opts\<lparr>o_key := carried_key (m_encryptType (u_client u)) (m_key (u_client u)),
                 o_keyLength := aesKeyLength (m_encryptType (u_client u))\<rparr>)"
proof -
  let ?e = "m_encryptType (u_client u)" and ?k = "m_key (u_client u)"
  let ?n = "unat (aesKeyLength ?e)"
  have cases: "?e = 0 \<or> ?e = 1 \<or> ?e = 2 \<or> ?e = 3" by (rule encryption_cases [OF assms(1)])
  show ?thesis
  proof (cases "?e = 0")
    case True
    then show ?thesis using assms(3) by (simp add: option_key_def config_members carried_key_def aesKeyLength_def)
  next
    case False
    then have s: "key_string ?e ?k = vscp_byteArray2HexStr (take ?n ?k)" "aesKeyLength ?e \<noteq> 0" "?n \<le> 32"
      using cases by (auto simp: key_string_def aesKeyLength_def)
    have "vscp_hexStr2ByteArray ?n (vscp_byteArray2HexStr (take ?n ?k)) = Some (take ?n ?k)"
      by (rule hex_round_trip) simp
    then show ?thesis
      using False s assms(2,3) hex_string_digits
      by (simp add: option_key_def config_members carried_key_def Let_def)
  qed
qed

lemma read_hmac:
  assumes "length (m_hmacKey u) = 32"
  shows "option_hmac (config_object u) opts
     = Inr (opts\<lparr>o_hmacEnabled := m_hmacEnabled u,
                 o_hmacKey := (if m_hmacEnabled u then m_hmacKey u else replicate 32 0)\<rparr>)"
proof (cases "m_hmacEnabled u")
  case True
  have "vscp_hexStr2ByteArray 32 (vscp_byteArray2HexStr (m_hmacKey u)) = Some (m_hmacKey u)"
    by (rule hex_round_trip) (simp add: assms)
  moreover have "vscp_byteArray2HexStr (m_hmacKey u) \<noteq> []" using assms by (metis length_0_conv length_hex_string mult_is_0 zero_neq_numeral)
  ultimately show ?thesis using True assms hex_string_digits by (simp add: option_hmac_def config_members)
qed (simp add: option_hmac_def config_members)

lemma read_numbers:
  fixes get :: "vscpEventFilter \<Rightarrow> 'a::len word"
  assumes "config_object u name = Some (J_number (uint v))" and "LENGTH('a) \<le> 64"
  shows "option_number (config_object u) name get upd opts = Inr (opts\<lparr>o_filter := upd (\<lambda>_. v) (o_filter opts)\<rparr>)"
  using optionalUnsigned_word [where config = "config_object u" and name = name, OF assms]
  by (simp add: option_number_def)

lemma read_guids:
  assumes "config_object u name = Some (J_string (guid_string g))" and "length g = 16"
  shows "option_guid (config_object u) name get upd opts = Inr (opts\<lparr>o_filter := upd (\<lambda>_. g) (o_filter opts)\<rparr>)"
  using guid_string_parses [OF assms(2)] assms(1) by (simp add: option_guid_def)

lemma eventOptions_config:
  assumes "m_encryptType (u_client u) \<le> 3" and "length (m_key (u_client u)) = 32" and "length (m_hmacKey u) = 32"
    and "wf_filter (m_filter (u_client u))"
    and "m_hmacEnabled u \<Longrightarrow> authenticatedKeysValid (m_encryptType (u_client u)) (m_key (u_client u))
           (m_configuredKeyLength u) (m_hmacKey u)"
  shows "eventOptions (config_object u) opts = Inr (carried_options u)"
proof -
  let ?f = "m_filter (u_client u)"
  have g: "length (filter_GUID ?f) = 16" "length (mask_GUID ?f) = 16" using assms(4) by (simp_all add: wf_filter_def)
  have k: "check_keys opts = Inr opts"
    if "o_encryption opts = m_encryptType (u_client u)" "o_key opts = carried_key (o_encryption opts) (m_key (u_client u))"
      "o_keyLength opts = aesKeyLength (o_encryption opts)" "o_hmacEnabled opts = m_hmacEnabled u"
      "o_hmacKey opts = (if m_hmacEnabled u then m_hmacKey u else replicate 32 0)" for opts
  proof (cases "m_hmacEnabled u")
    case True
    have "take (unat (aesKeyLength (m_encryptType (u_client u)))) (carried_key (m_encryptType (u_client u)) (m_key (u_client u)))
        = take (unat (aesKeyLength (m_encryptType (u_client u)))) (m_key (u_client u))"
      using assms(2) aesKeyLength_le [of "m_encryptType (u_client u)"] by (simp add: carried_key_def)
    then show ?thesis
      using assms(5) [OF True] that True
      by (simp add: check_keys_def authenticatedKeysValid_def memory_differs_def Let_def)
  qed (simp add: check_keys_def that)
  show ?thesis
    using assms(1-3) g
    by (simp add: eventOptions_def read_encryption option_padding_def config_members(4) read_key read_hmac k
        read_numbers [OF config_filter_members(1)] read_numbers [OF config_filter_members(2)]
        read_numbers [OF config_filter_members(3)] read_numbers [OF config_filter_members(4)]
        read_numbers [OF config_filter_members(5)] read_numbers [OF config_filter_members(6)]
        read_guids [OF config_filter_members(7)] read_guids [OF config_filter_members(8)] carried_options_def)
qed

section \<open>The invariant of a client\<close>

definition settings_ok :: "vscpClientUdp \<Rightarrow> bool" where
  "settings_ok u \<longleftrightarrow>
     (let c = u_client u
      in m_encryptType c \<le> 3 \<and> length (m_key c) = 32 \<and> length (m_hmacKey u) = 32 \<and> wf_filter (m_filter c)
         \<and> m_udpPort u \<noteq> 0
         \<and> (m_hmacEnabled u \<longrightarrow> authenticationStateValid (m_encryptType c) (m_key c) (m_configuredKeyLength u) (m_hmacKey u)
              (m_configuredEncryption u) (m_configuredKey u)))"

definition lifecycle_ok :: "vscpClientUdp \<Rightarrow> bool" where
  "lifecycle_ok u \<longleftrightarrow>
     (m_connected (u_client u) \<longrightarrow> m_socketOpen u \<and> m_pworkerthread u \<and> m_bRun (u_client u))
     \<and> (m_socketOpen u \<longrightarrow> m_pworkerthread u) \<and> \<not> m_joining u"

definition queue_ok :: "vscpClientUdp \<Rightarrow> bool" where
  "queue_ok u \<longleftrightarrow> list_all (\<lambda>e. \<exists>ev. e = Some ev \<and> wf_event ev) (m_receiveQueue (u_client u))"

definition udp_ok :: "vscpClientUdp \<Rightarrow> bool" where
  "udp_ok u \<longleftrightarrow> settings_ok u \<and> lifecycle_ok u \<and> queue_ok u"

lemma valid_state_keys:
  "authenticationStateValid e key l h ce ck \<Longrightarrow> authenticatedKeysValid e key l h"
  by (auto simp: authenticationStateValid_def)

lemma jsonPort_nonzero: "jsonPort v = Some port \<Longrightarrow> port \<noteq> 0"
proof -
  assume "jsonPort v = Some port"
  then obtain number where n: "number \<le> (65535 :: u64)" "number \<noteq> 0" "port = ucast number"
    by (auto simp: jsonPort_def jsonUnsigned_def Let_def split: json_value.splits if_splits)
  then have "unat number \<le> 65535" by (simp add: word_le_nat_alt)
  then have "unat port = unat number" using n(3) by (simp add: unsigned_ucast_eq take_bit_nat_eq_self)
  then show ?thesis using n(2) by (auto simp: word_unat_eq_iff)
qed

lemma parseEndpoint_port:
  assumes "parseEndpoint i6 i4 s port0 = Some (host, port)" and "port0 \<noteq> 0"
  shows "port \<noteq> 0"
  using assms
  by (auto simp: parseEndpoint_def parse_bracketed_def parse_plain_def Let_def
      split: if_splits option.splits prod.splits dest: parsePort_nonzero)

lemma read_address_port:
  assumes "read_address i6 i4 config address port0 = Some (host, port)" and "port0 \<noteq> 0"
  shows "port \<noteq> 0"
  using assms
  by (auto simp: read_address_def split: option.splits json_value.splits prod.splits
      dest: jsonPort_nonzero parseEndpoint_port)

lemma initFromJson_keeps:
  assumes "udp_ok u"
  shows "\<exists>ok u'. initFromJson json_parse i6 i4 config u = Some (ok, u') \<and> udp_ok u' \<and> (\<not> ok \<longrightarrow> u' = u)"
proof (cases "initFromJson json_parse i6 i4 config u = Some (False, u)")
  case False
  then have idle: "\<not> (m_connected (u_client u) \<or> m_joining u \<or> m_pworkerthread u)" by (auto simp: initFromJson_def)
  with False obtain j where j: "json_parse config = Object j" by (auto simp: initFromJson_def split: parsed_json.splits)
  obtain ifname where i: "read_interface j (m_interface u) = Some ifname"
    using False idle j by (auto simp: initFromJson_def Let_def split: option.splits)
  obtain host port where a: "read_address i6 i4 j (m_udpAddr u) (m_udpPort u) = Some (host, port)"
    using False idle j i by (auto simp: initFromJson_def Let_def split: option.splits)
  have "options_ok (options_of u)"
    using assms by (simp add: udp_ok_def settings_ok_def options_ok_def options_of_def Let_def)
  then have k: "case eventOptions j (options_of u) of Inl e \<Rightarrow> e = Refused | Inr opts' \<Rightarrow> keys_checked opts'"
    by (rule eventOptions_keeps)
  then obtain opts where o: "eventOptions j (options_of u) = Inr opts"
    using False idle j i a by (cases "eventOptions j (options_of u)") (auto simp: initFromJson_def Let_def options_of_def)
  have kc: "keys_checked opts" using k o by simp
  let ?u = "commit_config j ifname (host, port) opts u"
  have explicit: "o_hmacEnabled opts \<Longrightarrow> authenticationOptionsExplicit j (o_encryption opts) (o_key opts)
      (m_configuredEncryption u) (m_configuredKey u)"
    and final: "initFromJson json_parse i6 i4 config u = Some (True, ?u)"
    using False idle j i a o by (auto simp: initFromJson_def Let_def options_of_def split: if_splits)
  have "port \<noteq> 0" using read_address_port [OF a] assms by (simp add: udp_ok_def settings_ok_def Let_def)
  then have "settings_ok ?u"
    using kc explicit
    by (auto simp: settings_ok_def commit_config_def Let_def keys_checked_def options_ok_def
        authenticationStateValid_def authenticationOptionsExplicit_def memory_differs_def)
  moreover have "lifecycle_ok ?u" "queue_ok ?u"
    using assms by (simp_all add: udp_ok_def lifecycle_ok_def queue_ok_def commit_config_def)
  ultimately show ?thesis using final by (intro exI [of _ True] exI [of _ ?u]) (simp add: udp_ok_def)
qed (use assms in \<open>auto intro!: exI\<close>)

lemma loop_keeps:
  assumes "32 \<le> length (m_key c)"
    and "list_all (\<lambda>e. \<exists>ev. e = Some ev \<and> wf_event ev) (m_receiveQueue c)"
  shows "\<exists>c'. receiveLoop p a semReady waits c = Some c'
    \<and> list_all (\<lambda>e. \<exists>ev. e = Some ev \<and> wf_event ev) (m_receiveQueue c')
    \<and> m_encryptType c' = m_encryptType c \<and> m_key c' = m_key c \<and> m_filter c' = m_filter c
    \<and> (m_connected c' \<longrightarrow> m_connected c \<and> (m_bRun c \<longrightarrow> m_bRun c'))"
  using assms
proof (induction waits arbitrary: c)
  case (Cons w waits)
  show ?case
  proof (cases "m_bRun c")
    case True
    show ?thesis
    proof (cases w)
      case (Received d)
      obtain c1 where h: "handle_datagram p a semReady d c = Some c1"
          "c1 = c \<or> (\<exists>ev. wf_event ev \<and> takes_event semReady ev c c1)"
        using handle_datagram_cases [OF Cons.prems(1), of p a semReady d] by blast
      then have k: "m_encryptType c1 = m_encryptType c" "m_key c1 = m_key c" "m_filter c1 = m_filter c"
          "m_connected c1 = m_connected c" "m_bRun c1 = m_bRun c"
          "list_all (\<lambda>e. \<exists>ev. e = Some ev \<and> wf_event ev) (m_receiveQueue c1)"
        using Cons.prems(2) by (auto simp: takes_event_def) (auto simp: taken_def Let_def)
      then show ?thesis using Cons.IH [of c1] Cons.prems(1) h(1) True Received by simp
    qed (use Cons.IH [OF Cons.prems] Cons.prems True in simp_all)
  qed (use Cons.prems in simp)
qed simp

text \<open>
  What can happen to a client: configuration, connecting, disconnecting, work of its worker thread, a
  receive call, a change of the filter, the registration of a callback. The caller of \<open>connecting\<close> and \<open>disconnecting\<close> may be the worker.
\<close>

inductive udp_step :: "vscpClientUdp \<Rightarrow> vscpClientUdp \<Rightarrow> bool" where
  configuring: "initFromJson json_parse i6 i4 config u = Some (ok, u') \<Longrightarrow> udp_step u u'"
| connecting: "udp_connect in_callback openSocket start u = (rv, u') \<Longrightarrow> udp_step u u'"
| disconnecting: "udp_disconnect in_callback u = (rv, u') \<Longrightarrow> udp_step u u'"
| working: "m_pworkerthread u \<Longrightarrow> udp_workerThread p waits (Some u) = Some (Some u') \<Longrightarrow> udp_step u u'"
| receiving: "udp_receive blocking timeout u ev = Some (rv, ev', u') \<Longrightarrow> udp_step u u'"
| clearing: "udp_clear u = (rv, u') \<Longrightarrow> udp_step u u'"
| filtering: "wf_filter f \<Longrightarrow> udp_setfilter u f = Some (rv, u') \<Longrightarrow> udp_step u u'"
| registering_ev: "setCallbackEv u = (rv, u') \<Longrightarrow> udp_step u u'"
| registering_ex: "setCallbackEx u = (rv, u') \<Longrightarrow> udp_step u u'"

inductive udp_reachable :: "vscpClientUdp \<Rightarrow> bool" where
  created: "new_vscpClientUdp semReady = Some u \<Longrightarrow> udp_reachable u"
| moved: "udp_reachable u \<Longrightarrow> udp_step u u' \<Longrightarrow> udp_reachable u'"

lemma created_ok:
  assumes "new_vscpClientUdp semReady = Some u"
  shows "udp_ok u"
proof -
  obtain k where k: "vscp_hexStr2ByteArray 32 VSCP_DEFAULT_KEY16 = Some k" "length k = 16"
  proof -
    have "vscp_hexStr2ByteArray 32 VSCP_DEFAULT_KEY16 = Some (map of_nat
        [0xA4, 0xA8, 0x6F, 0x7D, 0x7E, 0x11, 0x9B, 0xA3, 0xF0, 0xCD, 0x06, 0x88, 0x1E, 0x37, 0x1B, 0x98])"
      by code_simp
    then show thesis by (rule that) simp
  qed
  show ?thesis
    using assms k
    by (auto simp: new_vscpClientUdp_def udp_ok_def settings_ok_def lifecycle_ok_def queue_ok_def Let_def wf_filter_def
        zero_filter_def VSCP_DEFAULT_UDP_PORT_def)
qed

lemma close_facts [simp]:
  "u_client (closeClientSocket u) = u_client u" "m_socketOpen (closeClientSocket u) = False"
  "m_pworkerthread (closeClientSocket u) = m_pworkerthread u" "m_joining (closeClientSocket u) = m_joining u"
  "settings_ok (closeClientSocket u) = settings_ok u" "queue_ok (closeClientSocket u) = queue_ok u"
  by (simp_all add: closeClientSocket_def settings_ok_def queue_ok_def)

lemma run_facts [simp]:
  "m_bRun (u_client (set_run r c u)) = r" "m_connected (u_client (set_run r c u)) = c"
  "m_socketOpen (set_run r c u) = m_socketOpen u" "m_pworkerthread (set_run r c u) = m_pworkerthread u"
  "m_joining (set_run r c u) = m_joining u"
  "settings_ok (set_run r c u) = settings_ok u" "queue_ok (set_run r c u) = queue_ok u"
  by (simp_all add: set_run_def settings_ok_def queue_ok_def Let_def)

lemma settings_ok_frame [simp]:
  "settings_ok (u\<lparr>m_socketOpen := a\<rparr>) = settings_ok u" "settings_ok (u\<lparr>m_destination := d\<rparr>) = settings_ok u"
  "settings_ok (u\<lparr>m_pworkerthread := b\<rparr>) = settings_ok u" "queue_ok (u\<lparr>m_socketOpen := a\<rparr>) = queue_ok u"
  "queue_ok (u\<lparr>m_destination := d\<rparr>) = queue_ok u" "queue_ok (u\<lparr>m_pworkerthread := b\<rparr>) = queue_ok u"
  by (simp_all add: settings_ok_def queue_ok_def)

lemma join_facts [simp]:
  "m_connected (u_client (join_worker u)) = False" "m_socketOpen (join_worker u) = False"
  "m_pworkerthread (join_worker u) = False" "m_joining (join_worker u) = m_joining u"
  "settings_ok (join_worker u) = settings_ok u" "queue_ok (join_worker u) = queue_ok u"
  by (simp_all add: join_worker_def)

lemma connect_keeps:
  assumes "udp_ok u" and "udp_connect in_callback openSocket start u = (rv, u')"
  shows "udp_ok u'"
proof -
  define v where "v = (if m_pworkerthread u then join_worker u else u)"
  have v: "settings_ok v" "queue_ok v" "\<not> m_joining v" "\<not> m_pworkerthread v" "\<not> m_socketOpen v"
      "\<not> m_connected (u_client v)"
    using assms(1) by (auto simp: v_def udp_ok_def lifecycle_ok_def)
  then have "udp_ok v" by (simp add: udp_ok_def lifecycle_ok_def)
  then show ?thesis
    using assms v unfolding udp_connect_def v_def [symmetric]
    by (auto simp: Let_def udp_ok_def lifecycle_ok_def split: if_splits sum.splits thread_start.splits)
qed

lemma disconnect_keeps:
  assumes "udp_ok u" and "udp_disconnect in_callback u = (rv, u')"
  shows "udp_ok u'"
  using assms by (auto simp: udp_disconnect_def Let_def udp_ok_def lifecycle_ok_def split: if_splits)

lemma receive_client:
  assumes "receiveEvent semReady ev blocking timeout c = Some (rv, ev', c')"
  shows "c' = c \<or> (\<exists>e queue. m_receiveQueue c = e # queue \<and> c' = consumeSignal semReady (c\<lparr>m_receiveQueue := queue\<rparr>))"
  using assms
  by (auto simp: receiveEvent_def split: prod.splits if_splits bind_splits dest!: popEvent_queue)

lemma client_update_ok:
  assumes "udp_ok u" and "list_all (\<lambda>e. \<exists>ev. e = Some ev \<and> wf_event ev) (m_receiveQueue c)"
    and "m_encryptType c = m_encryptType (u_client u)" and "m_key c = m_key (u_client u)" and "wf_filter (m_filter c)"
    and "m_connected c \<Longrightarrow> m_connected (u_client u)" and "m_connected c \<Longrightarrow> m_bRun (u_client u) \<Longrightarrow> m_bRun c"
  shows "udp_ok (u\<lparr>u_client := c\<rparr>)"
  using assms by (auto simp: udp_ok_def settings_ok_def lifecycle_ok_def queue_ok_def Let_def)

lemma consume_fields [simp]:
  "m_encryptType (consumeSignal s c) = m_encryptType c" "m_key (consumeSignal s c) = m_key c"
  "m_filter (consumeSignal s c) = m_filter c" "m_connected (consumeSignal s c) = m_connected c"
  "m_bRun (consumeSignal s c) = m_bRun c" "m_receiveQueue (consumeSignal s c) = m_receiveQueue c"
  by (simp_all add: consumeSignal_def)

lemma clear_fields:
  "m_encryptType (clear_loop s q c) = m_encryptType c \<and> m_filter (clear_loop s q c) = m_filter c
   \<and> m_connected (clear_loop s q c) = m_connected c \<and> m_bRun (clear_loop s q c) = m_bRun c"
  by (induction s q c rule: clear_loop.induct) simp_all

lemma udp_step_keeps:
  assumes "udp_ok u" and "udp_step u u'"
  shows "udp_ok u'"
  using assms(2)
proof (cases rule: udp_step.cases)
  case (configuring json_parse i6 i4 config ok)
  then show ?thesis using initFromJson_keeps [OF assms(1), of json_parse i6 i4 config] by auto
next
  case (connecting in_callback openSocket start rv)
  then show ?thesis by (rule connect_keeps [OF assms(1)])
next
  case (disconnecting in_callback rv)
  then show ?thesis by (rule disconnect_keeps [OF assms(1)])
next
  case (working p waits)
  have "32 \<le> length (m_key (u_client u))" "list_all (\<lambda>e. \<exists>ev. e = Some ev \<and> wf_event ev) (m_receiveQueue (u_client u))"
    "wf_filter (m_filter (u_client u))"
    using assms(1) by (simp_all add: udp_ok_def settings_ok_def queue_ok_def Let_def)
  then show ?thesis
    using working(2) loop_keeps [of "u_client u" p "authentication_of u" "m_semReady u" waits]
    by (auto simp: udp_workerThread_def intro!: client_update_ok [OF assms(1)])
next
  case (receiving blocking timeout ev rv ev')
  then obtain c where c: "receiveEvent (m_semReady u) ev blocking timeout (u_client u) = Some (rv, ev', c)"
      "u' = u\<lparr>u_client := c\<rparr>"
    by (auto simp: udp_receive_def split: bind_splits)
  show ?thesis
    unfolding c(2)
    by (rule client_update_ok [OF assms(1)])
      (use receive_client [OF c(1)] assms(1) in \<open>auto simp: udp_ok_def settings_ok_def queue_ok_def Let_def\<close>)
next
  case (clearing rv)
  let ?c = "clear_loop (m_semReady u) (m_receiveQueue (u_client u)) (u_client u)"
  have u': "u' = u\<lparr>u_client := ?c\<rparr>" using clearing by (auto simp: udp_clear_def clearQueue_def)
  have q: "m_receiveQueue ?c = []"
    using clear_loop_empties [of "m_semReady u" "m_receiveQueue (u_client u)" "u_client u"] by auto
  have k: "m_key ?c = m_key (u_client u)"
    using clear_loop_empties [of "m_semReady u" "m_receiveQueue (u_client u)" "u_client u"] by auto
  show ?thesis
    unfolding u'
    by (rule client_update_ok [OF assms(1)])
      (use clear_fields [of "m_semReady u" "m_receiveQueue (u_client u)" "u_client u"] q k assms(1)
        in \<open>auto simp: udp_ok_def settings_ok_def Let_def\<close>)
next
  case (filtering f rv)
  have "length (filter_GUID (m_filter (u_client u))) = 16" "length (mask_GUID (m_filter (u_client u))) = 16"
    using assms(1) by (simp_all add: udp_ok_def settings_ok_def wf_filter_def Let_def)
  then obtain g where u': "u' = u\<lparr>u_client := (u_client u)\<lparr>m_filter := g\<rparr>\<rparr>" and g: "wf_filter g"
    using filtering by (auto simp: udp_setfilter_def wf_filter_def rd_block_def wr_block_def Let_def split: if_splits)
  show ?thesis
    unfolding u'
    by (rule client_update_ok [OF assms(1)]) (use assms(1) g in \<open>auto simp: udp_ok_def queue_ok_def\<close>)
next
  case (registering_ev rv)
  then show ?thesis using assms(1)
    by (auto simp: setCallbackEv_def udp_ok_def settings_ok_def lifecycle_ok_def queue_ok_def Let_def)
next
  case (registering_ex rv)
  then show ?thesis using assms(1)
    by (auto simp: setCallbackEx_def udp_ok_def settings_ok_def lifecycle_ok_def queue_ok_def Let_def)
qed

lemma udp_reachable_ok: "udp_reachable u \<Longrightarrow> udp_ok u"
proof (induction rule: udp_reachable.induct)
  case (created semReady u)
  then show ?case by (rule created_ok)
next
  case (moved u u')
  show ?case by (rule udp_step_keeps [OF moved.IH moved.hyps(2)])
qed

section \<open>The configuration round trip\<close>

lemma carried_key_same:
  "length key = 32 \<Longrightarrow> key_string encryption (carried_key encryption key) = key_string encryption key"
  by (simp add: key_string_def carried_key_def aesKeyLength_def)

lemma config_object_cong:
  assumes "m_interface v = until_NUL (m_interface u)" "m_udpAddr v = m_udpAddr u" "m_udpPort v = m_udpPort u"
    and "options_of v = carried_options u" and "length (m_key (u_client u)) = 32"
  shows "config_object v = config_object u"
proof -
  have "m_encryptType (u_client v) = m_encryptType (u_client u)" "m_hmacEnabled v = m_hmacEnabled u"
    "m_filter (u_client v) = m_filter (u_client u)"
    "key_string (m_encryptType (u_client u)) (m_key (u_client v)) = key_string (m_encryptType (u_client u)) (m_key (u_client u))"
    "m_hmacEnabled u \<Longrightarrow> m_hmacKey v = m_hmacKey u"
    using assms(4,5) by (simp_all add: options_of_def carried_options_def carried_key_same)
  moreover have "until_NUL (until_NUL s) = until_NUL s" for s by (simp add: until_NUL_def takeWhile_idem)
  ultimately show ?thesis using assms(1-3) by (simp add: config_object_def Let_def cong: if_cong)
qed

lemma config_read_back:
  assumes "settings_ok u" and "host_ok i6 i4 (m_udpAddr u)"
    and "\<not> m_connected (u_client v)" "\<not> m_joining v" "\<not> m_pworkerthread v" and "m_receiveQueue (u_client v) = []"
    and "json_parse (dump (config_object u)) = Object (config_object u)"
  shows "initFromJson json_parse i6 i4 (getConfigAsJson dump u) v
     = Some (True, commit_config (config_object u) (until_NUL (m_interface u)) (m_udpAddr u, m_udpPort u) (carried_options u) v)"
proof -
  have "m_udpPort u \<noteq> 0" using assms(1) by (simp add: settings_ok_def Let_def)
  then have "parseEndpoint i6 i4 (formatEndpoint (m_udpAddr u) (m_udpPort u)) port0 = Some (m_udpAddr u, m_udpPort u)" for port0
    using plain_round_trip literal_round_trip assms(2) by blast
  then have a: "read_address i6 i4 (config_object u) address port0 = Some (m_udpAddr u, m_udpPort u)" for address port0
    by (simp add: read_address_def config_members)
  have i: "read_interface (config_object u) name = Some (until_NUL (m_interface u))" for name
    by (simp add: read_interface_def config_members)
  have o: "eventOptions (config_object u) opts = Inr (carried_options u)" for opts
    using assms(1) by (intro eventOptions_config) (auto simp: settings_ok_def Let_def authenticationStateValid_def)
  have e: "authenticationOptionsExplicit (config_object u) e k ce ck" for e k ce ck
    by (simp add: authenticationOptionsExplicit_def config_members)
  show ?thesis
    using assms(3-6) unfolding initFromJson_def getConfigAsJson_def assms(7)
    by (simp add: Let_def a i o e)
qed

text \<open>C11: The configuration that a client writes is accepted by any idle client with an empty receive
  queue. That client then has the address, port and interface of the writer (the interface up to a zero
  character), its encryption, filter and
  authentication settings, the key up to the bytes that the cipher uses, and writes the same
  configuration itself. The hypothesis on the JSON library is that it reads back what it dumped.\<close>

theorem config_round_trip:
  assumes "udp_reachable u" and "host_ok inet_pton6 inet_pton4 (m_udpAddr u)"
    and "udp_reachable v" and "\<not> m_connected (u_client v)" and "\<not> m_pworkerthread v"
    and "m_receiveQueue (u_client v) = []"
    and "json_parse (dump (config_object u)) = Object (config_object u)"
  shows "\<exists>v'. initFromJson json_parse inet_pton6 inet_pton4 (getConfigAsJson dump u) v = Some (True, v')
    \<and> m_interface v' = until_NUL (m_interface u) \<and> m_udpAddr v' = m_udpAddr u \<and> m_udpPort v' = m_udpPort u
    \<and> options_of v' = carried_options u \<and> getConfigAsJson dump v' = getConfigAsJson dump u"
proof -
  let ?v = "commit_config (config_object u) (until_NUL (m_interface u)) (m_udpAddr u, m_udpPort u) (carried_options u) v"
  have s: "settings_ok u" "length (m_key (u_client u)) = 32" "\<not> m_joining v"
    using udp_reachable_ok [OF assms(1)] udp_reachable_ok [OF assms(3)]
    by (simp_all add: udp_ok_def settings_ok_def lifecycle_ok_def Let_def)
  have f: "m_interface ?v = until_NUL (m_interface u)" "m_udpAddr ?v = m_udpAddr u" "m_udpPort ?v = m_udpPort u"
    "options_of ?v = carried_options u"
    by (simp_all add: commit_config_def options_of_def)
  show ?thesis
    using config_read_back [OF s(1) assms(2,4) s(3) assms(5,6), of json_parse dump, OF assms(7)] f
      config_object_cong [OF f s(2)]
    by (simp add: getConfigAsJson_def)
qed

definition sample_udp :: vscpClientUdp where
  "sample_udp = the (new_vscpClientUdp True)"

lemma sample_udp_created: "new_vscpClientUdp True = Some sample_udp"
proof -
  have "new_vscpClientUdp True \<noteq> None" by code_simp
  then show ?thesis by (auto simp: sample_udp_def)
qed

lemma sample_udp_reachable: "udp_reachable sample_udp"
  by (rule udp_reachable.created [OF sample_udp_created])

lemma sample_udp_fields:
  "m_udpAddr sample_udp = ''255.255.255.255''" "\<not> m_connected (u_client sample_udp)"
  "\<not> m_pworkerthread sample_udp" "m_receiveQueue (u_client sample_udp) = []"
  by code_simp+

theorem config_round_trip_witness:
  "\<exists>v'. initFromJson (\<lambda>_. Object (config_object sample_udp)) (\<lambda>_. False) (\<lambda>_. True)
        (getConfigAsJson (\<lambda>_. ''{}'') sample_udp) sample_udp = Some (True, v')
    \<and> m_interface v' = until_NUL (m_interface sample_udp) \<and> m_udpAddr v' = m_udpAddr sample_udp
    \<and> m_udpPort v' = m_udpPort sample_udp \<and> options_of v' = carried_options sample_udp
    \<and> getConfigAsJson (\<lambda>_. ''{}'') v' = getConfigAsJson (\<lambda>_. ''{}'') sample_udp"
  by (rule config_round_trip [OF sample_udp_reachable _ sample_udp_reachable])
    (simp_all add: sample_udp_fields host_ok_def bad_in_endpoint_def)

section \<open>Reachable clients\<close>

text \<open>C10: Whatever sequence of configurations, connects, disconnects, work of its thread, receive calls,
  filter changes and registrations of callbacks led to the state of a client: authentication is enabled only with two different keys
  of the configured length; while it is connected its socket is open and its worker thread runs; no
  configuration text, no datagram and no receive call makes a call end in an escaping exception or an
  access outside the buffers; and a configuration that is refused, as it is while connected, leaves
  the client unchanged.\<close>

theorem udp_client_invariant:
  assumes "udp_reachable u"
  shows "(m_hmacEnabled u \<longrightarrow> authenticationStateValid (m_encryptType (u_client u)) (m_key (u_client u))
            (m_configuredKeyLength u) (m_hmacKey u) (m_configuredEncryption u) (m_configuredKey u))
    \<and> (isConnected u \<longrightarrow> m_socketOpen u \<and> m_pworkerthread u \<and> m_bRun (u_client u))
    \<and> (\<exists>u'. udp_workerThread p waits (Some u) = Some (Some u'))
    \<and> (\<exists>ok u'. initFromJson json_parse inet_pton6 inet_pton4 config u = Some (ok, u')
          \<and> (\<not> ok \<longrightarrow> u' = u) \<and> (isConnected u \<longrightarrow> \<not> ok))"
proof -
  note ok = udp_reachable_ok [OF assms]
  then have l: "32 \<le> length (m_key (u_client u))"
      "list_all (\<lambda>e. \<exists>ev. e = Some ev \<and> wf_event ev) (m_receiveQueue (u_client u))"
    by (simp_all add: udp_ok_def settings_ok_def queue_ok_def Let_def)
  have w: "\<exists>u'. udp_workerThread p waits (Some u) = Some (Some u')"
    using loop_keeps [OF l, of p "authentication_of u" "m_semReady u" waits] by (auto simp: udp_workerThread_def)
  have c: "isConnected u \<Longrightarrow> initFromJson json_parse inet_pton6 inet_pton4 config u = Some (False, u)"
    by (simp add: isConnected_def initFromJson_def)
  have "\<exists>ok u'. initFromJson json_parse inet_pton6 inet_pton4 config u = Some (ok, u')
          \<and> (\<not> ok \<longrightarrow> u' = u) \<and> (isConnected u \<longrightarrow> \<not> ok)"
    using initFromJson_keeps [OF ok, of json_parse inet_pton6 inet_pton4 config] c by auto
  then show ?thesis
    using ok w by (simp add: udp_ok_def settings_ok_def lifecycle_ok_def isConnected_def Let_def)
qed

theorem udp_client_invariant_witness:
  "\<exists>ok u'. initFromJson (\<lambda>_. Parse_error) (\<lambda>_. False) (\<lambda>_. True) ''{'' sample_udp = Some (ok, u')
      \<and> (\<not> ok \<longrightarrow> u' = sample_udp) \<and> (isConnected sample_udp \<longrightarrow> \<not> ok)"
  using udp_client_invariant [OF sample_udp_reachable, of sample_platform "[]" "\<lambda>_. Parse_error" "\<lambda>_. False" "\<lambda>_. True" "''{''"]
  by simp

text \<open>The count of received events is reported modulo 65536: a queue of that length reads as empty,
  although nothing bounds the queue.\<close>

theorem udp_getcount_wraps:
  "udp_getcount u (Some n) = (VSCP_ERROR_SUCCESS, Some (word_of_nat (length (m_receiveQueue (u_client u)))))
   \<and> (length (m_receiveQueue (u_client u)) = 65536 * k \<longrightarrow> snd (udp_getcount u (Some n)) = Some 0)"
proof -
  have "word_of_nat (65536 * k) = (0 :: u16)" by (subst word_of_nat_eq_0_iff) simp
  then show ?thesis by (simp add: udp_getcount_def del: of_nat_mult)
qed

theorem udp_getcount_wraps_witness:
  "snd (udp_getcount (sample_udp\<lparr>u_client := sample_client\<lparr>m_receiveQueue := replicate 65536 None\<rparr>\<rparr>) (Some 7)) = Some 0"
proof -
  define q :: "vscpEvent option list" where "q = replicate 65536 None"
  have "length q = 65536 * 1" unfolding q_def by (simp only: length_replicate mult_1_right)
  then show ?thesis
    using udp_getcount_wraps [of "sample_udp\<lparr>u_client := sample_client\<lparr>m_receiveQueue := q\<rparr>\<rparr>" 7 1]
    unfolding q_def [symmetric] by simp
qed

end
