(* ===== verification/Base64.thy ===== *)
theory Base64
  imports TextUtil
begin

unbundle bit_operations_syntax

text \<open>
  The base64 codec (\<^verbatim>\<open>vscpbase64.c\<close>) and the routines of \<^verbatim>\<open>vscphelper.cpp\<close> that apply it to
  \<^verbatim>\<open>std::string\<close> in a buffer of their own. The theorems: decoding undoes encoding for all byte
  strings, and exactly for which lengths the buffer of the string encoder is too small.
\<close>

section \<open>The codec\<close>


definition b64 :: "u8 list" where
  "b64 = str_bytes ''ABCDEFGHIJKLMNOPQRSTUVWXYZabcdefghijklmnopqrstuvwxyz0123456789+/''"

definition b64_at :: "u8 \<Rightarrow> u8" where "b64_at x = b64 ! unat x"

text \<open>The loop over groups of three bytes; what it stores behind each other in \<^verbatim>\<open>dst\<close>.\<close>

fun encode_groups :: "u8 list \<Rightarrow> u8 list" where
  "encode_groups [] = []"
| "encode_groups [a] = [b64_at (drop_bit 2 a), b64_at (push_bit 4 (a AND 3) OR drop_bit 4 0)]"
| "encode_groups [a, b] =
     [b64_at (drop_bit 2 a), b64_at (push_bit 4 (a AND 3) OR drop_bit 4 b),
      b64_at (push_bit 2 (b AND 15) OR drop_bit 6 0)]"
| "encode_groups (a # b # c # src) =
     [b64_at (drop_bit 2 a), b64_at (push_bit 4 (a AND 3) OR drop_bit 4 b),
      b64_at (push_bit 2 (b AND 15) OR drop_bit 6 c), b64_at (c AND 63)] @ encode_groups src"

text \<open>The second loop fills the last group of four up with \<^verbatim>\<open>=\<close>, and a zero ends the text.\<close>

definition b64_text :: "u8 list \<Rightarrow> u8 list" where
  "b64_text src = (let out = encode_groups src in out @ replicate ((4 - length out mod 4) mod 4) 0x3D)"

definition vscp_base64_encode :: "u8 list \<Rightarrow> nat \<Rightarrow> u8 list \<Rightarrow> u8 list safe" where
  "vscp_base64_encode src src_len dst =
     do { bs \<leftarrow> rd_block src 0 src_len; wr_block dst 0 (b64_text bs @ [0]) }"

definition b64reverse :: "u8 \<Rightarrow> u8" where
  "b64reverse letter =
     (if 0x41 \<le> letter \<and> letter \<le> 0x5A then letter - 0x41
      else if 0x61 \<le> letter \<and> letter \<le> 0x7A then letter - 0x61 + 26
      else if 0x30 \<le> letter \<and> letter \<le> 0x39 then letter - 0x30 + 52
      else if letter = 0x2B then 62
      else if letter = 0x2F then 63
      else if letter = 0x3D then 255
      else 254)"

text \<open>
  One group of letters; a letter behind the end counts as zero. The loop delivers the bytes it stores
  and its result: the index of the offending letter, or -1.
\<close>

definition letter_at :: "u8 list \<Rightarrow> nat \<Rightarrow> u8" where
  "letter_at src k = (if k < length src then src ! k else 0)"

definition group_bytes :: "u8 \<Rightarrow> u8 \<Rightarrow> u8 \<Rightarrow> u8 \<Rightarrow> u8 list" where
  "group_bytes a b c d =
     (push_bit 2 a + drop_bit 4 b)
     # (if c \<noteq> 255 then (push_bit 4 b + drop_bit 2 c) # (if d \<noteq> 255 then [push_bit 6 c + d] else []) else [])"

function decode_groups :: "nat \<Rightarrow> u8 list \<Rightarrow> u8 list \<times> int" where
  "decode_groups i src =
     (if src = [] then ([], - 1)
      else let a = b64reverse (letter_at src 0); b = b64reverse (letter_at src 1);
               c = b64reverse (letter_at src 2); d = b64reverse (letter_at src 3)
           in if a \<ge> 254 then ([], int i)
              else if b \<ge> 254 then ([], int i + 1)
              else if c = 254 then ([], int i + 2)
              else if d = 254 then ([], int i + 3)
              else let (out, r) = decode_groups (i + 4) (drop 4 src) in (group_bytes a b c d @ out, r))"
  by pat_completeness auto
termination by (relation "measure (\<lambda>(_, src). length src)") auto

declare decode_groups.simps [simp del]

definition vscp_base64_decode :: "u8 list \<Rightarrow> nat \<Rightarrow> u8 list \<Rightarrow> (int \<times> u8 list \<times> nat) safe" where
  "vscp_base64_decode src src_len dst = do {
     bs \<leftarrow> rd_block src 0 src_len;
     let (out, r) = decode_groups 0 bs;
     dst \<leftarrow> wr_block dst 0 out;
     Some (r, dst, length out) }"

section \<open>Strings\<close>

definition vscp_base64_std_decode :: "string \<Rightarrow> (bool \<times> string) safe" where
  "vscp_base64_std_decode str =
     (if length str = 0 then Some (True, str)
      else do {
        let pbuf = replicate (2 * length str) (0 :: u8);
        (_, pbuf, _) \<leftarrow> vscp_base64_decode (str_bytes str) (length str) pbuf;
        str \<leftarrow> c_string pbuf;
        Some (True, str) })"

definition vscp_base64_std_encode :: "string \<Rightarrow> (bool \<times> string) safe" where
  "vscp_base64_std_encode str = do {
     let cstr = takeWhile (\<lambda>c. c \<noteq> NUL) str;
     let pbuf = replicate (2 * length cstr) (0 :: u8);
     pbuf \<leftarrow> vscp_base64_encode (str_bytes str) (length cstr) pbuf;
     str \<leftarrow> c_string pbuf;
     Some (True, str) }"

definition vscp_std_decodeBase64IfNeeded :: "string \<Rightarrow> (bool \<times> string) safe" where
  "vscp_std_decodeBase64IfNeeded str =
     (let strResult = vscp_trim str
      in if length strResult = 0 then Some (True, strResult)
         else if find_sub ''BASE64:'' strResult = Some 0
         then do { (_, strResult) \<leftarrow> vscp_base64_std_decode (take (length strResult - 7) (drop 7 strResult));
                   Some (True, strResult) }
         else Some (True, str))"

definition vscp_convertToBase64 :: "string \<Rightarrow> string safe" where
  "vscp_convertToBase64 str =
     map_option (\<lambda>(ok, s). if ok then s else []) (vscp_base64_std_encode str)"

section \<open>Decoding undoes encoding\<close>

lemma b64_rows: "list_all (\<lambda>i. b64reverse (b64 ! i) = of_nat i) [0..<64]"
  by code_simp

lemma length_b64: "length b64 = 64"
  by (simp add: b64_def str_bytes_def)

lemma b64reverse_at [simp]:
  assumes "x < 64"
  shows "b64reverse (b64_at x) = x"
proof -
  have "unat x < 64" using assms by (simp add: word_less_nat_alt)
  then have "b64reverse (b64 ! unat x) = of_nat (unat x)" using b64_rows by (auto simp: list_all_iff)
  then show ?thesis by (simp add: b64_at_def)
qed

lemma small_by_bits:
  assumes "\<And>n. 6 \<le> n \<Longrightarrow> \<not> bit (x :: u8) n"
  shows "x < 64"
proof -
  have "take_bit 6 x = x"
    using assms by (intro bit_word_eqI) (auto simp: bit_simps simp flip: not_le)
  then have "unat x < 2 ^ 6" by (metis take_bit_nat_less_exp unsigned_take_bit_eq)
  then show ?thesis by (simp add: word_less_nat_alt)
qed

lemma b64_masks: "a AND 3 = take_bit 2 a" "a AND 15 = take_bit 4 a" "a AND 63 = take_bit 6 a" for a :: u8
  by (simp_all add: take_bit_eq_mask mask_eq_exp_minus_1)

lemma sextets_small:
  fixes a b c :: u8
  shows "drop_bit 2 a < 64" "push_bit 4 (take_bit 2 a) OR drop_bit 4 b < 64"
    "push_bit 2 (take_bit 4 b) OR drop_bit 6 c < 64" "take_bit 6 c < 64"
  by (rule small_by_bits, auto simp: bit_simps dest: bit_imp_le_length)+

lemma sextets_join:
  fixes a b c :: u8
  shows "push_bit 2 (drop_bit 2 a) + drop_bit 4 (push_bit 4 (take_bit 2 a) OR drop_bit 4 b) = a" (is ?A)
    and "push_bit 4 (push_bit 4 (take_bit 2 a) OR drop_bit 4 b) + drop_bit 2 (push_bit 2 (take_bit 4 b) OR drop_bit 6 c) = b" (is ?B)
    and "push_bit 6 (push_bit 2 (take_bit 4 b) OR drop_bit 6 c) + take_bit 6 c = c" (is ?C)
proof -
  show ?A by (subst add_eq_or_disjoint) (auto intro!: bit_word_eqI simp: bit_simps dest: bit_imp_le_length simp del: add_2_eq_Suc add_2_eq_Suc')
  show ?B by (subst add_eq_or_disjoint) (auto intro!: bit_word_eqI simp: bit_simps dest: bit_imp_le_length simp del: add_2_eq_Suc add_2_eq_Suc')
  show ?C by (subst add_eq_or_disjoint) (auto intro!: bit_word_eqI simp: bit_simps dest: bit_imp_le_length)
qed

lemma small_not_mark: "x < 64 \<Longrightarrow> \<not> 254 \<le> x \<and> x \<noteq> 255 \<and> x \<noteq> (254 :: u8)"
  by (auto simp: word_le_nat_alt word_less_nat_alt)

lemma b64reverse_mark [simp]: "b64reverse 0x3D = 255"
  by (simp add: b64reverse_def)

lemma letter_at_simps [simp]:
  "letter_at (x # src) 0 = x" "letter_at (x # src) (Suc k) = letter_at src k"
  by (simp_all add: letter_at_def)

lemma decode_four:
  assumes "a < 64" and "b < 64" and "c < 64" and "d < 64"
  shows "decode_groups i (b64_at a # b64_at b # b64_at c # b64_at d # src)
    = map_prod ((@) [push_bit 2 a + drop_bit 4 b, push_bit 4 b + drop_bit 2 c, push_bit 6 c + d]) id (decode_groups (i + 4) src)"
  using assms [THEN small_not_mark]
  by (subst decode_groups.simps)
    (simp add: assms group_bytes_def Let_def numeral_2_eq_2 numeral_3_eq_3 split: prod.split)

lemma decode_three:
  assumes "a < 64" and "b < 64" and "c < 64"
  shows "decode_groups i [b64_at a, b64_at b, b64_at c, 0x3D]
    = ([push_bit 2 a + drop_bit 4 b, push_bit 4 b + drop_bit 2 c], - 1)"
  using assms [THEN small_not_mark]
  by (subst decode_groups.simps)
    (simp add: assms group_bytes_def Let_def numeral_2_eq_2 numeral_3_eq_3 decode_groups.simps [of _ "[]"])

lemma decode_two:
  assumes "a < 64" and "b < 64"
  shows "decode_groups i [b64_at a, b64_at b, 0x3D, 0x3D] = ([push_bit 2 a + drop_bit 4 b], - 1)"
  using assms [THEN small_not_mark]
  by (subst decode_groups.simps)
    (simp add: assms group_bytes_def Let_def numeral_2_eq_2 numeral_3_eq_3 decode_groups.simps [of _ "[]"])

lemma decode_b64_text: "decode_groups i (b64_text src) = (src, - 1)"
proof (induction src arbitrary: i rule: encode_groups.induct)
  case 1
  show ?case by (simp add: b64_text_def decode_groups.simps)
next
  case (2 a)
  show ?case
    using decode_two [OF sextets_small(1) sextets_small(2), of i a a 0] sextets_join(1) [of a 0]
    by (simp add: b64_text_def b64_masks numeral_2_eq_2)
next
  case (3 a b)
  show ?case
    using decode_three [OF sextets_small(1) sextets_small(2) sextets_small(3), of i a a b b 0]
      sextets_join(1) [of a b] sextets_join(2) [of a b 0]
    by (simp add: b64_text_def b64_masks)
next
  case (4 a b c src)
  have "b64_text (a # b # c # src)
      = b64_at (drop_bit 2 a) # b64_at (push_bit 4 (take_bit 2 a) OR drop_bit 4 b)
        # b64_at (push_bit 2 (take_bit 4 b) OR drop_bit 6 c) # b64_at (take_bit 6 c) # b64_text src"
    by (simp add: b64_text_def b64_masks Let_def)
  then show ?case
    by (simp only: decode_four [OF sextets_small] 4 sextets_join) simp
qed

section \<open>The string encoder and its buffer\<close>

text \<open>The length of the encoded text, without its terminating zero.\<close>

definition b64_size :: "nat \<Rightarrow> nat" where "b64_size n = 4 * ((n + 2) div 3)"

lemma b64_size_step: "b64_size (Suc (Suc (Suc n))) = 4 + b64_size n"
proof -
  have "Suc (Suc (Suc n)) + 2 = 3 + (n + 2)" by simp
  moreover have "(3 + (n + 2)) div 3 = (n + 2) div 3 + 1" by (rule div_add_self1) simp
  ultimately show ?thesis unfolding b64_size_def by (simp only: distrib_left)
qed

lemma b64_groups:
  fixes n :: nat
  shows "3 * ((n + 2) div 3) \<le> n + 2" "n < 3 * ((n + 2) div 3) + 1"
  using times_div_less_eq_dividend [of 3 "n + 2"] dividend_less_times_div [of 3 "n + 2"] by simp_all

lemma b64_size_bounds: "n \<le> b64_size n" "0 < n \<Longrightarrow> 0 < b64_size n"
  using b64_groups [of n] unfolding b64_size_def by linarith+

lemma b64_size_fits: "b64_size n < 2 * n \<longleftrightarrow> n \<notin> {0, 1, 2, 4}"
proof (cases "n < 5")
  case True
  then consider "n = 0" | "n = 1" | "n = 2" | "n = 3" | "n = 4" by linarith
  then show ?thesis by cases (simp_all add: b64_size_def)
next
  case False
  then show ?thesis using b64_groups(1) [of n] unfolding b64_size_def by simp
qed

lemma length_b64_text: "length (b64_text src) = b64_size (length src)"
proof (induction src rule: encode_groups.induct)
  case (4 a b c src)
  have "length (b64_text (a # b # c # src)) = 4 + length (b64_text src)"
    by (simp add: b64_text_def Let_def)
  then show ?case using 4 by (simp add: b64_size_step)
qed (simp_all add: b64_text_def b64_size_def Let_def)

lemma b64_at_not_0:
  assumes "x < 64"
  shows "b64_at x \<noteq> 0"
proof
  assume "b64_at x = 0"
  then have "b64reverse 0 = x" using b64reverse_at [OF assms] by simp
  then show False using assms by (simp add: b64reverse_def)
qed

lemma b64_text_no_zero: "0 \<notin> set (b64_text src)"
  using sextets_small [THEN b64_at_not_0] sextets_small(2) [of _ 0, THEN b64_at_not_0] sextets_small(3) [of _ 0, THEN b64_at_not_0]
  by (induction src rule: encode_groups.induct) (auto simp: b64_text_def Let_def b64_masks set_replicate_conv_if)

text \<open>C15: Decoding gives back every byte string that was encoded into a buffer with room for its text, and
  uses no more than the encoded length.\<close>

theorem base64_round_trip:
  assumes "b64_size (length src) < length dst" and "length src \<le> length dst'"
  shows "\<exists>text. vscp_base64_encode src (length src) dst = Some text
     \<and> vscp_base64_decode text (b64_size (length src)) dst' = Some (- 1, src @ drop (length src) dst', length src)"
  using assms
  by (simp add: vscp_base64_encode_def vscp_base64_decode_def rd_block_in_range wr_block_zero length_b64_text
      Suc_le_eq decode_b64_text Let_def)

theorem base64_round_trip_witness:
  "\<exists>text. vscp_base64_encode [1, 255, 0, 7] (length [1, 255, 0, 7 :: u8]) (replicate 9 0) = Some text
     \<and> vscp_base64_decode text (b64_size (length [1, 255, 0, 7 :: u8])) (replicate 5 3)
       = Some (- 1, [1, 255, 0, 7] @ drop (length [1, 255, 0, 7 :: u8]) (replicate 5 3), length [1, 255, 0, 7 :: u8])"
  by (rule base64_round_trip) (simp_all add: b64_size_def)

text \<open>The buffer of the string encoder, twice the length of the text, is too small exactly for texts of
  none, one, two or four characters; for all others the encoded text decodes to the original.\<close>

theorem base64_string_encoder:
  assumes "NUL \<notin> set str"
  shows "(vscp_base64_std_encode str = None \<longleftrightarrow> length str \<in> {0, 1, 2, 4})
    \<and> (length str \<notin> {0, 1, 2, 4} \<longrightarrow>
         (\<exists>s. vscp_base64_std_encode str = Some (True, s) \<and> vscp_base64_std_decode s = Some (True, str)))"
proof -
  let ?n = "length str" and ?t = "b64_text (str_bytes str)"
  have c: "takeWhile (\<lambda>c. c \<noteq> NUL) str = str" using assms by (auto simp: takeWhile_eq_all_conv)
  have small: "vscp_base64_std_encode str = None" if "\<not> b64_size ?n < 2 * ?n"
    using that by (simp add: vscp_base64_std_encode_def vscp_base64_encode_def c rd_block_def wr_block_def length_b64_text)
  have "vscp_base64_std_encode str = Some (True, bytes_str ?t)
      \<and> vscp_base64_std_decode (bytes_str ?t) = Some (True, str)" if fits: "b64_size ?n < 2 * ?n"
  proof -
    have n: "0 < ?n" "0 < b64_size ?n" "?n < 2 * b64_size ?n"
      using fits b64_size_bounds [of ?n] by auto
    have "c_string (?t @ 0 # replicate (2 * ?n - Suc (b64_size ?n)) 0) = Some (bytes_str ?t)"
      using c_string_zeros [OF b64_text_no_zero, of "Suc (2 * ?n - Suc (b64_size ?n))" "str_bytes str"] by simp
    moreover have "c_string (str_bytes str @ replicate (2 * b64_size ?n - ?n) 0) = Some str"
      using c_string_zeros [OF str_bytes_no_zero [OF assms], of "2 * b64_size ?n - ?n"] n by simp
    ultimately show ?thesis
      using fits n
      by (simp add: vscp_base64_std_encode_def vscp_base64_std_decode_def vscp_base64_encode_def vscp_base64_decode_def
          c rd_block_in_range wr_block_zero length_b64_text decode_b64_text Suc_le_eq)
  qed
  then show ?thesis using small b64_size_fits [of ?n] by (cases "b64_size ?n < 2 * ?n") auto
qed

theorem base64_string_encoder_witness:
  "(vscp_base64_std_encode ''abcde'' = None \<longleftrightarrow> length ''abcde'' \<in> {0, 1, 2, 4})
    \<and> (length ''abcde'' \<notin> {0, 1, 2, 4} \<longrightarrow>
         (\<exists>s. vscp_base64_std_encode ''abcde'' = Some (True, s) \<and> vscp_base64_std_decode s = Some (True, ''abcde'')))"
  by (rule base64_string_encoder) (simp add: NUL_def)

end
