(* ===== verification/Fifo.thy ===== *)
theory Fifo
  imports VscpPrelude
begin

text \<open>
  The byte ring buffer of \<^verbatim>\<open>fifo.c\<close>. Head and tail are 16-bit indices; tests like \<^verbatim>\<open>head + 1 == tail\<close> are
  made in \<^verbatim>\<open>int\<close>, without wrap-around. The theorems: the buffer is a queue of at most \<^verbatim>\<open>size - 1\<close> bytes
  under every sequence of reads and writes, and \<^verbatim>\<open>fifo_getFree\<close> counts one byte too many.
\<close>

section \<open>Operations\<close>

record fifo_t =
  f_head :: u16
  f_tail :: u16
  f_size :: u16
  f_buf :: "u8 list"

definition fifo_init :: "u8 list \<Rightarrow> u16 \<Rightarrow> fifo_t" where
  "fifo_init buf size' = \<lparr>f_head = 0, f_tail = 0, f_size = size', f_buf = buf\<rparr>"

text \<open>Stepping an index, with the wrap-around at the end of the buffer.\<close>

definition next_index :: "fifo_t \<Rightarrow> u16 \<Rightarrow> u16" where
  "next_index f i = (if i + 1 = f_size f then 0 else i + 1)"

text \<open>The loop of \<^verbatim>\<open>fifo_read\<close>: \<open>n\<close> bytes are still wanted. It delivers the bytes it read; the result of
  the C function is their number.\<close>

fun fifo_read :: "fifo_t \<Rightarrow> nat \<Rightarrow> (fifo_t \<times> u8 list) safe" where
  "fifo_read f 0 = Some (f, [])"
| "fifo_read f (Suc n) =
     (if f_tail f \<noteq> f_head f
      then do {
        b \<leftarrow> rd (f_buf f) (unat (f_tail f));
        (f, bs) \<leftarrow> fifo_read (f\<lparr>f_tail := next_index f (f_tail f)\<rparr>) n;
        Some (f, b # bs) }
      else Some (f, []))"

definition fifo_full :: "fifo_t \<Rightarrow> bool" where
  "fifo_full f \<longleftrightarrow> unat (f_head f) + 1 = unat (f_tail f)
     \<or> (unat (f_head f) + 1 = unat (f_size f) \<and> f_tail f = 0)"

text \<open>\<open>i\<close> counts the bytes written; it is returned as a 16-bit number.\<close>

fun fifo_write_loop :: "fifo_t \<Rightarrow> u8 list \<Rightarrow> nat \<Rightarrow> (fifo_t \<times> u16) safe" where
  "fifo_write_loop f [] i = Some (f, of_nat i)"
| "fifo_write_loop f (b # bs) i =
     (if fifo_full f then Some (f, of_nat i)
      else do {
        buf \<leftarrow> wr_block (f_buf f) (unat (f_head f)) [b];
        fifo_write_loop (f\<lparr>f_buf := buf, f_head := next_index f (f_head f)\<rparr>) bs (i + 1) })"

definition fifo_write :: "fifo_t \<Rightarrow> u8 list \<Rightarrow> (fifo_t \<times> u16) safe" where
  "fifo_write f bs = fifo_write_loop f bs 0"

definition fifo_getFree :: "fifo_t \<Rightarrow> u16" where
  "fifo_getFree f =
     (if f_head f < f_tail f then f_tail f - f_head f else f_size f + (f_tail f - f_head f))"

section \<open>The queue it implements\<close>

definition wf_fifo :: "fifo_t \<Rightarrow> bool" where
  "wf_fifo f \<longleftrightarrow> length (f_buf f) = unat (f_size f) \<and> f_head f < f_size f \<and> f_tail f < f_size f"

definition content :: "fifo_t \<Rightarrow> u8 list" where
  "content f =
     (let h = unat (f_head f); t = unat (f_tail f); buf = f_buf f
      in if t \<le> h then take (h - t) (drop t buf) else drop t buf @ take h buf)"

definition capacity :: "fifo_t \<Rightarrow> nat" where "capacity f = unat (f_size f) - 1"

text \<open>The contract of a bounded queue: adding one element at the end, taking one from the front.\<close>

locale bounded_queue =
  fixes inv :: "'q \<Rightarrow> bool" and items :: "'q \<Rightarrow> 'a list" and room :: "'q \<Rightarrow> nat"
    and put :: "'q \<Rightarrow> 'a \<Rightarrow> 'q option" and get :: "'q \<Rightarrow> ('q \<times> 'a) option"
  assumes bounded: "inv q \<Longrightarrow> length (items q) \<le> room q"
    and put_full: "inv q \<Longrightarrow> length (items q) = room q \<Longrightarrow> put q x = None"
    and put_ok: "inv q \<Longrightarrow> length (items q) < room q \<Longrightarrow>
      \<exists>q'. put q x = Some q' \<and> inv q' \<and> items q' = items q @ [x] \<and> room q' = room q"
    and get_empty: "inv q \<Longrightarrow> items q = [] \<Longrightarrow> get q = None"
    and get_ok: "inv q \<Longrightarrow> items q = x # xs \<Longrightarrow> \<exists>q'. get q = Some (q', x) \<and> inv q' \<and> items q' = xs \<and> room q' = room q"
begin

primrec puts :: "'q \<Rightarrow> 'a list \<Rightarrow> 'q \<times> nat" where
  "puts q [] = (q, 0)"
| "puts q (x # xs) = (case put q x of None \<Rightarrow> (q, 0) | Some q' \<Rightarrow> apsnd Suc (puts q' xs))"

primrec gets :: "'q \<Rightarrow> nat \<Rightarrow> 'q \<times> 'a list" where
  "gets q 0 = (q, [])"
| "gets q (Suc n) = (case get q of None \<Rightarrow> (q, []) | Some (q', x) \<Rightarrow> apsnd ((#) x) (gets q' n))"

lemma puts_ok:
  assumes "inv q"
  shows "\<exists>q'. puts q xs = (q', min (length xs) (room q - length (items q))) \<and> inv q' \<and> room q' = room q
    \<and> items q' = items q @ take (room q - length (items q)) xs"
  using assms
proof (induction xs arbitrary: q)
  case (Cons x xs)
  show ?case
  proof (cases "length (items q) = room q")
    case True
    then show ?thesis using Cons.prems put_full by simp
  next
    case False
    then have less: "length (items q) < room q" using bounded [OF Cons.prems] by simp
    then obtain q1 where "put q x = Some q1" "inv q1" "items q1 = items q @ [x]" "room q1 = room q"
      using put_ok [OF Cons.prems] by blast
    moreover obtain k where "room q - length (items q) = Suc k" "room q - Suc (length (items q)) = k"
      using less by (metis Suc_diff_Suc)
    ultimately show ?thesis using Cons.IH [of q1] by auto
  qed
qed simp

lemma gets_ok:
  assumes "inv q"
  shows "\<exists>q'. gets q n = (q', take n (items q)) \<and> inv q' \<and> room q' = room q \<and> items q' = drop n (items q)"
  using assms
proof (induction n arbitrary: q)
  case (Suc n)
  show ?case
  proof (cases "items q")
    case Nil
    then show ?thesis using Suc.prems get_empty by simp
  next
    case (Cons x xs)
    then obtain q1 where "get q = Some (q1, x)" "inv q1" "items q1 = xs" "room q1 = room q"
      using get_ok [OF Suc.prems] by blast
    then show ?thesis using Suc.IH [of q1] Cons by auto
  qed
qed simp

end

section \<open>The ring buffer keeps the contract\<close>

definition push_byte :: "fifo_t \<Rightarrow> u8 \<Rightarrow> fifo_t" where
  "push_byte f b = f\<lparr>f_buf := (f_buf f)[unat (f_head f) := b], f_head := next_index f (f_head f)\<rparr>"

definition pop_byte :: "fifo_t \<Rightarrow> fifo_t" where
  "pop_byte f = f\<lparr>f_tail := next_index f (f_tail f)\<rparr>"

lemma unat_next_index:
  assumes "i < f_size f"
  shows "unat (next_index f i) = (if unat i + 1 = unat (f_size f) then 0 else unat i + 1)"
    and "next_index f i < f_size f"
proof -
  have "unat i + 1 \<le> unat (f_size f)" using assms by (simp add: word_less_nat_alt)
  then have u: "unat (i + 1) = unat i + 1"
    using unat_u16_less [of "f_size f"] by (simp add: unat_word_ariths)
  have "i + 1 = f_size f \<longleftrightarrow> unat i + 1 = unat (f_size f)" using u by (metis word_unat_eq_iff)
  then show "unat (next_index f i) = (if unat i + 1 = unat (f_size f) then 0 else unat i + 1)"
    using u by (simp add: next_index_def)
  then show "next_index f i < f_size f"
    using \<open>unat i + 1 \<le> unat (f_size f)\<close> by (auto simp: word_less_nat_alt split: if_splits)
qed

lemma length_content:
  assumes "wf_fifo f"
  shows "length (content f) = (if unat (f_tail f) \<le> unat (f_head f) then unat (f_head f) - unat (f_tail f)
      else unat (f_size f) + unat (f_head f) - unat (f_tail f))"
  using assms by (auto simp: wf_fifo_def content_def Let_def word_less_nat_alt)

lemma length_content_le: "wf_fifo f \<Longrightarrow> length (content f) \<le> capacity f"
  by (auto simp: length_content capacity_def wf_fifo_def word_less_nat_alt)

lemma fifo_full_iff: "wf_fifo f \<Longrightarrow> fifo_full f \<longleftrightarrow> length (content f) = capacity f"
  by (auto simp: length_content capacity_def fifo_full_def wf_fifo_def word_less_nat_alt word_unat_eq_iff
      split: if_splits)

lemma empty_iff: "wf_fifo f \<Longrightarrow> f_tail f = f_head f \<longleftrightarrow> content f = []"
  unfolding length_0_conv [symmetric]
  by (auto simp: length_content wf_fifo_def word_less_nat_alt word_unat_eq_iff split: if_splits)

lemma push_byte_ok:
  assumes wf: "wf_fifo f" and "\<not> fifo_full f"
  shows "wf_fifo (push_byte f b)" "content (push_byte f b) = content f @ [b]" "capacity (push_byte f b) = capacity f"
proof -
  let ?h = "unat (f_head f)" and ?t = "unat (f_tail f)" and ?n = "unat (f_size f)"
  have h: "?h < ?n" "?t < ?n" "length (f_buf f) = ?n" and hs: "f_head f < f_size f"
    using wf by (simp_all add: wf_fifo_def word_less_nat_alt)
  note nx = unat_next_index [OF hs]
  show "wf_fifo (push_byte f b)" using wf nx(2) by (simp add: wf_fifo_def push_byte_def next_index_def)
  show "capacity (push_byte f b) = capacity f" by (simp add: capacity_def push_byte_def)
  have full: "?h + 1 \<noteq> ?t" "?h + 1 = ?n \<Longrightarrow> ?t \<noteq> 0"
    using assms(2) by (auto simp: fifo_full_def word_unat_eq_iff)
  have front: "take (Suc ?h) ((f_buf f)[?h := b]) = take ?h (f_buf f) @ [b]"
    using h by (simp add: take_Suc_conv_app_nth)
  show "content (push_byte f b) = content f @ [b]"
  proof (cases "?t \<le> ?h")
    case True
    have "take (Suc ?h - ?t) (drop ?t ((f_buf f)[?h := b])) = take (?h - ?t) (drop ?t (f_buf f)) @ [b]"
      using arg_cong [OF front, of "drop ?t"] True h by (simp add: drop_take)
    moreover have "take (Suc ?h - ?t) (drop ?t ((f_buf f)[?h := b])) = drop ?t ((f_buf f)[?h := b])" if "Suc ?h = ?n"
      using that h by simp
    ultimately show ?thesis
      using True full nx(1) by (auto simp: content_def push_byte_def Let_def)
  next
    case False
    then show ?thesis
      using full nx(1) h front by (simp add: content_def push_byte_def Let_def)
  qed
qed

lemma pop_byte_ok:
  assumes wf: "wf_fifo f" and "f_tail f \<noteq> f_head f"
  shows "wf_fifo (pop_byte f)" "content f = f_buf f ! unat (f_tail f) # content (pop_byte f)"
    "capacity (pop_byte f) = capacity f"
proof -
  let ?h = "unat (f_head f)" and ?t = "unat (f_tail f)" and ?n = "unat (f_size f)"
  have h: "?h < ?n" "?t < ?n" "length (f_buf f) = ?n" and ts: "f_tail f < f_size f"
    using wf by (simp_all add: wf_fifo_def word_less_nat_alt)
  note nx = unat_next_index [OF ts]
  show "wf_fifo (pop_byte f)" using wf nx(2) by (simp add: wf_fifo_def pop_byte_def next_index_def)
  show "capacity (pop_byte f) = capacity f" by (simp add: capacity_def pop_byte_def)
  have ne: "?h \<noteq> ?t" using assms(2) by (simp add: word_unat_eq_iff)
  have d: "drop ?t (f_buf f) = f_buf f ! ?t # drop (Suc ?t) (f_buf f)"
    using h by (simp add: Cons_nth_drop_Suc)
  show "content f = f_buf f ! ?t # content (pop_byte f)"
  proof (cases "?t \<le> ?h")
    case True
    then obtain k where k: "?h - ?t = Suc k" "?h - Suc ?t = k" using ne by (metis Suc_diff_Suc le_neq_implies_less)
    then show ?thesis
      using True ne h nx(1) d by (auto simp: content_def pop_byte_def Let_def)
  next
    case False
    then show ?thesis
      using ne h nx(1) d by (auto simp: content_def pop_byte_def Let_def)
  qed
qed

lemma write_byte:
  assumes "wf_fifo f"
  shows "fifo_write f [b] = (if fifo_full f then Some (f, 0) else Some (push_byte f b, 1))"
  using assms
  by (simp add: fifo_write_def push_byte_def wr_block_def wf_fifo_def word_less_nat_alt Suc_le_eq
      upd_conv_take_nth_drop)

lemma read_byte:
  assumes "wf_fifo f"
  shows "fifo_read f (Suc 0) = (if f_tail f = f_head f then Some (f, [])
    else Some (pop_byte f, [f_buf f ! unat (f_tail f)]))"
  using assms by (simp add: pop_byte_def rd_def wf_fifo_def word_less_nat_alt)

definition put_byte :: "fifo_t \<Rightarrow> u8 \<Rightarrow> fifo_t option" where
  "put_byte f b = (case fifo_write f [b] of Some (f', n) \<Rightarrow> if n = 1 then Some f' else None | None \<Rightarrow> None)"

definition get_byte :: "fifo_t \<Rightarrow> (fifo_t \<times> u8) option" where
  "get_byte f = (case fifo_read f 1 of Some (f', [b]) \<Rightarrow> Some (f', b) | _ \<Rightarrow> None)"

interpretation ring: bounded_queue wf_fifo content capacity put_byte get_byte
proof
  fix f x xs and b :: u8
  assume wf: "wf_fifo f"
  show "length (content f) \<le> capacity f" using wf by (rule length_content_le)
  show "put_byte f b = None" if "length (content f) = capacity f"
    using wf that by (simp add: put_byte_def write_byte fifo_full_iff)
  show "\<exists>q'. put_byte f b = Some q' \<and> wf_fifo q' \<and> content q' = content f @ [b] \<and> capacity q' = capacity f"
    if "length (content f) < capacity f"
  proof -
    have "\<not> fifo_full f" using that wf by (simp add: fifo_full_iff)
    then show ?thesis using push_byte_ok [OF wf] wf by (simp add: put_byte_def write_byte)
  qed
  show "get_byte f = None" if "content f = []"
    using wf that empty_iff [OF wf] by (simp add: get_byte_def read_byte)
  show "\<exists>q'. get_byte f = Some (q', x) \<and> wf_fifo q' \<and> content q' = xs \<and> capacity q' = capacity f"
    if "content f = x # xs"
  proof -
    have "f_tail f \<noteq> f_head f" using that empty_iff [OF wf] by simp
    then show ?thesis
      using pop_byte_ok [OF wf] that unfolding get_byte_def One_nat_def read_byte [OF wf] by simp
  qed
qed

text \<open>The loops of the code are repeated single steps.\<close>

lemma put_byte_step: "wf_fifo f \<Longrightarrow> put_byte f b = (if fifo_full f then None else Some (push_byte f b))"
  by (simp add: put_byte_def write_byte)

lemma write_loop_puts:
  assumes "wf_fifo f"
  shows "fifo_write_loop f bs i = Some (fst (ring.puts f bs), of_nat (i + snd (ring.puts f bs)))"
  using assms
proof (induction bs arbitrary: f i)
  case (Cons b bs)
  show ?case
  proof (cases "fifo_full f")
    case True
    then show ?thesis using Cons.prems by (simp add: put_byte_step)
  next
    case False
    have "wr_block (f_buf f) (unat (f_head f)) [b] = Some (f_buf (push_byte f b))"
      using Cons.prems by (simp add: wf_fifo_def wr_block_def push_byte_def word_less_nat_alt Suc_le_eq upd_conv_take_nth_drop)
    moreover have "f\<lparr>f_buf := f_buf (push_byte f b), f_head := next_index f (f_head f)\<rparr> = push_byte f b"
      by (simp add: push_byte_def)
    ultimately show ?thesis
      using False Cons.prems Cons.IH [OF push_byte_ok(1) [OF Cons.prems False], of b "i + 1"]
      by (simp add: put_byte_step split_beta)
  qed
qed simp

lemma read_gets: "wf_fifo f \<Longrightarrow> fifo_read f n = Some (ring.gets f n)"
proof (induction n arbitrary: f)
  case (Suc n)
  have g: "get_byte f = (if f_tail f = f_head f then None else Some (pop_byte f, f_buf f ! unat (f_tail f)))"
    unfolding get_byte_def One_nat_def read_byte [OF Suc.prems] by simp
  show ?case
  proof (cases "f_tail f = f_head f")
    case False
    have "rd (f_buf f) (unat (f_tail f)) = Some (f_buf f ! unat (f_tail f))"
      using Suc.prems by (simp add: wf_fifo_def rd_def word_less_nat_alt)
    then show ?thesis
      using False g Suc.IH [OF pop_byte_ok(1) [OF Suc.prems False]]
      by (simp add: pop_byte_def [symmetric] split_beta prod_eq_iff)
  qed (simp add: g)
qed simp

section \<open>Properties\<close>

text \<open>C14: Writing stores what there is room for behind the bytes that are there, and reading takes bytes from
  the front: on a well-formed buffer both stay inside it, return the right counts and keep it
  well-formed.\<close>

theorem fifo_refines_queue:
  assumes "wf_fifo f"
  shows "\<exists>w r. fifo_write f bs = Some (w, of_nat (min (length bs) (capacity f - length (content f))))
     \<and> wf_fifo w \<and> content w = content f @ take (capacity f - length (content f)) bs
     \<and> fifo_read f n = Some (r, take n (content f)) \<and> wf_fifo r \<and> content r = drop n (content f)"
  using ring.puts_ok [OF assms, of bs] ring.gets_ok [OF assms, of n]
  by (auto simp: fifo_write_def write_loop_puts [OF assms] read_gets [OF assms])

definition sample_fifo :: fifo_t where
  "sample_fifo = \<lparr>f_head = 1, f_tail = 3, f_size = 4, f_buf = [10, 11, 12, 13]\<rparr>"

theorem fifo_refines_queue_witness:
  "\<exists>w r. fifo_write sample_fifo [1, 2, 3]
       = Some (w, of_nat (min (length [1, 2, 3 :: u8]) (capacity sample_fifo - length (content sample_fifo))))
     \<and> wf_fifo w \<and> content w = content sample_fifo @ take (capacity sample_fifo - length (content sample_fifo)) [1, 2, 3]
     \<and> fifo_read sample_fifo 1 = Some (r, take 1 (content sample_fifo)) \<and> wf_fifo r
     \<and> content r = drop 1 (content sample_fifo)"
  by (rule fifo_refines_queue) (simp add: wf_fifo_def sample_fifo_def)

text \<open>Any mix of writes and reads, and what it accepts and delivers.\<close>

datatype fifo_op = Write_bytes "u8 list" | Read_bytes nat

fun fifo_run :: "fifo_t \<Rightarrow> fifo_op list \<Rightarrow> (fifo_t \<times> u8 list \<times> u8 list) safe" where
  "fifo_run f [] = Some (f, [], [])"
| "fifo_run f (Write_bytes bs # ops) = do {
     (f, n) \<leftarrow> fifo_write f bs;
     (f, acc, out) \<leftarrow> fifo_run f ops;
     Some (f, take (unat n) bs @ acc, out) }"
| "fifo_run f (Read_bytes n # ops) = do {
     (f, bs) \<leftarrow> fifo_read f n;
     (f, acc, out) \<leftarrow> fifo_run f ops;
     Some (f, acc, bs @ out) }"

lemma capacity_less: "capacity f < 65536"
  using unat_u16_less [of "f_size f"] by (simp add: capacity_def)

lemma fifo_run_queue:
  assumes "wf_fifo f"
  shows "\<exists>f' acc out. fifo_run f ops = Some (f', acc, out) \<and> wf_fifo f' \<and> content f @ acc = out @ content f'
    \<and> capacity f' = capacity f"
  using assms
proof (induction ops arbitrary: f)
  case (Cons opn ops)
  show ?case
  proof (cases opn)
    case (Write_bytes bs)
    let ?n = "min (length bs) (capacity f - length (content f))"
    obtain w where w: "fifo_write f bs = Some (w, of_nat ?n)" "wf_fifo w"
        "content w = content f @ take (capacity f - length (content f)) bs" "capacity w = capacity f"
      using fifo_write_def ring.puts_ok [OF Cons.prems, of bs] write_loop_puts [OF Cons.prems, of bs 0] by auto
    have "unat (of_nat ?n :: u16) = ?n"
      using capacity_less [of f] by (intro unat_of_nat_u16) simp
    moreover have "take ?n bs = take (capacity f - length (content f)) bs" by (simp add: min_def)
    ultimately show ?thesis using Write_bytes w Cons.IH [OF w(2)] by (auto simp del: of_nat_min)
  next
    case (Read_bytes n)
    obtain r where r: "fifo_read f n = Some (r, take n (content f))" "wf_fifo r" "content r = drop n (content f)"
        "capacity r = capacity f"
      using ring.gets_ok [OF Cons.prems, of n] read_gets [OF Cons.prems] by auto
    obtain f' acc out where "fifo_run r ops = Some (f', acc, out)" "wf_fifo f'" "content r @ acc = out @ content f'"
        "capacity f' = capacity r"
      using Cons.IH [OF r(2)] by blast
    then show ?thesis using Read_bytes r append_take_drop_id [of n "content f"] by (auto, metis append_assoc)
  qed
qed simp

text \<open>From the empty buffer every sequence of operations runs inside the buffer, and the bytes delivered
  together with the bytes still stored are the bytes accepted, in their order: nothing is lost,
  invented or overtaken.\<close>

theorem fifo_delivers_in_order:
  assumes "length buf = unat size'" and "0 < size'"
  shows "\<exists>f' acc out. fifo_run (fifo_init buf size') ops = Some (f', acc, out) \<and> acc = out @ content f'
     \<and> length (content f') < unat size'"
proof -
  have "wf_fifo (fifo_init buf size')" "content (fifo_init buf size') = []"
    using assms by (simp_all add: wf_fifo_def fifo_init_def content_def)
  then obtain f' acc out where r: "fifo_run (fifo_init buf size') ops = Some (f', acc, out)" "wf_fifo f'"
      "acc = out @ content f'" "capacity f' = capacity (fifo_init buf size')"
    using fifo_run_queue by fastforce
  then show ?thesis
    using length_content_le [OF r(2)] assms(2)
    by (auto simp: capacity_def fifo_init_def word_less_nat_alt)
qed

theorem fifo_delivers_in_order_witness:
  "\<exists>f' acc out. fifo_run (fifo_init [0, 0, 0] 3) [Write_bytes [1, 2, 3], Read_bytes 1, Write_bytes [4], Read_bytes 5]
       = Some (f', acc, out) \<and> acc = out @ content f' \<and> length (content f') < unat (3 :: u16)"
  by (rule fifo_delivers_in_order) simp_all

text \<open>\<^verbatim>\<open>fifo_getFree\<close> is meant to be the number of bytes that can be written; it is one more than that.\<close>

theorem fifo_getFree_counts_one_too_many:
  assumes "wf_fifo f"
  shows "unat (fifo_getFree f) = capacity f - length (content f) + 1"
proof -
  have h: "f_head f < f_size f" "f_tail f < f_size f" using assms by (simp_all add: wf_fifo_def)
  show ?thesis
  proof (cases "f_head f < f_tail f")
    case True
    then have "unat (f_tail f - f_head f) = unat (f_tail f) - unat (f_head f)" by (simp add: unat_sub word_le_nat_alt word_less_nat_alt)
    then show ?thesis
      using True h by (simp add: fifo_getFree_def length_content [OF assms] capacity_def word_less_nat_alt)
  next
    case False
    have e: "f_size f + (f_tail f - f_head f) = f_size f - (f_head f - f_tail f)" by simp
    have d: "unat (f_head f - f_tail f) = unat (f_head f) - unat (f_tail f)"
      using False by (simp add: unat_sub word_le_nat_alt word_less_nat_alt)
    have "f_head f - f_tail f \<le> f_size f" using h d by (simp add: word_le_nat_alt word_less_nat_alt)
    have "unat (f_size f + (f_tail f - f_head f)) = unat (f_size f) - (unat (f_head f) - unat (f_tail f))"
      unfolding e unat_sub [OF \<open>f_head f - f_tail f \<le> f_size f\<close>] d ..
    then show ?thesis
      using False h by (auto simp: fifo_getFree_def length_content [OF assms] capacity_def word_less_nat_alt)
  qed
qed

theorem fifo_getFree_counts_one_too_many_witness:
  "unat (fifo_getFree sample_fifo) = capacity sample_fifo - length (content sample_fifo) + 1"
  by (rule fifo_getFree_counts_one_too_many) (simp add: wf_fifo_def sample_fifo_def)

end
