(* ===== verification/Dllist.thy ===== *)
theory Dllist
  imports VscpPrelude
begin

text \<open>
  The doubly linked list of \<^verbatim>\<open>src/src/common/dllist.c\<close>. The nodes live in an explicit store, a map from
  addresses to nodes, because the operations work on shared nodes through pointers: an access through a pointer
  to a node that was freed, or a second \<^verbatim>\<open>free\<close>, is undefined and has no result. A loop that does not end has
  none either. A key behind a pointer is the value it points to; the embedded objects are opaque addresses.
  The theorems: the operations at the ends and the removal refine those on a sequence, clearing a list returns
  all its memory, and inserting in the middle breaks the backward links.
\<close>

section \<open>The store (dllist.h)\<close>

record dllnode =
  n_strKey :: "string ptr"
  n_key :: "u64 ptr"
  n_object :: "nat ptr"
  n_next :: "nat ptr"
  n_prev :: "nat ptr"

record DoubleLinkedList =
  nSortOrder :: u8
  pHead :: "nat ptr"
  pTail :: "nat ptr"
  nCount :: u64

record store =
  nodes :: "nat \<rightharpoonup> dllnode"
  dlists :: "nat \<rightharpoonup> DoubleLinkedList"
  objects :: "nat set"

definition SORT_NONE :: u8 where "SORT_NONE = 0"
definition SORT_STRING :: u8 where "SORT_STRING = 1"
definition SORT_NUMERIC :: u8 where "SORT_NUMERIC = 2"

text \<open>Assignments through a pointer to a node or to a list.\<close>

definition upd_node :: "nat \<Rightarrow> (dllnode \<Rightarrow> dllnode) \<Rightarrow> store \<Rightarrow> store safe" where
  "upd_node a f m = map_option (\<lambda>n. m\<lparr>nodes := (nodes m)(a \<mapsto> f n)\<rparr>) (nodes m a)"

definition upd_list :: "nat \<Rightarrow> (DoubleLinkedList \<Rightarrow> DoubleLinkedList) \<Rightarrow> store \<Rightarrow> store safe" where
  "upd_list l f m = map_option (\<lambda>d. m\<lparr>dlists := (dlists m)(l \<mapsto> f d)\<rparr>) (dlists m l)"

definition free_node :: "nat \<Rightarrow> store \<Rightarrow> store safe" where
  "free_node a m = map_option (\<lambda>_. m\<lparr>nodes := (nodes m)(a := None)\<rparr>) (nodes m a)"

definition free_object :: "nat \<Rightarrow> store \<Rightarrow> store safe" where
  "free_object a m = (if a \<in> objects m then Some (m\<lparr>objects := objects m - {a}\<rparr>) else None)"

section \<open>Operations (dllist.c)\<close>

definition dll_init :: "nat \<Rightarrow> u8 \<Rightarrow> store \<Rightarrow> store safe" where
  "dll_init l nSort = upd_list l (\<lambda>d. d\<lparr>pHead := None, pTail := None, nSortOrder := nSort, nCount := 0\<rparr>)"

partial_function (option) count_nodes :: "store \<Rightarrow> nat ptr \<Rightarrow> u64 \<Rightarrow> u64 option" where
  "count_nodes m pNode cnt =
     (case pNode of None \<Rightarrow> Some cnt
      | Some a \<Rightarrow> Option.bind (nodes m a) (\<lambda>n. count_nodes m (n_next n) (cnt + 1)))"

definition dll_getNodeCount :: "nat ptr \<Rightarrow> store \<Rightarrow> (u64 \<times> store) safe" where
  "dll_getNodeCount pdll m =
     (case pdll of None \<Rightarrow> Some (0, m)
      | Some l \<Rightarrow> do {
          d \<leftarrow> dlists m l;
          if pHead d = None then Some (0, m)
          else do {
            cnt \<leftarrow> count_nodes m (pHead d) 0;
            m \<leftarrow> upd_list l (\<lambda>d. d\<lparr>nCount := cnt\<rparr>) m;
            Some (cnt, m) } })"

definition dll_addNodeHead :: "nat ptr \<Rightarrow> nat ptr \<Rightarrow> store \<Rightarrow> (bool \<times> store) safe" where
  "dll_addNodeHead pdll pInsertNode m =
     (case pdll of None \<Rightarrow> Some (False, m) | Some l \<Rightarrow>
     (case pInsertNode of None \<Rightarrow> Some (False, m) | Some i \<Rightarrow> do {
        d \<leftarrow> dlists m l;
        m \<leftarrow> upd_node i (\<lambda>n. n\<lparr>n_next := pHead d, n_prev := None\<rparr>) m;
        m \<leftarrow> (case pHead d of None \<Rightarrow> Some m | Some h \<Rightarrow> upd_node h (\<lambda>n. n\<lparr>n_prev := Some i\<rparr>) m);
        m \<leftarrow> (if pTail d = None then upd_list l (\<lambda>d. d\<lparr>pTail := Some i\<rparr>) m else Some m);
        m \<leftarrow> upd_list l (\<lambda>d. d\<lparr>pHead := Some i\<rparr>) m;
        (_, m) \<leftarrow> dll_getNodeCount pdll m;
        Some (True, m) }))"

definition dll_addNodeTail :: "nat ptr \<Rightarrow> nat ptr \<Rightarrow> store \<Rightarrow> (bool \<times> store) safe" where
  "dll_addNodeTail pdll pInsertNode m =
     (case pdll of None \<Rightarrow> Some (False, m) | Some l \<Rightarrow>
     (case pInsertNode of None \<Rightarrow> Some (False, m) | Some i \<Rightarrow> do {
        d \<leftarrow> dlists m l;
        m \<leftarrow> upd_node i (\<lambda>n. n\<lparr>n_next := None, n_prev := pTail d\<rparr>) m;
        m \<leftarrow> (case pTail d of None \<Rightarrow> Some m | Some t \<Rightarrow> upd_node t (\<lambda>n. n\<lparr>n_next := Some i\<rparr>) m);
        m \<leftarrow> (if pHead d = None then upd_list l (\<lambda>d. d\<lparr>pHead := Some i\<rparr>) m else Some m);
        m \<leftarrow> upd_list l (\<lambda>d. d\<lparr>pTail := Some i\<rparr>) m;
        (_, m) \<leftarrow> dll_getNodeCount pdll m;
        Some (True, m) }))"

text \<open>The link of the node before is set first, so that \<^verbatim>\<open>pNode->pNext->pPrev\<close> is that of the new node.\<close>

definition dll_insertNode :: "nat ptr \<Rightarrow> nat ptr \<Rightarrow> nat ptr \<Rightarrow> store \<Rightarrow> (bool \<times> store) safe" where
  "dll_insertNode pdll pNode pInsertNode m =
     (case pdll of None \<Rightarrow> Some (False, m) | Some l \<Rightarrow>
     (case pNode of None \<Rightarrow> Some (False, m) | Some a \<Rightarrow>
     (case pInsertNode of None \<Rightarrow> Some (False, m) | Some i \<Rightarrow> do {
        m \<leftarrow> upd_node i (\<lambda>n. n\<lparr>n_prev := Some a\<rparr>) m;
        node \<leftarrow> nodes m a;
        m \<leftarrow> upd_node i (\<lambda>n. n\<lparr>n_next := n_next node\<rparr>) m;
        m \<leftarrow> upd_node a (\<lambda>n. n\<lparr>n_next := Some i\<rparr>) m;
        node \<leftarrow> nodes m a;
        b \<leftarrow> n_next node;
        m \<leftarrow> upd_node b (\<lambda>n. n\<lparr>n_prev := Some i\<rparr>) m;
        (_, m) \<leftarrow> dll_getNodeCount pdll m;
        Some (True, m) })))"

definition dll_addNodeBefore :: "nat ptr \<Rightarrow> nat ptr \<Rightarrow> nat ptr \<Rightarrow> store \<Rightarrow> (bool \<times> store) safe" where
  "dll_addNodeBefore pdll pNode pInsertNode m =
     (case pdll of None \<Rightarrow> Some (False, m) | Some l \<Rightarrow>
     (case pNode of None \<Rightarrow> Some (False, m) | Some a \<Rightarrow>
     (case pInsertNode of None \<Rightarrow> Some (False, m) | Some i \<Rightarrow> do {
        node \<leftarrow> nodes m a;
        (_, m) \<leftarrow> (if n_prev node = None then dll_addNodeHead pdll pInsertNode m
                  else dll_insertNode pdll pNode pInsertNode m);
        (_, m) \<leftarrow> dll_getNodeCount pdll m;
        Some (True, m) })))"

definition dll_addNodeAfter :: "nat ptr \<Rightarrow> nat ptr \<Rightarrow> nat ptr \<Rightarrow> store \<Rightarrow> (bool \<times> store) safe" where
  "dll_addNodeAfter pdll pNode pInsertNode m =
     (case pdll of None \<Rightarrow> Some (False, m) | Some l \<Rightarrow>
     (case pNode of None \<Rightarrow> Some (False, m) | Some a \<Rightarrow>
     (case pInsertNode of None \<Rightarrow> Some (False, m) | Some i \<Rightarrow> do {
        node \<leftarrow> nodes m a;
        (_, m) \<leftarrow> (if n_next node = None then dll_addNodeTail pdll pInsertNode m
                  else dll_insertNode pdll pNode pInsertNode m);
        (_, m) \<leftarrow> dll_getNodeCount pdll m;
        Some (True, m) })))"

text \<open>\<^verbatim>\<open>strcmp\<close>: the sign of the first difference of the bytes.\<close>

fun strcmp :: "string \<Rightarrow> string \<Rightarrow> int" where
  "strcmp [] [] = 0"
| "strcmp (c # cs) [] = 1"
| "strcmp [] (d # ds) = - 1"
| "strcmp (c # cs) (d # ds) =
     (if c = d then strcmp cs ds else if (of_char c :: nat) < of_char d then - 1 else 1)"

text \<open>How a node compares to the one that is inserted; a comparison that is not made leaves zero.\<close>

definition search_result :: "u8 \<Rightarrow> dllnode \<Rightarrow> dllnode \<Rightarrow> int safe" where
  "search_result order ins node =
     (if order = SORT_STRING \<and> n_strKey ins \<noteq> None
      then do { s \<leftarrow> n_strKey ins; t \<leftarrow> n_strKey node; Some (strcmp s t) }
      else if order = SORT_NUMERIC
      then do {
        j \<leftarrow> n_key ins;
        k \<leftarrow> n_key node;
        Some (if j = k then 0 else if k < j then 2 else - 1) }
      else Some 0)"

partial_function (option) search_place ::
  "nat ptr \<Rightarrow> nat \<Rightarrow> u8 \<Rightarrow> nat ptr \<Rightarrow> store \<Rightarrow> (bool \<times> store) option" where
  "search_place pdll i order pNode m =
     (case pNode of None \<Rightarrow> dll_addNodeTail pdll (Some i) m
      | Some a \<Rightarrow>
          Option.bind (nodes m i) (\<lambda>ins. Option.bind (nodes m a) (\<lambda>node.
          Option.bind (search_result order ins node) (\<lambda>r.
            if r = 0 then dll_addNodeAfter pdll pNode (Some i) m
            else if r > 0 then dll_addNodeBefore pdll pNode (Some i) m
            else search_place pdll i order (n_next node) m))))"

definition dll_addNode :: "nat ptr \<Rightarrow> nat ptr \<Rightarrow> store \<Rightarrow> (bool \<times> store) safe" where
  "dll_addNode pdll pInsertNode m =
     (case pdll of None \<Rightarrow> Some (False, m)
      | Some l \<Rightarrow> do {
          d \<leftarrow> dlists m l;
          if nSortOrder d = SORT_NONE
          then do { (_, m) \<leftarrow> dll_addNodeTail pdll pInsertNode m; Some (True, m) }
          else if pInsertNode = None \<and> nSortOrder d \<noteq> SORT_STRING \<and> nSortOrder d \<noteq> SORT_NUMERIC
          then Some (False, m)
          else do {
            i \<leftarrow> pInsertNode;
            ins \<leftarrow> nodes m i;
            if nSortOrder d = SORT_STRING \<and> n_strKey ins = None \<or> nSortOrder d = SORT_NUMERIC \<and> n_key ins = None
            then Some (False, m)
            else search_place pdll i (nSortOrder d) (pHead d) m } })"

definition dll_removeNode :: "nat ptr \<Rightarrow> nat ptr \<Rightarrow> store \<Rightarrow> (bool \<times> store) safe" where
  "dll_removeNode pdll pNode m =
     (case pdll of None \<Rightarrow> Some (False, m) | Some l \<Rightarrow>
     (case pNode of None \<Rightarrow> Some (False, m) | Some a \<Rightarrow> do {
        node \<leftarrow> nodes m a;
        m \<leftarrow> (case n_object node of None \<Rightarrow> Some m
             | Some x \<Rightarrow> do { m \<leftarrow> free_object x m; upd_node a (\<lambda>n. n\<lparr>n_object := None\<rparr>) m });
        m \<leftarrow> (case n_prev node of Some p \<Rightarrow> upd_node p (\<lambda>n. n\<lparr>n_next := n_next node\<rparr>) m
             | None \<Rightarrow> upd_list l (\<lambda>d. d\<lparr>pHead := n_next node\<rparr>) m);
        m \<leftarrow> (case n_next node of Some q \<Rightarrow> upd_node q (\<lambda>n. n\<lparr>n_prev := n_prev node\<rparr>) m
             | None \<Rightarrow> upd_list l (\<lambda>d. d\<lparr>pTail := n_prev node\<rparr>) m);
        m \<leftarrow> free_node a m;
        m \<leftarrow> upd_list l (\<lambda>d. d\<lparr>nCount := nCount d - 1\<rparr>) m;
        (_, m) \<leftarrow> dll_getNodeCount pdll m;
        Some (True, m) }))"

partial_function (option) remove_loop :: "nat \<Rightarrow> store \<Rightarrow> store option" where
  "remove_loop l m =
     Option.bind (dlists m l) (\<lambda>d.
       if pHead d = None then Some m
       else Option.bind (dll_removeNode (Some l) (pTail d) m) (\<lambda>(_, m). remove_loop l m))"

definition dll_removeAllNodes :: "nat ptr \<Rightarrow> store \<Rightarrow> (bool \<times> store) safe" where
  "dll_removeAllNodes pdll m =
     (case pdll of None \<Rightarrow> Some (False, m)
      | Some l \<Rightarrow> do {
          m \<leftarrow> remove_loop l m;
          m \<leftarrow> dll_init l 0 m;
          m \<leftarrow> upd_list l (\<lambda>d. d\<lparr>nCount := 0\<rparr>) m;
          Some (True, m) })"

partial_function (option) find_node :: "(dllnode \<Rightarrow> bool option) \<Rightarrow> store \<Rightarrow> nat ptr \<Rightarrow> nat ptr option" where
  "find_node found m pNode =
     (case pNode of None \<Rightarrow> Some None
      | Some a \<Rightarrow> Option.bind (nodes m a) (\<lambda>n. Option.bind (found n) (\<lambda>b.
          if b then Some (Some a) else find_node found m (n_next n))))"

definition dll_findNodeFromID :: "nat ptr \<Rightarrow> u64 \<Rightarrow> store \<Rightarrow> nat ptr safe" where
  "dll_findNodeFromID pdll nID m =
     (case pdll of None \<Rightarrow> Some None
      | Some l \<Rightarrow> do {
          d \<leftarrow> dlists m l;
          find_node (\<lambda>n. map_option (\<lambda>k. nID = k) (n_key n)) m (pHead d) })"

definition dll_findNodeFromString :: "nat ptr \<Rightarrow> string \<Rightarrow> store \<Rightarrow> nat ptr safe" where
  "dll_findNodeFromString pdll strID m =
     (case pdll of None \<Rightarrow> Some None
      | Some l \<Rightarrow> do {
          d \<leftarrow> dlists m l;
          find_node (\<lambda>n. map_option (\<lambda>s. strcmp strID s = 0) (n_strKey n)) m (pHead d) })"

section \<open>Chains of nodes\<close>

text \<open>A chain from \<open>p\<close> through the nodes \<open>xs\<close> to \<open>q\<close>, whose first node points back to \<open>prev\<close>.\<close>

primrec chain :: "(nat \<rightharpoonup> dllnode) \<Rightarrow> nat ptr \<Rightarrow> nat ptr \<Rightarrow> nat list \<Rightarrow> nat ptr \<Rightarrow> bool" where
  "chain N p prev [] q \<longleftrightarrow> p = q"
| "chain N p prev (a # xs) q \<longleftrightarrow>
     p = Some a \<and> (\<exists>n. N a = Some n \<and> n_prev n = prev \<and> chain N (n_next n) (Some a) xs q)"

definition last_of :: "nat ptr \<Rightarrow> nat list \<Rightarrow> nat ptr" where
  "last_of prev xs = (if xs = [] then prev else Some (last xs))"

lemma last_of_simps [simp]: "last_of prev [] = prev" "last_of prev (a # xs) = last_of (Some a) xs"
  "last_of prev (xs @ [a]) = Some a" "last_of prev (xs @ ys) = last_of (last_of prev xs) ys"
  by (auto simp: last_of_def)

lemma chain_append [simp]:
  "chain N p prev (xs @ ys) q \<longleftrightarrow> (\<exists>r. chain N p prev xs r \<and> chain N r (last_of prev xs) ys q)"
  by (induction xs arbitrary: p prev) auto

lemma chain_frame [simp]: "a \<notin> set xs \<Longrightarrow> chain (N(a := v)) p prev xs q \<longleftrightarrow> chain N p prev xs q"
  by (induction xs arbitrary: p prev) auto

lemma chain_alive: "chain N p prev xs q \<Longrightarrow> a \<in> set xs \<Longrightarrow> \<exists>n. N a = Some n"
  by (induction xs arbitrary: p prev) auto

lemma chain_hd: "chain N p prev xs None \<Longrightarrow> p = (case xs of [] \<Rightarrow> None | a # _ \<Rightarrow> Some a)"
  by (cases xs) auto

text \<open>The last link of a chain may be redirected.\<close>

lemma chain_redirect:
  assumes "chain N p prev (xs @ [a]) q" and "a \<notin> set xs" and "N a = Some n" and "n' = n\<lparr>n_next := r\<rparr>"
  shows "chain (N(a \<mapsto> n')) p prev (xs @ [a]) r"
  using assms by (auto simp del: chain_frame simp: chain_frame)

lemma count_chain:
  "chain (nodes m) p prev xs None \<Longrightarrow> count_nodes m p c = Some (c + of_nat (length xs))"
proof (induction xs arbitrary: p prev c)
  case Nil
  then show ?case by (subst count_nodes.simps) simp
next
  case (Cons a xs)
  then obtain n where "p = Some a" "nodes m a = Some n" "chain (nodes m) (n_next n) (Some a) xs None" by auto
  then show ?case using Cons.IH by (subst count_nodes.simps) (simp add: ac_simps)
qed

text \<open>
  The list at \<open>l\<close> holds the nodes \<open>xs\<close>: linked in both directions, all different, with head, tail and count as
  the structure says.
\<close>

definition is_dll :: "store \<Rightarrow> nat \<Rightarrow> nat list \<Rightarrow> bool" where
  "is_dll m l xs \<longleftrightarrow> distinct xs \<and> (\<exists>d. dlists m l = Some d \<and> chain (nodes m) (pHead d) None xs None
     \<and> pTail d = last_of None xs \<and> nCount d = of_nat (length xs))"

definition linked :: "store \<Rightarrow> nat \<Rightarrow> nat list \<Rightarrow> bool" where
  "linked m l xs \<longleftrightarrow> distinct xs \<and> (\<exists>d. dlists m l = Some d \<and> chain (nodes m) (pHead d) None xs None
     \<and> pTail d = last_of None xs \<and> (xs = [] \<longrightarrow> nCount d = 0))"

lemma is_dll_linked: "is_dll m l xs \<Longrightarrow> linked m l xs"
  by (auto simp: is_dll_def linked_def)

text \<open>What a list operation keeps: the keys and objects of nodes, and everything outside the list and its nodes.\<close>

definition payload :: "dllnode \<Rightarrow> string ptr \<times> u64 ptr \<times> nat ptr" where
  "payload n = (n_strKey n, n_key n, n_object n)"

lemma payload_links [simp]: "payload (n\<lparr>n_next := q\<rparr>) = payload n" "payload (n\<lparr>n_prev := p\<rparr>) = payload n"
  by (simp_all add: payload_def)

definition keeps_payload :: "store \<Rightarrow> store \<Rightarrow> bool" where
  "keeps_payload m m' \<longleftrightarrow> (\<forall>a. map_option payload (nodes m' a) = map_option payload (nodes m a)) \<and> objects m' = objects m"

definition same_elsewhere :: "store \<Rightarrow> store \<Rightarrow> nat \<Rightarrow> nat set \<Rightarrow> bool" where
  "same_elsewhere m m' l A \<longleftrightarrow> (\<forall>a. a \<notin> A \<longrightarrow> nodes m' a = nodes m a) \<and> (\<forall>k. k \<noteq> l \<longrightarrow> dlists m' k = dlists m k)
     \<and> map_option nSortOrder (dlists m' l) = map_option nSortOrder (dlists m l)"

lemma keeps_payload_trans: "keeps_payload m m' \<Longrightarrow> keeps_payload m' m'' \<Longrightarrow> keeps_payload m m''"
  by (simp add: keeps_payload_def)

lemma keeps_payload_refl [simp]: "keeps_payload m m" "same_elsewhere m m l A"
  by (simp_all add: keeps_payload_def same_elsewhere_def)

lemma count_linked:
  assumes "linked m l xs"
  shows "\<exists>m'. dll_getNodeCount (Some l) m = Some (of_nat (length xs), m') \<and> is_dll m' l xs
    \<and> nodes m' = nodes m \<and> objects m' = objects m \<and> same_elsewhere m m' l {}"
proof (cases xs)
  case Nil
  then show ?thesis using assms
    by (auto simp: linked_def is_dll_def dll_getNodeCount_def same_elsewhere_def)
next
  case (Cons a ys)
  obtain d where d: "dlists m l = Some d" "chain (nodes m) (pHead d) None xs None" "pTail d = last_of None xs" "distinct xs"
    using assms by (auto simp: linked_def)
  have h: "pHead d \<noteq> None" using d(2) Cons by auto
  have "count_nodes m (pHead d) 0 = Some (of_nat (length xs))" using count_chain [OF d(2), of 0] by simp
  then show ?thesis using d h by (auto simp: dll_getNodeCount_def upd_list_def is_dll_def same_elsewhere_def)
qed

lemma same_elsewhere_trans:
  "same_elsewhere m m' l A \<Longrightarrow> same_elsewhere m' m'' l B \<Longrightarrow> A \<union> B \<subseteq> C \<Longrightarrow> same_elsewhere m m'' l C"
  unfolding same_elsewhere_def by (metis Un_iff subsetD)

section \<open>The ends of the list\<close>

text \<open>The steps that end an insertion: the list is linked, and its nodes are counted.\<close>

lemma finish_with_count:
  assumes "linked m' l xs" and "keeps_payload m m'" and "same_elsewhere m m' l A"
  shows "\<exists>m''. Option.bind (dll_getNodeCount (Some l) m') (\<lambda>(_, m). Some (True, m)) = Some (True, m'')
    \<and> is_dll m'' l xs \<and> keeps_payload m m'' \<and> same_elsewhere m m'' l A"
proof -
  obtain m'' where c: "dll_getNodeCount (Some l) m' = Some (of_nat (length xs), m'')" "is_dll m'' l xs"
      "nodes m'' = nodes m'" "objects m'' = objects m'" "same_elsewhere m' m'' l {}"
    using count_linked [OF assms(1)] by blast
  have "keeps_payload m m''" using assms(2) c(3,4) by (simp add: keeps_payload_def)
  moreover have "same_elsewhere m m'' l A" using same_elsewhere_trans [OF assms(3) c(5)] by simp
  ultimately show ?thesis using c(1,2) by simp
qed

lemma addNodeHead_ok:
  assumes "linked m l xs" and "i \<notin> set xs" and "nodes m i = Some n0"
  shows "\<exists>m'. dll_addNodeHead (Some l) (Some i) m = Some (True, m') \<and> is_dll m' l (i # xs)
    \<and> keeps_payload m m' \<and> same_elsewhere m m' l (insert i (set xs))"
proof -
  obtain d where d: "dlists m l = Some d" "chain (nodes m) (pHead d) None xs None" "pTail d = last_of None xs" "distinct xs"
    using assms(1) by (auto simp: linked_def)
  show ?thesis
  proof (cases xs)
    case Nil
    let ?m = "m\<lparr>nodes := (nodes m)(i \<mapsto> n0\<lparr>n_next := None, n_prev := None\<rparr>),
        dlists := (dlists m)(l \<mapsto> d\<lparr>pTail := Some i, pHead := Some i\<rparr>)\<rparr>"
    have run: "dll_addNodeHead (Some l) (Some i) m
        = Option.bind (dll_getNodeCount (Some l) ?m) (\<lambda>(_, m). Some (True, m))"
      using d Nil assms(3) by (simp add: dll_addNodeHead_def upd_node_def upd_list_def)
    have "linked ?m l [i]" by (auto simp: linked_def)
    moreover have "keeps_payload m ?m" using assms(3) by (auto simp: keeps_payload_def payload_def)
    moreover have "same_elsewhere m ?m l {i}" using d(1) by (auto simp: same_elsewhere_def)
    ultimately show ?thesis using finish_with_count run Nil by fastforce
  next
    case (Cons a ys)
    obtain na where a: "pHead d = Some a" "nodes m a = Some na" "chain (nodes m) (n_next na) (Some a) ys None" "i \<noteq> a"
      using d Cons assms(2) by auto
    let ?m = "m\<lparr>nodes := (nodes m)(i \<mapsto> n0\<lparr>n_next := Some a, n_prev := None\<rparr>, a \<mapsto> na\<lparr>n_prev := Some i\<rparr>),
        dlists := (dlists m)(l \<mapsto> d\<lparr>pHead := Some i\<rparr>)\<rparr>"
    obtain t where t: "pTail d = Some t" using d(3) Cons by (simp add: last_of_def)
    have run: "dll_addNodeHead (Some l) (Some i) m
        = Option.bind (dll_getNodeCount (Some l) ?m) (\<lambda>(_, m). Some (True, m))"
      using d(1) a t assms(3) by (simp add: dll_addNodeHead_def upd_node_def upd_list_def)
    have "linked ?m l (i # xs)" using d a assms(2) Cons by (auto simp: linked_def last_of_def)
    moreover have "keeps_payload m ?m" using assms(3) a by (auto simp: keeps_payload_def payload_def)
    moreover have "same_elsewhere m ?m l (insert i (set xs))" using d(1) Cons by (auto simp: same_elsewhere_def)
    ultimately show ?thesis using finish_with_count run by fastforce
  qed
qed

lemma addNodeTail_ok:
  assumes "linked m l xs" and "i \<notin> set xs" and "nodes m i = Some n0"
  shows "\<exists>m'. dll_addNodeTail (Some l) (Some i) m = Some (True, m') \<and> is_dll m' l (xs @ [i])
    \<and> keeps_payload m m' \<and> same_elsewhere m m' l (insert i (set xs))"
proof -
  obtain d where d: "dlists m l = Some d" "chain (nodes m) (pHead d) None xs None" "pTail d = last_of None xs" "distinct xs"
    using assms(1) by (auto simp: linked_def)
  show ?thesis
  proof (cases xs rule: rev_cases)
    case Nil
    let ?m = "m\<lparr>nodes := (nodes m)(i \<mapsto> n0\<lparr>n_next := None, n_prev := None\<rparr>),
        dlists := (dlists m)(l \<mapsto> d\<lparr>pHead := Some i, pTail := Some i\<rparr>)\<rparr>"
    have run: "dll_addNodeTail (Some l) (Some i) m
        = Option.bind (dll_getNodeCount (Some l) ?m) (\<lambda>(_, m). Some (True, m))"
      using d Nil assms(3) by (simp add: dll_addNodeTail_def upd_node_def upd_list_def)
    have "linked ?m l [i]" by (auto simp: linked_def)
    moreover have "keeps_payload m ?m" using assms(3) by (auto simp: keeps_payload_def payload_def)
    moreover have "same_elsewhere m ?m l {i}" using d(1) by (auto simp: same_elsewhere_def)
    ultimately show ?thesis using finish_with_count run Nil by fastforce
  next
    case (snoc ys a)
    obtain na where a: "chain (nodes m) (pHead d) None ys (Some a)" "nodes m a = Some na" "n_prev na = last_of None ys"
        "n_next na = None" "i \<noteq> a" "a \<notin> set ys" "i \<notin> set ys"
      using d snoc assms(2) by auto
    obtain h where h: "pHead d = Some h" using d(2) snoc by (cases ys) auto
    let ?m = "m\<lparr>nodes := (nodes m)(i \<mapsto> n0\<lparr>n_next := None, n_prev := Some a\<rparr>, a \<mapsto> na\<lparr>n_next := Some i\<rparr>),
        dlists := (dlists m)(l \<mapsto> d\<lparr>pTail := Some i\<rparr>)\<rparr>"
    have run: "dll_addNodeTail (Some l) (Some i) m
        = Option.bind (dll_getNodeCount (Some l) ?m) (\<lambda>(_, m). Some (True, m))"
      using d(1,3) a h snoc assms(3) by (simp add: dll_addNodeTail_def upd_node_def upd_list_def last_of_def)
    have "linked ?m l (xs @ [i])" using d a snoc by (auto simp: linked_def last_of_def)
    moreover have "keeps_payload m ?m" using assms(3) a by (auto simp: keeps_payload_def payload_def)
    moreover have "same_elsewhere m ?m l (insert i (set xs))" using d(1) snoc by (auto simp: same_elsewhere_def)
    ultimately show ?thesis using finish_with_count run by fastforce
  qed
qed

section \<open>Removing nodes\<close>

definition owns_object :: "store \<Rightarrow> nat \<Rightarrow> bool" where
  "owns_object m a \<longleftrightarrow> (case nodes m a of None \<Rightarrow> False
     | Some n \<Rightarrow> (case n_object n of None \<Rightarrow> True | Some x \<Rightarrow> x \<in> objects m))"

definition object_of :: "store \<Rightarrow> nat \<Rightarrow> nat set" where
  "object_of m a = (case nodes m a of None \<Rightarrow> {} | Some n \<Rightarrow> set_option (n_object n))"

text \<open>Unlinking \<open>a\<close> from between \<open>xs\<close> and \<open>ys\<close>, before it is freed.\<close>

definition unlinked :: "store \<Rightarrow> nat \<Rightarrow> nat list \<Rightarrow> nat \<Rightarrow> nat list \<Rightarrow> store" where
  "unlinked m l xs a ys =
     (let p = last_of None xs; q = (case ys of [] \<Rightarrow> None | b # _ \<Rightarrow> Some b);
          N = (case p of None \<Rightarrow> nodes m | Some b \<Rightarrow> (nodes m)(b := map_option (\<lambda>n. n\<lparr>n_next := q\<rparr>) (nodes m b)));
          N = (case q of None \<Rightarrow> N | Some b \<Rightarrow> N(b := map_option (\<lambda>n. n\<lparr>n_prev := p\<rparr>) (N b)))
      in m\<lparr>nodes := N(a := None),
           dlists := (dlists m)(l := map_option (\<lambda>d. d\<lparr>pHead := (if p = None then q else pHead d),
             pTail := (if q = None then p else pTail d), nCount := nCount d - 1\<rparr>) (dlists m l)),
           objects := objects m - object_of m a\<rparr>)"

lemma removeNode_unlinks:
  assumes "is_dll m l (xs @ a # ys)" and "owns_object m a"
  shows "dll_removeNode (Some l) (Some a) m
    = Option.bind (dll_getNodeCount (Some l) (unlinked m l xs a ys)) (\<lambda>(_, m). Some (True, m))"
proof -
  obtain d n where d: "dlists m l = Some d" "chain (nodes m) (pHead d) None xs (Some a)" "nodes m a = Some n"
      "n_prev n = last_of None xs" "chain (nodes m) (n_next n) (Some a) ys None" "distinct (xs @ a # ys)"
    using assms(1) by (auto simp: is_dll_def)
  define o' where "o' = (case n_object n of None \<Rightarrow> m
    | Some x \<Rightarrow> m\<lparr>objects := objects m - {x}, nodes := (nodes m)(a \<mapsto> n\<lparr>n_object := None\<rparr>)\<rparr>)"
  have o: "(case n_object n of None \<Rightarrow> Some m
      | Some x \<Rightarrow> do { m \<leftarrow> free_object x m; upd_node a (\<lambda>n. n\<lparr>n_object := None\<rparr>) m }) = Some o'"
    using assms(2) d(3) by (auto simp: o'_def owns_object_def free_object_def upd_node_def split: option.splits)
  have o': "nodes o' b = nodes m b" if "b \<noteq> a" for b using that by (simp add: o'_def split: option.split)
  have oa: "\<exists>k. nodes o' a = Some k" using d(3) by (simp add: o'_def split: option.split)
  have ol: "dlists o' = dlists m" "objects o' = objects m - object_of m a"
    using d(3) by (simp_all add: o'_def object_of_def split: option.split)
  have q: "n_next n = (case ys of [] \<Rightarrow> None | b # _ \<Rightarrow> Some b)" using chain_hd [OF d(5)] .
  have alive: "\<exists>k. nodes m b = Some k" if "b \<in> set xs \<union> set ys" for b
    using that chain_alive [OF d(2)] chain_alive [OF d(5)] by auto
  have "\<exists>M. dll_removeNode (Some l) (Some a) m = Option.bind (dll_getNodeCount (Some l) M) (\<lambda>(_, m). Some (True, m))
    \<and> nodes M = nodes (unlinked m l xs a ys) \<and> dlists M = dlists (unlinked m l xs a ys) \<and> objects M = objects o'"
  proof (cases xs rule: rev_cases)
    case Nil
    show ?thesis
    proof (cases ys)
      case Nil': Nil
      show ?thesis using d q o oa ol Nil Nil'
        by (auto simp: dll_removeNode_def upd_list_def free_node_def unlinked_def o' fun_eq_iff)
    next
      case (Cons b zs)
      obtain k where "nodes m b = Some k" "b \<noteq> a" using alive [of b] d(6) Cons by auto
      then show ?thesis using d q o oa ol Nil Cons
        by (auto simp: dll_removeNode_def upd_list_def upd_node_def free_node_def unlinked_def o' fun_eq_iff)
    qed
  next
    case (snoc us p)
    obtain j where p: "nodes m p = Some j" "p \<noteq> a" using alive [of p] d(6) snoc by auto
    show ?thesis
    proof (cases ys)
      case Nil
      then show ?thesis using d q o oa ol p snoc
        by (auto simp: dll_removeNode_def upd_list_def upd_node_def free_node_def unlinked_def o' fun_eq_iff)
    next
      case (Cons b zs)
      obtain k where "nodes m b = Some k" "b \<noteq> a" "b \<noteq> p" using alive [of b] d(6) Cons snoc by auto
      then show ?thesis using d q o oa ol p snoc Cons
        by (auto simp: dll_removeNode_def upd_list_def upd_node_def free_node_def unlinked_def o' fun_eq_iff)
    qed
  qed
  then obtain M where M: "dll_removeNode (Some l) (Some a) m = Option.bind (dll_getNodeCount (Some l) M) (\<lambda>(_, m). Some (True, m))"
      "nodes M = nodes (unlinked m l xs a ys)" "dlists M = dlists (unlinked m l xs a ys)" "objects M = objects o'"
    by blast
  have "M = unlinked m l xs a ys" using M(2-4) ol(2) by (intro store.equality) (simp_all add: unlinked_def Let_def)
  then show ?thesis using M(1) by simp
qed

lemma unlinked_nodes:
  assumes "distinct (xs @ a # ys)"
  shows "nodes (unlinked m l xs a ys) a = None"
    and "b \<notin> insert a (set xs \<union> set ys) \<Longrightarrow> nodes (unlinked m l xs a ys) b = nodes m b"
    and "b \<noteq> a \<Longrightarrow> map_option payload (nodes (unlinked m l xs a ys) b) = map_option payload (nodes m b)"
  using assms
  by (auto simp: unlinked_def Let_def last_of_def option.map_comp comp_def split: list.split)

lemma unlinked_linked:
  assumes "is_dll m l (xs @ a # ys)"
  shows "linked (unlinked m l xs a ys) l (xs @ ys)"
proof -
  obtain d n where d: "dlists m l = Some d" "chain (nodes m) (pHead d) None xs (Some a)" "nodes m a = Some n"
      "n_prev n = last_of None xs" "chain (nodes m) (n_next n) (Some a) ys None" "distinct (xs @ a # ys)"
      "pTail d = last_of None (xs @ a # ys)" "nCount d = of_nat (length (xs @ a # ys))"
    using assms by (auto simp: is_dll_def)
  have q: "n_next n = (case ys of [] \<Rightarrow> None | b # _ \<Rightarrow> Some b)" using chain_hd [OF d(5)] .
  show ?thesis
  proof (cases xs rule: rev_cases)
    case Nil
    then show ?thesis using d q
      by (cases ys) (auto simp: linked_def unlinked_def last_of_def)
  next
    case (snoc us p)
    then show ?thesis using d q
      by (cases ys) (auto simp: linked_def unlinked_def last_of_def)
  qed
qed

lemma removeNode_ok:
  assumes "is_dll m l (xs @ a # ys)" and "owns_object m a"
  shows "\<exists>m'. dll_removeNode (Some l) (Some a) m = Some (True, m') \<and> is_dll m' l (xs @ ys)
    \<and> nodes m' a = None \<and> objects m' = objects m - object_of m a
    \<and> (\<forall>b. b \<noteq> a \<longrightarrow> map_option payload (nodes m' b) = map_option payload (nodes m b))
    \<and> same_elsewhere m m' l (insert a (set xs \<union> set ys))"
proof -
  let ?u = "unlinked m l xs a ys"
  obtain m' where c: "dll_getNodeCount (Some l) ?u = Some (of_nat (length (xs @ ys)), m')" "is_dll m' l (xs @ ys)"
      "nodes m' = nodes ?u" "objects m' = objects ?u" "same_elsewhere ?u m' l {}"
    using count_linked [OF unlinked_linked [OF assms(1)]] by blast
  have x: "distinct (xs @ a # ys)" using assms(1) by (simp add: is_dll_def)
  obtain d where "dlists m l = Some d" using assms(1) by (auto simp: is_dll_def)
  then have "same_elsewhere m ?u l (insert a (set xs \<union> set ys))"
    using unlinked_nodes(2) [OF x] by (simp add: same_elsewhere_def) (simp add: unlinked_def Let_def)
  then have "same_elsewhere m m' l (insert a (set xs \<union> set ys))" using same_elsewhere_trans [OF _ c(5)] by blast
  moreover have "objects ?u = objects m - object_of m a" by (simp add: unlinked_def Let_def)
  ultimately show ?thesis
    using removeNode_unlinks [OF assms] c unlinked_nodes(1,3) [OF x] by simp
qed

section \<open>Clearing the list\<close>

text \<open>The nodes own their objects: each object is allocated and embedded in one node only.\<close>

definition owns_all :: "store \<Rightarrow> nat list \<Rightarrow> bool" where
  "owns_all m xs \<longleftrightarrow> (\<forall>a\<in>set xs. owns_object m a)
     \<and> (\<forall>a\<in>set xs. \<forall>b\<in>set xs. a \<noteq> b \<longrightarrow> object_of m a \<inter> object_of m b = {})"

lemma object_of_payload: "map_option payload (nodes m' b) = map_option payload (nodes m b) \<Longrightarrow> object_of m' b = object_of m b"
  by (cases "nodes m b"; cases "nodes m' b") (simp_all add: object_of_def payload_def)

lemma owns_object_iff: "owns_object m a \<longleftrightarrow> nodes m a \<noteq> None \<and> object_of m a \<subseteq> objects m"
  by (auto simp: owns_object_def object_of_def split: option.splits)

lemma remove_loop_ok:
  "is_dll m l xs \<Longrightarrow> owns_all m xs \<Longrightarrow>
   \<exists>m'. remove_loop l m = Some m' \<and> is_dll m' l [] \<and> (\<forall>a\<in>set xs. nodes m' a = None)
     \<and> objects m' = objects m - (\<Union>a\<in>set xs. object_of m a) \<and> same_elsewhere m m' l (set xs)"
proof (induction xs arbitrary: m rule: rev_induct)
  case Nil
  then have "remove_loop l m = Some m" by (subst remove_loop.simps) (auto simp: is_dll_def)
  then show ?case using Nil by simp
next
  case (snoc a xs)
  obtain d h where d: "dlists m l = Some d" "pTail d = Some a" "pHead d = Some h"
    using snoc.prems(1) by (cases xs) (auto simp: is_dll_def)
  obtain m1 where r: "dll_removeNode (Some l) (Some a) m = Some (True, m1)" "is_dll m1 l xs" "nodes m1 a = None"
      "objects m1 = objects m - object_of m a"
      "\<And>b. b \<noteq> a \<Longrightarrow> map_option payload (nodes m1 b) = map_option payload (nodes m b)"
      "same_elsewhere m m1 l (insert a (set xs))"
    using removeNode_ok [of m l xs a "[]"] snoc.prems by (auto simp: owns_all_def)
  have na: "a \<notin> set xs" using snoc.prems(1) by (simp add: is_dll_def)
  have ob: "object_of m1 b = object_of m b" if "b \<in> set xs" for b
    using that na by (intro object_of_payload r(5)) auto
  have al: "(nodes m1 b = None) = (nodes m b = None)" if "b \<in> set xs" for b
    using r(5) [of b] that na by (cases "nodes m b"; cases "nodes m1 b") auto
  have "owns_all m1 xs"
    unfolding owns_all_def
  proof (intro conjI ballI impI)
    fix b assume b: "b \<in> set xs"
    then have "object_of m b \<inter> object_of m a = {}" "owns_object m b"
      using snoc.prems(2) na unfolding owns_all_def by (metis UnI1 UnI2 list.set_intros(1) set_append)+
    then show "owns_object m1 b" unfolding owns_object_iff r(4) al [OF b] ob [OF b] by blast
  next
    fix b c assume "b \<in> set xs" "c \<in> set xs" "b \<noteq> c"
    then show "object_of m1 b \<inter> object_of m1 c = {}" using snoc.prems(2) by (simp add: owns_all_def ob)
  qed
  then obtain m2 where h: "remove_loop l m1 = Some m2" "is_dll m2 l []" "\<forall>a\<in>set xs. nodes m2 a = None"
      "objects m2 = objects m1 - (\<Union>a\<in>set xs. object_of m1 a)" "same_elsewhere m1 m2 l (set xs)"
    using snoc.IH [OF r(2)] by blast
  have "remove_loop l m = Some m2" using d r(1) h(1) by (subst remove_loop.simps) simp
  moreover have "nodes m2 a = None" using h(5) na r(3) by (simp add: same_elsewhere_def)
  moreover have "objects m2 = objects m - (\<Union>a\<in>set (xs @ [a]). object_of m a)" using h(4) r(4) ob by auto
  moreover have "same_elsewhere m m2 l (set (xs @ [a]))" using same_elsewhere_trans [OF r(6) h(5)] by auto
  ultimately show ?case using h(2,3) by simp
qed

lemma removeAllNodes_ok:
  assumes "is_dll m l xs" and "owns_all m xs"
  shows "\<exists>m' d. dll_removeAllNodes (Some l) m = Some (True, m') \<and> is_dll m' l [] \<and> (\<forall>a\<in>set xs. nodes m' a = None)
    \<and> objects m' = objects m - (\<Union>a\<in>set xs. object_of m a) \<and> dlists m' l = Some d \<and> nSortOrder d = SORT_NONE
    \<and> (\<forall>a. a \<notin> set xs \<longrightarrow> nodes m' a = nodes m a)"
proof -
  obtain m1 where h: "remove_loop l m = Some m1" "is_dll m1 l []" "\<forall>a\<in>set xs. nodes m1 a = None"
      "objects m1 = objects m - (\<Union>a\<in>set xs. object_of m a)" "same_elsewhere m m1 l (set xs)"
    using remove_loop_ok [OF assms] by blast
  obtain d where "dlists m1 l = Some d" using h(2) by (auto simp: is_dll_def)
  then show ?thesis using h
    by (auto simp: dll_removeAllNodes_def dll_init_def upd_list_def is_dll_def same_elsewhere_def SORT_NONE_def)
qed

section \<open>A sequence with two ends\<close>

text \<open>
  The contract of the operations at the ends: they extend the sequence that the store represents by any node
  that is allocated and not linked yet, and keep what the nodes carry. What follows for loops that build
  a list is proved once.
\<close>

locale linked_sequence =
  fixes rep :: "'m \<Rightarrow> 'a list \<Rightarrow> bool"
    and kept :: "'m \<Rightarrow> 'k"
    and ready :: "'k \<Rightarrow> 'a \<Rightarrow> bool"
    and add_front add_back :: "'a \<Rightarrow> 'm \<Rightarrow> 'm option"
  assumes at_front: "rep m xs \<Longrightarrow> ready (kept m) a \<Longrightarrow> a \<notin> set xs \<Longrightarrow>
      \<exists>m'. add_front a m = Some m' \<and> rep m' (a # xs) \<and> kept m' = kept m"
    and at_back: "rep m xs \<Longrightarrow> ready (kept m) a \<Longrightarrow> a \<notin> set xs \<Longrightarrow>
      \<exists>m'. add_back a m = Some m' \<and> rep m' (xs @ [a]) \<and> kept m' = kept m"
begin

primrec back_all :: "'a list \<Rightarrow> 'm \<Rightarrow> 'm option" where
  "back_all [] m = Some m"
| "back_all (a # as) m = Option.bind (add_back a m) (back_all as)"

primrec front_all :: "'a list \<Rightarrow> 'm \<Rightarrow> 'm option" where
  "front_all [] m = Some m"
| "front_all (a # as) m = Option.bind (add_front a m) (front_all as)"

lemma back_all_ok:
  "rep m xs \<Longrightarrow> \<forall>a\<in>set as. ready (kept m) a \<Longrightarrow> distinct (xs @ as) \<Longrightarrow>
   \<exists>m'. back_all as m = Some m' \<and> rep m' (xs @ as) \<and> kept m' = kept m"
proof (induction as arbitrary: m xs)
  case (Cons a as)
  then obtain m1 where m1: "add_back a m = Some m1" "rep m1 (xs @ [a])" "kept m1 = kept m"
    using at_back [of m xs a] by auto
  show ?case using Cons.IH [OF m1(2)] Cons.prems(2,3) m1(1,3) by auto
qed simp

lemma front_all_ok:
  "rep m xs \<Longrightarrow> \<forall>a\<in>set as. ready (kept m) a \<Longrightarrow> distinct (as @ xs) \<Longrightarrow>
   \<exists>m'. front_all as m = Some m' \<and> rep m' (rev as @ xs) \<and> kept m' = kept m"
proof (induction as arbitrary: m xs)
  case (Cons a as)
  then obtain m1 where m1: "add_front a m = Some m1" "rep m1 (a # xs)" "kept m1 = kept m"
    using at_front [of m xs a] by auto
  show ?case using Cons.IH [OF m1(2)] Cons.prems(2,3) m1(1,3) by auto
qed simp

text \<open>Filling from one end or, in the opposite order, from the other is the same.\<close>

lemma front_is_back_reversed:
  assumes "rep m []" and "\<forall>a\<in>set as. ready (kept m) a" and "distinct as"
  shows "\<exists>m' m''. back_all as m = Some m' \<and> front_all (rev as) m = Some m'' \<and> rep m' as \<and> rep m'' as"
  using back_all_ok [OF assms(1), of as] front_all_ok [OF assms(1), of "rev as"] assms(2,3) by auto

end

definition payloads :: "store \<Rightarrow> (nat \<rightharpoonup> string ptr \<times> u64 ptr \<times> nat ptr) \<times> nat set" where
  "payloads m = (\<lambda>a. map_option payload (nodes m a), objects m)"

lemma keeps_payload_iff: "keeps_payload m m' \<longleftrightarrow> payloads m' = payloads m"
  by (auto simp: keeps_payload_def payloads_def fun_eq_iff)

lemma payloads_owns_all: "payloads m' = payloads m \<Longrightarrow> owns_all m' xs = owns_all m xs \<and> object_of m' = object_of m"
proof -
  assume p: "payloads m' = payloads m"
  then have q: "map_option payload (nodes m' a) = map_option payload (nodes m a)" for a
    by (simp add: payloads_def fun_eq_iff)
  have o: "object_of m' = object_of m" by (rule ext) (rule object_of_payload [OF q])
  have n: "(nodes m' a = None) = (nodes m a = None)" for a using q [of a] by (metis option.map_disc_iff)
  have "owns_object m' a = owns_object m a" for a
    using p unfolding owns_object_iff o n by (simp add: payloads_def)
  then show ?thesis by (simp add: owns_all_def o)
qed

definition add_front :: "nat \<Rightarrow> nat \<Rightarrow> store \<Rightarrow> store option" where
  "add_front l a m = map_option snd (dll_addNodeHead (Some l) (Some a) m)"

definition add_back :: "nat \<Rightarrow> nat \<Rightarrow> store \<Rightarrow> store option" where
  "add_back l a m = map_option snd (dll_addNodeTail (Some l) (Some a) m)"

interpretation dll: linked_sequence "\<lambda>m. is_dll m l" payloads "\<lambda>k a. fst k a \<noteq> None" "add_front l" "add_back l" for l
proof
  fix m xs a assume a: "is_dll m l xs" "fst (payloads m) a \<noteq> None" "a \<notin> set xs"
  then obtain n where "nodes m a = Some n" by (auto simp: payloads_def)
  then show "\<exists>m'. add_front l a m = Some m' \<and> is_dll m' l (a # xs) \<and> payloads m' = payloads m"
    "\<exists>m'. add_back l a m = Some m' \<and> is_dll m' l (xs @ [a]) \<and> payloads m' = payloads m"
    using addNodeHead_ok [OF is_dll_linked [OF a(1)] a(3)] addNodeTail_ok [OF is_dll_linked [OF a(1)] a(3)]
    by (fastforce simp: add_front_def add_back_def keeps_payload_iff)+
qed

section \<open>Searching\<close>

lemma find_chain:
  assumes "\<And>a n. a \<in> set xs \<Longrightarrow> nodes m a = Some n \<Longrightarrow> found n = Some (P a)"
  shows "chain (nodes m) p prev xs None \<Longrightarrow> find_node found m p = Some (List.find P xs)"
  using assms
proof (induction xs arbitrary: p prev)
  case Nil
  then show ?case by (subst find_node.simps) simp
next
  case (Cons a xs)
  then obtain n where n: "p = Some a" "nodes m a = Some n" "chain (nodes m) (n_next n) (Some a) xs None" by auto
  have f: "found n = Some (P a)" using Cons.prems(2) n(2) by simp
  have "find_node found m (n_next n) = Some (List.find P xs)" using Cons.IH [OF n(3)] Cons.prems(2) by simp
  then show ?case using n(1,2) f by (subst find_node.simps) simp
qed

definition key_of :: "store \<Rightarrow> nat \<Rightarrow> u64 ptr" where
  "key_of m a = Option.bind (nodes m a) n_key"

lemma findNodeFromID_ok:
  assumes "is_dll m l xs" and "\<forall>a\<in>set xs. key_of m a \<noteq> None"
  shows "dll_findNodeFromID (Some l) k m = Some (List.find (\<lambda>a. key_of m a = Some k) xs)"
proof -
  obtain d where d: "dlists m l = Some d" "chain (nodes m) (pHead d) None xs None" using assms(1) by (auto simp: is_dll_def)
  have "find_node (\<lambda>n. map_option (\<lambda>j. k = j) (n_key n)) m (pHead d) = Some (List.find (\<lambda>a. key_of m a = Some k) xs)"
    using assms(2) by (intro find_chain [OF _ d(2)]) (auto simp: key_of_def)
  then show ?thesis using d(1) by (simp add: dll_findNodeFromID_def)
qed

lemma strcmp_eq_iff: "strcmp s t = 0 \<longleftrightarrow> s = t"
  by (induction s t rule: strcmp.induct) auto

definition name_of :: "store \<Rightarrow> nat \<Rightarrow> string ptr" where
  "name_of m a = Option.bind (nodes m a) n_strKey"

lemma findNodeFromString_ok:
  assumes "is_dll m l xs" and "\<forall>a\<in>set xs. name_of m a \<noteq> None"
  shows "dll_findNodeFromString (Some l) k m = Some (List.find (\<lambda>a. name_of m a = Some k) xs)"
proof -
  obtain d where d: "dlists m l = Some d" "chain (nodes m) (pHead d) None xs None" using assms(1) by (auto simp: is_dll_def)
  have "find_node (\<lambda>n. map_option (\<lambda>s. strcmp k s = 0) (n_strKey n)) m (pHead d)
      = Some (List.find (\<lambda>a. name_of m a = Some k) xs)"
    using assms(2) by (intro find_chain [OF _ d(2)]) (auto simp: name_of_def strcmp_eq_iff)
  then show ?thesis using d(1) by (simp add: dll_findNodeFromString_def)
qed

section \<open>Forward links\<close>

primrec path :: "(nat \<rightharpoonup> dllnode) \<Rightarrow> nat ptr \<Rightarrow> nat list \<Rightarrow> nat ptr \<Rightarrow> bool" where
  "path N p [] q \<longleftrightarrow> p = q"
| "path N p (a # xs) q \<longleftrightarrow> p = Some a \<and> (\<exists>n. N a = Some n \<and> path N (n_next n) xs q)"

lemma chain_path: "chain N p prev xs q \<Longrightarrow> path N p xs q"
  by (induction xs arbitrary: p prev) auto

lemma path_append [simp]: "path N p (xs @ ys) q \<longleftrightarrow> (\<exists>r. path N p xs r \<and> path N r ys q)"
  by (induction xs arbitrary: p) auto

lemma path_frame [simp]: "a \<notin> set xs \<Longrightarrow> path (N(a := v)) p xs q \<longleftrightarrow> path N p xs q"
  by (induction xs arbitrary: p) auto

lemma count_path: "path (nodes m) p xs None \<Longrightarrow> count_nodes m p c = Some (c + of_nat (length xs))"
proof (induction xs arbitrary: p c)
  case Nil
  then show ?case by (subst count_nodes.simps) simp
next
  case (Cons a xs)
  then obtain n where "p = Some a" "nodes m a = Some n" "path (nodes m) (n_next n) xs None" by auto
  then show ?case using Cons.IH by (subst count_nodes.simps) (simp add: ac_simps)
qed

text \<open>Counting follows a path into freed memory.\<close>

lemma count_dangling: "path (nodes m) p xs (Some i) \<Longrightarrow> nodes m i = None \<Longrightarrow> count_nodes m p c = None"
proof (induction xs arbitrary: p c)
  case Nil
  then show ?case by (subst count_nodes.simps) simp
next
  case (Cons a xs)
  then obtain n where "p = Some a" "nodes m a = Some n" "path (nodes m) (n_next n) xs (Some i)" by auto
  then show ?case using Cons.IH Cons.prems(2) by (subst count_nodes.simps) simp
qed

text \<open>What the insertion between \<open>a\<close> and \<open>b\<close> leaves: the forward links are right, both links back are not.\<close>

lemma insertNode_links:
  assumes "is_dll m l (xs @ a # b # ys)" and "i \<notin> set (xs @ a # b # ys)" and "nodes m i = Some n0"
  shows "\<exists>m' d n. dll_insertNode (Some l) (Some a) (Some i) m = Some (True, m')
    \<and> dlists m' l = Some d \<and> path (nodes m') (pHead d) (xs @ [a]) (Some i)
    \<and> nodes m' i = Some n \<and> n_next n = Some b \<and> n_prev n = Some i \<and> n_object n = n_object n0
    \<and> path (nodes m') (Some b) (b # ys) None \<and> objects m' = objects m"
proof -
  obtain d na nb where c: "dlists m l = Some d" "chain (nodes m) (pHead d) None xs (Some a)" "nodes m a = Some na"
      "n_next na = Some b" "nodes m b = Some nb" "chain (nodes m) (n_next nb) (Some b) ys None" "distinct (xs @ a # b # ys)"
    using assms(1) by (auto simp: is_dll_def)
  note d = c(1) chain_path [OF c(2)] c(3-5) chain_path [OF c(6)] c(7)
  let ?n = "n0\<lparr>n_next := Some b, n_prev := Some i\<rparr>"
  let ?m = "m\<lparr>nodes := (nodes m)(i \<mapsto> ?n, a \<mapsto> na\<lparr>n_next := Some i\<rparr>)\<rparr>"
  have ne: "i \<noteq> a" "i \<noteq> b" "i \<notin> set xs" "i \<notin> set ys" "a \<notin> set xs" "a \<notin> set ys" "a \<noteq> b" using assms(2) d(7) by auto
  have p: "path (nodes ?m) (pHead d) (xs @ [a]) (Some i)" "path (nodes ?m) (Some b) (b # ys) None" using d ne by simp_all
  obtain h where h: "pHead d = Some h" using d(2) by (cases xs) auto
  have "path (nodes ?m) (pHead d) (xs @ [a, i, b] @ ys) None" using p ne d by simp
  then have c: "count_nodes ?m (pHead d) 0 = Some (of_nat (length (xs @ [a, i, b] @ ys)))"
    using count_path [of ?m "pHead d" "xs @ [a, i, b] @ ys" 0] by simp
  have "dll_insertNode (Some l) (Some a) (Some i) m = Option.bind (dll_getNodeCount (Some l) ?m) (\<lambda>(_, m). Some (True, m))"
    using assms(3) d(3,4) ne by (simp add: dll_insertNode_def upd_node_def fun_upd_twist)
  also have "\<dots> = Some (True, ?m\<lparr>dlists := (dlists m)(l \<mapsto> d\<lparr>nCount := of_nat (length (xs @ [a, i, b] @ ys))\<rparr>)\<rparr>)"
    using c h d(1) by (simp add: dll_getNodeCount_def upd_list_def)
  finally show ?thesis using p ne by simp
qed

text \<open>Removing a node that points back to itself leaves the link to it.\<close>

lemma removeNode_self_linked:
  assumes "dlists m l = Some d" and "path (nodes m) (pHead d) (xs @ [a]) (Some i)" and "nodes m i = Some n"
    and "n_prev n = Some i" and "n_next n = Some b" and "nodes m b = Some nb" and "i \<noteq> b" and "b \<notin> set (xs @ [a])"
    and "i \<notin> set (xs @ [a])"
  shows "dll_removeNode (Some l) (Some i) m = None"
proof -
  obtain h where h: "pHead d = Some h" using assms(2) by (cases xs) auto
  have dangling: "dll_getNodeCount (Some l) M = None"
    if "nodes M = (nodes m)(i := None, b \<mapsto> k)" "dlists M = (dlists m)(l \<mapsto> d\<lparr>nCount := c\<rparr>)" for M k c
  proof -
    have "path (nodes M) (pHead d) (xs @ [a]) (Some i)" using assms(2,8,9) by (auto simp: that(1))
    moreover have "nodes M i = None" using assms(7) by (simp add: that(1))
    ultimately have "count_nodes M (pHead d) 0 = None" by (rule count_dangling)
    then show ?thesis using h by (simp add: dll_getNodeCount_def that(2))
  qed
  have f: "(N(i \<mapsto> x, b \<mapsto> y))(i := None) = N(i := None, b \<mapsto> y)" for N :: "nat \<rightharpoonup> dllnode" and x y
    using assms(7) by auto
  show ?thesis
  proof (cases "n_object n")
    case None
    then show ?thesis
      using assms(1,3-7) by (simp add: dll_removeNode_def upd_node_def upd_list_def free_node_def f dangling)
  next
    case (Some x)
    show ?thesis
    proof (cases "x \<in> objects m")
      case True
      then show ?thesis
        using assms(1,3-7) Some
        by (simp add: dll_removeNode_def upd_node_def upd_list_def free_node_def free_object_def f dangling)
    qed (use assms(3) Some in \<open>simp add: dll_removeNode_def free_object_def\<close>)
  qed
qed

section \<open>Sorted insertion\<close>

lemma search_passes:
  assumes "nodes m i = Some ni" and "n_key ni = Some j"
  shows "chain (nodes m) p prev xs None \<Longrightarrow> \<forall>a\<in>set xs. \<exists>k. key_of m a = Some k \<and> j < k \<Longrightarrow>
    search_place pdll i SORT_NUMERIC p m = dll_addNodeTail pdll (Some i) m"
proof (induction xs arbitrary: p prev)
  case Nil
  then show ?case by (subst search_place.simps) simp
next
  case (Cons a xs)
  then obtain n k where n: "p = Some a" "nodes m a = Some n" "chain (nodes m) (n_next n) (Some a) xs None"
      "n_key n = Some k" "j < k"
    by (auto simp: key_of_def)
  have "\<not> k < j" "j \<noteq> k" using n(5) by auto
  then have "search_result SORT_NUMERIC ni n = Some (- 1)"
    using assms(2) n(4) by (simp add: search_result_def SORT_NUMERIC_def SORT_STRING_def)
  then show ?case using assms(1) n Cons.IH [OF n(3)] Cons.prems(2) by (subst search_place.simps) simp
qed

lemma search_stops_at_head:
  assumes "is_dll m l (a # xs)" and "i \<notin> set (a # xs)" and "nodes m i = Some ni" and "n_key ni = Some j"
    and "key_of m a = Some k" and "k < j" and "dlists m l = Some d"
  shows "\<exists>m'. search_place (Some l) i SORT_NUMERIC (pHead d) m = Some (True, m') \<and> is_dll m' l (i # a # xs)
    \<and> payloads m' = payloads m"
proof -
  obtain n where n: "pHead d = Some a" "nodes m a = Some n" "n_prev n = None" "n_key n = Some k"
    using assms(1,5,7) by (auto simp: is_dll_def key_of_def)
  have r: "search_result SORT_NUMERIC ni n = Some 2"
    using assms(4,6) n(4) by (auto simp: search_result_def SORT_NUMERIC_def SORT_STRING_def)
  obtain m1 where h: "dll_addNodeHead (Some l) (Some i) m = Some (True, m1)" "is_dll m1 l (i # a # xs)" "keeps_payload m m1"
    using addNodeHead_ok [OF is_dll_linked [OF assms(1)] assms(2,3)] by blast
  obtain m2 where c: "dll_getNodeCount (Some l) m1 = Some (of_nat (length (i # a # xs)), m2)" "is_dll m2 l (i # a # xs)"
      "nodes m2 = nodes m1" "objects m2 = objects m1"
    using count_linked [OF is_dll_linked [OF h(2)]] by blast
  have "search_place (Some l) i SORT_NUMERIC (pHead d) m = Some (True, m2)"
    using n r h(1) c(1) assms(3) by (subst search_place.simps) (simp add: dll_addNodeBefore_def)
  moreover have "payloads m2 = payloads m" using h(3) c(3,4) by (simp add: keeps_payload_iff payloads_def)
  ultimately show ?thesis using c(2) by blast
qed

section \<open>Properties\<close>

text \<open>A list at address 0 with the nodes 1 and 2, and a node 3 that is not linked.\<close>

definition sample_node :: "u64 \<Rightarrow> nat ptr \<Rightarrow> nat ptr \<Rightarrow> nat ptr \<Rightarrow> dllnode" where
  "sample_node k x q p = \<lparr>n_strKey = None, n_key = Some k, n_object = x, n_next = q, n_prev = p\<rparr>"

definition sample_store :: store where
  "sample_store = \<lparr>nodes = [1 \<mapsto> sample_node 5 None (Some 2) None, 2 \<mapsto> sample_node 1 (Some 9) None (Some 1),
       3 \<mapsto> sample_node 3 None None None],
     dlists = [0 \<mapsto> \<lparr>nSortOrder = 2, pHead = Some 1, pTail = Some 2, nCount = 2\<rparr>,
       1 \<mapsto> \<lparr>nSortOrder = 0, pHead = None, pTail = None, nCount = 0\<rparr>],
     objects = {9}\<rparr>"

lemma sample_store_ok: "is_dll sample_store 0 [1, 2]" "is_dll sample_store 1 []"
  by (simp_all add: is_dll_def sample_store_def sample_node_def last_of_def)

text \<open>Counting changes only the count.\<close>

lemma counted_again:
  assumes "is_dll m l xs"
  shows "\<exists>m'. dll_getNodeCount (Some l) m = Some (of_nat (length xs), m') \<and> is_dll m' l xs \<and> payloads m' = payloads m"
  using count_linked [OF is_dll_linked [OF assms]] by (auto simp: payloads_def)

lemma addNodeAfter_last:
  assumes "is_dll m l (us @ [a])" and "i \<notin> set (us @ [a])" and "nodes m i = Some n"
  shows "\<exists>m'. dll_addNodeAfter (Some l) (Some a) (Some i) m = Some (True, m') \<and> is_dll m' l (us @ [a, i]) \<and> payloads m' = payloads m"
proof -
  obtain na where a: "nodes m a = Some na" "n_next na = None" using assms(1) by (auto simp: is_dll_def)
  obtain m1 where m1: "dll_addNodeTail (Some l) (Some i) m = Some (True, m1)" "is_dll m1 l (us @ [a, i])" "payloads m1 = payloads m"
    using addNodeTail_ok [OF is_dll_linked [OF assms(1)] assms(2,3)] keeps_payload_iff by auto
  show ?thesis using counted_again [OF m1(2)] a m1(1,3) by (auto simp: dll_addNodeAfter_def)
qed

lemma addNodeBefore_first:
  assumes "is_dll m l (a # vs)" and "i \<notin> set (a # vs)" and "nodes m i = Some n"
  shows "\<exists>m'. dll_addNodeBefore (Some l) (Some a) (Some i) m = Some (True, m') \<and> is_dll m' l (i # a # vs) \<and> payloads m' = payloads m"
proof -
  obtain na where a: "nodes m a = Some na" "n_prev na = None" using assms(1) by (auto simp: is_dll_def)
  obtain m1 where m1: "dll_addNodeHead (Some l) (Some i) m = Some (True, m1)" "is_dll m1 l (i # a # vs)" "payloads m1 = payloads m"
    using addNodeHead_ok [OF is_dll_linked [OF assms(1)] assms(2,3)] keeps_payload_iff by auto
  show ?thesis using counted_again [OF m1(2)] a m1(1,3) by (auto simp: dll_addNodeBefore_def)
qed

text \<open>C27: On a well-formed list the insertions at its ends, whether they are asked for at the head, at the tail, before
  the first node or after the last one, the removal of any node that owns its object, the count and the search for
  a key do what they do on a sequence. An insertion keeps the content of every node; a removal frees the node and
  its object, and nothing else. (Insertion between two nodes is not among them: it breaks the list, as is
  shown further down.)\<close>

theorem dll_refines_sequence:
  assumes "is_dll m l xs"
  shows "(nodes m i \<noteq> None \<and> i \<notin> set xs \<longrightarrow>
       (\<exists>m'. dll_addNodeHead (Some l) (Some i) m = Some (True, m') \<and> is_dll m' l (i # xs) \<and> payloads m' = payloads m)
     \<and> (\<exists>m'. dll_addNodeTail (Some l) (Some i) m = Some (True, m') \<and> is_dll m' l (xs @ [i]) \<and> payloads m' = payloads m)
     \<and> (\<forall>us a. xs = us @ [a] \<longrightarrow>
          (\<exists>m'. dll_addNodeAfter (Some l) (Some a) (Some i) m = Some (True, m') \<and> is_dll m' l (us @ [a, i])
             \<and> payloads m' = payloads m))
     \<and> (\<forall>a vs. xs = a # vs \<longrightarrow>
          (\<exists>m'. dll_addNodeBefore (Some l) (Some a) (Some i) m = Some (True, m') \<and> is_dll m' l (i # a # vs)
             \<and> payloads m' = payloads m)))
    \<and> (\<forall>us a vs. xs = us @ a # vs \<and> owns_object m a \<longrightarrow>
       (\<exists>m'. dll_removeNode (Some l) (Some a) m = Some (True, m') \<and> is_dll m' l (us @ vs)
          \<and> payloads m' = ((fst (payloads m))(a := None), objects m - object_of m a)))
    \<and> (\<exists>m'. dll_getNodeCount (Some l) m = Some (of_nat (length xs), m') \<and> is_dll m' l xs)
    \<and> ((\<forall>a\<in>set xs. key_of m a \<noteq> None) \<longrightarrow>
       dll_findNodeFromID (Some l) k m = Some (List.find (\<lambda>a. key_of m a = Some k) xs))"
proof (intro conjI impI allI; (elim conjE)?)
  assume "nodes m i \<noteq> None" and i: "i \<notin> set xs"
  then obtain n where n: "nodes m i = Some n" by auto
  show "\<exists>m'. dll_addNodeHead (Some l) (Some i) m = Some (True, m') \<and> is_dll m' l (i # xs) \<and> payloads m' = payloads m"
    using addNodeHead_ok [OF is_dll_linked [OF assms] i n] keeps_payload_iff by blast
  show "\<exists>m'. dll_addNodeTail (Some l) (Some i) m = Some (True, m') \<and> is_dll m' l (xs @ [i]) \<and> payloads m' = payloads m"
    using addNodeTail_ok [OF is_dll_linked [OF assms] i n] keeps_payload_iff by blast
  show "\<exists>m'. dll_addNodeAfter (Some l) (Some a) (Some i) m = Some (True, m') \<and> is_dll m' l (us @ [a, i]) \<and> payloads m' = payloads m"
    if "xs = us @ [a]" for us a
    using addNodeAfter_last [of m l us a i n] assms i n unfolding that by blast
  show "\<exists>m'. dll_addNodeBefore (Some l) (Some a) (Some i) m = Some (True, m') \<and> is_dll m' l (i # a # vs) \<and> payloads m' = payloads m"
    if "xs = a # vs" for a vs
    using addNodeBefore_first [of m l a vs i n] assms i n unfolding that by blast
next
  fix us a vs assume x: "xs = us @ a # vs" "owns_object m a"
  obtain m' where "dll_removeNode (Some l) (Some a) m = Some (True, m')" "is_dll m' l (us @ vs)" "nodes m' a = None"
      "objects m' = objects m - object_of m a"
      "\<forall>b. b \<noteq> a \<longrightarrow> map_option payload (nodes m' b) = map_option payload (nodes m b)"
    using removeNode_ok [OF assms [unfolded x(1)] x(2)] by blast
  moreover from this have "payloads m' = ((fst (payloads m))(a := None), objects m - object_of m a)"
    by (simp add: payloads_def fun_eq_iff)
  ultimately show "\<exists>m'. dll_removeNode (Some l) (Some a) m = Some (True, m') \<and> is_dll m' l (us @ vs)
      \<and> payloads m' = ((fst (payloads m))(a := None), objects m - object_of m a)" by blast
next
  show "\<exists>m'. dll_getNodeCount (Some l) m = Some (of_nat (length xs), m') \<and> is_dll m' l xs"
    using count_linked [OF is_dll_linked [OF assms]] by blast
next
  assume "\<forall>a\<in>set xs. key_of m a \<noteq> None"
  then show "dll_findNodeFromID (Some l) k m = Some (List.find (\<lambda>a. key_of m a = Some k) xs)"
    by (rule findNodeFromID_ok [OF assms])
qed

theorem dll_refines_sequence_witness:
  "(\<exists>m'. dll_addNodeHead (Some 0) (Some 3) sample_store = Some (True, m') \<and> is_dll m' 0 [3, 1, 2])
   \<and> (\<exists>m'. dll_addNodeAfter (Some 0) (Some 2) (Some 3) sample_store = Some (True, m') \<and> is_dll m' 0 [1, 2, 3])
   \<and> (\<exists>m'. dll_removeNode (Some 0) (Some 2) sample_store = Some (True, m') \<and> is_dll m' 0 [1])
   \<and> dll_findNodeFromID (Some 0) 1 sample_store = Some (Some 2)"
proof -
  have "nodes sample_store 3 \<noteq> None \<and> 3 \<notin> set [1, 2 :: nat]" by (simp add: sample_store_def)
  moreover have "[1, 2] = [1] @ 2 # [] \<and> owns_object sample_store 2"
    by (simp add: owns_object_def sample_store_def sample_node_def)
  moreover have "\<forall>a\<in>set [1, 2]. key_of sample_store a \<noteq> None"
    "List.find (\<lambda>a. key_of sample_store a = Some 1) [1, 2] = Some 2"
    by (simp_all add: key_of_def sample_store_def sample_node_def)
  moreover have "[1, 2] = [1] @ [2 :: nat]" "[1] @ [2, 3] = [1, 2, 3 :: nat]" "[1] @ [] = [1 :: nat]" by simp_all
  ultimately show ?thesis
    using dll_refines_sequence [OF sample_store_ok(1), of 3 1] by metis
qed

text \<open>A list that is built node by node holds the nodes in that order, and clearing it ends: it frees every node and
  every object that they own, nothing else, and leaves an empty list.\<close>

theorem list_is_built_and_cleared:
  assumes "is_dll m l []" and "distinct as" and "owns_all m as"
  shows "\<exists>m1 m2. dll.back_all l as m = Some m1 \<and> is_dll m1 l as \<and> payloads m1 = payloads m
    \<and> dll_removeAllNodes (Some l) m1 = Some (True, m2) \<and> is_dll m2 l []
    \<and> (\<forall>a. a \<in> set as \<longrightarrow> nodes m2 a = None)
    \<and> objects m2 = objects m - (\<Union>a\<in>set as. object_of m a)"
proof -
  have "\<forall>a\<in>set as. fst (payloads m) a \<noteq> None" using assms(3) by (auto simp: owns_all_def owns_object_iff payloads_def)
  then obtain m1 where m1: "dll.back_all l as m = Some m1" "is_dll m1 l as" "payloads m1 = payloads m"
    using dll.back_all_ok [OF assms(1), of as] assms(2) by auto
  have "owns_all m1 as" "object_of m1 = object_of m" "objects m1 = objects m"
    using payloads_owns_all [OF m1(3), of as] assms(3) m1(3) by (simp_all add: payloads_def)
  then show ?thesis using m1 removeAllNodes_ok [OF m1(2)] by auto
qed

theorem list_is_built_and_cleared_witness:
  "\<exists>m1 m2. dll.back_all 1 [3] sample_store = Some m1 \<and> dll_removeAllNodes (Some 1) m1 = Some (True, m2) \<and> is_dll m2 1 []"
  using list_is_built_and_cleared [OF sample_store_ok(2), of "[3]"]
  by (auto simp: owns_all_def owns_object_def sample_store_def sample_node_def)

text \<open>C28: Inserting a node after another one that is not the last breaks the list: the links forward are right, but
  the new node points back to itself and the one behind it past the new one. Removing the new node
  then leaves a link to its freed memory, which the count that follows reads.\<close>

theorem insert_in_middle_breaks_list:
  assumes "is_dll m l (xs @ a # b # ys)" and "i \<notin> set (xs @ a # b # ys)" and "owns_object m i"
  shows "\<exists>m' d. dll_insertNode (Some l) (Some a) (Some i) m = Some (True, m') \<and> dlists m' l = Some d
    \<and> path (nodes m') (pHead d) (xs @ a # i # b # ys) None
    \<and> \<not> is_dll m' l (xs @ a # i # b # ys)
    \<and> dll_removeNode (Some l) (Some i) m' = None"
proof -
  obtain n0 where n0: "nodes m i = Some n0" using assms(3) by (auto simp: owns_object_def split: option.splits)
  obtain m' d n where s: "dll_insertNode (Some l) (Some a) (Some i) m = Some (True, m')"
      "dlists m' l = Some d" "path (nodes m') (pHead d) (xs @ [a]) (Some i)" "nodes m' i = Some n" "n_next n = Some b"
      "n_prev n = Some i" "n_object n = n_object n0" "path (nodes m') (Some b) (b # ys) None" "objects m' = objects m"
    using insertNode_links [OF assms(1,2) n0] by blast
  have "path (nodes m') (pHead d) (xs @ a # i # b # ys) None" using s(3-5,8) by auto
  moreover have "\<not> is_dll m' l (xs @ a # i # b # ys)" using s(4,6) assms(2) by (auto simp: is_dll_def)
  moreover obtain nb where "nodes m' b = Some nb" using s(8) by auto
  then have "dll_removeNode (Some l) (Some i) m' = None"
    using assms(1,2) by (intro removeNode_self_linked [OF s(2-4,6,5)]) (auto simp: is_dll_def)
  ultimately show ?thesis using s(1,2) by blast
qed

theorem insert_in_middle_breaks_list_witness:
  "\<exists>m' d. dll_insertNode (Some 0) (Some 1) (Some 3) sample_store = Some (True, m') \<and> dlists m' 0 = Some d
    \<and> path (nodes m') (pHead d) [1, 3, 2] None \<and> dll_removeNode (Some 0) (Some 3) m' = None"
  using insert_in_middle_breaks_list [of sample_store 0 "[]" 1 2 "[]" 3] sample_store_ok(1)
  by (fastforce simp: owns_object_def sample_store_def sample_node_def)

text \<open>A list that is sorted by numeric key, largest first, stays well formed and sorted when a node is added whose
  key is below all others or above all others: the node comes last or first.\<close>

theorem sorted_list_grows_at_its_ends:
  assumes "is_dll m l xs" and "dlists m l = Some d" and "nSortOrder d = SORT_NUMERIC"
    and "i \<notin> set xs" and "key_of m i = Some j" and "\<forall>a\<in>set xs. \<exists>k. key_of m a = Some k"
    and "sorted_wrt (\<lambda>a b. the (key_of m b) \<le> the (key_of m a)) xs"
    and "(\<forall>a\<in>set xs. j < the (key_of m a)) \<or> (xs \<noteq> [] \<and> (\<forall>a\<in>set xs. the (key_of m a) < j))"
  shows "\<exists>m' ys. dll_addNode (Some l) (Some i) m = Some (True, m') \<and> is_dll m' l ys \<and> payloads m' = payloads m
    \<and> ys = (if \<forall>a\<in>set xs. j < the (key_of m a) then xs @ [i] else i # xs)
    \<and> sorted_wrt (\<lambda>a b. the (key_of m' b) \<le> the (key_of m' a)) ys"
proof -
  obtain ni where i: "nodes m i = Some ni" "n_key ni = Some j" using assms(5) by (cases "nodes m i") (auto simp: key_of_def)
  have run: "dll_addNode (Some l) (Some i) m = search_place (Some l) i SORT_NUMERIC (pHead d) m"
    using assms(2,3) i by (simp add: dll_addNode_def SORT_NUMERIC_def SORT_NONE_def SORT_STRING_def)
  have key: "key_of m' = key_of m" if "payloads m' = payloads m" for m'
  proof
    fix a
    have "map_option payload (nodes m' a) = map_option payload (nodes m a)" using that by (simp add: payloads_def fun_eq_iff)
    then show "key_of m' a = key_of m a" by (cases "nodes m a"; cases "nodes m' a") (simp_all add: key_of_def payload_def)
  qed
  show ?thesis
  proof (cases "\<forall>a\<in>set xs. j < the (key_of m a)")
    case True
    obtain m' where t: "dll_addNodeTail (Some l) (Some i) m = Some (True, m')" "is_dll m' l (xs @ [i])" "keeps_payload m m'"
      using addNodeTail_ok [OF is_dll_linked [OF assms(1)] assms(4) i(1)] by blast
    have "\<forall>a\<in>set xs. \<exists>k. key_of m a = Some k \<and> j < k" using assms(6) True by fastforce
    then have "search_place (Some l) i SORT_NUMERIC (pHead d) m = Some (True, m')"
      using search_passes [OF i] assms(1,2) t(1) by (auto simp: is_dll_def)
    moreover have "sorted_wrt (\<lambda>a b. the (key_of m b) \<le> the (key_of m a)) (xs @ [i])"
      using assms(5,7) True by (auto simp: sorted_wrt_append intro: less_imp_le)
    moreover have "payloads m' = payloads m" using t(3) keeps_payload_iff by blast
    ultimately show ?thesis using run t(2) True key [of m'] by (intro exI [of _ m'] exI [of _ "xs @ [i]"]) simp
  next
    case False
    then obtain a ys where x: "xs = a # ys" "\<forall>a\<in>set xs. the (key_of m a) < j" using assms(8) by (cases xs) auto
    then obtain k where k: "key_of m a = Some k" "k < j" using assms(6) by fastforce
    obtain m' where t: "search_place (Some l) i SORT_NUMERIC (pHead d) m = Some (True, m')" "is_dll m' l (i # xs)"
        "payloads m' = payloads m"
      using search_stops_at_head [OF _ _ i k assms(2)] assms(1,4) x(1) by blast
    have "sorted_wrt (\<lambda>a b. the (key_of m b) \<le> the (key_of m a)) (i # xs)"
      using assms(5,7) x(2) by (auto intro: less_imp_le)
    then show ?thesis using run t key [OF t(3)] False by (intro exI [of _ m'] exI [of _ "i # xs"]) auto
  qed
qed

theorem sorted_list_grows_at_its_ends_witness:
  "\<exists>m' ys. dll_addNode (Some 0) (Some 3) (sample_store\<lparr>nodes := (nodes sample_store)(3 \<mapsto> sample_node 7 None None None)\<rparr>)
     = Some (True, m') \<and> is_dll m' 0 ys \<and> ys = [3, 1, 2]"
proof -
  let ?m = "sample_store\<lparr>nodes := (nodes sample_store)(3 \<mapsto> sample_node 7 None None None)\<rparr>"
  have k: "key_of ?m 1 = Some 5" "key_of ?m 2 = Some 1" "key_of ?m 3 = Some 7"
    by (simp_all add: key_of_def sample_store_def sample_node_def)
  have l: "is_dll ?m 0 [1, 2]" "dlists ?m 0 = Some \<lparr>nSortOrder = 2, pHead = Some 1, pTail = Some 2, nCount = 2\<rparr>"
    by (simp_all add: is_dll_def sample_store_def sample_node_def last_of_def)
  show ?thesis
    using sorted_list_grows_at_its_ends [OF l _ _ k(3)] k by (fastforce simp: SORT_NUMERIC_def)
qed

end
