(* ===== verification/Measurement.thy ===== *)
theory Measurement
  imports Event TextUtil
begin

text \<open>
  Measurement events (\<^verbatim>\<open>vscphelper.cpp\<close>, "Data Coding Helpers"): reading the coded data of an
  event, its unit, sensor index and zones, and building events with coded values.

  A \<^verbatim>\<open>double\<close> and a \<^verbatim>\<open>float\<close> are their bit patterns; the arithmetic and the text conversions of
  the host are the record \<open>fpu\<close>. Bytes of wider values are in memory order of a little-endian host.
  \<open>fresh\<close> is the content of memory from \<^verbatim>\<open>new\<close> or of an uninitialised buffer.
\<close>

section \<open>Floating point of the host\<close>

text \<open>
  \<open>of_integer\<close> converts an integer of 64 bits; \<open>times_pow10\<close> and \<open>over_pow10\<close> are the product and the
  quotient with \<^verbatim>\<open>pow(10, n)\<close>; \<open>truncated\<close> is the cast to \<^verbatim>\<open>uint64_t\<close>; \<open>fmt_f\<close>, \<open>fmt_0f\<close> and \<open>fmt_g\<close> are
  \<^verbatim>\<open>%f\<close>, \<^verbatim>\<open>%.0lf\<close> and \<^verbatim>\<open>%g\<close>; \<open>parsed\<close> is \<^verbatim>\<open>std::stod\<close>, \<open>None\<close> its exceptions; \<open>in_single_range\<close>
  says that a \<^verbatim>\<open>float\<close> is neither above 3.4e38 nor below its negative.
\<close>

record fpu =
  of_integer :: "int \<Rightarrow> u64"
  times_pow10 :: "u64 \<Rightarrow> nat \<Rightarrow> u64"
  over_pow10 :: "u64 \<Rightarrow> nat \<Rightarrow> u64"
  truncated :: "u64 \<Rightarrow> u64"
  single_to_double :: "u32 \<Rightarrow> u64"
  in_single_range :: "u32 \<Rightarrow> bool"
  fmt_f :: "u64 \<Rightarrow> string"
  fmt_0f :: "u64 \<Rightarrow> string"
  fmt_g :: "u64 \<Rightarrow> string"
  parsed :: "string \<Rightarrow> u64 option"

text \<open>The bytes of a value in memory, lowest first, and the value of such bytes.\<close>

definition le_bytes :: "'a::len word \<Rightarrow> u8 list" where
  "le_bytes w = map (\<lambda>k. ucast (drop_bit (8 * k) w)) [0..<LENGTH('a) div 8]"

definition le_word :: "u8 list \<Rightarrow> 'a::len word" where
  "le_word bs = foldr (\<lambda>b w. ucast b OR push_bit 8 w) bs 0"

section \<open>Classes (vscp-class.h)\<close>

definition VSCP_CLASS1_MEASUREMENT :: u16 where "VSCP_CLASS1_MEASUREMENT = 10"
definition VSCP_CLASS1_DATA :: u16 where "VSCP_CLASS1_DATA = 15"
definition VSCP_CLASS1_MEASUREMENT64 :: u16 where "VSCP_CLASS1_MEASUREMENT64 = 60"
definition VSCP_CLASS1_MEASUREZONE :: u16 where "VSCP_CLASS1_MEASUREZONE = 65"
definition VSCP_CLASS1_MEASUREMENT32 :: u16 where "VSCP_CLASS1_MEASUREMENT32 = 70"
definition VSCP_CLASS1_SETVALUEZONE :: u16 where "VSCP_CLASS1_SETVALUEZONE = 85"
definition VSCP_CLASS2_LEVEL1_PROTOCOL :: u16 where "VSCP_CLASS2_LEVEL1_PROTOCOL = 512"
definition VSCP_CLASS2_LEVEL1_MEASUREMENT :: u16 where "VSCP_CLASS2_LEVEL1_MEASUREMENT = 522"
definition VSCP_CLASS2_LEVEL1_MEASUREMENT64 :: u16 where "VSCP_CLASS2_LEVEL1_MEASUREMENT64 = 572"
definition VSCP_CLASS2_LEVEL1_MEASUREZONE :: u16 where "VSCP_CLASS2_LEVEL1_MEASUREZONE = 577"
definition VSCP_CLASS2_LEVEL1_MEASUREMENT32 :: u16 where "VSCP_CLASS2_LEVEL1_MEASUREMENT32 = 582"
definition VSCP_CLASS2_LEVEL1_SETVALUEZONE :: u16 where "VSCP_CLASS2_LEVEL1_SETVALUEZONE = 597"
definition VSCP_CLASS2_PROTOCOL :: u16 where "VSCP_CLASS2_PROTOCOL = 1024"
definition VSCP_CLASS2_MEASUREMENT_STR :: u16 where "VSCP_CLASS2_MEASUREMENT_STR = 1040"
definition VSCP_CLASS2_MEASUREMENT_FLOAT :: u16 where "VSCP_CLASS2_MEASUREMENT_FLOAT = 1060"

lemmas class_defs =
  VSCP_CLASS1_MEASUREMENT_def VSCP_CLASS1_DATA_def VSCP_CLASS1_MEASUREMENT64_def VSCP_CLASS1_MEASUREZONE_def
  VSCP_CLASS1_MEASUREMENT32_def VSCP_CLASS1_SETVALUEZONE_def VSCP_CLASS2_LEVEL1_PROTOCOL_def
  VSCP_CLASS2_LEVEL1_MEASUREMENT_def VSCP_CLASS2_LEVEL1_MEASUREMENT64_def VSCP_CLASS2_LEVEL1_MEASUREZONE_def
  VSCP_CLASS2_LEVEL1_MEASUREMENT32_def VSCP_CLASS2_LEVEL1_SETVALUEZONE_def VSCP_CLASS2_PROTOCOL_def
  VSCP_CLASS2_MEASUREMENT_STR_def VSCP_CLASS2_MEASUREMENT_FLOAT_def

text \<open>The five classes \<open>X0\<close> to \<open>X4\<close> of a kind have consecutive numbers.\<close>

definition x_classes :: "u16 \<Rightarrow> u16 list" where
  "x_classes c = [c, c + 1, c + 2, c + 3, c + 4]"

definition zone_classes :: "u16 list" where
  "zone_classes = [VSCP_CLASS1_MEASUREZONE, VSCP_CLASS1_SETVALUEZONE, VSCP_CLASS2_LEVEL1_MEASUREZONE,
     VSCP_CLASS2_LEVEL1_SETVALUEZONE]"

definition vscp_isMeasurement :: "vscpEvent ptr \<Rightarrow> bool safe" where
  "vscp_isMeasurement pev =
     map_option (\<lambda>ev. vscp_class ev \<in> set
       (x_classes VSCP_CLASS1_MEASUREMENT @ [VSCP_CLASS1_DATA] @ x_classes VSCP_CLASS2_LEVEL1_MEASUREMENT
        @ x_classes VSCP_CLASS1_MEASUREZONE @ x_classes VSCP_CLASS2_LEVEL1_MEASUREZONE
        @ x_classes VSCP_CLASS1_SETVALUEZONE @ x_classes VSCP_CLASS2_LEVEL1_SETVALUEZONE
        @ x_classes VSCP_CLASS1_MEASUREMENT32 @ x_classes VSCP_CLASS2_LEVEL1_MEASUREMENT32
        @ x_classes VSCP_CLASS1_MEASUREMENT64 @ x_classes VSCP_CLASS2_LEVEL1_MEASUREMENT64
        @ [VSCP_CLASS2_MEASUREMENT_STR, VSCP_CLASS2_MEASUREMENT_FLOAT])) pev"

section \<open>Reading coded data\<close>

definition VSCP_MASK_DATACODING_UNIT :: u8 where "VSCP_MASK_DATACODING_UNIT = 0x18"
definition VSCP_MASK_DATACODING_INDEX :: u8 where "VSCP_MASK_DATACODING_INDEX = 0x07"

definition VSCP_DATACODING_UNIT :: "u8 \<Rightarrow> u8" where
  "VSCP_DATACODING_UNIT b = drop_bit 3 (VSCP_MASK_DATACODING_UNIT AND b)"

definition VSCP_DATACODING_INDEX :: "u8 \<Rightarrow> u8" where
  "VSCP_DATACODING_INDEX b = VSCP_MASK_DATACODING_INDEX AND b"

text \<open>A byte behind the data pointer of an event.\<close>

definition data_at :: "vscpEvent \<Rightarrow> nat \<Rightarrow> u8 safe" where
  "data_at ev i = (case pdata ev of None \<Rightarrow> None | Some d \<Rightarrow> rd d i)"

definition vscp_getMeasurementDataCoding :: "vscpEvent ptr \<Rightarrow> u8 safe" where
  "vscp_getMeasurementDataCoding pev =
     (case pev of None \<Rightarrow> Some (- 1)
      | Some ev \<Rightarrow>
         if pdata ev = None \<or> sizeData ev < 1 then Some (- 1)
         else if vscp_class ev = VSCP_CLASS1_MEASUREMENT then data_at ev 0
         else if vscp_class ev = VSCP_CLASS2_LEVEL1_MEASUREMENT
         then (if sizeData ev \<ge> 16 then data_at ev 16 else Some (- 1))
         else if vscp_class ev = VSCP_CLASS2_MEASUREMENT_STR then Some 0x40
         else if vscp_class ev = VSCP_CLASS2_MEASUREMENT_FLOAT then Some 0xC0
         else Some (- 1))"

definition vscp_getDataCodingBitArray :: "u8 list ptr \<Rightarrow> u8 \<Rightarrow> u64 safe" where
  "vscp_getDataCodingBitArray pCode len =
     (case pCode of None \<Rightarrow> Some 0
      | Some code \<Rightarrow>
         if len > 7 \<or> len \<le> 1 then Some 0
         else map_option (\<lambda>bs. foldl (\<lambda>acc b. push_bit 8 acc OR ucast b) 0 bs) (rd_block code 1 (unat len - 1)))"

text \<open>The 64-bit accumulator starts with the sign of the first data byte.\<close>

definition vscp_getDataCodingInteger :: "u8 list ptr \<Rightarrow> u8 \<Rightarrow> u64 safe" where
  "vscp_getDataCodingInteger pCode len =
     (case pCode of None \<Rightarrow> Some 0
      | Some code \<Rightarrow>
         if len < 2 then Some 0
         else do {
           b \<leftarrow> rd code 1;
           bs \<leftarrow> rd_block code 1 (unat len - 1);
           Some (foldl (\<lambda>acc b. push_bit 8 acc + ucast b) (if b AND 0x80 \<noteq> 0 then - 1 else 0) bs) })"

text \<open>The integer of a normalised value: a buffer of eight bytes read at a width of 8, 16, 32 or 64 bits.\<close>

definition normalized_integer :: "u8 list \<Rightarrow> bool \<Rightarrow> int" where
  "normalized_integer bs bNegative =
     (let fill = (if bNegative then 0xff else 0) :: u8
      in if length bs = 1 then sint (le_word bs :: u8)
         else if length bs = 2 then sint (le_word (rev bs) :: u16)
         else if length bs = 3 then sint (le_word (rev (fill # bs)) :: u32)
         else if length bs = 4 then sint (le_word (rev bs) :: u32)
         else if length bs = 5 then sint (le_word (rev ([fill, fill, fill] @ bs)) :: u64)
         else if length bs = 6 then sint (le_word (rev ([fill, fill] @ bs)) :: u64)
         else 0)"

definition vscp_getDataCodingNormalizedInteger :: "fpu \<Rightarrow> u8 list ptr \<Rightarrow> u8 \<Rightarrow> u64 safe" where
  "vscp_getDataCodingNormalizedInteger fp pCode len =
     (case pCode of None \<Rightarrow> Some (of_integer fp 0)
      | Some code \<Rightarrow>
         if len > 8 \<or> len < 2 then Some (of_integer fp 0)
         else do {
           decibyte \<leftarrow> rd code 1;
           sign \<leftarrow> rd code 2;
           bs \<leftarrow> rd_block code 2 (unat len - 2);
           let v = of_integer fp (normalized_integer bs (sign AND 0x80 \<noteq> 0));
           Some (if decibyte AND 0x80 \<noteq> 0 then over_pow10 fp v (unat (decibyte AND 0x7f))
                 else times_pow10 fp v (unat (decibyte AND 0x7f))) })"

text \<open>The string behind the coding byte, through a buffer of twenty bytes; the length is unsigned.\<close>

definition coding_string :: "u8 list \<Rightarrow> u8 \<Rightarrow> string safe" where
  "coding_string code len =
     (if len = 0 then None
      else do {
        bs \<leftarrow> rd_block code 1 (unat len - 1);
        buf \<leftarrow> wr_block (replicate 20 0) 0 bs;
        c_string buf })"

definition vscp_getDataCodingString_static :: "u8 list ptr \<Rightarrow> u8 \<Rightarrow> string safe" where
  "vscp_getDataCodingString_static pCode len = (case pCode of None \<Rightarrow> Some [] | Some code \<Rightarrow> coding_string code len)"

definition vscp_getDataCodingString :: "string \<Rightarrow> u8 list ptr \<Rightarrow> u8 \<Rightarrow> (bool \<times> string) safe" where
  "vscp_getDataCodingString strResult pCode dataSize =
     (case pCode of None \<Rightarrow> Some (False, strResult)
      | Some code \<Rightarrow> map_option (\<lambda>s. (True, s)) (coding_string code dataSize))"

definition vscp_getMeasurementAsFloat :: "u8 list ptr \<Rightarrow> u8 \<Rightarrow> u32 safe" where
  "vscp_getMeasurementAsFloat pNorm len =
     (case pNorm of None \<Rightarrow> Some 0
      | Some d \<Rightarrow> if len \<ge> 5 then map_option (\<lambda>bs. le_word (rev bs)) (rd_block d 1 4) else Some 0)"

section \<open>Measurements as text\<close>

text \<open>The bytes behind the coding byte; \<open>n\<close> is the number of data bytes with it, which may be negative.\<close>

definition coded_bytes :: "u8 list \<Rightarrow> nat \<Rightarrow> int \<Rightarrow> u8 list safe" where
  "coded_bytes d offset n = rd_block d (offset + 1) (nat (n - 1))"

definition bits_text :: "u8 \<Rightarrow> string" where
  "bits_text b = map (\<lambda>j. if bit b j then CHR ''1'' else CHR ''0'') [7, 6, 5, 4, 3, 2, 1, 0] @ '' ''"

text \<open>\<open>d\<close> is the data of the event, \<open>sz\<close> its size, \<open>offset\<close> the place of the coding byte. The branch for
  single precision values reads from the start of the data.\<close>

definition coded_text :: "fpu \<Rightarrow> u8 list \<Rightarrow> nat \<Rightarrow> nat \<Rightarrow> string safe" where
  "coded_text fp d sz offset = do {
     coding \<leftarrow> rd d offset;
     let n = int sz - int offset;
     let type = 0x07 AND drop_bit 5 coding;
     if type = 0 then map_option (\<lambda>bs. concat (map bits_text bs)) (coded_bytes d offset n)
     else if type = 1
     then map_option (\<lambda>bs. join (CHR '','') (map (\<lambda>b. fmt_d (unat b)) bs)) (coded_bytes d offset n)
     else if type = 2
     then do {
       bs \<leftarrow> coded_bytes d offset n;
       strData \<leftarrow> wr_block (replicate 9 0) 0 bs;
       c_string strData }
     else if type = 3
     then map_option (\<lambda>v. fmt_0f fp (of_integer fp (sint v)))
            (vscp_getDataCodingInteger (Some (drop offset d)) (of_int n))
     else if type = 4
     then map_option (fmt_f fp) (vscp_getDataCodingNormalizedInteger fp (Some (drop offset d)) (of_int n))
     else if type = 5
     then map_option (\<lambda>v. fmt_g fp (single_to_double fp v)) (vscp_getMeasurementAsFloat (Some d) (of_nat sz))
     else Some [] }"

text \<open>
  The eight bytes of a Level II floating point value after the loop that is meant to reverse them.
\<close>

definition swapped_in_place :: "u8 list \<Rightarrow> u8 list" where
  "swapped_in_place buf = foldl (\<lambda>buf i. buf[i := buf ! (7 - i)]) buf [7, 6, 5, 4, 3, 2, 1]"

definition string_class_text :: "u8 list \<Rightarrow> nat \<Rightarrow> string safe" where
  "string_class_text d sz =
     (if sz < 4 then None
      else do {
        bs \<leftarrow> rd_block d 4 (sz - 4);
        buf \<leftarrow> wr_block (replicate 512 0) 0 bs;
        c_string buf })"

definition single_text :: "fpu \<Rightarrow> u8 list \<Rightarrow> nat \<Rightarrow> string safe" where
  "single_text fp d off = map_option (\<lambda>bs. fmt_f fp (single_to_double fp (le_word bs))) (rd_block d off 4)"

definition double_text :: "fpu \<Rightarrow> u8 list \<Rightarrow> nat \<Rightarrow> string safe" where
  "double_text fp d off = map_option (\<lambda>bs. fmt_f fp (le_word bs)) (rd_block d off 8)"

text \<open>The result \<open>False\<close> comes with what the string holds then.\<close>

definition vscp_getMeasurementAsString :: "fpu \<Rightarrow> string \<Rightarrow> vscpEvent ptr \<Rightarrow> (bool \<times> string) safe" where
  "vscp_getMeasurementAsString fp strValue pev =
     (case pev of None \<Rightarrow> Some (False, strValue)
      | Some ev \<Rightarrow> (case pdata ev of None \<Rightarrow> Some (False, strValue)
      | Some d \<Rightarrow>
         let c = vscp_class ev; sz = unat (sizeData ev);
             found = map_option (\<lambda>s. (True, s)); refused = Some (False, [])
         in if c = VSCP_CLASS2_MEASUREMENT_STR then found (string_class_text d sz)
            else if c = VSCP_CLASS2_MEASUREMENT_FLOAT
            then (if sz \<noteq> 12 then refused
                  else found (map_option (\<lambda>bs. fmt_f fp (le_word (swapped_in_place bs))) (rd_block d 4 8)))
            else if c = VSCP_CLASS1_MEASUREMENT32 then (if sz \<noteq> 4 then refused else found (single_text fp d 0))
            else if c = VSCP_CLASS2_LEVEL1_MEASUREMENT32
            then (if sz \<noteq> 16 + 4 then refused else found (single_text fp d 16))
            else if c = VSCP_CLASS1_MEASUREMENT64 then (if sz \<noteq> 8 then refused else found (double_text fp d 0))
            else if c = VSCP_CLASS2_LEVEL1_MEASUREMENT64
            then (if sz \<noteq> 16 + 8 then refused else found (double_text fp d 16))
            else if c \<in> set ([VSCP_CLASS1_MEASUREMENT, VSCP_CLASS1_DATA, VSCP_CLASS2_LEVEL1_MEASUREMENT] @ zone_classes)
            then (let offset = (if c \<ge> VSCP_CLASS2_LEVEL1_PROTOCOL then 16 else 0)
                  in if int sz - int offset < 2 then refused
                     else found (coded_text fp d sz (if c \<in> set zone_classes then offset + 3 else offset)))
            else refused))"

definition vscp_getMeasurementFloat64AsString ::
  "fpu \<Rightarrow> string \<Rightarrow> vscpEvent ptr \<Rightarrow> (bool \<times> string) safe" where
  "vscp_getMeasurementFloat64AsString fp strValue pev = do {
     ev \<leftarrow> pev;
     let offset = (if vscp_class ev \<ge> VSCP_CLASS2_LEVEL1_PROTOCOL then 16 else 0);
     if int (unat (sizeData ev)) - int offset \<noteq> 8 then Some (False, strValue)
     else do { d \<leftarrow> pdata ev; s \<leftarrow> double_text fp d offset; Some (True, s) } }"

text \<open>The event that is built is dropped; only the check and the copy are left.\<close>

definition vscp_getMeasurementWithZoneAsString :: "vscpEvent ptr \<Rightarrow> bool safe" where
  "vscp_getMeasurementWithZoneAsString pev = do {
     ev \<leftarrow> pev;
     let offset = (if vscp_class ev \<ge> VSCP_CLASS2_LEVEL1_PROTOCOL \<and> vscp_class ev < VSCP_CLASS2_PROTOCOL then 16 else 0);
     let sz = unat (sizeData ev);
     if int sz - int offset < 5 then Some False
     else do { d \<leftarrow> pdata ev; bs \<leftarrow> rd_block d (offset + 3) (sz - offset - 3); Some True } }"

section \<open>Measurements as numbers\<close>

text \<open>\<open>stack\<close> is the content of the uninitialised buffer of 512 characters.\<close>

definition vscp_getMeasurementAsDouble ::
  "fpu \<Rightarrow> u8 list \<Rightarrow> u64 ptr \<Rightarrow> vscpEvent ptr \<Rightarrow> (bool \<times> u64 ptr) safe" where
  "vscp_getMeasurementAsDouble fp stack pvalue pev =
     (case pev of None \<Rightarrow> Some (False, pvalue)
      | Some ev \<Rightarrow> (case pvalue of None \<Rightarrow> Some (False, pvalue)
      | Some _ \<Rightarrow>
         let c = vscp_class ev; sz = unat (sizeData ev);
             number = (\<lambda>s. case parsed fp s of None \<Rightarrow> (False, pvalue) | Some v \<Rightarrow> (True, Some v))
         in if c \<in> {VSCP_CLASS1_MEASUREMENT, VSCP_CLASS1_DATA, VSCP_CLASS2_LEVEL1_MEASUREMENT,
                    VSCP_CLASS1_MEASUREZONE, VSCP_CLASS1_SETVALUEZONE}
            then map_option (\<lambda>(ok, s). if ok then number s else (False, pvalue))
                   (vscp_getMeasurementAsString fp [] (Some ev))
            else if c = VSCP_CLASS1_MEASUREMENT64
            then map_option (\<lambda>(ok, s). if ok then number s else (False, pvalue))
                   (vscp_getMeasurementFloat64AsString fp [] (Some ev))
            else if c = VSCP_CLASS2_MEASUREMENT_STR
            then (case pdata ev of None \<Rightarrow> Some (False, pvalue)
                  | Some d \<Rightarrow>
                      if sz = 0 then Some (False, pvalue)
                      else if sz < 4 then None
                      else do {
                        bs \<leftarrow> rd_block d 4 (sz - 4);
                        buf \<leftarrow> wr_block stack 0 bs;
                        s \<leftarrow> c_string buf;
                        Some (number s) })
            else if c = VSCP_CLASS2_MEASUREMENT_FLOAT
            then do { d \<leftarrow> pdata ev; bs \<leftarrow> rd_block d 4 8; Some (True, Some (le_word bs)) }
            else Some (False, pvalue)))"

text \<open>The routines for events with embedded data convert the event first; \<open>fresh\<close> is the memory of the new event.\<close>

definition with_event :: "vscpEvent \<Rightarrow> vscpEventEx ptr \<Rightarrow> 'a \<Rightarrow> (vscpEvent ptr \<Rightarrow> 'a safe) \<Rightarrow> 'a safe" where
  "with_event fresh pex refused f = do {
     (ok, pev) \<leftarrow> vscp_convertEventExToEvent (Some ((vscp_newEvent fresh FRAME_VERSION_UNIX_NS)\<lparr>pdata := None, sizeData := 0\<rparr>)) pex;
     if ok then f pev else Some refused }"

definition vscp_getMeasurementAsDoubleEx ::
  "fpu \<Rightarrow> u8 list \<Rightarrow> vscpEvent \<Rightarrow> u64 ptr \<Rightarrow> vscpEventEx ptr \<Rightarrow> (bool \<times> u64 ptr) safe" where
  "vscp_getMeasurementAsDoubleEx fp stack fresh pvalue pex =
     with_event fresh pex (False, pvalue) (vscp_getMeasurementAsDouble fp stack pvalue)"

definition vscp_isMeasurementEx :: "vscpEvent \<Rightarrow> vscpEventEx ptr \<Rightarrow> bool safe" where
  "vscp_isMeasurementEx fresh pex = with_event fresh pex False vscp_isMeasurement"

section \<open>Unit, sensor index and zones\<close>

definition VSCP_ERROR_ERROR :: int where "VSCP_ERROR_ERROR = - 1"

text \<open>The place of the data in an event: behind the GUID for the classes 512 to 1023.\<close>

definition guid_offset :: "u16 \<Rightarrow> nat" where
  "guid_offset c = (if c \<ge> VSCP_CLASS2_LEVEL1_PROTOCOL \<and> c < VSCP_CLASS2_PROTOCOL then 16 else 0)"

definition float_classes :: "u16 set" where
  "float_classes = {VSCP_CLASS1_MEASUREMENT32, VSCP_CLASS2_LEVEL1_MEASUREMENT32, VSCP_CLASS1_MEASUREMENT64,
     VSCP_CLASS2_LEVEL1_MEASUREMENT64}"

definition plain_classes :: "u16 set" where
  "plain_classes = {VSCP_CLASS1_MEASUREMENT, VSCP_CLASS1_DATA, VSCP_CLASS2_LEVEL1_MEASUREMENT}"

definition byte_result :: "u8 safe \<Rightarrow> int safe" where "byte_result = map_option uint"

text \<open>A byte of the head of a Level II measurement.\<close>

definition level2_byte :: "vscpEvent \<Rightarrow> nat \<Rightarrow> int safe" where
  "level2_byte ev i =
     (if pdata ev = None
         \<or> (if vscp_class ev = VSCP_CLASS2_MEASUREMENT_STR then sizeData ev < 4 else sizeData ev \<noteq> 12)
      then Some VSCP_ERROR_ERROR else byte_result (data_at ev i))"

definition vscp_getMeasurementUnit :: "vscpEvent ptr \<Rightarrow> int safe" where
  "vscp_getMeasurementUnit pev = do {
     ev \<leftarrow> pev;
     let c = vscp_class ev;
        let offset = guid_offset (vscp_class ev);
     if c \<in> plain_classes \<or> c \<in> set zone_classes
     then (if pdata ev = None \<or> unat (sizeData ev) < offset + 1 then Some VSCP_ERROR_ERROR
           else byte_result (map_option VSCP_DATACODING_UNIT (data_at ev offset)))
     else if c \<in> float_classes then Some 0
     else if c \<in> {VSCP_CLASS2_MEASUREMENT_STR, VSCP_CLASS2_MEASUREMENT_FLOAT} then level2_byte ev 3
     else Some VSCP_ERROR_ERROR }"

text \<open>The common shape of the three readers of the event head.\<close>

definition without_data :: "vscpEvent ptr \<Rightarrow> bool" where
  "without_data pev \<longleftrightarrow> (case pev of None \<Rightarrow> True | Some ev \<Rightarrow> pdata ev = None \<or> sizeData ev = 0)"

definition vscp_getMeasurementSensorIndex :: "vscpEvent ptr \<Rightarrow> int safe" where
  "vscp_getMeasurementSensorIndex pev =
     (if without_data pev then Some (- 1)
      else do {
        ev \<leftarrow> pev;
        let c = vscp_class ev;
        let offset = guid_offset (vscp_class ev);
        if c \<in> plain_classes then byte_result (map_option VSCP_DATACODING_INDEX (data_at ev offset))
        else if c \<in> set zone_classes
        then (if unat (sizeData ev) \<ge> offset + 3 then Some (- 1) else byte_result (data_at ev offset))
        else if c \<in> float_classes then Some 0
        else if c \<in> {VSCP_CLASS2_MEASUREMENT_STR, VSCP_CLASS2_MEASUREMENT_FLOAT} then level2_byte ev 0
        else Some VSCP_ERROR_ERROR })"

definition vscp_getMeasurementZone :: "vscpEvent ptr \<Rightarrow> int safe" where
  "vscp_getMeasurementZone pev =
     (if without_data pev then Some (- 1)
      else do {
        ev \<leftarrow> pev;
        let c = vscp_class ev;
        let offset = guid_offset (vscp_class ev);
        if c \<in> plain_classes then Some 0
        else if c \<in> set zone_classes
        then (if unat (sizeData ev) \<ge> offset + 3 then Some 0 else byte_result (data_at ev (offset + 1)))
        else if c \<in> float_classes then Some 0
        else if c \<in> {VSCP_CLASS2_MEASUREMENT_STR, VSCP_CLASS2_MEASUREMENT_FLOAT} then level2_byte ev 2
        else Some VSCP_ERROR_ERROR })"

definition vscp_getMeasurementSubZone :: "vscpEvent ptr \<Rightarrow> int safe" where
  "vscp_getMeasurementSubZone pev =
     (if without_data pev then Some (- 1)
      else do {
        ev \<leftarrow> pev;
        let c = vscp_class ev;
        if c \<in> plain_classes \<or> c \<in> set zone_classes then Some 0
        else if c \<in> float_classes then Some 0
        else if c \<in> {VSCP_CLASS2_MEASUREMENT_STR, VSCP_CLASS2_MEASUREMENT_FLOAT} then level2_byte ev 2
        else Some VSCP_ERROR_ERROR })"

definition vscp_getMeasurementUnitEx :: "vscpEvent \<Rightarrow> vscpEventEx ptr \<Rightarrow> int safe" where
  "vscp_getMeasurementUnitEx fresh pex = with_event fresh pex 0 vscp_getMeasurementUnit"

definition vscp_getMeasurementSensorIndexEx :: "vscpEvent \<Rightarrow> vscpEventEx ptr \<Rightarrow> int safe" where
  "vscp_getMeasurementSensorIndexEx fresh pex = with_event fresh pex 0 vscp_getMeasurementSensorIndex"

definition vscp_getMeasurementZoneEx :: "vscpEvent \<Rightarrow> vscpEventEx ptr \<Rightarrow> int safe" where
  "vscp_getMeasurementZoneEx fresh pex = with_event fresh pex (- 1) vscp_getMeasurementZone"

definition vscp_getMeasurementSubZoneEx :: "vscpEvent \<Rightarrow> vscpEventEx ptr \<Rightarrow> int safe" where
  "vscp_getMeasurementSubZoneEx fresh pex = with_event fresh pex 0 vscp_getMeasurementSubZone"

section \<open>Coding values\<close>

definition VSCP_DATACODING_STRING :: u8 where "VSCP_DATACODING_STRING = 0x40"
definition VSCP_DATACODING_INTEGER :: u8 where "VSCP_DATACODING_INTEGER = 0x60"
definition VSCP_DATACODING_NORMALIZED :: u8 where "VSCP_DATACODING_NORMALIZED = 0x80"
definition VSCP_DATACODING_SINGLE :: u8 where "VSCP_DATACODING_SINGLE = 0xA0"

text \<open>How many digits follow the first point, or else the first comma, of a number.\<close>

definition decimals :: "string \<Rightarrow> nat" where
  "decimals s =
     (case str_find s (CHR ''.'') of Some pos \<Rightarrow> length s - pos - 1
      | None \<Rightarrow> (case str_find s (CHR '','') of Some pos \<Rightarrow> length s - pos - 1 | None \<Rightarrow> 0))"

text \<open>The number of data bytes that hold a normalised integer with room for its sign; too large values have none.\<close>

definition normalized_size :: "u64 \<Rightarrow> nat option" where
  "normalized_size v =
     (if v < 0x80 then Some 1 else if v < 0x8000 then Some 2 else if v < 0x800000 then Some 3
      else if v < 0x80000000 then Some 4 else if v < 0x8000000000 then Some 5
      else if v < 0x800000000000 then Some 6 else None)"

text \<open>
  \<^verbatim>\<open>%g\<close> is written to a buffer of 128 characters. The comparisons of the code convert to \<^verbatim>\<open>double\<close>, which
  is exact up to 2 to the power 53 and monotone, so that they are comparisons of integers.
\<close>

definition vscp_convertFloatToNormalizedEventData ::
  "fpu \<Rightarrow> u8 list ptr \<Rightarrow> u16 ptr \<Rightarrow> u64 \<Rightarrow> u8 \<Rightarrow> u8 \<Rightarrow> (bool \<times> u8 list ptr \<times> u16 ptr) safe" where
  "vscp_convertFloatToNormalizedEventData fp p_data p_size val unit sensoridx =
     (case p_data of None \<Rightarrow> Some (False, p_data, p_size)
      | Some d \<Rightarrow>
         if p_size = None then Some (False, p_data, p_size)
         else let ndigits = decimals (take 127 (fmt_g fp val));
                  val64 = truncated fp (times_pow10 fp val ndigits)
              in case normalized_size val64 of None \<Rightarrow> Some (False, p_data, Some 0)
                 | Some n \<Rightarrow> do {
                     d \<leftarrow> wr_block d 2 (drop (8 - n) (be64_bytes val64));
                     d \<leftarrow> wr_block d 0 [VSCP_DATACODING_NORMALIZED + push_bit 3 (unit AND 3)
                                        + (sensoridx AND VSCP_MASK_DATACODING_INDEX),
                                      0x80 + of_nat ndigits];
                     Some (True, Some d, Some (of_nat (n + 2))) })"

definition vscp_convertFloatToFloatEventData ::
  "fpu \<Rightarrow> u8 list ptr \<Rightarrow> u16 ptr \<Rightarrow> u32 \<Rightarrow> u8 \<Rightarrow> u8 \<Rightarrow> (bool \<times> u8 list ptr \<times> u16 ptr) safe" where
  "vscp_convertFloatToFloatEventData fp p_data p_size val unit sensoridx =
     (case p_data of None \<Rightarrow> Some (False, p_data, p_size)
      | Some d \<Rightarrow>
         if p_size = None \<or> \<not> in_single_range fp val then Some (False, p_data, p_size)
         else do {
           d \<leftarrow> wr_block d 0 ((VSCP_DATACODING_SINGLE + push_bit 3 unit + sensoridx) # le_bytes val);
           Some (True, Some d, Some 5) })"

text \<open>The loop reads beyond the value by as many bytes as it skipped, and stores every byte at the same place.\<close>

fun store_significant :: "u8 list \<Rightarrow> nat \<Rightarrow> nat \<Rightarrow> nat \<Rightarrow> u8 list \<Rightarrow> u16 \<Rightarrow> (u8 list \<times> u16) safe" where
  "store_significant p nZeros i 0 d psize = Some (d, psize)"
| "store_significant p nZeros i (Suc n) d psize = do {
     b \<leftarrow> rd p (i + nZeros);
     d \<leftarrow> wr_block d 1 [b];
     store_significant p nZeros (i + 1) n d (psize + 1) }"

definition vscp_convertIntegerToNormalizedEventData ::
  "u8 list ptr \<Rightarrow> u16 ptr \<Rightarrow> u64 \<Rightarrow> u8 \<Rightarrow> u8 \<Rightarrow> (bool \<times> u8 list ptr \<times> u16 ptr) safe" where
  "vscp_convertIntegerToNormalizedEventData p_data p_size val64 unit sensoridx =
     (let p = le_bytes val64; nZeros = length (takeWhile (\<lambda>b. b = 0) p)
      in if p_size = None then None
         else if nZeros = 8 then Some (True, p_data, Some 1)
         else do {
           d \<leftarrow> p_data;
           (d, n) \<leftarrow> store_significant p nZeros nZeros (8 - nZeros) d 1;
           Some (True, Some d, Some n) })"

section \<open>Building measurement events\<close>

text \<open>Integers: the fewest bytes that hold the value without a sign, lowest byte first.\<close>

definition integer_size :: "u64 \<Rightarrow> nat option" where
  "integer_size v =
     (if v \<le> 0xff then Some 1 else if v \<le> 0xffff then Some 2 else if v \<le> 0xffffff then Some 3
      else if v \<le> 0xffffffff then Some 4 else if v \<le> 0xffffffffff then Some 5
      else if v \<le> 0xffffffffffff then Some 6 else if v \<le> 0xffffffffffffff then Some 7 else None)"

definition integer_coding :: "u8 \<Rightarrow> u8 \<Rightarrow> u8" where
  "integer_coding unit sensoridx = VSCP_DATACODING_INTEGER + push_bit 3 unit + sensoridx"

text \<open>Old data are released first; \<open>fresh\<close> is the memory of the new data.\<close>

definition vscp_makeIntegerMeasurementEvent ::
  "u8 list \<Rightarrow> vscpEvent ptr \<Rightarrow> u64 \<Rightarrow> u8 \<Rightarrow> u8 \<Rightarrow> (bool \<times> vscpEvent ptr) safe" where
  "vscp_makeIntegerMeasurementEvent fresh pev val unit sensoridx =
     (case pev of None \<Rightarrow> Some (False, None)
      | Some ev \<Rightarrow>
         let ev = (if pdata ev \<noteq> None then ev\<lparr>pdata := None, sizeData := 0\<rparr> else ev)
         in case integer_size val of None \<Rightarrow> Some (False, Some ev)
            | Some n \<Rightarrow> do {
                let data = integer_coding unit sensoridx # take n (le_bytes val);
                let ev = ev\<lparr>sizeData := of_nat (n + 1)\<rparr>;
                if vscp_class ev = VSCP_CLASS1_MEASUREMENT then Some (True, Some (ev\<lparr>pdata := Some data\<rparr>))
                else if vscp_class ev = VSCP_CLASS2_LEVEL1_MEASUREMENT
                then do {
                  d \<leftarrow> wr_block (take (16 + n + 1) fresh) 16 data;
                  Some (True, Some (ev\<lparr>pdata := Some d\<rparr>)) }
                else Some (False, Some ev) })"

text \<open>The coding byte and the one byte values go to the start of the data, longer values behind the GUID.\<close>

definition vscp_makeIntegerMeasurementEventEx ::
  "vscpEventEx ptr \<Rightarrow> u64 \<Rightarrow> u8 \<Rightarrow> u8 \<Rightarrow> (bool \<times> vscpEventEx ptr) safe" where
  "vscp_makeIntegerMeasurementEventEx pex val unit sensoridx =
     (case pex of None \<Rightarrow> Some (False, None)
      | Some ex \<Rightarrow>
         if xvscp_class ex \<noteq> VSCP_CLASS1_MEASUREMENT \<and> xvscp_class ex \<noteq> VSCP_CLASS2_LEVEL1_MEASUREMENT
         then Some (False, Some ex)
         else do {
           let offset = (if xvscp_class ex = VSCP_CLASS2_LEVEL1_MEASUREMENT then 16 else 0);
           d \<leftarrow> wr_block (xdata ex) 0 [integer_coding unit sensoridx];
           (case integer_size val of None \<Rightarrow> Some (False, Some (ex\<lparr>xdata := d\<rparr>))
            | Some n \<Rightarrow> do {
                d \<leftarrow> wr_block d (if n = 1 then 1 else 1 + offset) (take n (le_bytes val));
                Some (True, Some (ex\<lparr>xdata := d, xsizeData := of_nat (n + 1)\<rparr>)) }) })"

text \<open>The data must not have been allocated before; a Level I event over Level II has room for its GUID.\<close>

definition measurement_room :: "vscpEvent \<Rightarrow> nat option" where
  "measurement_room ev =
     (if pdata ev \<noteq> None then None
      else if vscp_class ev = VSCP_CLASS1_MEASUREMENT then Some 0
      else if vscp_class ev = VSCP_CLASS2_LEVEL1_MEASUREMENT then Some 16 else None)"

definition vscp_makeFloatMeasurementEvent ::
  "fpu \<Rightarrow> u8 list \<Rightarrow> vscpEvent ptr \<Rightarrow> u32 \<Rightarrow> u8 \<Rightarrow> u8 \<Rightarrow> (bool \<times> vscpEvent ptr) safe" where
  "vscp_makeFloatMeasurementEvent fp fresh pev val unit sensoridx =
     (case pev of None \<Rightarrow> Some (False, None)
      | Some ev \<Rightarrow> (case measurement_room ev of None \<Rightarrow> Some (False, Some ev)
      | Some offset \<Rightarrow> do {
          let p = take (offset + 5) fresh;
          (ok, d, n) \<leftarrow> vscp_convertFloatToFloatEventData fp (Some (drop offset p)) (Some (sizeData ev)) val unit sensoridx;
          d \<leftarrow> d;
          n \<leftarrow> n;
          Some (ok, Some (ev\<lparr>pdata := Some (take offset p @ d), sizeData := n\<rparr>)) }))"

text \<open>A new event with the head of the old one; the GUID and the data are not taken over when it fails.\<close>

definition event_head_of :: "vscpEvent \<Rightarrow> vscpEventEx \<Rightarrow> vscpEvent" where
  "event_head_of fresh ex =
     (vscp_newEvent fresh FRAME_VERSION_UNIX_NS)\<lparr>pdata := None, head := xhead ex, vscp_class := xvscp_class ex,
       vscp_type := xvscp_type ex, obid := xobid ex, year := xyear ex, month := xmonth ex,
       timestamp_ns := tb_copy_fields (xtimestamp_ns ex) (timestamp_ns fresh), GUID := xGUID ex\<rparr>"

definition vscp_makeFloatMeasurementEventEx ::
  "fpu \<Rightarrow> u8 list \<Rightarrow> vscpEvent \<Rightarrow> vscpEventEx ptr \<Rightarrow> u32 \<Rightarrow> u8 \<Rightarrow> u8 \<Rightarrow> (bool \<times> vscpEventEx ptr) safe" where
  "vscp_makeFloatMeasurementEventEx fp fresh fresh_event pex val unit sensoridx =
     (case pex of None \<Rightarrow> Some (False, None)
      | Some ex \<Rightarrow> do {
          (ok, pev) \<leftarrow> vscp_makeFloatMeasurementEvent fp fresh (Some (event_head_of fresh_event ex)) val unit sensoridx;
          if ok then vscp_convertEventToEventEx (Some ex) pev else Some (False, Some ex) })"

definition vscp_makeStringMeasurementEvent ::
  "fpu \<Rightarrow> u8 list \<Rightarrow> vscpEvent ptr \<Rightarrow> u64 \<Rightarrow> u8 \<Rightarrow> u8 \<Rightarrow> (bool \<times> vscpEvent ptr) safe" where
  "vscp_makeStringMeasurementEvent fp fresh pev val unit sensoridx = do {
     ev \<leftarrow> pev;
     let str = fmt_f fp val;
     let total = (if length str > 7 then 8 else length str + 1);
     let ev = ev\<lparr>sizeData := of_nat total\<rparr>;
     (case measurement_room ev of None \<Rightarrow> Some (False, Some ev)
      | Some offset \<Rightarrow> do {
          d \<leftarrow> wr_block (take (offset + total + 1) fresh) offset
                 ((VSCP_DATACODING_STRING + push_bit 3 (unit AND 3) + (sensoridx AND 7)) # str_bytes (take (total - 1) str));
          Some (True, Some (ev\<lparr>pdata := Some d\<rparr>)) }) }"

text \<open>Building on a converted event, which is converted back when that succeeded.\<close>

definition through_event ::
  "vscpEvent \<Rightarrow> vscpEventEx ptr \<Rightarrow> (vscpEvent ptr \<Rightarrow> (bool \<times> vscpEvent ptr) safe) \<Rightarrow> (bool \<times> vscpEventEx ptr) safe" where
  "through_event fresh pex f =
     (case pex of None \<Rightarrow> Some (False, None)
      | Some ex \<Rightarrow>
          with_event fresh pex (False, pex)
            (\<lambda>pev. do { (ok, pev) \<leftarrow> f pev;
                        if ok then vscp_convertEventToEventEx pex pev else Some (False, pex) }))"

definition vscp_makeStringMeasurementEventEx ::
  "fpu \<Rightarrow> u8 list \<Rightarrow> vscpEvent \<Rightarrow> vscpEventEx ptr \<Rightarrow> u64 \<Rightarrow> u8 \<Rightarrow> u8 \<Rightarrow> (bool \<times> vscpEventEx ptr) safe" where
  "vscp_makeStringMeasurementEventEx fp fresh fresh_event pex val unit sensoridx =
     through_event fresh_event pex (\<lambda>pev. vscp_makeStringMeasurementEvent fp fresh pev val unit sensoridx)"

definition vscp_makeLevel2FloatMeasurementEvent ::
  "vscpEvent ptr \<Rightarrow> u16 \<Rightarrow> u64 \<Rightarrow> u8 \<Rightarrow> u8 \<Rightarrow> u8 \<Rightarrow> u8 \<Rightarrow> bool \<times> vscpEvent ptr" where
  "vscp_makeLevel2FloatMeasurementEvent pev vscp_type' val unit sensoridx zone subzone =
     (case pev of None \<Rightarrow> (False, None)
      | Some ev \<Rightarrow>
         (True, Some (ev\<lparr>vscp_class := VSCP_CLASS2_MEASUREMENT_FLOAT, vscp_type := vscp_type', obid := 0,
                         timestamp_ns := tb_set_timestamp 0 (timestamp_ns ev), sizeData := 12,
                         pdata := Some ([sensoridx, zone, subzone, unit] @ le_bytes val)\<rparr>)))"

definition vscp_makeLevel2FloatMeasurementEventEx ::
  "vscpEvent \<Rightarrow> vscpEventEx ptr \<Rightarrow> u16 \<Rightarrow> u64 \<Rightarrow> u8 \<Rightarrow> u8 \<Rightarrow> u8 \<Rightarrow> u8 \<Rightarrow> (bool \<times> vscpEventEx ptr) safe" where
  "vscp_makeLevel2FloatMeasurementEventEx fresh_event pex vscp_type' val unit sensoridx zone subzone =
     through_event fresh_event pex
       (\<lambda>pev. Some (vscp_makeLevel2FloatMeasurementEvent pev vscp_type' val unit sensoridx zone subzone))"

text \<open>The copy takes as many bytes as the event has, from a string that ends four bytes earlier, to a
  place four bytes behind the start.\<close>

definition vscp_makeLevel2StringMeasurementEvent ::
  "fpu \<Rightarrow> vscpEvent ptr \<Rightarrow> u16 \<Rightarrow> u64 \<Rightarrow> u8 \<Rightarrow> u8 \<Rightarrow> u8 \<Rightarrow> u8 \<Rightarrow> (bool \<times> vscpEvent ptr) safe" where
  "vscp_makeLevel2StringMeasurementEvent fp pev vscp_type' val unit sensoridx zone subzone =
     (case pev of None \<Rightarrow> Some (False, None)
      | Some ev \<Rightarrow> do {
          let strData = str_bytes (takeWhile (\<lambda>c. c \<noteq> NUL) (fmt_f fp val)) @ [0];
          let total = (of_nat (4 + length strData) :: u16);
          let ev = ev\<lparr>vscp_class := VSCP_CLASS2_MEASUREMENT_STR, vscp_type := vscp_type', obid := 0,
                      timestamp_ns := tb_set_timestamp 0 (timestamp_ns ev), GUID := replicate 16 0, sizeData := total\<rparr>;
          d \<leftarrow> wr_block (replicate (unat total) 0) 0 [sensoridx, zone, subzone, unit];
          bs \<leftarrow> rd_block strData 0 (unat total);
          d \<leftarrow> wr_block d 4 bs;
          Some (True, Some (ev\<lparr>pdata := Some d\<rparr>)) })"

definition vscp_makeLevel2StringMeasurementEventEx ::
  "fpu \<Rightarrow> vscpEvent \<Rightarrow> vscpEventEx ptr \<Rightarrow> u16 \<Rightarrow> u64 \<Rightarrow> u8 \<Rightarrow> u8 \<Rightarrow> u8 \<Rightarrow> u8 \<Rightarrow> (bool \<times> vscpEventEx ptr) safe" where
  "vscp_makeLevel2StringMeasurementEventEx fp fresh_event pex vscp_type' val unit sensoridx zone subzone =
     through_event fresh_event pex
       (\<lambda>pev. vscp_makeLevel2StringMeasurementEvent fp pev vscp_type' val unit sensoridx zone subzone)"

section \<open>From Level I to Level II\<close>

text \<open>Where the head of the new event comes from; the branches are tried in the order of the code.\<close>

datatype head_source = From_coding | From_zone_bytes | No_head

definition double_head :: "u16 \<Rightarrow> head_source option" where
  "double_head c =
     (if c \<in> set (x_classes VSCP_CLASS1_MEASUREMENT) then Some From_coding
      else if c \<in> set (x_classes VSCP_CLASS1_MEASUREZONE) then Some No_head
      else if c \<in> set (x_classes VSCP_CLASS1_MEASUREMENT32) then Some No_head
      else if c \<in> set (x_classes VSCP_CLASS1_MEASUREZONE) then Some From_zone_bytes
      else if c \<in> set (x_classes VSCP_CLASS1_SETVALUEZONE) then Some From_zone_bytes
      else None)"

definition string_head :: "u16 \<Rightarrow> head_source option" where
  "string_head c =
     (if c \<in> set (x_classes VSCP_CLASS1_MEASUREMENT) then Some From_coding
      else if c \<in> set (x_classes VSCP_CLASS1_MEASUREMENT64) then Some No_head
      else if c \<in> set (x_classes VSCP_CLASS1_MEASUREMENT32) then Some No_head
      else if c \<in> set (x_classes VSCP_CLASS1_MEASUREZONE) then Some From_zone_bytes
      else if c \<in> set (x_classes VSCP_CLASS1_SETVALUEZONE) then Some From_zone_bytes
      else None)"

definition level2_head :: "head_source \<Rightarrow> u8 list \<Rightarrow> u8 list safe" where
  "level2_head source d =
     (case source of
        No_head \<Rightarrow> Some [0, 0, 0, 0]
      | From_coding \<Rightarrow>
          map_option (\<lambda>b. [b AND VSCP_MASK_DATACODING_INDEX, 0, 0, drop_bit 3 (b AND VSCP_MASK_DATACODING_UNIT)]) (rd d 0)
      | From_zone_bytes \<Rightarrow> map_option (\<lambda>bs. bs @ [0]) (rd_block d 0 3))"

text \<open>The macro swaps the integer part of the value, not the bytes of the number.\<close>

definition swapped_double :: "fpu \<Rightarrow> u64 \<Rightarrow> u64" where
  "swapped_double fp v = of_integer fp (uint (be64_of (rev (be64_bytes (truncated fp v)))))"

definition vscp_convertLevel1MeasurementToLevel2Double ::
  "fpu \<Rightarrow> u8 list \<Rightarrow> u64 \<Rightarrow> vscpEvent ptr \<Rightarrow> (bool \<times> vscpEvent ptr) safe" where
  "vscp_convertLevel1MeasurementToLevel2Double fp stack uninitialised pev =
     (case pev of None \<Rightarrow> Some (False, None)
      | Some ev \<Rightarrow> (case pdata ev of None \<Rightarrow> Some (False, pev)
      | Some d \<Rightarrow> do {
          measurement \<leftarrow> vscp_isMeasurement pev;
          if \<not> measurement then Some (False, pev)
          else do {
            (ok, v) \<leftarrow> vscp_getMeasurementAsDouble fp stack (Some uninitialised) pev;
            v \<leftarrow> v;
            (case (if ok then double_head (vscp_class ev) else None) of None \<Rightarrow> Some (False, pev)
             | Some source \<Rightarrow> do {
                 h \<leftarrow> level2_head source d;
                 Some (True, Some (ev\<lparr>vscp_class := VSCP_CLASS2_MEASUREMENT_FLOAT, sizeData := 4 + 8,
                                      pdata := Some (h @ le_bytes (swapped_double fp v))\<rparr>)) }) } }))"

definition vscp_convertLevel1MeasurementToLevel2DoubleEx ::
  "fpu \<Rightarrow> u8 list \<Rightarrow> u64 \<Rightarrow> vscpEvent \<Rightarrow> vscpEventEx ptr \<Rightarrow> (bool \<times> vscpEventEx ptr) safe" where
  "vscp_convertLevel1MeasurementToLevel2DoubleEx fp stack uninitialised fresh_event pex =
     through_event fresh_event pex (vscp_convertLevel1MeasurementToLevel2Double fp stack uninitialised)"

text \<open>The value is copied with or without its terminating zero, which the size does not count.\<close>

definition vscp_convertLevel1MeasurementToLevel2String ::
  "fpu \<Rightarrow> vscpEvent ptr \<Rightarrow> (bool \<times> vscpEvent ptr) safe" where
  "vscp_convertLevel1MeasurementToLevel2String fp pev =
     (case pev of None \<Rightarrow> Some (False, None)
      | Some ev \<Rightarrow> (case pdata ev of None \<Rightarrow> Some (False, pev)
      | Some d \<Rightarrow> do {
          measurement \<leftarrow> vscp_isMeasurement pev;
          if \<not> measurement then Some (False, pev)
          else do {
            (ok, strval) \<leftarrow> vscp_getMeasurementAsString fp [] pev;
            if \<not> ok \<or> 4 + length strval + 1 > VSCP_LEVEL2_MAXDATA then Some (False, pev)
            else (case string_head (vscp_class ev) of None \<Rightarrow> Some (False, pev)
             | Some source \<Rightarrow> do {
                 h \<leftarrow> level2_head source d;
                 Some (True, Some (ev\<lparr>vscp_class := VSCP_CLASS2_MEASUREMENT_STR, sizeData := 4 + of_nat (length strval),
                                      pdata := Some (h @ str_bytes strval @ [0])\<rparr>)) }) } }))"

definition vscp_convertLevel1MeasurementToLevel2StringEx ::
  "fpu \<Rightarrow> vscpEvent \<Rightarrow> vscpEventEx ptr \<Rightarrow> (bool \<times> vscpEventEx ptr) safe" where
  "vscp_convertLevel1MeasurementToLevel2StringEx fp fresh_event pex =
     through_event fresh_event pex (vscp_convertLevel1MeasurementToLevel2String fp)"

section \<open>Big-endian numbers\<close>

text \<open>The value of bytes, highest first, without and with sign (two's complement).\<close>

definition be_unsigned :: "u8 list \<Rightarrow> int" where
  "be_unsigned bs = foldl (\<lambda>v b. v * 256 + uint b) 0 bs"

definition be_signed :: "u8 list \<Rightarrow> int" where
  "be_signed bs = (if 256 ^ length bs \<le> 2 * be_unsigned bs then be_unsigned bs - 256 ^ length bs else be_unsigned bs)"

lemma be_fold: "foldl (\<lambda>v b. v * 256 + uint b) i bs = i * 256 ^ length bs + be_unsigned bs"
  unfolding be_unsigned_def
proof (induction bs arbitrary: i)
  case (Cons b bs)
  let ?f = "foldl (\<lambda>v b. v * 256 + uint b)"
  have "?f i (b # bs) = ?f (i * 256 + uint b) bs" by simp
  also have "\<dots> = (i * 256 + uint b) * 256 ^ length bs + ?f 0 bs" by (rule Cons.IH)
  also have "\<dots> = i * 256 ^ length (b # bs) + (uint b * 256 ^ length bs + ?f 0 bs)" by (simp add: distrib_right)
  also have "uint b * 256 ^ length bs + ?f 0 bs = ?f (uint b) bs" by (rule Cons.IH [symmetric])
  finally show ?case by simp
qed simp

lemma be_unsigned_Cons [simp]: "be_unsigned (b # bs) = uint b * 256 ^ length bs + be_unsigned bs"
  unfolding be_unsigned_def [of "b # bs"] by (simp add: be_fold [of "uint b"])

lemma be_unsigned_Nil [simp]: "be_unsigned [] = 0"
  by (simp add: be_unsigned_def)

lemma be_unsigned_bounds: "0 \<le> be_unsigned bs \<and> be_unsigned bs < 256 ^ length bs"
proof (induction bs)
  case (Cons b bs)
  have b: "0 \<le> uint b" "uint b \<le> 255" using uint_bounded [of b] by simp_all
  then have "uint b * 256 ^ length bs \<le> 255 * (256 :: int) ^ length bs" by (intro mult_right_mono) simp_all
  moreover have "0 \<le> uint b * (256 :: int) ^ length bs" using b by simp
  ultimately show ?case using Cons unfolding be_unsigned_Cons length_Cons power_Suc by (intro conjI; linarith)
qed simp

lemma be_unsigned_fill: "be_unsigned (replicate k 0xff @ bs) = 256 ^ (k + length bs) - 256 ^ length bs + be_unsigned bs"
  by (induction k) (simp_all add: power_add)

lemma be_unsigned_zeros: "be_unsigned (replicate k 0 @ bs) = be_unsigned bs"
  by (induction k) simp_all

lemma sign_bit:
  assumes "bs \<noteq> []"
  shows "hd bs AND 0x80 \<noteq> 0 \<longleftrightarrow> 256 ^ length bs \<le> 2 * be_unsigned bs"
proof -
  obtain b cs where bs: "bs = b # cs" using assms by (cases bs) auto
  have "b AND 0x80 \<noteq> 0 \<longleftrightarrow> bit b 7"
  proof -
    have "(0x80 :: u8) = 2 ^ 7" by simp
    then show ?thesis by (simp only: and_exp_eq_0_iff_not_bit not_not)
  qed
  also have "\<dots> \<longleftrightarrow> 128 \<le> uint b"
  proof -
    have "odd (x div 128) \<longleftrightarrow> 128 \<le> x" if "0 \<le> x" "x < 256" for x :: int
      using that int_div_pos_eq [of x 128 1 "x - 128"] by (cases "128 \<le> x") (simp_all add: div_pos_pos_trivial)
    moreover have "0 \<le> uint b" "uint b < 256" using uint_bounded [of b] by simp_all
    ultimately have "odd (uint b div 128) \<longleftrightarrow> 128 \<le> uint b" by blast
    moreover have "bit b 7 \<longleftrightarrow> odd (uint b div 2 ^ 7)"
      unfolding bit_iff_odd [of "uint b", symmetric] by (subst bit_uint_iff) simp
    moreover have "(2 :: int) ^ 7 = 128" by simp
    ultimately show ?thesis by (simp only:)
  qed
  also have "\<dots> \<longleftrightarrow> 256 ^ length bs \<le> 2 * be_unsigned bs"
  proof -
    define P where "P = (256 :: int) ^ length cs"
    define q where "q = uint b * P"
    have "256 ^ length bs = 256 * P" "be_unsigned bs = q + be_unsigned cs" by (simp_all add: bs P_def q_def)
    moreover have "0 \<le> be_unsigned cs" "be_unsigned cs < P" using be_unsigned_bounds [of cs] by (simp_all add: P_def)
    moreover have "128 \<le> uint b \<Longrightarrow> 128 * P \<le> q" "uint b \<le> 127 \<Longrightarrow> q \<le> 127 * P"
      unfolding q_def by (rule mult_right_mono, simp, simp add: P_def)+
    ultimately show ?thesis by linarith
  qed
  finally show ?thesis by (simp add: bs)
qed

lemma be_signed_fold:
  assumes "bs \<noteq> []"
  shows "foldl (\<lambda>v b. v * 256 + uint b) (if hd bs AND 0x80 \<noteq> 0 then - 1 else 0) bs = be_signed bs"
  using sign_bit [OF assms] by (simp add: be_fold be_signed_def)

lemma be_signed_bounds: "bs \<noteq> [] \<Longrightarrow> - (256 ^ length bs) \<le> 2 * be_signed bs \<and> 2 * be_signed bs < 256 ^ length bs"
  using be_unsigned_bounds [of bs] by (simp add: be_signed_def)

lemma fold_words:
  "foldl (\<lambda>w b. push_bit 8 w + ucast b) (word_of_int i :: 'a::len word) bs = word_of_int (foldl (\<lambda>v b. v * 256 + uint b) i bs)"
proof (induction bs arbitrary: i)
  case (Cons b bs)
  show ?case using Cons [of "i * 256 + uint b"] by (simp add: push_bit_eq_mult)
qed simp

text \<open>Bytes joined with \<^verbatim>\<open>|\<close>, as the memory of a word.\<close>

lemma or_eq_plus: "ucast (b :: u8) OR push_bit 8 w = (ucast b + push_bit 8 w :: 'a::len word)"
  by (rule sym, rule disjunctive_add_eq_or, rule bit_word_eqI) (auto simp: bit_simps dest: bit_imp_le_length)

lemma le_word_rev: "(le_word (rev bs) :: 'a::len word) = word_of_int (be_unsigned bs)"
proof -
  have "(le_word (rev bs) :: 'a word) = foldl (\<lambda>w b. push_bit 8 w + ucast b) 0 bs"
    by (simp add: le_word_def foldr_conv_foldl or_eq_plus add.commute)
  also have "\<dots> = word_of_int (be_unsigned bs)" using fold_words [of 0 bs] by (simp add: be_unsigned_def)
  finally show ?thesis .
qed

lemma sint_word_of_int:
  assumes "- (2 ^ (LENGTH('a) - 1)) \<le> i" and "i < 2 ^ (LENGTH('a) - 1)"
  shows "sint (word_of_int i :: 'a::len word) = i"
  using assms by (simp add: sint_sbintrunc' signed_take_bit_int_eq_self)

text \<open>A number with its sign byte repeated in front of it.\<close>

lemma filled_word:
  assumes "bs \<noteq> []" and "8 * (k + length bs) = LENGTH('a)"
  shows "(le_word (rev (replicate k (if hd bs AND 0x80 \<noteq> 0 then 0xff else 0) @ bs)) :: 'a::len word)
     = word_of_int (be_signed bs)"
proof (cases "hd bs AND 0x80 = 0")
  case True
  then show ?thesis
    using sign_bit [OF assms(1)]
    by (simp add: le_word_rev be_unsigned_zeros be_signed_def del: rev_append rev_replicate)
next
  case False
  have "(256 :: int) ^ (k + length bs) = 2 ^ LENGTH('a)" by (simp add: assms(2) [symmetric] power_mult power_add)
  then have z: "word_of_int (256 ^ (k + length bs)) = (0 :: 'a word)" by (simp add: word_of_int_2p_len)
  have "(le_word (rev (replicate k 0xff @ bs)) :: 'a word)
      = word_of_int (256 ^ (k + length bs)) + word_of_int (be_unsigned bs - 256 ^ length bs)"
    by (simp add: le_word_rev be_unsigned_fill del: rev_append rev_replicate)
  also have "\<dots> = word_of_int (be_signed bs)"
    using False sign_bit [OF assms(1)] unfolding z by (simp add: be_signed_def)
  finally show ?thesis using False by simp
qed

lemma filled_sint:
  assumes "bs \<noteq> []" and "8 * (k + length bs) = LENGTH('a)"
  shows "sint (le_word (rev (replicate k (if hd bs AND 0x80 \<noteq> 0 then 0xff else 0) @ bs)) :: 'a::len word) = be_signed bs"
proof -
  have "length bs \<le> LENGTH('a) div 8" using assms(2) by simp
  then have "(256 :: int) ^ length bs \<le> 256 ^ (LENGTH('a) div 8)" by (intro power_increasing) simp_all
  also have "\<dots> = 2 ^ LENGTH('a)" by (simp add: assms(2) [symmetric] power_mult power_add)
  also have "\<dots> = 2 * 2 ^ (LENGTH('a) - 1)" by (simp add: power_Suc [symmetric])
  finally show ?thesis
    unfolding filled_word [OF assms] using be_signed_bounds [OF assms(1)] by (intro sint_word_of_int) linarith+
qed

lemma normalized_integer_eq:
  assumes "bs \<noteq> []" and "length bs \<le> 6"
  shows "normalized_integer bs (hd bs AND 0x80 \<noteq> 0) = be_signed bs"
proof -
  let ?f = "if hd bs AND 0x80 \<noteq> 0 then 0xff else 0 :: u8"
  consider "length bs = 1" | "length bs = 2" | "length bs = 3" | "length bs = 4" | "length bs = 5" | "length bs = 6"
    using assms by (cases "length bs") fastforce+
  then show ?thesis
  proof cases
    case 1
    then have "rev bs = bs" by (cases bs) auto
    then show ?thesis using filled_sint [of bs 0, where 'a = 8] assms(1) 1 by (simp add: normalized_integer_def)
  next
    case 2
    then show ?thesis using filled_sint [of bs 0, where 'a = 16] assms(1) by (simp add: normalized_integer_def)
  next
    case 3
    then show ?thesis using filled_sint [of bs 1, where 'a = 32] assms(1) by (simp add: normalized_integer_def Let_def)
  next
    case 4
    then show ?thesis using filled_sint [of bs 0, where 'a = 32] assms(1) by (simp add: normalized_integer_def)
  next
    case 5
    then show ?thesis using filled_sint [of bs 3, where 'a = 64] assms(1)
      by (simp add: normalized_integer_def Let_def eval_nat_numeral)
  next
    case 6
    then show ?thesis using filled_sint [of bs 2, where 'a = 64] assms(1)
      by (simp add: normalized_integer_def Let_def eval_nat_numeral)
  qed
qed

section \<open>What the readers read\<close>

lemma length_u8:
  assumes "n \<le> 9"
  shows "unat (of_nat n :: u8) = n" and "(of_nat n :: u8) < 2 \<longleftrightarrow> n < 2" and "(of_nat n :: u8) \<le> 1 \<longleftrightarrow> n \<le> 1"
    and "7 < (of_nat n :: u8) \<longleftrightarrow> 7 < n" and "8 < (of_nat n :: u8) \<longleftrightarrow> 8 < n"
  using assms by (simp_all add: word_less_nat_alt word_le_nat_alt)

lemma integer_read:
  assumes "bs \<noteq> []" and "length bs \<le> 8"
  shows "vscp_getDataCodingInteger (Some (coding # bs @ rest)) (of_nat (length bs + 1)) = Some (word_of_int (be_signed bs))"
proof -
  have "foldl (\<lambda>acc b. push_bit 8 acc + ucast b) (if hd bs AND 0x80 \<noteq> 0 then - 1 else 0) bs
      = (word_of_int (be_signed bs) :: u64)"
    using fold_words [where 'a = 64, of "- 1" bs] fold_words [where 'a = 64, of 0 bs] be_signed_fold [OF assms(1)]
    by (cases "hd bs AND 0x80 = 0") simp_all
  moreover have "rd (coding # bs @ rest) 1 = Some (hd bs)" using assms(1) by (cases bs) (simp_all add: rd_def)
  ultimately show ?thesis
    using assms length_u8 [of "length bs + 1"]
    by (simp add: vscp_getDataCodingInteger_def rd_block_def del: of_nat_Suc)
qed

lemma normalized_read:
  assumes "bs \<noteq> []" and "length bs \<le> 6"
  shows "vscp_getDataCodingNormalizedInteger fp (Some (coding # decibyte # bs @ rest)) (of_nat (length bs + 2))
    = Some ((if bit decibyte 7 then over_pow10 fp else times_pow10 fp) (of_integer fp (be_signed bs)) (unat (take_bit 7 decibyte)))"
proof -
  have d: "decibyte AND 0x7f = take_bit 7 decibyte" by (simp add: take_bit_eq_mask mask_eq_exp_minus_1)
  have "(0x80 :: u8) = 2 ^ 7" by simp
  then have s: "decibyte AND 0x80 = 0 \<longleftrightarrow> \<not> bit decibyte 7" by (simp only: and_exp_eq_0_iff_not_bit)
  have r: "rd (coding # decibyte # bs @ rest) 1 = Some decibyte" by (simp add: rd_def)
  have "rd (coding # decibyte # bs @ rest) 2 = Some (hd bs)" using assms(1) by (cases bs) (simp_all add: rd_def)
  moreover have "rd_block (coding # decibyte # bs @ rest) 2 (length bs) = Some bs" by (simp add: rd_block_def)
  ultimately show ?thesis
    using assms length_u8 [of "length bs + 2"] normalized_integer_eq [OF assms] r
    by (simp add: vscp_getDataCodingNormalizedInteger_def Let_def d s del: of_nat_Suc)
qed

text \<open>C17: The integer that the coding bytes of a measurement hold is read as big-endian two's complement, for every
  number of bytes that fits the result; a normalised integer is read as the same integer, which is then
  scaled by the power of ten in the second byte, down when its top bit is set and up when it is not.\<close>

theorem coded_integers_are_twos_complement:
  assumes "bs \<noteq> []"
  shows "(length bs \<le> 8 \<longrightarrow>
      map_option sint (vscp_getDataCodingInteger (Some (coding # bs @ rest)) (of_nat (length bs + 1))) = Some (be_signed bs))
    \<and> (length bs \<le> 6 \<longrightarrow>
      vscp_getDataCodingNormalizedInteger fp (Some (coding # decibyte # bs @ rest)) (of_nat (length bs + 2))
      = Some ((if bit decibyte 7 then over_pow10 fp else times_pow10 fp)
                (of_integer fp (be_signed bs)) (unat (take_bit 7 decibyte))))"
proof (intro conjI impI)
  assume l: "length bs \<le> 8"
  then have "(256 :: int) ^ length bs \<le> 256 ^ 8" by (intro power_increasing) simp_all
  then have "sint (word_of_int (be_signed bs) :: u64) = be_signed bs"
    using be_signed_bounds [OF assms] by (intro sint_word_of_int) simp_all
  then show "map_option sint (vscp_getDataCodingInteger (Some (coding # bs @ rest)) (of_nat (length bs + 1))) = Some (be_signed bs)"
    unfolding integer_read [OF assms l] by simp
qed (rule normalized_read [OF assms])

definition sample_fpu :: fpu where
  "sample_fpu = \<lparr>of_integer = word_of_int, times_pow10 = (\<lambda>v n. v * 10 ^ n), over_pow10 = (\<lambda>v n. v div 10 ^ n),
     truncated = (\<lambda>v. v), single_to_double = ucast, in_single_range = (\<lambda>_. True), fmt_f = (\<lambda>v. fmt_d (unat v)),
     fmt_0f = (\<lambda>v. fmt_d (unat v)), fmt_g = (\<lambda>v. fmt_d (unat v)), parsed = (\<lambda>s. Some (of_nat (digits_value 10 s)))\<rparr>"

theorem coded_integers_are_twos_complement_witness:
  "map_option sint (vscp_getDataCodingInteger (Some [0x60, 0xff, 0x38]) 3) = Some (- 200)
   \<and> vscp_getDataCodingNormalizedInteger sample_fpu (Some [0x80, 0x82, 0x04, 0xd2]) 4 = Some 12"
  using coded_integers_are_twos_complement [of "[0xff, 0x38]" "0x60" "[]" sample_fpu 0]
    coded_integers_are_twos_complement [of "[0x04, 0xd2]" "0x80" "[]" sample_fpu "0x82"]
  by (simp add: be_signed_def sample_fpu_def)

section \<open>Normalised values\<close>

lemma be_unsigned_append: "be_unsigned (xs @ ys) = be_unsigned xs * 256 ^ length ys + be_unsigned ys"
  by (induction xs) (simp_all add: power_add algebra_simps)

lemma be_unsigned_drop: "be_unsigned (drop k bs) = be_unsigned bs mod 256 ^ length (drop k bs)"
proof -
  have "be_unsigned bs = be_unsigned (take k bs) * 256 ^ length (drop k bs) + be_unsigned (drop k bs)"
    using be_unsigned_append [of "take k bs" "drop k bs"] by (simp only: append_take_drop_id)
  then show ?thesis using be_unsigned_bounds [of "drop k bs"] by simp
qed

lemma uint_byte_at: "uint (byte_at v k) = uint v div 2 ^ k mod 256"
proof -
  have "(byte_at v k :: u8) = ucast (drop_bit k v)"
    unfolding byte_at_def mask_ff_u64 by (rule bit_word_eqI) (auto simp: bit_simps)
  then have "uint (byte_at v k) = take_bit 8 (drop_bit k (uint v))"
    using uint_bounded [of v]
    by (simp only: unsigned_ucast_eq unsigned_drop_bit_eq) (simp add: take_bit_int_eq_self)
  then show ?thesis by (simp add: take_bit_eq_mod drop_bit_eq_div)
qed

lemma be_unsigned_bytes: "be_unsigned (map (\<lambda>k. byte_at v (8 * k)) (rev [0..<n])) = uint v mod 256 ^ n"
proof (induction n)
  case (Suc n)
  have "be_unsigned (map (\<lambda>k. byte_at v (8 * k)) (rev [0..<Suc n]))
      = uint v div 256 ^ n mod 256 * 256 ^ n + uint v mod 256 ^ n"
    using Suc by (simp add: uint_byte_at power_mult)
  also have "\<dots> = uint v mod 256 ^ Suc n"
    using zmod_zmult2_eq [of 256 "uint v" "256 ^ n"] by (simp add: mult.commute)
  finally show ?case .
qed simp

lemma be64_rev: "be64_bytes v = map (\<lambda>k. byte_at v (8 * k)) (rev [0..<8])"
  by (simp add: be64_bytes_def upt_rec)

lemma be_unsigned_be64: "be_unsigned (be64_bytes v) = uint v"
  using uint_bounded [of v] uint_ge_0 [of v] by (simp add: be64_rev be_unsigned_bytes)

lemma normalized_size_bounds:
  assumes "normalized_size v = Some n"
  shows "1 \<le> n" "n \<le> 6" "2 * uint v < 256 ^ n"
  using assms by (auto simp: normalized_size_def word_less_def split: if_splits)

lemma normalized_bytes:
  assumes "normalized_size v = Some n"
  shows "be_signed (drop (8 - n) (be64_bytes v)) = uint v"
proof -
  note b = normalized_size_bounds [OF assms]
  have l: "length (drop (8 - n) (be64_bytes v)) = n" using b by simp
  then have "be_unsigned (drop (8 - n) (be64_bytes v)) = uint v"
    using be_unsigned_drop [of "8 - n" "be64_bytes v"] b(3) uint_ge_0 [of v] by (simp add: be_unsigned_be64)
  then show ?thesis using b(3) l by (simp add: be_signed_def)
qed

lemma coding_fields:
  fixes u i t :: u8
  assumes "t AND 0x1f = 0"
  shows "VSCP_DATACODING_UNIT (t + push_bit 3 (u AND 3) + (i AND 7)) = u AND 3"
    and "VSCP_DATACODING_INDEX (t + push_bit 3 (u AND 3) + (i AND 7)) = i AND 7"
proof -
  have m: "(3 :: u8) = mask 2" "(7 :: u8) = mask 3" "(0x18 :: u8) = push_bit 3 (mask 2)" "(0x1f :: u8) = mask 5"
    by (simp_all add: mask_eq_exp_minus_1)
  have t: "\<not> bit t k" if "k < 5" for k
  proof
    assume "bit t k"
    then have "bit (t AND mask 5) k" using that by (simp add: bit_simps)
    then show False using assms by (simp add: m(4))
  qed
  have b: "\<not> bit t k \<or> \<not> bit (push_bit 3 (u AND mask 2)) k" "\<not> bit (t OR push_bit 3 (u AND mask 2)) k \<or> \<not> bit (i AND mask 3) k" for k
    by (cases "k < 5"; auto simp: t bit_simps)+
  have "t + push_bit 3 (u AND 3) + (i AND 7) = t OR push_bit 3 (u AND mask 2) OR (i AND mask 3)"
    unfolding m(1,2) using b by (subst add_eq_or_disjoint, blast, subst add_eq_or_disjoint, blast) (rule or.assoc)
  moreover have "drop_bit 3 (push_bit 3 (mask 2) AND (t OR push_bit 3 (u AND mask 2) OR (i AND mask 3))) = u AND mask 2"
    using t by (intro bit_word_eqI) (auto simp: bit_simps)
  moreover have "mask 3 AND (t OR push_bit 3 (u AND mask 2) OR (i AND mask 3)) = i AND mask 3"
    using t by (intro bit_word_eqI) (auto simp: bit_simps)
  ultimately show "VSCP_DATACODING_UNIT (t + push_bit 3 (u AND 3) + (i AND 7)) = u AND 3"
    "VSCP_DATACODING_INDEX (t + push_bit 3 (u AND 3) + (i AND 7)) = i AND 7"
    by (simp_all add: VSCP_DATACODING_UNIT_def VSCP_DATACODING_INDEX_def VSCP_MASK_DATACODING_UNIT_def
        VSCP_MASK_DATACODING_INDEX_def m)
qed

lemma flagged_byte:
  assumes "nd < 128"
  shows "bit (0x80 + of_nat nd :: u8) 7" and "unat (take_bit 7 (0x80 + of_nat nd :: u8)) = nd"
proof -
  have "unat (of_nat (128 + nd) :: u8) = 128 + nd" using assms by (subst unat_of_nat_u8) simp_all
  then have u: "unat (0x80 + of_nat nd :: u8) = 128 + nd" by simp
  have "(128 + nd) div 128 = 1" using assms by (intro div_nat_eqI) simp_all
  then have "bit (unat (0x80 + of_nat nd :: u8)) 7" unfolding u by (simp add: bit_iff_odd)
  then show "bit (0x80 + of_nat nd :: u8) 7" by (simp add: bit_unsigned_iff)
  show "unat (take_bit 7 (0x80 + of_nat nd :: u8)) = nd"
    using assms unfolding unsigned_take_bit_eq u by (simp add: take_bit_eq_mod)
qed

lemma normalized_coding:
  fixes unit sensoridx :: u8
  defines "ndigits \<equiv> \<lambda>fp val. decimals (take 127 (fmt_g fp val))"
  assumes "length d = 8" and "normalized_size v = Some n" and "v = truncated fp (times_pow10 fp val (ndigits fp val))"
  shows "\<exists>d'. vscp_convertFloatToNormalizedEventData fp (Some d) (Some n0) val unit sensoridx
       = Some (True, Some d', Some (of_nat (n + 2)))
    \<and> vscp_getDataCodingNormalizedInteger fp (Some d') (of_nat (n + 2))
       = Some (over_pow10 fp (of_integer fp (uint v)) (ndigits fp val))
    \<and> VSCP_DATACODING_UNIT (d' ! 0) = unit AND 3 \<and> VSCP_DATACODING_INDEX (d' ! 0) = sensoridx AND 7"
proof -
  define nd where "nd = ndigits fp val"
  have v: "v = truncated fp (times_pow10 fp val nd)" using assms(4) by (simp add: nd_def)
  have nd: "nd < 128" using str_find_Some(1) by (fastforce simp: nd_def ndigits_def decimals_def split: option.splits)
  note b = normalized_size_bounds [OF assms(3)]
  let ?bs = "drop (8 - n) (be64_bytes v)"
  let ?c = "VSCP_DATACODING_NORMALIZED + push_bit 3 (unit AND 3) + (sensoridx AND VSCP_MASK_DATACODING_INDEX)"
  let ?e = "0x80 + of_nat nd :: u8"
  have l: "length ?bs = n" using b by simp
  then have e: "?bs \<noteq> []" using b(1) by auto
  let ?d = "?c # ?e # ?bs @ drop (n + 2) d"
  have w1: "wr_block d 2 ?bs = Some (take 2 d @ ?bs @ drop (2 + n) d)" using l assms(2) b by (simp add: wr_block_def)
  have w2: "wr_block (take 2 d @ ?bs @ drop (2 + n) d) 0 [?c, ?e] = Some ?d"
    using assms(2) by (simp add: wr_block_def add.commute)
  have "vscp_convertFloatToNormalizedEventData fp (Some d) (Some n0) val unit sensoridx
      = Some (True, Some ?d, Some (of_nat (n + 2)))"
    unfolding vscp_convertFloatToNormalizedEventData_def option.case Let_def nd_def [unfolded ndigits_def, symmetric]
      v [symmetric] assms(3) w1 bind.bind_lunit w2 by simp
  moreover have "vscp_getDataCodingNormalizedInteger fp (Some ?d) (of_nat (n + 2))
      = Some (over_pow10 fp (of_integer fp (uint v)) nd)"
    using normalized_read [OF e, of fp ?c ?e "drop (n + 2) d"] l b(2) flagged_byte [OF nd]
    unfolding normalized_bytes [OF assms(3)] by simp
  moreover have "VSCP_DATACODING_UNIT (?d ! 0) = unit AND 3" "VSCP_DATACODING_INDEX (?d ! 0) = sensoridx AND 7"
    using coding_fields [of "0x80" unit sensoridx]
    by (simp_all add: VSCP_DATACODING_NORMALIZED_def VSCP_MASK_DATACODING_INDEX_def)
  ultimately show ?thesis by (simp add: nd_def)
qed

text \<open>C16: A value coded as a normalised integer is read back as the value times the power of ten that makes its
  printed decimals integral, truncated, divided by the same power of ten; unit and sensor index are kept,
  and the buffer of eight bytes that the callers pass is enough. Values that are too large for 47 bits
  are refused.\<close>

theorem normalized_value_round_trip:
  assumes "length d = 8"
  shows "\<exists>ok d' n. vscp_convertFloatToNormalizedEventData fp (Some d) (Some n0) val unit sensoridx = Some (ok, Some d', Some n)
    \<and> (let ndigits = decimals (take 127 (fmt_g fp val)); v = truncated fp (times_pow10 fp val ndigits)
       in (ok \<longleftrightarrow> v < 0x800000000000)
        \<and> (ok \<longrightarrow> unat n \<le> 8
            \<and> vscp_getDataCodingNormalizedInteger fp (Some d') (ucast n) = Some (over_pow10 fp (of_integer fp (uint v)) ndigits)
            \<and> VSCP_DATACODING_UNIT (d' ! 0) = unit AND 3 \<and> VSCP_DATACODING_INDEX (d' ! 0) = sensoridx AND 7))"
proof -
  define nd where "nd = decimals (take 127 (fmt_g fp val))"
  define v where "v = truncated fp (times_pow10 fp val nd)"
  show ?thesis
  proof (cases "normalized_size v")
    case None
    then have "\<not> v < 0x800000000000" by (simp add: normalized_size_def split: if_splits)
    then show ?thesis
      using None by (simp add: vscp_convertFloatToNormalizedEventData_def Let_def nd_def [symmetric] v_def [symmetric] ex_bool_eq)
  next
    case (Some n)
    then have lt: "v < 0x800000000000" by (rule contrapos_pp) (auto simp: normalized_size_def word_less_nat_alt)
    have u: "unat (of_nat (n + 2) :: u16) = n + 2" "n + 2 \<le> 8"
      using normalized_size_bounds(2) [OF Some] by (simp_all add: unat_of_nat_u16 del: of_nat_add of_nat_Suc)
    have "(ucast (of_nat (n + 2) :: u16) :: u8) = of_nat (unat (of_nat (n + 2) :: u16))" by (rule of_nat_unat [symmetric])
    then have "(ucast (of_nat (n + 2) :: u16) :: u8) = of_nat (n + 2)" unfolding u(1) .
    with u show ?thesis
      using normalized_coding [OF assms Some, of fp val n0 unit sensoridx] lt
      unfolding nd_def [symmetric] v_def [symmetric] Let_def by (auto simp del: of_nat_add of_nat_Suc)
  qed
qed

theorem normalized_value_round_trip_witness:
  "\<exists>ok d' n. vscp_convertFloatToNormalizedEventData sample_fpu (Some (replicate 8 0)) (Some 0) 1000 2 5 = Some (ok, Some d', Some n)
     \<and> ok \<and> vscp_getDataCodingNormalizedInteger sample_fpu (Some d') (ucast n) = Some 1000"
proof -
  have "fmt_d 1000 = ''1000''" by code_simp
  then have "decimals (take 127 (fmt_d 1000)) = 0" by (simp add: decimals_def str_find_def)
  then show ?thesis
    using normalized_value_round_trip [of "replicate 8 0" sample_fpu 0 1000 2 5] by (auto simp: sample_fpu_def Let_def)
qed

section \<open>Integer events\<close>

lemma le_bytes_u64: "le_bytes (v :: u64) = map (\<lambda>k. byte_at v (8 * k)) [0..<8]"
proof -
  have "(ucast (drop_bit n v) :: u8) = byte_at v n" for n
    unfolding byte_at_def mask_ff_u64 by (rule bit_word_eqI) (auto simp: bit_simps)
  then show ?thesis by (simp add: le_bytes_def)
qed

lemma length_le_bytes [simp]: "length (le_bytes (v :: u64)) = 8"
  by (simp add: le_bytes_u64)

lemma take_le_bytes: "n \<le> 8 \<Longrightarrow> be_unsigned (rev (take n (le_bytes (v :: u64)))) = uint v mod 256 ^ n"
  using be_unsigned_bytes [of v n] by (simp add: le_bytes_u64 take_map rev_map take_upt)

lemma le_word_le_bytes [simp]: "le_word (le_bytes (v :: u64)) = v"
  using le_word_rev [of "rev (le_bytes v)", where 'a = 64] take_le_bytes [of 8 v] uint_bounded [of v] uint_ge_0 [of v]
  by simp

lemma integer_size_bounds:
  assumes "integer_size v = Some n"
  shows "1 \<le> n" "n \<le> 7" "uint v < 256 ^ n"
  using assms by (auto simp: integer_size_def word_le_def split: if_splits)

text \<open>An integer measurement holds its value lowest byte first, while the reader takes the first byte as
  the highest and as the one with the sign: what is read is the two's complement value of the bytes in
  the stored order, and it is the value that was written when that is below 128.\<close>

theorem integer_measurement_is_read_reversed:
  assumes "vscp_class ev = VSCP_CLASS1_MEASUREMENT" and "val \<le> 0xffffffffffffff"
  shows "\<exists>ev' bs. vscp_makeIntegerMeasurementEvent fresh (Some ev) val unit sensoridx = Some (True, Some ev')
    \<and> pdata ev' = Some (integer_coding unit sensoridx # bs) \<and> unat (sizeData ev') = length bs + 1 \<and> length bs \<le> 7
    \<and> be_unsigned (rev bs) = uint val
    \<and> map_option sint (vscp_getDataCodingInteger (pdata ev') (ucast (sizeData ev'))) = Some (be_signed bs)
    \<and> (val < 128 \<longrightarrow> be_signed bs = uint val)"
proof -
  have "integer_size val \<noteq> None" using assms(2) by (simp add: integer_size_def)
  then obtain n where n: "integer_size val = Some n" by blast
  note b = integer_size_bounds [OF n]
  let ?bs = "take n (le_bytes val)"
  let ?ev = "(if pdata ev \<noteq> None then ev\<lparr>pdata := None, sizeData := 0\<rparr> else ev)\<lparr>sizeData := of_nat (n + 1),
      pdata := Some (integer_coding unit sensoridx # ?bs)\<rparr>"
  have l: "length ?bs = n" using b(2) by simp
  then have e: "?bs \<noteq> []" using b(1) by (metis list.size(3) not_one_le_zero)
  have run: "vscp_makeIntegerMeasurementEvent fresh (Some ev) val unit sensoridx = Some (True, Some ?ev)"
    using assms(1) n by (simp add: vscp_makeIntegerMeasurementEvent_def Let_def)
  have whole: "be_unsigned (rev ?bs) = uint val" using take_le_bytes [of n val] b uint_ge_0 [of val] by simp
  have sz: "unat (sizeData ?ev) = n + 1" using b(2) by (simp add: unat_of_nat_u16 del: of_nat_Suc of_nat_add)
  have "(ucast (sizeData ?ev) :: u8) = of_nat (unat (sizeData ?ev))" by (rule of_nat_unat [symmetric])
  then have c: "(ucast (sizeData ?ev) :: u8) = of_nat (length ?bs + 1)" unfolding sz l .
  have "(256 :: int) ^ length ?bs \<le> 256 ^ 8" using l b(2) by (intro power_increasing) simp_all
  then have "sint (word_of_int (be_signed ?bs) :: u64) = be_signed ?bs"
    using be_signed_bounds [OF e] by (intro sint_word_of_int) simp_all
  then have read: "map_option sint (vscp_getDataCodingInteger (pdata ?ev) (ucast (sizeData ?ev))) = Some (be_signed ?bs)"
    using integer_read [OF e, of "integer_coding unit sensoridx" "[]"] l b(2) unfolding c by simp
  have small: "be_signed ?bs = uint val" if "val < 128"
  proof -
    have "n = 1" using n that by (auto simp: integer_size_def word_less_nat_alt word_le_nat_alt split: if_splits)
    then obtain b where b1: "?bs = [b]" using l by (metis length_0_conv length_Suc_conv One_nat_def)
    then have "rev ?bs = ?bs" by simp
    then show ?thesis using whole that l \<open>n = 1\<close> by (simp add: be_signed_def word_less_def)
  qed
  show ?thesis
    by (rule exI [of _ ?ev], rule exI [of _ ?bs]) (use run whole sz l b(2) read small in simp)
qed

theorem integer_measurement_is_read_reversed_witness:
  "\<exists>ev'. vscp_makeIntegerMeasurementEvent [] (Some (sample_event\<lparr>vscp_class := VSCP_CLASS1_MEASUREMENT\<rparr>)) 0x0102 0 0
      = Some (True, Some ev')
   \<and> map_option sint (vscp_getDataCodingInteger (pdata ev') (ucast (sizeData ev'))) = Some 0x0201"
proof -
  obtain ev' bs where e: "vscp_makeIntegerMeasurementEvent [] (Some (sample_event\<lparr>vscp_class := VSCP_CLASS1_MEASUREMENT\<rparr>))
        0x0102 0 0 = Some (True, Some ev')"
      "pdata ev' = Some (integer_coding 0 0 # bs)"
      "map_option sint (vscp_getDataCodingInteger (pdata ev') (ucast (sizeData ev'))) = Some (be_signed bs)"
    using integer_measurement_is_read_reversed
      [of "sample_event\<lparr>vscp_class := VSCP_CLASS1_MEASUREMENT\<rparr>" "0x0102" "[]" 0 0] by auto
  have "vscp_makeIntegerMeasurementEvent [] (Some (sample_event\<lparr>vscp_class := VSCP_CLASS1_MEASUREMENT\<rparr>)) 0x0102 0 0
      = Some (True, Some ev') \<Longrightarrow> pdata ev' = Some (integer_coding 0 0 # [2, 1])"
    by (auto simp: vscp_makeIntegerMeasurementEvent_def integer_size_def le_bytes_def sample_event_def Let_def
        upt_rec take_Cons drop_bit_eq_div)
  then have "bs = [2, 1]" using e(1,2) by simp
  then show ?thesis using e by (simp add: be_signed_def)
qed

section \<open>Level II events\<close>

lemma level2_float_read:
  assumes "wf_event ev" and "vscp_class ev = VSCP_CLASS2_MEASUREMENT_FLOAT"
    and "ev_data ev = [sensoridx, zone, subzone, unit] @ le_bytes (val :: u64)"
  shows "vscp_isMeasurement (Some ev) = Some True
    \<and> vscp_getMeasurementAsDouble fp stack (Some v0) (Some ev) = Some (True, Some val)
    \<and> vscp_getMeasurementUnit (Some ev) = Some (uint unit)
    \<and> vscp_getMeasurementSensorIndex (Some ev) = Some (uint sensoridx)
    \<and> vscp_getMeasurementSubZone (Some ev) = Some (uint subzone)
    \<and> vscp_getMeasurementZone (Some ev) = Some (uint subzone)"
proof -
  obtain d where p: "pdata ev = Some d" and t: "take (unat (sizeData ev)) d = [sensoridx, zone, subzone, unit] @ le_bytes val"
    and l: "unat (sizeData ev) \<le> length d"
    using assms(1,3) by (cases "pdata ev") (auto simp: ev_data_def wf_event_def)
  have "length (take (unat (sizeData ev)) d) = 12" unfolding t by simp
  then have n: "unat (sizeData ev) = 12" using l by simp
  then obtain rest where d: "d = [sensoridx, zone, subzone, unit] @ le_bytes val @ rest"
    using append_take_drop_id [of 12 d] unfolding t [unfolded n] by (metis append.assoc)
  have z: "sizeData ev = 12" using n by (intro word_unat_eq_iff [THEN iffD2]) simp
  have h: "data_at ev 0 = Some sensoridx" "data_at ev 2 = Some subzone" "data_at ev 3 = Some unit"
    using p unfolding d by (simp_all add: data_at_def rd_def)
  have b: "rd_block d 4 8 = Some (le_bytes val)" unfolding d by (simp add: rd_block_def)
  have v: "vscp_getMeasurementAsDouble fp stack (Some v0) (Some ev) = Some (True, Some val)"
    using p b by (simp add: vscp_getMeasurementAsDouble_def assms(2) class_defs)
  note classes = class_defs zone_classes_def plain_classes_def float_classes_def
  show ?thesis
    using v h p z by (simp add: vscp_isMeasurement_def vscp_getMeasurementUnit_def vscp_getMeasurementSensorIndex_def
        vscp_getMeasurementSubZone_def vscp_getMeasurementZone_def without_data_def level2_byte_def byte_result_def
        classes x_classes_def assms(2))
qed

text \<open>C19: A Level II floating point event tells the value, the unit, the sensor index and the subzone that it was
  built with. (The zone cannot be read back, see the next theorem.)\<close>

theorem level2_float_event_is_read_back:
  assumes "wf_event ev"
  shows "\<exists>ev'. vscp_makeLevel2FloatMeasurementEvent (Some ev) t val unit sensoridx zone subzone = (True, Some ev')
    \<and> wf_event ev' \<and> vscp_isMeasurement (Some ev') = Some True
    \<and> vscp_getMeasurementAsDouble fp stack (Some v0) (Some ev') = Some (True, Some val)
    \<and> vscp_getMeasurementUnit (Some ev') = Some (uint unit)
    \<and> vscp_getMeasurementSensorIndex (Some ev') = Some (uint sensoridx)
    \<and> vscp_getMeasurementSubZone (Some ev') = Some (uint subzone)"
proof -
  let ?ev = "ev\<lparr>vscp_class := VSCP_CLASS2_MEASUREMENT_FLOAT, vscp_type := t, obid := 0,
      timestamp_ns := tb_set_timestamp 0 (timestamp_ns ev), sizeData := 12,
      pdata := Some ([sensoridx, zone, subzone, unit] @ le_bytes val)\<rparr>"
  have run: "vscp_makeLevel2FloatMeasurementEvent (Some ev) t val unit sensoridx zone subzone = (True, Some ?ev)"
    by (simp add: vscp_makeLevel2FloatMeasurementEvent_def)
  have w: "wf_event ?ev" using assms by (simp add: wf_event_def VSCP_LEVEL2_MAXDATA_def)
  have d: "ev_data ?ev = [sensoridx, zone, subzone, unit] @ le_bytes val" by (simp add: ev_data_def)
  show ?thesis by (rule exI [of _ ?ev]) (use run w level2_float_read [OF w _ d, of fp stack v0] in simp)
qed

theorem level2_float_event_is_read_back_witness:
  "\<exists>ev'. vscp_makeLevel2FloatMeasurementEvent (Some sample_event) 6 0x4028000000000000 1 2 3 4 = (True, Some ev')
    \<and> vscp_getMeasurementAsDouble sample_fpu [] (Some 0) (Some ev') = Some (True, Some 0x4028000000000000)
    \<and> vscp_getMeasurementUnit (Some ev') = Some 1 \<and> vscp_getMeasurementSensorIndex (Some ev') = Some 2
    \<and> vscp_getMeasurementSubZone (Some ev') = Some 4"
  using level2_float_event_is_read_back [OF sample_event_ok(1), of 6 "0x4028000000000000" 1 2 3 4 sample_fpu "[]" 0] by auto

text \<open>Where the zone of a Level II floating point event is asked for, its subzone is told.\<close>

theorem level2_zone_reader_tells_subzone:
  assumes "wf_event ev"
    and "vscp_makeLevel2FloatMeasurementEvent (Some ev) t val unit sensoridx zone subzone = (True, Some ev')"
  shows "vscp_getMeasurementZone (Some ev') = Some (uint subzone)"
proof -
  have w: "wf_event ev'" and c: "vscp_class ev' = VSCP_CLASS2_MEASUREMENT_FLOAT"
    and d: "ev_data ev' = [sensoridx, zone, subzone, unit] @ le_bytes val"
    using assms by (auto simp: vscp_makeLevel2FloatMeasurementEvent_def wf_event_def VSCP_LEVEL2_MAXDATA_def ev_data_def)
  show ?thesis using level2_float_read [OF w c d] by blast
qed

theorem level2_zone_reader_tells_subzone_witness:
  "\<exists>ev'. vscp_makeLevel2FloatMeasurementEvent (Some sample_event) 6 0x4028000000000000 1 2 3 4 = (True, Some ev')
     \<and> vscp_getMeasurementZone (Some ev') = Some 4"
proof -
  obtain ev' where "vscp_makeLevel2FloatMeasurementEvent (Some sample_event) 6 0x4028000000000000 1 2 3 4 = (True, Some ev')"
    by (simp add: vscp_makeLevel2FloatMeasurementEvent_def)
  then show ?thesis using level2_zone_reader_tells_subzone [OF sample_event_ok(1)] by fastforce
qed

text \<open>Building a Level II string event writes past its data, whatever the value: it copies four bytes more than
  there is room for.\<close>

theorem level2_string_event_overruns:
  assumes "length (fmt_f fp val) \<le> 65000"
  shows "vscp_makeLevel2StringMeasurementEvent fp (Some ev) t val unit sensoridx zone subzone = None"
proof -
  let ?s = "str_bytes (takeWhile (\<lambda>c. c \<noteq> NUL) (fmt_f fp val)) @ [0]"
  have "length (takeWhile (\<lambda>c. c \<noteq> NUL) (fmt_f fp val)) \<le> length (fmt_f fp val)" by (rule length_takeWhile_le)
  then have "4 + length ?s < 65536" using assms by simp
  then have "unat (of_nat (4 + length ?s) :: u16) = 4 + length ?s" by (rule unat_of_nat_u16)
  then have "rd_block ?s 0 (unat (of_nat (4 + length ?s) :: u16)) = None" by (simp only: rd_block_def) simp
  then show ?thesis
    unfolding vscp_makeLevel2StringMeasurementEvent_def option.case Let_def
    by (cases "wr_block (replicate (unat (of_nat (4 + length ?s) :: u16)) 0) 0 [sensoridx, zone, subzone, unit]") simp_all
qed

theorem level2_string_event_overruns_witness:
  "vscp_makeLevel2StringMeasurementEvent sample_fpu (Some sample_event) 6 7 1 2 3 4 = None"
proof (rule level2_string_event_overruns)
  have "fmt_d 7 = ''7''" by code_simp
  then show "length (fmt_f sample_fpu 7) \<le> 65000" by (simp add: sample_fpu_def)
qed

section \<open>Zones\<close>

text \<open>For an event with zone that is long enough to hold its head, no reader tells it: the sensor index is
  reported as an error, zone and subzone as zero.\<close>

theorem zone_events_hide_their_head:
  assumes "vscp_class ev \<in> set zone_classes" and "wf_event ev"
    and "guid_offset (vscp_class ev) + 3 \<le> unat (sizeData ev)"
  shows "vscp_getMeasurementSensorIndex (Some ev) = Some (- 1) \<and> vscp_getMeasurementZone (Some ev) = Some 0
    \<and> vscp_getMeasurementSubZone (Some ev) = Some 0"
proof -
  have c: "vscp_class ev \<notin> plain_classes"
    using assms(1) by (auto simp: zone_classes_def plain_classes_def class_defs)
  have "sizeData ev \<noteq> 0" using assms(3) by auto
  then have "\<not> without_data (Some ev)" using assms(2) by (cases "pdata ev") (auto simp: without_data_def wf_event_def)
  then show ?thesis
    using assms(1,3) c
    by (simp add: vscp_getMeasurementSensorIndex_def vscp_getMeasurementZone_def vscp_getMeasurementSubZone_def Let_def)
qed

theorem zone_events_hide_their_head_witness:
  "vscp_getMeasurementZone (Some (sample_event\<lparr>vscp_class := 65, sizeData := 5, pdata := Some [1, 2, 3, 0x60, 9]\<rparr>)) = Some 0"
  using zone_events_hide_their_head [of "sample_event\<lparr>vscp_class := 65, sizeData := 5, pdata := Some [1, 2, 3, 0x60, 9]\<rparr>"]
    sample_event_ok(1)
  by (simp add: zone_classes_def class_defs guid_offset_def wf_event_def VSCP_LEVEL2_MAXDATA_def)

section \<open>Text of measurements\<close>

lemma short_string_in_bounds:
  assumes "length xs \<le> 7"
  shows "\<exists>s. Option.bind (wr_block (replicate 9 0) 0 xs) c_string = Some s"
proof -
  have "wr_block (replicate 9 0) 0 xs = Some (xs @ drop (length xs) (replicate 9 (0 :: u8)))"
    by (rule wr_block_zero) (use assms in simp)
  moreover have "0 \<in> set (xs @ drop (length xs) (replicate 9 (0 :: u8)))"
    using assms by (simp add: drop_replicate del: replicate.simps)
  ultimately show ?thesis by (simp add: c_string_def)
qed

text \<open>The text of an event of the two plain Level I classes.\<close>

lemma plain_measurement_text:
  assumes "vscp_class ev = VSCP_CLASS1_MEASUREMENT \<or> vscp_class ev = VSCP_CLASS1_DATA" and "pdata ev = Some d"
  shows "vscp_getMeasurementAsString fp s0 (Some ev)
    = (if unat (sizeData ev) < 2 then Some (False, [])
       else map_option (\<lambda>s. (True, s)) (coded_text fp d (unat (sizeData ev)) 0))"
proof -
  have i: "(int (unat (sizeData ev)) - int 0 < 2) = (unat (sizeData ev) < 2)" by linarith
  show ?thesis
    using assms unfolding vscp_getMeasurementAsString_def option.case Let_def
    by (elim disjE) (simp_all add: class_defs zone_classes_def i [simplified])
qed

lemma coded_text_in_bounds:
  assumes "n \<le> length d" and "2 \<le> n" and "n \<le> 8"
    and "0x07 AND drop_bit 5 (d ! 0) = 4 \<Longrightarrow> 3 \<le> n"
  shows "\<exists>s. coded_text fp d n 0 = Some s"
proof -
  let ?t = "0x07 AND drop_bit 5 (d ! 0)"
  have r: "rd d 0 = Some (d ! 0)" using assms(1,2) by (intro rd_in_range) linarith
  have c: "coded_bytes d 0 (int n) = Some (take (n - 1) (drop 1 d))"
    using assms(1,2) by (simp add: coded_bytes_def rd_block_def nat_diff_distrib)
  have l: "length (take (n - 1) (drop 1 d)) \<le> 7" using assms(3) by simp
  have str: "\<exists>s. Option.bind (wr_block (replicate 9 0) 0 (take (n - 1) (drop 1 d))) c_string = Some s"
    by (rule short_string_in_bounds [OF l])
  note u = length_u8 [of n]
  have i: "\<exists>v. vscp_getDataCodingInteger (Some d) (of_nat n) = Some v"
    using assms(1-3) u by (simp add: vscp_getDataCodingInteger_def rd_def rd_block_def)
  have m: "\<exists>v. vscp_getDataCodingNormalizedInteger fp (Some d) (of_nat n) = Some v" if "?t = 4"
    using assms(1-3) u assms(4) [OF that]
    by (simp add: vscp_getDataCodingNormalizedInteger_def rd_def rd_block_def Let_def)
  have f: "\<exists>v. vscp_getMeasurementAsFloat (Some d) (of_nat n) = Some v"
    using assms(1,3) u by (simp add: vscp_getMeasurementAsFloat_def rd_block_def word_le_nat_alt)
  show ?thesis
    using str i m f by (auto simp: coded_text_def r c Let_def split: bind_splits)
qed

text \<open>The text of a Level I measurement of CAN size is found without leaving the data, whatever the coding byte
  says, as long as a normalised value has a byte behind its decimal byte.\<close>

theorem level1_measurement_text_is_bounded:
  assumes "wf_event ev" and "vscp_class ev = VSCP_CLASS1_MEASUREMENT \<or> vscp_class ev = VSCP_CLASS1_DATA"
    and "pdata ev = Some d" and "unat (sizeData ev) \<le> 8"
    and "0x07 AND drop_bit 5 (d ! 0) = 4 \<Longrightarrow> unat (sizeData ev) \<noteq> 2"
  shows "\<exists>ok s. vscp_getMeasurementAsString fp s0 (Some ev) = Some (ok, s) \<and> (ok \<longleftrightarrow> 2 \<le> unat (sizeData ev))"
proof -
  have n: "unat (sizeData ev) \<le> length d" using assms(1,3) by (simp add: wf_event_def)
  show ?thesis
  proof (cases "unat (sizeData ev) < 2")
    case True
    then show ?thesis unfolding plain_measurement_text [OF assms(2,3)] by auto
  next
    case False
    then have "\<exists>s. coded_text fp d (unat (sizeData ev)) 0 = Some s"
      using n assms(4,5) by (intro coded_text_in_bounds) simp_all
    then show ?thesis using False unfolding plain_measurement_text [OF assms(2,3)] by auto
  qed
qed

theorem level1_measurement_text_is_bounded_witness:
  "\<exists>ok s. vscp_getMeasurementAsString sample_fpu [] (Some (sample_event\<lparr>vscp_class := 10, sizeData := 3,
      pdata := Some [0x60, 1, 4]\<rparr>)) = Some (ok, s) \<and> (ok \<longleftrightarrow> 2 \<le> unat (3 :: u16))"
  using level1_measurement_text_is_bounded [of "sample_event\<lparr>vscp_class := 10, sizeData := 3, pdata := Some [0x60, 1, 4]\<rparr>"
      "[0x60, 1, 4]" sample_fpu "[]"] sample_event_ok(1)
  by (simp add: class_defs wf_event_def VSCP_LEVEL2_MAXDATA_def)

text \<open>A Level II event with a string coded longer than eight characters overruns the local buffer.\<close>

lemma long_coded_string_overruns:
  assumes "10 < length d" and "0x07 AND drop_bit 5 (d ! 0) = 2"
  shows "coded_text fp d (length d) 0 = None"
proof -
  have "rd d 0 = Some (d ! 0)" using assms(1) by (intro rd_in_range) linarith
  moreover have "coded_bytes d 0 (int (length d)) = Some (drop 1 d)"
    using assms(1) by (simp add: coded_bytes_def rd_block_def nat_diff_distrib)
  moreover have "wr_block (replicate 9 0) 0 (drop 1 d) = None" using assms(1) by (simp add: wr_block_def)
  ultimately show ?thesis using assms(2) by (simp add: coded_text_def Let_def)
qed

text \<open>C18: Converting an event of class 10 (\<^verbatim>\<open>VSCP_CLASS1_MEASUREMENT\<close>) whose value can be read, as a text of at most 507
  characters without a null character, to a Level II string event keeps the measurement: the new event is well
  formed and tells the same text, the same sensor index and the same unit; neither of the two has a zone. (This is
  about class 10 only. The conversion of the classes with zone loses the unit, as shown below, and the conversion to
  a floating point event swaps the bytes of the truncated value.)\<close>

theorem level1_text_conversion_keeps_measurement:
  assumes "wf_event ev" and "vscp_class ev = VSCP_CLASS1_MEASUREMENT"
    and "vscp_getMeasurementAsString fp [] (Some ev) = Some (True, s)" and "NUL \<notin> set s" and "length s \<le> 507"
  shows "\<exists>ev'. vscp_convertLevel1MeasurementToLevel2String fp (Some ev) = Some (True, Some ev') \<and> wf_event ev'
    \<and> vscp_class ev' = VSCP_CLASS2_MEASUREMENT_STR
    \<and> vscp_getMeasurementAsString fp s0 (Some ev') = Some (True, s)
    \<and> vscp_getMeasurementSensorIndex (Some ev') = vscp_getMeasurementSensorIndex (Some ev)
    \<and> vscp_getMeasurementUnit (Some ev') = vscp_getMeasurementUnit (Some ev)
    \<and> vscp_getMeasurementZone (Some ev') = vscp_getMeasurementZone (Some ev)"
proof -
  obtain d where d: "pdata ev = Some d"
    using assms(3) by (auto simp: vscp_getMeasurementAsString_def split: option.splits)
  have "\<not> unat (sizeData ev) < 2"
    using assms(3) unfolding plain_measurement_text [OF disjI1 [OF assms(2)] d] by auto
  moreover have "unat (sizeData ev) \<le> length d" using assms(1) d by (simp add: wf_event_def)
  ultimately have n: "2 \<le> unat (sizeData ev)" "2 \<le> length d" by linarith+
  then have z: "sizeData ev \<noteq> 0" by auto
  let ?b = "d ! 0"
  let ?h = "[?b AND VSCP_MASK_DATACODING_INDEX, 0, 0, drop_bit 3 (?b AND VSCP_MASK_DATACODING_UNIT)]"
  let ?d = "?h @ str_bytes s @ [0]"
  let ?ev = "ev\<lparr>vscp_class := VSCP_CLASS2_MEASUREMENT_STR, sizeData := 4 + of_nat (length s), pdata := Some ?d\<rparr>"
  have u: "unat (4 + of_nat (length s) :: u16) = 4 + length s"
    using unat_of_nat_u16 [of "4 + length s"] assms(5) by simp
  have r: "rd d 0 = Some ?b" using n by (auto simp: rd_def)
  have "vscp_isMeasurement (Some ev) = Some True" using assms(2) by (simp add: vscp_isMeasurement_def x_classes_def)
  moreover have "string_head (vscp_class ev) = Some From_coding" using assms(2) by (simp add: string_head_def x_classes_def)
  ultimately have run: "vscp_convertLevel1MeasurementToLevel2String fp (Some ev) = Some (True, Some ?ev)"
    using assms(3,5) d r
    by (simp add: vscp_convertLevel1MeasurementToLevel2String_def level2_head_def VSCP_LEVEL2_MAXDATA_def)
  have w: "wf_event ?ev" using assms(1,5) u by (simp add: wf_event_def VSCP_LEVEL2_MAXDATA_def)
  have t: "string_class_text ?d (4 + length s) = Some s"
  proof -
    have "wr_block (replicate 512 0) 0 (str_bytes s) = Some (str_bytes s @ replicate (512 - length s) 0)"
      using assms(5) by (subst wr_block_zero) (simp_all add: drop_replicate del: replicate.simps)
    moreover have "c_string (str_bytes s @ replicate (512 - length s) 0) = Some s"
      using c_string_zeros [OF str_bytes_no_zero [OF assms(4)], of "512 - length s"] assms(5) by simp
    ultimately show ?thesis by (simp add: string_class_text_def rd_block_def del: replicate.simps)
  qed
  have said: "vscp_getMeasurementAsString fp s0 (Some ?ev) = Some (True, s)"
    using t by (simp add: vscp_getMeasurementAsString_def u del: append.simps)
  have idx: "vscp_getMeasurementSensorIndex (Some ?ev) = vscp_getMeasurementSensorIndex (Some ev)"
    using assms(2) d z u r
    by (simp add: vscp_getMeasurementSensorIndex_def without_data_def level2_byte_def byte_result_def data_at_def rd_def
        class_defs plain_classes_def zone_classes_def float_classes_def guid_offset_def VSCP_DATACODING_INDEX_def
        word_less_nat_alt and.commute unat_eq_zero_iff [symmetric])
  have unit: "vscp_getMeasurementUnit (Some ?ev) = vscp_getMeasurementUnit (Some ev)"
    using assms(2) d z u r n
    by (simp add: vscp_getMeasurementUnit_def level2_byte_def byte_result_def data_at_def rd_def
        class_defs plain_classes_def zone_classes_def float_classes_def guid_offset_def VSCP_DATACODING_UNIT_def
        word_less_nat_alt and.commute)
  have zone: "vscp_getMeasurementZone (Some ?ev) = vscp_getMeasurementZone (Some ev)"
    using assms(2) d z u
    by (simp add: vscp_getMeasurementZone_def without_data_def level2_byte_def byte_result_def data_at_def rd_def
        class_defs plain_classes_def zone_classes_def float_classes_def word_less_nat_alt unat_eq_zero_iff [symmetric])
  show ?thesis by (rule exI [of _ ?ev]) (use run w said idx unit zone in simp)
qed

theorem level1_text_conversion_keeps_measurement_witness:
  "\<exists>ev'. vscp_convertLevel1MeasurementToLevel2String sample_fpu
       (Some (sample_event\<lparr>vscp_class := 10, sizeData := 4, pdata := Some [0x49, 50, 49, 46]\<rparr>)) = Some (True, Some ev')
    \<and> vscp_getMeasurementAsString sample_fpu [] (Some ev') = Some (True, ''21.'')
    \<and> vscp_getMeasurementSensorIndex (Some ev') = Some 1"
proof -
  let ?ev = "sample_event\<lparr>vscp_class := 10, sizeData := 4, pdata := Some [0x49, 50, 49, 46]\<rparr>"
  have w: "wf_event ?ev" using sample_event_ok(1) by (simp add: wf_event_def VSCP_LEVEL2_MAXDATA_def)
  have c: "vscp_class ?ev = VSCP_CLASS1_MEASUREMENT" by (simp add: class_defs)
  have t: "vscp_getMeasurementAsString sample_fpu [] (Some ?ev) = Some (True, ''21.'')" by code_simp
  have i: "vscp_getMeasurementSensorIndex (Some ?ev) = Some 1" by code_simp
  have z: "NUL \<notin> set ''21.''" "length ''21.'' \<le> 507" by code_simp+
  show ?thesis
    using level1_text_conversion_keeps_measurement [OF w c t z, of "[]"] unfolding i by blast
qed

text \<open>The conversion of an event with zone leaves the unit out: the new event tells unit zero, whatever the unit of the
  original was.\<close>

theorem zone_text_conversion_loses_unit:
  assumes "vscp_class ev \<in> set (x_classes VSCP_CLASS1_MEASUREZONE) \<union> set (x_classes VSCP_CLASS1_SETVALUEZONE)"
    and "vscp_convertLevel1MeasurementToLevel2String fp (Some ev) = Some (True, Some ev')"
  shows "vscp_getMeasurementUnit (Some ev') = Some 0"
proof -
  obtain d strval h where l: "4 + length strval + 1 \<le> VSCP_LEVEL2_MAXDATA"
      and h: "level2_head From_zone_bytes d = Some h"
      and ev': "ev' = ev\<lparr>vscp_class := VSCP_CLASS2_MEASUREMENT_STR, sizeData := 4 + of_nat (length strval),
                        pdata := Some (h @ str_bytes strval @ [0])\<rparr>"
  proof -
    have "string_head (vscp_class ev) = Some From_zone_bytes"
      using assms(1) by (auto simp: string_head_def x_classes_def class_defs)
    then show thesis
      using assms(2) that
      by (auto simp: vscp_convertLevel1MeasurementToLevel2String_def not_less split: option.splits if_splits bind_splits)
  qed
  have "length strval \<le> 507" using l by (simp add: VSCP_LEVEL2_MAXDATA_def)
  then have "unat (4 + of_nat (length strval) :: u16) = 4 + length strval"
    using unat_of_nat_u16 [of "4 + length strval"] by simp
  then have "\<not> (4 + of_nat (length strval) :: u16) < 4" by (simp add: word_less_nat_alt)
  moreover have "length h = 4" "h ! 3 = 0"
    using h by (auto simp: level2_head_def rd_block_def nth_append split: if_splits)
  ultimately show ?thesis
    unfolding ev'
    by (simp add: vscp_getMeasurementUnit_def level2_byte_def byte_result_def data_at_def rd_def nth_append
        class_defs plain_classes_def zone_classes_def float_classes_def)
qed

theorem zone_text_conversion_loses_unit_witness:
  "\<exists>ev'. vscp_convertLevel1MeasurementToLevel2String sample_fpu
       (Some (sample_event\<lparr>vscp_class := 65, sizeData := 6, pdata := Some [1, 2, 3, 0x49, 50, 49]\<rparr>)) = Some (True, Some ev')
     \<and> vscp_getMeasurementUnit (Some ev') = Some 0"
proof -
  let ?ev = "sample_event\<lparr>vscp_class := 65, sizeData := 6, pdata := Some [1, 2, 3, 0x49, 50, 49]\<rparr>"
  have "vscp_getMeasurementAsString sample_fpu [] (Some ?ev) = Some (True, ''21'')" by code_simp
  then obtain ev' where "vscp_convertLevel1MeasurementToLevel2String sample_fpu (Some ?ev) = Some (True, Some ev')"
    by (simp add: vscp_convertLevel1MeasurementToLevel2String_def vscp_isMeasurement_def string_head_def level2_head_def
        x_classes_def class_defs rd_block_def VSCP_LEVEL2_MAXDATA_def)
  moreover have "vscp_class ?ev \<in> set (x_classes VSCP_CLASS1_MEASUREZONE) \<union> set (x_classes VSCP_CLASS1_SETVALUEZONE)"
    by (simp add: x_classes_def class_defs)
  ultimately show ?thesis using zone_text_conversion_loses_unit by blast
qed

end
