(* ===== verification/OrderedMap.thy ===== *)
theory OrderedMap
  imports VscpPrelude
begin

text \<open>
  \<^verbatim>\<open>std::map\<close> and \<^verbatim>\<open>std::set\<close> as the sources use them: the pairs of a map, or the elements of a set, in the
  order of the keys, which is the order in which a range-based \<^verbatim>\<open>for\<close> visits them. Looking a key up with
  \<^verbatim>\<open>operator[]\<close> inserts it with a zero value when it is missing, so it returns the map as well.
\<close>

section \<open>Operations\<close>

type_synonym ('k, 'v) omap = "('k \<times> 'v) list"

fun omap_put :: "'k::linorder \<Rightarrow> 'v \<Rightarrow> ('k, 'v) omap \<Rightarrow> ('k, 'v) omap" where
  "omap_put k v [] = [(k, v)]"
| "omap_put k v ((j, w) # m) =
     (if k < j then (k, v) # (j, w) # m else if k = j then (k, v) # m else (j, w) # omap_put k v m)"

definition omap_at :: "'v \<Rightarrow> 'k::linorder \<Rightarrow> ('k, 'v) omap \<Rightarrow> 'v \<times> ('k, 'v) omap" where
  "omap_at zero k m = (case map_of m k of Some v \<Rightarrow> (v, m) | None \<Rightarrow> (zero, omap_put k zero m))"

definition omap_erase :: "'k \<Rightarrow> ('k, 'v) omap \<Rightarrow> ('k, 'v) omap" where
  "omap_erase k m = filter (\<lambda>(j, _). j \<noteq> k) m"

fun oset_insert :: "'a::linorder \<Rightarrow> 'a list \<Rightarrow> 'a list" where
  "oset_insert x [] = [x]"
| "oset_insert x (y # ys) = (if x < y then x # y # ys else if x = y then y # ys else y # oset_insert x ys)"

section \<open>Order\<close>

definition ordered :: "('k::linorder, 'v) omap \<Rightarrow> bool" where
  "ordered m \<longleftrightarrow> sorted_wrt (<) (map fst m)"

lemma ordered_Nil [simp]: "ordered []"
  by (simp add: ordered_def)

lemma ordered_Cons: "ordered ((k, v) # m) \<longleftrightarrow> (\<forall>j\<in>fst ` set m. k < j) \<and> ordered m"
  by (auto simp: ordered_def)

lemma keys_put [simp]: "fst ` set (omap_put k v m) = insert k (fst ` set m)"
  by (induction k v m rule: omap_put.induct) auto

lemma ordered_put [simp]: "ordered m \<Longrightarrow> ordered (omap_put k v m)"
  by (induction k v m rule: omap_put.induct) (auto simp: ordered_Cons)

lemma map_of_put [simp]: "ordered m \<Longrightarrow> map_of (omap_put k v m) = (map_of m)(k \<mapsto> v)"
proof (induction k v m rule: omap_put.induct)
  case (2 k v j w m)
  then show ?case by (auto simp: ordered_Cons fun_eq_iff)
qed simp

lemma ordered_erase [simp]: "ordered m \<Longrightarrow> ordered (omap_erase k m)"
  by (induction m) (auto simp: omap_erase_def ordered_Cons)

lemma map_of_erase [simp]: "map_of (omap_erase k m) = (map_of m)(k := None)"
  by (induction m) (auto simp: omap_erase_def)

lemma ordered_distinct: "ordered m \<Longrightarrow> distinct (map fst m)"
  by (simp add: ordered_def strict_sorted_iff)

text \<open>An ordered list of pairs is determined by the map it stands for.\<close>

lemma omap_eqI:
  assumes "ordered m" and "ordered n" and "map_of m = map_of n"
  shows "m = n"
proof -
  have "set m = set n" using map_of_inject_set [OF ordered_distinct [OF assms(1)] ordered_distinct [OF assms(2)]] assms(3) by simp
  moreover have "sorted_wrt (\<lambda>p q. fst p < fst q) m" "sorted_wrt (\<lambda>p q. fst p < fst q) n"
    using assms(1,2) by (simp_all add: ordered_def sorted_wrt_map)
  ultimately show ?thesis
  proof (induction m arbitrary: n)
    case (Cons p m)
    obtain q n' where n: "n = q # n'" using Cons.prems(1) by (cases n) auto
    have "p = q" using Cons.prems n by (metis list.set_intros(1) order_less_asym set_ConsD sorted_wrt.simps(2))
    moreover from this have "set m = set n'"
      using Cons.prems n by (metis insert_absorb insert_eq_iff less_irrefl list.simps(15) sorted_wrt.simps(2))
    ultimately show ?case using Cons n by auto
  qed simp
qed

text \<open>The value at a key, with the zero value where there is none, does not notice the insertions of \<open>omap_at\<close>.\<close>

definition omap_get :: "'v \<Rightarrow> ('k, 'v) omap \<Rightarrow> 'k \<Rightarrow> 'v" where
  "omap_get zero m k = (case map_of m k of Some v \<Rightarrow> v | None \<Rightarrow> zero)"

lemma omap_at_value [simp]: "fst (omap_at zero k m) = omap_get zero m k"
  by (simp add: omap_at_def omap_get_def split: option.split)

lemma ordered_at [simp]: "ordered m \<Longrightarrow> ordered (snd (omap_at zero k m))"
  by (simp add: omap_at_def split: option.split)

lemma omap_get_put [simp]: "ordered m \<Longrightarrow> omap_get zero (omap_put k v m) = (omap_get zero m)(k := v)"
  by (simp add: omap_get_def fun_eq_iff)

lemma omap_get_at [simp]: "ordered m \<Longrightarrow> omap_get zero (snd (omap_at zero k m)) = omap_get zero m"
  by (cases "map_of m k") (auto simp: omap_at_def omap_get_def fun_eq_iff)

lemma omap_get_Nil [simp]: "omap_get zero [] = (\<lambda>_. zero)"
  by (simp add: omap_get_def fun_eq_iff)

lemma set_oset_insert [simp]: "set (oset_insert x ys) = insert x (set ys)"
  by (induction ys) auto

lemma sorted_oset_insert: "sorted_wrt (<) ys \<Longrightarrow> sorted_wrt (<) (oset_insert x ys)"
  by (induction ys) auto

end
