(* ===== verification/Registers.thy ===== *)
theory Registers
  imports OrderedMap Guid Measurement
begin

unbundle bit_operations_syntax

text \<open>
  The local copy of a node's registers (\<^verbatim>\<open>register.h\<close>, \<^verbatim>\<open>register.cpp\<close>): pages with their change marks and
  undo lists, the standard registers, the user registers with their pages, remote variables as text, and the
  rows of the decision matrix. Maps are \<open>omap\<close>s, because looking a register up inserts it. Of a remote variable
  and of a decision matrix (\<^verbatim>\<open>mdf.h\<close>) the fields that are used here are kept. A \<^verbatim>\<open>printf\<close> conversion whose
  size is not that of its argument is undefined and has no result.
\<close>

section \<open>Register pages\<close>

definition VSCP_LEVEL1 :: u8 where "VSCP_LEVEL1 = 0"
definition VSCP_LEVEL2 :: u8 where "VSCP_LEVEL2 = 1"
definition VSCP_ERROR_INIT_MISSING :: int where "VSCP_ERROR_INIT_MISSING = 15"

record CRegisterPage =
  rp_level :: u8
  rp_page :: u16
  m_registers :: "(u32, u8) omap"
  m_change :: "(u32, bool) omap"
  m_list_undo_value :: "(u32, u8 list) omap"
  m_list_redo_value :: "(u32, u8 list) omap"

definition new_CRegisterPage :: "u8 \<Rightarrow> u16 \<Rightarrow> CRegisterPage" where
  "new_CRegisterPage level page = \<lparr>rp_level = level, rp_page = page, m_registers = [], m_change = [],
     m_list_undo_value = [], m_list_redo_value = []\<rparr>"

definition page_getReg :: "u32 \<Rightarrow> CRegisterPage \<Rightarrow> int \<times> CRegisterPage" where
  "page_getReg offset p =
     (if rp_level p = VSCP_LEVEL1 \<and> offset > 127 then (- 1, p)
      else let (v, regs) = omap_at 0 offset (m_registers p) in (uint v, p\<lparr>m_registers := regs\<rparr>))"

text \<open>A value that differs is marked as changed, and the old one is put on the undo list.\<close>

definition page_putReg :: "u32 \<Rightarrow> u8 \<Rightarrow> CRegisterPage \<Rightarrow> int \<times> CRegisterPage" where
  "page_putReg reg val p =
     (if rp_level p = VSCP_LEVEL1 \<and> reg > 128 then (- 1, p)
      else
        let (old, regs) = omap_at 0 reg (m_registers p);
            (undo, undos) = omap_at [] reg (m_list_undo_value p);
            p = (if old \<noteq> val
                 then p\<lparr>m_change := omap_put reg True (m_change p),
                        m_list_undo_value := omap_put reg (undo @ [old]) undos\<rparr>
                 else p)
        in (uint val, p\<lparr>m_registers := omap_put reg val regs\<rparr>))"

definition putLevel1Registers :: "(u8, u8) omap \<Rightarrow> CRegisterPage \<Rightarrow> CRegisterPage" where
  "putLevel1Registers registers p = foldl (\<lambda>p (r, v). snd (page_putReg (ucast r) v p)) p registers"

definition getLevel1Registers :: "CRegisterPage \<Rightarrow> (u8, u8) omap \<Rightarrow> (u8, u8) omap" where
  "getLevel1Registers p registers =
     foldl (\<lambda>m (r, v). if r < 128 then omap_put (ucast r) v m else m) registers (m_registers p)"

definition page_setChangedState :: "u32 \<Rightarrow> bool \<Rightarrow> CRegisterPage \<Rightarrow> CRegisterPage" where
  "page_setChangedState offset state p = p\<lparr>m_change := omap_put offset state (m_change p)\<rparr>"

definition page_clearChanges :: "CRegisterPage \<Rightarrow> CRegisterPage" where
  "page_clearChanges p = p\<lparr>m_change := []\<rparr>"

definition page_clearHistory :: "CRegisterPage \<Rightarrow> CRegisterPage" where
  "page_clearHistory p = p\<lparr>m_list_undo_value := [], m_list_redo_value := []\<rparr>"

definition page_isChanged :: "u32 \<Rightarrow> CRegisterPage \<Rightarrow> bool \<times> CRegisterPage" where
  "page_isChanged offset p = (let (b, m) = omap_at False offset (m_change p) in (b, p\<lparr>m_change := m\<rparr>))"

definition page_hasWrittenChange :: "u32 \<Rightarrow> CRegisterPage \<Rightarrow> bool \<times> CRegisterPage" where
  "page_hasWrittenChange offset p =
     (let (l, m) = omap_at [] offset (m_list_undo_value p) in (l \<noteq> [], p\<lparr>m_list_undo_value := m\<rparr>))"

definition page_hasChanges :: "CRegisterPage \<Rightarrow> bool" where
  "page_hasChanges p = list_ex snd (m_change p)"

section \<open>Standard registers\<close>

record CStandardRegisters =
  std_level :: u8
  m_regs :: "(u8, u8) omap"
  std_change :: "(u32, bool) omap"

definition std_getReg :: "u8 \<Rightarrow> CStandardRegisters \<Rightarrow> u8 \<times> CStandardRegisters" where
  "std_getReg reg s = (let (v, m) = omap_at 0 reg (m_regs s) in (v, s\<lparr>m_regs := m\<rparr>))"

definition std_putReg :: "u8 \<Rightarrow> u8 \<Rightarrow> CStandardRegisters \<Rightarrow> CStandardRegisters" where
  "std_putReg reg val s = s\<lparr>m_regs := omap_put reg val (m_regs s)\<rparr>"

text \<open>Reading the registers \<open>first\<close> to \<open>first + n - 1\<close>, one after the other.\<close>

fun std_read :: "u8 \<Rightarrow> nat \<Rightarrow> CStandardRegisters \<Rightarrow> u8 list \<times> CStandardRegisters" where
  "std_read first 0 s = ([], s)"
| "std_read first (Suc n) s =
     (let (v, s) = std_getReg first s; (vs, s) = std_read (first + 1) n s in (v # vs, s))"

text \<open>The page loses nothing, but gains the registers that are looked up in it; -1 is stored as 255.\<close>

definition std_init_page :: "CRegisterPage \<Rightarrow> CStandardRegisters \<Rightarrow> int \<times> CRegisterPage \<times> CStandardRegisters" where
  "std_init_page regPage s =
     (if rp_page regPage \<noteq> 0 then (VSCP_ERROR_INIT_MISSING, regPage, s)
      else let (regPage, s) = foldl (\<lambda>(p, s) i.
             if i < 0xa5 \<or> i > 0xcf
             then let (v, p) = page_getReg (of_nat i) p in (p, std_putReg (of_nat i) (word_of_int v) s)
             else (p, s)) (regPage, s) [0x80..<0x100]
           in (VSCP_ERROR_SUCCESS, regPage, s))"

definition std_word32 :: "u8 \<Rightarrow> CStandardRegisters \<Rightarrow> u32 \<times> CStandardRegisters" where
  "std_word32 first s =
     (let (b0, s) = std_getReg first s; (b1, s) = std_getReg (first + 1) s; (b2, s) = std_getReg (first + 2) s;
          (b3, s) = std_getReg (first + 3) s
      in (be32 b0 b1 b2 b3, s))"

definition getAlarm :: "CStandardRegisters \<Rightarrow> u8 \<times> CStandardRegisters" where "getAlarm = std_getReg 0x80"
definition getConformanceVersionMajor :: "CStandardRegisters \<Rightarrow> u8 \<times> CStandardRegisters" where
  "getConformanceVersionMajor = std_getReg 0x81"
definition getConformanceVersionMinor :: "CStandardRegisters \<Rightarrow> u8 \<times> CStandardRegisters" where
  "getConformanceVersionMinor = std_getReg 0x82"
definition getErrorCounter :: "CStandardRegisters \<Rightarrow> u8 \<times> CStandardRegisters" where "getErrorCounter = std_getReg 0x83"
definition getUserId :: "u8 \<Rightarrow> CStandardRegisters \<Rightarrow> u8 \<times> CStandardRegisters" where "getUserId i = std_getReg (0x84 + i)"
definition getUserIds :: "CStandardRegisters \<Rightarrow> u8 list \<times> CStandardRegisters" where "getUserIds = std_read 0x84 5"
definition getManufacturerDeviceID :: "CStandardRegisters \<Rightarrow> u32 \<times> CStandardRegisters" where
  "getManufacturerDeviceID = std_word32 0x89"
definition getManufacturerSubDeviceID :: "CStandardRegisters \<Rightarrow> u32 \<times> CStandardRegisters" where
  "getManufacturerSubDeviceID = std_word32 0x8D"
definition std_getNickname :: "CStandardRegisters \<Rightarrow> u8 \<times> CStandardRegisters" where "std_getNickname = std_getReg 0x91"
definition std_getRegisterPage :: "CStandardRegisters \<Rightarrow> u16 \<times> CStandardRegisters" where
  "std_getRegisterPage s =
     (let (hi, s) = std_getReg 0x92 s; (lo, s) = std_getReg 0x93 s in (ucast hi * 256 + ucast lo, s))"
definition getFirmwareMajorVersion :: "CStandardRegisters \<Rightarrow> u8 \<times> CStandardRegisters" where
  "getFirmwareMajorVersion = std_getReg 0x94"
definition getFirmwareMinorVersion :: "CStandardRegisters \<Rightarrow> u8 \<times> CStandardRegisters" where
  "getFirmwareMinorVersion = std_getReg 0x95"
definition getFirmwareSubMinorVersion :: "CStandardRegisters \<Rightarrow> u8 \<times> CStandardRegisters" where
  "getFirmwareSubMinorVersion = std_getReg 0x96"
definition getBootloaderAlgorithm :: "CStandardRegisters \<Rightarrow> u8 \<times> CStandardRegisters" where
  "getBootloaderAlgorithm = std_getReg 0x97"
definition getBufferSize :: "CStandardRegisters \<Rightarrow> u8 \<times> CStandardRegisters" where "getBufferSize = std_getReg 0x98"
definition getNumberOfRegisterPages :: "CStandardRegisters \<Rightarrow> u8 \<times> CStandardRegisters" where
  "getNumberOfRegisterPages = std_getReg 0x99"
definition getStandardDeviceFamilyCode :: "CStandardRegisters \<Rightarrow> u32 \<times> CStandardRegisters" where
  "getStandardDeviceFamilyCode = std_word32 0x9A"
definition getStandardDeviceFamilyType :: "CStandardRegisters \<Rightarrow> u32 \<times> CStandardRegisters" where
  "getStandardDeviceFamilyType = std_word32 0x9E"
definition getFirmwareDeviceCode :: "CStandardRegisters \<Rightarrow> u16 \<times> CStandardRegisters" where
  "getFirmwareDeviceCode s = (let (hi, s) = std_getReg 0xA3 s; (lo, s) = std_getReg 0xA4 s in (be16 hi lo, s))"

definition getFirmwareVersionString :: "CStandardRegisters \<Rightarrow> string \<times> CStandardRegisters" where
  "getFirmwareVersionString s =
     (let (vs, s) = std_read 0x94 3 s in (join (CHR ''.'') (map (\<lambda>v. fmt_d (unat v)) vs), s))"

definition std_getGUID :: "u8 list \<Rightarrow> CStandardRegisters \<Rightarrow> (u8 list \<times> CStandardRegisters) safe" where
  "std_getGUID guid s =
     (let (vs, s) = std_read 0xd0 16 s in map_option (\<lambda>g. (g, s)) (wr_block guid 0 vs))"

definition getGUIDStr :: "CStandardRegisters \<Rightarrow> (string \<times> CStandardRegisters) safe" where
  "getGUIDStr s = map_option (\<lambda>(g, s). (cguid_toString g, s)) (std_getGUID cguid_clear s)"

text \<open>The buffer has one more byte than the registers fill, which is not set.\<close>

definition getMDF :: "u8 \<Rightarrow> CStandardRegisters \<Rightarrow> (string \<times> CStandardRegisters) safe" where
  "getMDF stack s =
     (let (url, s) = std_read 0xe0 32 s in map_option (\<lambda>str. (str, s)) (c_string (url @ [stack])))"

definition std_setChangedState :: "u32 \<Rightarrow> bool \<Rightarrow> CStandardRegisters \<Rightarrow> CStandardRegisters" where
  "std_setChangedState offset state s = s\<lparr>std_change := omap_put offset state (std_change s)\<rparr>"

definition std_clearChanges :: "CStandardRegisters \<Rightarrow> CStandardRegisters" where
  "std_clearChanges s = s\<lparr>std_change := []\<rparr>"

definition std_isChanged :: "u32 \<Rightarrow> CStandardRegisters \<Rightarrow> bool \<times> CStandardRegisters" where
  "std_isChanged offset s = (let (b, m) = omap_at False offset (std_change s) in (b, s\<lparr>std_change := m\<rparr>))"

definition std_hasChanges :: "CStandardRegisters \<Rightarrow> bool" where
  "std_hasChanges s = list_ex snd (std_change s)"

section \<open>User registers\<close>

text \<open>Looking a page up inserts a null pointer when it is missing.\<close>

record CUserRegisters =
  usr_level :: u8
  m_pages :: "int list"
  m_registerPageMap :: "(u16, CRegisterPage ptr) omap"

definition getRegisterPage :: "u16 \<Rightarrow> CUserRegisters \<Rightarrow> CRegisterPage ptr \<times> CUserRegisters" where
  "getRegisterPage page u =
     (let (p, m) = omap_at None page (m_registerPageMap u) in (p, u\<lparr>m_registerPageMap := m\<rparr>))"

definition set_page :: "u16 \<Rightarrow> CRegisterPage \<Rightarrow> CUserRegisters \<Rightarrow> CUserRegisters" where
  "set_page page p u = u\<lparr>m_registerPageMap := omap_put page (Some p) (m_registerPageMap u)\<rparr>"

definition getRegisterMap :: "u16 \<Rightarrow> CUserRegisters \<Rightarrow> (u32, u8) omap ptr \<times> CUserRegisters" where
  "getRegisterMap page u = (let (p, u) = getRegisterPage page u in (map_option m_registers p, u))"

definition user_getReg :: "u32 \<Rightarrow> u16 \<Rightarrow> CUserRegisters \<Rightarrow> int \<times> CUserRegisters" where
  "user_getReg offset page u =
     (let (p, u) = getRegisterPage page u
      in (case p of None \<Rightarrow> - 1
          | Some p \<Rightarrow> (case map_of (m_registers p) offset of None \<Rightarrow> - 1 | Some v \<Rightarrow> uint v), u))"

text \<open>Contrary to the comment in the code, a missing page is not created.\<close>

definition user_putReg :: "u32 \<Rightarrow> u32 \<Rightarrow> u8 \<Rightarrow> CUserRegisters \<Rightarrow> (bool \<times> CUserRegisters) safe" where
  "user_putReg reg page val u =
     (if usr_level u = VSCP_LEVEL1 \<and> reg > 127 \<or> usr_level u = VSCP_LEVEL2 \<and> page > 0xffffff80
         \<or> usr_level u \<noteq> VSCP_LEVEL1 \<and> usr_level u \<noteq> VSCP_LEVEL2
      then Some (False, u)
      else
        let (p, u) = getRegisterPage (ucast page) u
        in (case p of None \<Rightarrow> None
            | Some p \<Rightarrow> Some (True, (set_page (ucast page) (snd (page_putReg reg val p)) u)
                \<lparr>m_pages := oset_insert (uint page) (m_pages u)\<rparr>)))"

definition user_setChangedState :: "u32 \<Rightarrow> u16 \<Rightarrow> bool \<Rightarrow> CUserRegisters \<Rightarrow> bool \<times> CUserRegisters" where
  "user_setChangedState offset page state u =
     (case getRegisterPage page u of (None, u) \<Rightarrow> (False, u)
      | (Some p, u) \<Rightarrow> (True, set_page page (page_setChangedState offset state p) u))"

definition user_isChanged :: "u32 \<Rightarrow> u16 \<Rightarrow> CUserRegisters \<Rightarrow> bool \<times> CUserRegisters" where
  "user_isChanged offset page u =
     (case getRegisterPage page u of (None, u) \<Rightarrow> (False, u)
      | (Some p, u) \<Rightarrow> let (b, p) = page_isChanged offset p in (b, set_page page p u))"

definition user_hasWrittenChange :: "u32 \<Rightarrow> u16 \<Rightarrow> CUserRegisters \<Rightarrow> bool \<times> CUserRegisters" where
  "user_hasWrittenChange offset page u =
     (case getRegisterPage page u of (None, u) \<Rightarrow> (False, u)
      | (Some p, u) \<Rightarrow> let (b, p) = page_hasWrittenChange offset p in (b, set_page page p u))"

text \<open>The loops over the pages use every pointer of the map; a null pointer among them is undefined.\<close>

fun all_pages :: "(u16, CRegisterPage ptr) omap \<Rightarrow> (u16 \<times> CRegisterPage) list safe" where
  "all_pages [] = Some []"
| "all_pages ((k, p) # m) = do { p \<leftarrow> p; ps \<leftarrow> all_pages m; Some ((k, p) # ps) }"

definition map_pages :: "(CRegisterPage \<Rightarrow> CRegisterPage) \<Rightarrow> CUserRegisters \<Rightarrow> CUserRegisters safe" where
  "map_pages f u = map_option (\<lambda>ps. u\<lparr>m_registerPageMap := map (\<lambda>(k, p). (k, Some (f p))) ps\<rparr>)
     (all_pages (m_registerPageMap u))"

definition user_clearChanges :: "CUserRegisters \<Rightarrow> CUserRegisters safe" where
  "user_clearChanges = map_pages page_clearChanges"

definition user_clearHistory :: "CUserRegisters \<Rightarrow> CUserRegisters safe" where
  "user_clearHistory = map_pages page_clearHistory"

text \<open>The first page with changes ends the search.\<close>

fun any_page_changed :: "(u16, CRegisterPage ptr) omap \<Rightarrow> bool safe" where
  "any_page_changed [] = Some False"
| "any_page_changed ((k, p) # m) = do { p \<leftarrow> p; if page_hasChanges p then Some True else any_page_changed m }"

definition user_hasChanges :: "CUserRegisters \<Rightarrow> bool safe" where
  "user_hasChanges u = any_page_changed (m_registerPageMap u)"

section \<open>Remote variables (mdf.h)\<close>

datatype vscp_remote_variable_type =
    remote_variable_type_unknown | remote_variable_type_string | remote_variable_type_boolean
  | remote_variable_type_int8_t | remote_variable_type_uint8_t | remote_variable_type_int16_t
  | remote_variable_type_uint16_t | remote_variable_type_int32_t | remote_variable_type_uint32_t
  | remote_variable_type_int64_t | remote_variable_type_uint64_t | remote_variable_type_float
  | remote_variable_type_double | remote_variable_type_date | remote_variable_type_time

record CMDF_RemoteVariable =
  rv_type :: vscp_remote_variable_type
  rv_page :: u16
  rv_offset :: u32
  rv_bitpos :: u8
  rv_size :: u16

definition getBitPos :: "CMDF_RemoteVariable \<Rightarrow> nat" where
  "getBitPos rv = unat (rv_bitpos rv AND 0x07)"

definition getTypeByteCount :: "CMDF_RemoteVariable \<Rightarrow> nat" where
  "getTypeByteCount rv =
     (case rv_type rv of
        remote_variable_type_string \<Rightarrow> unat (rv_size rv)
      | remote_variable_type_boolean \<Rightarrow> 1
      | remote_variable_type_int8_t \<Rightarrow> 1 | remote_variable_type_uint8_t \<Rightarrow> 1
      | remote_variable_type_int16_t \<Rightarrow> 2 | remote_variable_type_uint16_t \<Rightarrow> 2
      | remote_variable_type_int32_t \<Rightarrow> 4 | remote_variable_type_uint32_t \<Rightarrow> 4
      | remote_variable_type_int64_t \<Rightarrow> 8 | remote_variable_type_uint64_t \<Rightarrow> 8
      | remote_variable_type_float \<Rightarrow> 4 | remote_variable_type_double \<Rightarrow> 8
      | remote_variable_type_date \<Rightarrow> 3 | remote_variable_type_time \<Rightarrow> 3
      | remote_variable_type_unknown \<Rightarrow> 0)"

text \<open>A register as the byte that is stored in a buffer, and several registers from \<open>offset\<close> on.\<close>

definition page_byte :: "u32 \<Rightarrow> CRegisterPage \<Rightarrow> u8 \<times> CRegisterPage" where
  "page_byte offset p = (let (v, p) = page_getReg offset p in (word_of_int v, p))"

fun page_bytes :: "u32 \<Rightarrow> nat \<Rightarrow> CRegisterPage \<Rightarrow> u8 list \<times> CRegisterPage" where
  "page_bytes offset 0 p = ([], p)"
| "page_bytes offset (Suc n) p =
     (let (v, p) = page_byte offset p; (vs, p) = page_bytes (offset + 1) n p in (v # vs, p))"

fun put_bytes :: "u32 \<Rightarrow> u8 list \<Rightarrow> CRegisterPage \<Rightarrow> CRegisterPage" where
  "put_bytes offset [] p = p"
| "put_bytes offset (b # bs) p = put_bytes (offset + 1) bs (snd (page_putReg offset b p))"

text \<open>The bytes of a string are stored at their register numbers, not from the start of the buffer.\<close>

fun string_buffer :: "nat \<Rightarrow> nat \<Rightarrow> u8 list \<Rightarrow> CRegisterPage \<Rightarrow> (u8 list \<times> CRegisterPage) safe" where
  "string_buffer i 0 buf p = Some (buf, p)"
| "string_buffer i (Suc n) buf p =
     (let (v, p) = page_byte (of_nat i) p
      in do { buf \<leftarrow> wr_block buf i [v]; string_buffer (Suc i) n buf p })"

definition be_word :: "u8 list \<Rightarrow> 'a::len word" where
  "be_word bs = foldl (\<lambda>w b. push_bit 8 w + ucast b) 0 bs"

text \<open>\<^verbatim>\<open>%hd\<close> and \<^verbatim>\<open>%lld\<close> of a signed value, and the hexadecimal forms with leading zeros.\<close>

definition fmt_i :: "int \<Rightarrow> string" where
  "fmt_i v = (if v < 0 then CHR ''-'' # fmt_d (nat (- v)) else fmt_d (nat v))"

definition fmt_0x :: "nat \<Rightarrow> nat \<Rightarrow> string" where
  "fmt_0x n v = replicate (n - length (fmt_x v)) (CHR ''0'') @ fmt_x v"

definition remote_text :: "fpu \<Rightarrow> CMDF_RemoteVariable \<Rightarrow> bool \<Rightarrow> CRegisterPage \<Rightarrow> (string \<times> CRegisterPage) safe" where
  "remote_text fp rv decimal p =
     (let offset = rv_offset rv; n = getTypeByteCount rv
      in case rv_type rv of
        remote_variable_type_string \<Rightarrow>
          do {
            (buf, p) \<leftarrow> string_buffer (unat offset) (unat (offset + of_nat n) - unat offset) (replicate (n + 1) 0) p;
            s \<leftarrow> c_string buf;
            Some (s, p) }
      | remote_variable_type_boolean \<Rightarrow>
          let (v, p) = page_getReg (offset AND of_nat (2 ^ getBitPos rv)) p
          in Some (if v \<noteq> 0 then ''true'' else ''false'', p)
      | remote_variable_type_int8_t \<Rightarrow>
          if decimal then None
          else let (v, p) = page_getReg offset p in Some (''0x'' @ fmt_0x 2 (unat (word_of_int v :: u16)), p)
      | remote_variable_type_uint8_t \<Rightarrow>
          let (v, p) = page_getReg offset p
          in Some (if decimal then fmt_d (unat (word_of_int v :: u16)) else ''0x'' @ fmt_0x 2 (unat (word_of_int v :: u16)), p)
      | remote_variable_type_int16_t \<Rightarrow>
          let (bs, p) = page_bytes offset 2 p; v = (be_word bs :: u16)
          in Some (if decimal then fmt_i (sint v) else ''0x'' @ fmt_0x 4 (unat v), p)
      | remote_variable_type_uint16_t \<Rightarrow>
          let (bs, p) = page_bytes offset 2 p; v = (be_word bs :: u16)
          in Some (if decimal then ''hd'' else ''0x'' @ fmt_0x 4 (unat v), p)
      | remote_variable_type_int32_t \<Rightarrow> None
      | remote_variable_type_uint32_t \<Rightarrow> None
      | remote_variable_type_int64_t \<Rightarrow>
          let (bs, p) = page_bytes offset n p; v = (be_word bs :: u64)
          in Some (if decimal then fmt_i (sint v) else ''0x'' @ fmt_x (unat v), p)
      | remote_variable_type_uint64_t \<Rightarrow> None
      | remote_variable_type_float \<Rightarrow>
          let (bs, p) = page_bytes offset n p in Some (fmt_f fp (single_to_double fp (le_word bs)), p)
      | remote_variable_type_double \<Rightarrow>
          let (bs, p) = page_bytes offset n p in Some (fmt_g fp (le_word bs), p)
      | remote_variable_type_date \<Rightarrow> None
      | remote_variable_type_time \<Rightarrow> None
      | remote_variable_type_unknown \<Rightarrow> Some ([], p))"

definition remoteVarFromRegToString ::
  "fpu \<Rightarrow> CMDF_RemoteVariable \<Rightarrow> bool \<Rightarrow> string \<Rightarrow> CUserRegisters \<Rightarrow> (int \<times> string \<times> CUserRegisters) safe" where
  "remoteVarFromRegToString fp rv decimal strValue u =
     (case getRegisterPage (rv_page rv) u of
        (None, u) \<Rightarrow> Some (VSCP_ERROR_ERROR, strValue, u)
      | (Some p, u) \<Rightarrow> do {
          (s, p) \<leftarrow> remote_text fp rv decimal p;
          Some (VSCP_ERROR_SUCCESS, s, set_page (rv_page rv) p u) })"

definition time_fields :: "u32 \<Rightarrow> string \<Rightarrow> CRegisterPage \<Rightarrow> CRegisterPage" where
  "time_fields offset s p =
     (case vscp_split s (CHR '':'') of
        [a, b, c] \<Rightarrow> put_bytes offset (map (\<lambda>t. word_of_int (vscp_readStringValue t)) [a, b, c]) p
      | _ \<Rightarrow> p)"

text \<open>A \<^verbatim>\<open>float\<close> is read through a pointer to eight bytes, which leaves it.\<close>

definition remote_store :: "fpu \<Rightarrow> CMDF_RemoteVariable \<Rightarrow> string \<Rightarrow> CRegisterPage \<Rightarrow> CRegisterPage safe" where
  "remote_store fp rv s p =
     (let offset = rv_offset rv; v = vscp_readStringValue s
      in case rv_type rv of
        remote_variable_type_string \<Rightarrow> Some (put_bytes offset (str_bytes s) p)
      | remote_variable_type_boolean \<Rightarrow>
          let (b, p) = page_byte offset p;
              b = (if s = ''true'' then b OR push_bit (getBitPos rv) 1
                   else if s = ''false'' then b AND NOT (push_bit (getBitPos rv) 1)
                   else word_of_int v)
          in Some (snd (page_putReg offset b p))
      | remote_variable_type_int8_t \<Rightarrow> Some (put_bytes offset [word_of_int v] p)
      | remote_variable_type_uint8_t \<Rightarrow> Some (put_bytes offset [word_of_int v] p)
      | remote_variable_type_int16_t \<Rightarrow> Some (put_bytes offset (drop 6 (be64_bytes (word_of_int v))) p)
      | remote_variable_type_uint16_t \<Rightarrow> Some (put_bytes offset (drop 6 (be64_bytes (word_of_int v))) p)
      | remote_variable_type_int32_t \<Rightarrow> Some (put_bytes offset (drop 4 (be64_bytes (word_of_int v))) p)
      | remote_variable_type_uint32_t \<Rightarrow> Some (put_bytes offset (drop 4 (be64_bytes (word_of_int v))) p)
      | remote_variable_type_int64_t \<Rightarrow> Some (put_bytes offset (be64_bytes (word_of_int v)) p)
      | remote_variable_type_uint64_t \<Rightarrow> Some (put_bytes offset (be64_bytes (word_of_int v)) p)
      | remote_variable_type_float \<Rightarrow> None
      | remote_variable_type_double \<Rightarrow>
          let bits = of_integer fp v
          in Some (put_bytes offset (le_bytes (of_integer fp (uint (be64_of (le_bytes bits))))) p)
      | remote_variable_type_date \<Rightarrow> Some (time_fields offset s p)
      | remote_variable_type_time \<Rightarrow> Some (time_fields offset s p)
      | remote_variable_type_unknown \<Rightarrow> Some p)"

definition remoteVarFromStringToReg ::
  "fpu \<Rightarrow> CMDF_RemoteVariable \<Rightarrow> string \<Rightarrow> CUserRegisters \<Rightarrow> (int \<times> CUserRegisters) safe" where
  "remoteVarFromStringToReg fp rv strValue u =
     (case getRegisterPage (rv_page rv) u of
        (None, u) \<Rightarrow> Some (VSCP_ERROR_ERROR, u)
      | (Some p, u) \<Rightarrow> do {
          p \<leftarrow> remote_store fp rv strValue p;
          Some (VSCP_ERROR_SUCCESS, set_page (rv_page rv) p u) })"

section \<open>Decision matrix\<close>

record CMDF_DecisionMatrix =
  dm_startPage :: u16
  dm_startOffset :: u16
  dm_rowCount :: u16
  dm_rowSize :: u16

text \<open>The product of two 16-bit values is a signed \<^verbatim>\<open>int\<close>.\<close>

definition dm_register :: "CMDF_DecisionMatrix \<Rightarrow> u16 \<Rightarrow> nat \<Rightarrow> u32 safe" where
  "dm_register dm row i =
     (let r = unat (dm_rowSize dm) * unat row + i in if r < 2 ^ 31 then Some (of_nat r) else None)"

definition vscp_getGetDmRegisterContent ::
  "CMDF_DecisionMatrix \<Rightarrow> u16 \<Rightarrow> u8 \<Rightarrow> CUserRegisters \<Rightarrow> (int \<times> CUserRegisters) safe" where
  "vscp_getGetDmRegisterContent dm row pos u =
     (case getRegisterPage (dm_startPage dm) u of
        (None, u) \<Rightarrow> Some (VSCP_ERROR_ERROR, u)
      | (Some p, u) \<Rightarrow>
          if row \<ge> dm_rowCount dm \<or> ucast pos \<ge> dm_rowSize dm then Some (VSCP_ERROR_ERROR, u)
          else do {
            r \<leftarrow> dm_register dm row 0;
            let (v, p) = page_getReg r p;
            Some (v, set_page (dm_startPage dm) p u) })"

fun read_row :: "CMDF_DecisionMatrix \<Rightarrow> u16 \<Rightarrow> nat \<Rightarrow> nat \<Rightarrow> u8 list \<Rightarrow> CRegisterPage \<Rightarrow> (u8 list \<times> CRegisterPage) safe" where
  "read_row dm row i 0 buf p = Some (buf, p)"
| "read_row dm row i (Suc n) buf p = do {
     r \<leftarrow> dm_register dm row i;
     let (v, p) = page_byte r p;
     buf \<leftarrow> wr_block buf i [v];
     read_row dm row (Suc i) n buf p }"

fun write_row :: "CMDF_DecisionMatrix \<Rightarrow> u16 \<Rightarrow> nat \<Rightarrow> nat \<Rightarrow> u8 list \<Rightarrow> CRegisterPage \<Rightarrow> CRegisterPage safe" where
  "write_row dm row i 0 buf p = Some p"
| "write_row dm row i (Suc n) buf p = do {
     r \<leftarrow> dm_register dm row i;
     v \<leftarrow> rd buf i;
     write_row dm row (Suc i) n buf (snd (page_putReg r v p)) }"

text \<open>The index of the loops has eight bits, so that a row of more than 255 bytes is never at its end.\<close>

definition vscp_readDmRow ::
  "CMDF_DecisionMatrix \<Rightarrow> u16 \<Rightarrow> u8 list \<Rightarrow> CUserRegisters \<Rightarrow> (int \<times> u8 list \<times> CUserRegisters) safe" where
  "vscp_readDmRow dm row buf u =
     (case getRegisterPage (dm_startPage dm) u of
        (None, u) \<Rightarrow> Some (VSCP_ERROR_ERROR, buf, u)
      | (Some p, u) \<Rightarrow>
          if row \<ge> dm_rowCount dm then Some (VSCP_ERROR_ERROR, buf, u)
          else if dm_rowSize dm > 255 then None
          else do {
            (buf, p) \<leftarrow> read_row dm row 0 (unat (dm_rowSize dm)) buf p;
            Some (VSCP_ERROR_SUCCESS, buf, set_page (dm_startPage dm) p u) })"

definition vscp_writeDmRow ::
  "CMDF_DecisionMatrix \<Rightarrow> u16 \<Rightarrow> u8 list \<Rightarrow> CUserRegisters \<Rightarrow> (int \<times> CUserRegisters) safe" where
  "vscp_writeDmRow dm row buf u =
     (case getRegisterPage (dm_startPage dm) u of
        (None, u) \<Rightarrow> Some (VSCP_ERROR_ERROR, u)
      | (Some p, u) \<Rightarrow>
          if row \<ge> dm_rowCount dm then Some (VSCP_ERROR_ERROR, u)
          else if dm_rowSize dm > 255 then None
          else do {
            p \<leftarrow> write_row dm row 0 (unat (dm_rowSize dm)) buf p;
            Some (VSCP_ERROR_SUCCESS, set_page (dm_startPage dm) p u) })"

section \<open>What a page holds\<close>

definition page_ok :: "CRegisterPage \<Rightarrow> bool" where
  "page_ok p \<longleftrightarrow> ordered (m_registers p) \<and> ordered (m_change p) \<and> ordered (m_list_undo_value p)"

definition reg_value :: "CRegisterPage \<Rightarrow> u32 \<Rightarrow> u8" where
  "reg_value p = omap_get 0 (m_registers p)"

definition undo_of :: "CRegisterPage \<Rightarrow> u32 \<Rightarrow> u8 list" where
  "undo_of p = omap_get [] (m_list_undo_value p)"

definition changed :: "CRegisterPage \<Rightarrow> u32 \<Rightarrow> bool" where
  "changed p = omap_get False (m_change p)"

definition readable :: "CRegisterPage \<Rightarrow> u32 \<Rightarrow> bool" where
  "readable p r \<longleftrightarrow> rp_level p \<noteq> VSCP_LEVEL1 \<or> r \<le> 127"

definition writable :: "CRegisterPage \<Rightarrow> u32 \<Rightarrow> bool" where
  "writable p r \<longleftrightarrow> rp_level p \<noteq> VSCP_LEVEL1 \<or> r \<le> 128"

lemma readable_writable: "readable p r \<Longrightarrow> writable p r"
  by (auto simp: readable_def writable_def intro: order.trans [of _ "127 :: u32"])

lemma page_getReg_facts:
  assumes "page_ok p" and "readable p r"
  shows "fst (page_getReg r p) = uint (reg_value p r)" "page_ok (snd (page_getReg r p))"
    "reg_value (snd (page_getReg r p)) = reg_value p" "readable (snd (page_getReg r p)) = readable p"
    "undo_of (snd (page_getReg r p)) = undo_of p" "changed (snd (page_getReg r p)) = changed p"
    "rp_level (snd (page_getReg r p)) = rp_level p"
proof -
  have l: "(rp_level p = VSCP_LEVEL1 \<and> r > 127) = False" using assms(2) by (metis readable_def not_less)
  have "page_getReg r p = (uint (reg_value p r), p\<lparr>m_registers := snd (omap_at 0 r (m_registers p))\<rparr>)"
    unfolding page_getReg_def l if_False by (simp add: reg_value_def case_prod_unfold)
  then show "fst (page_getReg r p) = uint (reg_value p r)" "page_ok (snd (page_getReg r p))"
    "reg_value (snd (page_getReg r p)) = reg_value p" "readable (snd (page_getReg r p)) = readable p"
    "undo_of (snd (page_getReg r p)) = undo_of p" "changed (snd (page_getReg r p)) = changed p"
    "rp_level (snd (page_getReg r p)) = rp_level p"
    using assms(1)
    by (simp_all add: page_ok_def reg_value_def undo_of_def changed_def readable_def fun_eq_iff)
qed

lemma page_putReg_facts:
  assumes "page_ok p" and "writable p r"
  shows "page_ok (snd (page_putReg r v p))" "reg_value (snd (page_putReg r v p)) = (reg_value p)(r := v)"
    "undo_of (snd (page_putReg r v p)) = (undo_of p)(r := undo_of p r @ (if reg_value p r = v then [] else [reg_value p r]))"
    "changed (snd (page_putReg r v p)) = (changed p)(r := changed p r \<or> reg_value p r \<noteq> v)"
    "rp_level (snd (page_putReg r v p)) = rp_level p"
proof -
  let ?regs = "omap_put r v (snd (omap_at 0 r (m_registers p)))"
  have l: "(rp_level p = VSCP_LEVEL1 \<and> r > 128) = False" using assms(2) by (metis writable_def not_less)
  have run: "snd (page_putReg r v p) =
      (if reg_value p r = v then p\<lparr>m_registers := ?regs\<rparr>
       else p\<lparr>m_registers := ?regs, m_change := omap_put r True (m_change p),
              m_list_undo_value := omap_put r (undo_of p r @ [reg_value p r]) (snd (omap_at [] r (m_list_undo_value p)))\<rparr>)"
    unfolding page_putReg_def l if_False by (simp add: reg_value_def undo_of_def case_prod_unfold Let_def)
  show "page_ok (snd (page_putReg r v p))" "reg_value (snd (page_putReg r v p)) = (reg_value p)(r := v)"
    "undo_of (snd (page_putReg r v p)) = (undo_of p)(r := undo_of p r @ (if reg_value p r = v then [] else [reg_value p r]))"
    "changed (snd (page_putReg r v p)) = (changed p)(r := changed p r \<or> reg_value p r \<noteq> v)"
    "rp_level (snd (page_putReg r v p)) = rp_level p"
    unfolding run using assms(1)
    by (auto simp: page_ok_def reg_value_def undo_of_def changed_def)
qed

section \<open>Files of byte registers\<close>

lemma unat_of_nat_len: "n < 2 ^ LENGTH('a) \<Longrightarrow> unat (of_nat n :: 'a::len word) = n"
  by (simp add: unsigned_of_nat take_bit_nat_eq_self)

text \<open>
  The contract of a set of byte registers: looking one up tells its content and changes nothing that can be looked
  up, storing one changes it alone, as long as its number is valid. Several registers in a row, which the
  code reads and writes everywhere, are treated once.
\<close>

locale register_file =
  fixes ok :: "'s \<Rightarrow> bool"
    and valid :: "'s \<Rightarrow> 'n::len word \<Rightarrow> bool"
    and content :: "'s \<Rightarrow> 'n word \<Rightarrow> u8"
    and look :: "'n word \<Rightarrow> 's \<Rightarrow> u8 \<times> 's"
    and put :: "'n word \<Rightarrow> u8 \<Rightarrow> 's \<Rightarrow> 's"
  assumes look: "ok s \<Longrightarrow> valid s r \<Longrightarrow>
      fst (look r s) = content s r \<and> ok (snd (look r s)) \<and> content (snd (look r s)) = content s
        \<and> valid (snd (look r s)) = valid s"
    and put: "ok s \<Longrightarrow> valid s r \<Longrightarrow>
      ok (put r v s) \<and> content (put r v s) = (content s)(r := v) \<and> valid (put r v s) = valid s"
begin

fun look_all :: "'n word \<Rightarrow> nat \<Rightarrow> 's \<Rightarrow> u8 list \<times> 's" where
  "look_all r 0 s = ([], s)"
| "look_all r (Suc n) s = (let (v, s) = look r s; (vs, s) = look_all (r + 1) n s in (v # vs, s))"

fun put_all :: "'n word \<Rightarrow> u8 list \<Rightarrow> 's \<Rightarrow> 's" where
  "put_all r [] s = s"
| "put_all r (v # vs) s = put_all (r + 1) vs (put r v s)"

lemma look_all_content:
  "ok s \<Longrightarrow> \<forall>i<n. valid s (r + of_nat i) \<Longrightarrow>
   fst (look_all r n s) = map (\<lambda>i. content s (r + of_nat i)) [0..<n] \<and> ok (snd (look_all r n s))
   \<and> content (snd (look_all r n s)) = content s \<and> valid (snd (look_all r n s)) = valid s"
proof (induction n arbitrary: r s)
  case (Suc n)
  have v: "valid s r" using spec [OF Suc.prems(2), of 0] by simp
  have l: "fst (look r s) = content s r" "ok (snd (look r s))" "content (snd (look r s)) = content s"
      "valid (snd (look r s)) = valid s"
    using look [OF Suc.prems(1) v] by auto
  have "\<forall>i<n. valid (snd (look r s)) ((r + 1) + of_nat i)"
  proof (intro allI impI)
    fix i assume "i < n"
    then have "valid s (r + of_nat (Suc i))" using spec [OF Suc.prems(2), of "Suc i"] by simp
    then show "valid (snd (look r s)) ((r + 1) + of_nat i)" by (simp add: l(4) ac_simps)
  qed
  note IH = Suc.IH [OF l(2) this]
  have u: "[0..<Suc n] = 0 # map Suc [0..<n]" by (simp add: map_Suc_upt upt_conv_Cons)
  show ?case using IH l unfolding u by (simp add: case_prod_unfold Let_def comp_def ac_simps)
qed simp

lemma put_all_content:
  "ok s \<Longrightarrow> \<forall>i<length bs. valid s (r + of_nat i) \<Longrightarrow> length bs \<le> 2 ^ LENGTH('n) \<Longrightarrow>
   ok (put_all r bs s) \<and> valid (put_all r bs s) = valid s
   \<and> (\<forall>i<length bs. content (put_all r bs s) (r + of_nat i) = bs ! i)
   \<and> (\<forall>q. (\<forall>i<length bs. q \<noteq> r + of_nat i) \<longrightarrow> content (put_all r bs s) q = content s q)"
proof (induction bs arbitrary: r s)
  case (Cons b bs)
  have v: "valid s r" using spec [OF Cons.prems(2), of 0] by simp
  have p: "ok (put r b s)" "content (put r b s) = (content s)(r := b)" "valid (put r b s) = valid s"
    using put [OF Cons.prems(1) v] by auto
  have "\<forall>i<length bs. valid (put r b s) ((r + 1) + of_nat i)"
  proof (intro allI impI)
    fix i assume "i < length bs"
    then have "valid s (r + of_nat (Suc i))" using spec [OF Cons.prems(2), of "Suc i"] by simp
    then show "valid (put r b s) ((r + 1) + of_nat i)" by (simp add: p(3) ac_simps)
  qed
  note IH = Cons.IH [OF p(1) this]
  have ne: "r \<noteq> (r + 1) + of_nat i" if "i < length bs" for i
  proof
    assume "r = (r + 1) + of_nat i"
    then have "(of_nat (Suc i) :: 'n word) = 0" by (simp add: add.assoc)
    moreover have "Suc i < 2 ^ LENGTH('n)" using that Cons.prems(3) by simp
    ultimately show False by (metis nat.distinct(1) unat_of_nat_len unsigned_0)
  qed
  show ?case
  proof (intro conjI allI impI)
    fix i assume i: "i < length (b # bs)"
    show "content (put_all r (b # bs) s) (r + of_nat i) = (b # bs) ! i"
      using IH Cons.prems(3) ne p(2) i by (cases i) (auto simp: ac_simps)
  next
    fix q assume "\<forall>i<length (b # bs). q \<noteq> r + of_nat i"
    then have "q \<noteq> r" "\<forall>i<length bs. q \<noteq> (r + 1) + of_nat i"
      by (auto simp: ac_simps dest: spec [of _ 0] spec [of _ "Suc _"])
    then show "content (put_all r (b # bs) s) q = content s q" using IH Cons.prems(3) p(2) by simp
  qed (use IH Cons.prems(3) p(3) in simp_all)
qed simp

text \<open>Bytes that were stored in a row are read back.\<close>

lemma stored_bytes_are_read:
  assumes "ok s" and "\<forall>i<length bs. valid s (r + of_nat i)" and "length bs \<le> 2 ^ LENGTH('n)"
  shows "fst (look_all r (length bs) (put_all r bs s)) = bs"
proof -
  note p = put_all_content [OF assms]
  have "fst (look_all r (length bs) (put_all r bs s)) = map (\<lambda>i. content (put_all r bs s) (r + of_nat i)) [0..<length bs]"
    using look_all_content [of "put_all r bs s" "length bs" r] p assms(2) by simp
  also have "\<dots> = bs" using p by (intro nth_equalityI) simp_all
  finally show ?thesis .
qed

end

interpretation page: register_file page_ok readable reg_value page_byte "\<lambda>r v p. snd (page_putReg r v p)"
proof
  fix s r assume a: "page_ok s" "readable s r"
  show "fst (page_byte r s) = reg_value s r \<and> page_ok (snd (page_byte r s)) \<and> reg_value (snd (page_byte r s)) = reg_value s
      \<and> readable (snd (page_byte r s)) = readable s"
    using page_getReg_facts [OF a] by (simp add: page_byte_def case_prod_unfold)
  show "page_ok (snd (page_putReg r v s)) \<and> reg_value (snd (page_putReg r v s)) = (reg_value s)(r := v)
      \<and> readable (snd (page_putReg r v s)) = readable s" for v
    using page_putReg_facts [OF a(1) readable_writable [OF a(2)], of v] by (simp add: readable_def fun_eq_iff)
qed

definition std_value :: "CStandardRegisters \<Rightarrow> u8 \<Rightarrow> u8" where
  "std_value s = omap_get 0 (m_regs s)"

definition std_ok :: "CStandardRegisters \<Rightarrow> bool" where
  "std_ok s \<longleftrightarrow> ordered (m_regs s)"

interpretation std: register_file std_ok "\<lambda>_ _. True" std_value std_getReg std_putReg
proof
  fix s :: CStandardRegisters and r :: u8
  assume "std_ok s"
  then show "fst (std_getReg r s) = std_value s r \<and> std_ok (snd (std_getReg r s)) \<and> std_value (snd (std_getReg r s)) = std_value s
      \<and> (\<lambda>_. True) = (\<lambda>_. True)"
    "std_ok (std_putReg r v s) \<and> std_value (std_putReg r v s) = (std_value s)(r := v) \<and> (\<lambda>_. True) = (\<lambda>_. True)" for v
    by (simp_all add: std_getReg_def std_putReg_def std_value_def std_ok_def case_prod_unfold Let_def)
qed

lemma page_bytes_look: "page_bytes = page.look_all"
proof (intro ext)
  show "page_bytes r n p = page.look_all r n p" for r n p by (induction n arbitrary: r p) simp_all
qed

lemma put_bytes_put: "put_bytes = page.put_all"
proof (intro ext)
  show "put_bytes r bs p = page.put_all r bs p" for r bs p by (induction bs arbitrary: r p) simp_all
qed

lemma std_read_look: "std_read = std.look_all"
proof (intro ext)
  show "std_read r n p = std.look_all r n p" for r n p by (induction n arbitrary: r p) simp_all
qed

section \<open>Numbers as text\<close>

lemma readStringValue_hex_digits:
  assumes "s \<noteq> []" and "\<And>c. c \<in> set s \<Longrightarrow> digit_in 16 c" and "digits_value 16 s < 2 ^ 63"
  shows "vscp_readStringValue (''0x'' @ s) = int (digits_value 16 s)"
proof -
  let ?h = "map tolower s"
  have x: "map tolower ''0x'' = ''0x''" by (simp add: tolower_def)
  have h: "digit_in 16 c" "\<not> isspace c" if "c \<in> set ?h" for c
    using that tolower_hex_digit [OF assms(2)] by auto
  have ne: "?h \<noteq> []" using assms(1) by simp
  have "vscp_trim (''0x'' @ ?h) = ''0x'' @ ?h"
    using trim_id [of "''0x'' @ ?h"] ne h(2) [OF last_in_set [OF ne]] by (simp add: isspace_def [of "CHR ''0''"])
  moreover have v: "digits_value 16 ?h = digits_value 16 s"
    using digits_value_map [of s tolower 16] tolower_hex_digit(2) [OF assms(2)] by simp
  then have "stoll 16 ?h = Some (int (digits_value 16 s))"
    using stoll_digits [OF ne h(1)] assms(3) by simp
  ultimately show ?thesis using x by (simp add: vscp_readStringValue_def vscp_makeLower_def Let_def)
qed

lemma hexdig_lower_digit:
  assumes "n < 16" shows "digit_value (hexdig_lower n) = Some n"
proof -
  have "ord (hexdig_lower n) = (if n < 10 then 48 + n else 87 + n)"
    using assms by (simp add: hexdig_lower_def)
  then show ?thesis using assms by (auto simp: digit_value_def)
qed

lemma fmt_x_digits: "c \<in> set (fmt_x n) \<Longrightarrow> digit_in 16 c"
proof (induction n rule: fmt_x.induct)
  case (1 n)
  show ?case
  proof (cases "n < 16")
    case True
    then show ?thesis using 1(2) by (subst (asm) fmt_x.simps) (simp add: digit_in_def hexdig_lower_digit)
  next
    case False
    moreover have "n mod 16 < 16" by simp
    ultimately show ?thesis
      using 1 by (subst (asm) (2) fmt_x.simps) (auto simp: digit_in_def hexdig_lower_digit)
  qed
qed

lemma fmt_x_nonempty [simp]: "fmt_x n \<noteq> []"
  by (subst fmt_x.simps) auto

lemma digits_value_fmt_x: "digits_value 16 (fmt_x n) = n"
proof (induction n rule: fmt_x.induct)
  case (1 n)
  show ?case
  proof (cases "n < 16")
    case True
    then show ?thesis by (subst fmt_x.simps) (simp add: digits_value_def hexdig_lower_digit)
  next
    case False
    then have "digits_value 16 (fmt_x n) = n div 16 * 16 + n mod 16"
      using 1 by (subst fmt_x.simps) (simp add: digits_value_snoc hexdig_lower_digit)
    then show ?thesis by simp
  qed
qed

lemma digits_value_zeros: "digits_value b (replicate k (CHR ''0'') @ s) = digits_value b s"
proof -
  have "foldl (\<lambda>v c. v * b + the (digit_value c)) 0 (replicate k (CHR ''0'')) = 0"
    by (induction k) (simp_all add: digit_value_def)
  then show ?thesis by (simp add: digits_value_def)
qed

lemma readStringValue_fmt_0x: "n < 2 ^ 63 \<Longrightarrow> vscp_readStringValue (''0x'' @ fmt_0x k n) = int n"
proof -
  assume n: "n < 2 ^ 63"
  have "digit_in 16 (CHR ''0'')" by (simp add: digit_in_def digit_value_def)
  then have "digit_in 16 c" if "c \<in> set (fmt_0x k n)" for c
    using that fmt_x_digits [of c n] by (auto simp: fmt_0x_def)
  moreover have "digits_value 16 (fmt_0x k n) = n" by (simp add: fmt_0x_def digits_value_zeros digits_value_fmt_x)
  ultimately show ?thesis using readStringValue_hex_digits [of "fmt_0x k n"] n by (simp add: fmt_0x_def)
qed

lemma readStringValue_negative:
  assumes "n \<le> 2 ^ 63"
  shows "vscp_readStringValue (CHR ''-'' # fmt_d n) = - int n"
proof -
  let ?s = "CHR ''-'' # fmt_d n"
  have d: "48 \<le> ord c \<and> ord c \<le> 57" if "c \<in> set (fmt_d n)" for c using fmt_d_digit [OF that] .
  then have "c \<notin> set (fmt_d n)" if "57 < ord c" for c using that by force
  then have nox: "CHR ''x'' \<notin> set ?s" "CHR ''o'' \<notin> set ?s" "CHR ''b'' \<notin> set ?s" by simp_all
  have "map tolower ?s = ?s" using d by (intro map_idI tolower_digit) force
  moreover have "vscp_trim ?s = ?s"
    using d [OF last_in_set [OF fmt_d_nonempty]] by (intro trim_id) (simp add: isspace_digit isspace_def [of "CHR ''-''"])
  moreover have "find_sub ''0x'' ?s = None" "find_sub ''0o'' ?s = None" "find_sub ''0b'' ?s = None"
    by (rule find_sub_None, rule list.set_intros(2), rule list.set_intros(1), rule nox)+
  moreover have "stoll 10 ?s = Some (- int n)"
  proof -
    have "digit_in 10 c" if "c \<in> set (fmt_d n)" for c
      using d [OF that] by (auto simp: digit_in_def digit_value_def)
    then have t: "takeWhile (digit_in 10) (fmt_d n) = fmt_d n" by simp
    show ?thesis using assms
      by (simp add: t stoll_def isspace_def [of "CHR ''-''"] digits_value_fmt_d Let_def)
  qed
  ultimately show ?thesis by (simp add: vscp_readStringValue_def vscp_makeLower_def Let_def)
qed

lemma readStringValue_fmt_i: "- (2 ^ 63) \<le> v \<Longrightarrow> v < 2 ^ 63 \<Longrightarrow> vscp_readStringValue (fmt_i v) = v"
  by (cases "v < 0") (simp_all add: fmt_i_def readStringValue_negative readStringValue_fmt_d nat_less_iff nat_le_iff)

section \<open>The log of a page\<close>

text \<open>The values that a sequence of writes replaces, writes of the value that is there already left out.\<close>

fun overwritten :: "'v \<Rightarrow> 'v list \<Rightarrow> 'v list" where
  "overwritten v [] = []"
| "overwritten v (w # ws) = (if v = w then overwritten w ws else v # overwritten w ws)"

definition write_all :: "(u32 \<times> u8) list \<Rightarrow> CRegisterPage \<Rightarrow> CRegisterPage" where
  "write_all ws p = foldl (\<lambda>p (r, v). snd (page_putReg r v p)) p ws"

definition writes_to :: "u32 \<Rightarrow> (u32 \<times> u8) list \<Rightarrow> u8 list" where
  "writes_to r ws = map snd (filter (\<lambda>(q, _). q = r) ws)"

lemma writes_to_simps [simp]: "writes_to r [] = []"
  "writes_to r ((q, v) # ws) = (if q = r then v # writes_to r ws else writes_to r ws)"
  by (simp_all add: writes_to_def)

lemma write_all_logged:
  "page_ok p \<Longrightarrow> \<forall>(r, v)\<in>set ws. writable p r \<Longrightarrow>
   page_ok (write_all ws p) \<and> rp_level (write_all ws p) = rp_level p
   \<and> reg_value (write_all ws p) r = last (reg_value p r # writes_to r ws)
   \<and> undo_of (write_all ws p) r = undo_of p r @ overwritten (reg_value p r) (writes_to r ws)
   \<and> (changed (write_all ws p) r \<longleftrightarrow> changed p r \<or> overwritten (reg_value p r) (writes_to r ws) \<noteq> [])"
proof (induction ws arbitrary: p)
  case (Cons w ws)
  obtain q v where w: "w = (q, v)" by (cases w)
  have q: "writable p q" using Cons.prems(2) w by simp
  let ?p = "snd (page_putReg q v p)"
  note f = page_putReg_facts [OF Cons.prems(1) q, of v]
  have "\<forall>(r, v)\<in>set ws. writable ?p r" using Cons.prems(2) f(5) by (auto simp: writable_def)
  note IH = Cons.IH [OF f(1) this]
  have e: "write_all (w # ws) p = write_all ws ?p" by (simp add: write_all_def w)
  show ?case unfolding e using IH f by (auto simp: w)
qed (simp add: write_all_def)

section \<open>Remote variables and their text\<close>

lemma be_word_snoc: "be_word (bs @ [b]) = push_bit 8 (be_word bs) + (ucast b :: 'a::len word)"
  by (simp add: be_word_def)

lemma be_word_value: "(be_word bs :: 'a::len word) = word_of_int (be_unsigned bs)"
proof (induction bs rule: rev_induct)
  case (snoc b bs)
  have "(be_word (bs @ [b]) :: 'a word) = push_bit 8 (word_of_int (be_unsigned bs)) + ucast b"
    by (simp add: be_word_snoc snoc.IH)
  also have "\<dots> = word_of_int (be_unsigned bs * 2 ^ 8 + uint b)"
    by (simp add: push_bit_eq_mult of_int_add mult.commute)
  finally show ?case by (simp add: be_unsigned_append)
qed (simp add: be_word_def)

text \<open>The low bytes of a number, highest first, read as a word of their size.\<close>

lemma be_word_low_bytes:
  assumes "n \<le> 8" and "LENGTH('a::len) \<le> 8 * n"
  shows "(be_word (drop (8 - n) (be64_bytes (word_of_int v))) :: 'a word) = word_of_int v"
proof -
  let ?w = "word_of_int v :: u64"
  have "be_unsigned (drop (8 - n) (be64_bytes ?w)) = uint ?w mod 256 ^ n"
    using assms(1) by (simp add: be_unsigned_drop be_unsigned_be64)
  also have "\<dots> = v mod 2 ^ (8 * n)"
  proof -
    have "(256 :: int) ^ n = 2 ^ (8 * n)" by (simp add: power_mult)
    moreover have "uint ?w = v mod 2 ^ 64" by (simp add: uint_word_of_int)
    moreover have "(2 :: int) ^ (8 * n) dvd 2 ^ 64" using assms(1) by (intro le_imp_power_dvd) simp
    ultimately show ?thesis by (simp add: mod_mod_cancel)
  qed
  finally have "(be_word (drop (8 - n) (be64_bytes ?w)) :: 'a word) = word_of_int (v mod 2 ^ (8 * n))"
    by (simp add: be_word_value)
  also have "\<dots> = word_of_int v"
    using assms(2) by (simp add: word_of_int_eq_iff take_bit_eq_mod mod_mod_cancel le_imp_power_dvd)
  finally show ?thesis .
qed

text \<open>
  The text of a value in the formats that read it back: the bytes of the small types in hexadecimal form, and the
  values of the signed types in decimal form.
\<close>

definition remote_number :: "vscp_remote_variable_type \<Rightarrow> bool \<Rightarrow> int \<Rightarrow> string option" where
  "remote_number t decimal v =
     (let hex = (\<lambda>n. if 0 \<le> v \<and> v < 256 ^ n then Some (''0x'' @ fmt_0x (2 * n) (nat v)) else None);
          signed = (\<lambda>n. if - (2 ^ (8 * n - 1)) \<le> v \<and> v < 2 ^ (8 * n - 1) then Some (fmt_i v) else None)
      in case t of
        remote_variable_type_int8_t \<Rightarrow> if decimal then None else hex 1
      | remote_variable_type_uint8_t \<Rightarrow> if \<not> decimal then hex 1 else if 0 \<le> v \<and> v < 256 then Some (fmt_i v) else None
      | remote_variable_type_int16_t \<Rightarrow> if decimal then signed 2 else hex 2
      | remote_variable_type_uint16_t \<Rightarrow> if decimal then None else hex 2
      | remote_variable_type_int64_t \<Rightarrow>
          if decimal then signed 8 else if 0 \<le> v \<and> v < 2 ^ 63 then Some (''0x'' @ fmt_x (nat v)) else None
      | _ \<Rightarrow> None)"

lemma mask_numeral_8: "mask 8 = (255 :: 'a::len word)"
  by (simp add: mask_eq_exp_minus_1)

lemma fmt_i_nonneg: "0 \<le> v \<Longrightarrow> fmt_i v = fmt_d (nat v)"
  by (simp add: fmt_i_def)

lemma fmt_0x_0: "fmt_0x 0 n = fmt_x n"
  by (simp add: fmt_0x_def)

lemma remote_number_is_read:
  assumes "remote_number t decimal v = Some s"
  shows "vscp_readStringValue s = v"
proof -
  have hex: "vscp_readStringValue (''0x'' @ fmt_0x k (nat v)) = v" if "0 \<le> v" "v < 2 ^ 63" for k
    using that readStringValue_fmt_0x [of "nat v" k] by (simp add: nat_less_iff)
  show ?thesis
    using assms hex readStringValue_fmt_i [of v] hex [of 0]
    by (auto simp: remote_number_def Let_def fmt_0x_0 split: vscp_remote_variable_type.splits if_splits)
qed

lemma last_byte: "drop 7 (be64_bytes (word_of_int v)) = [word_of_int v]"
proof -
  have "ucast (w AND 255 :: u64) = (ucast w :: u8)" for w
    by (rule bit_word_eqI) (auto simp: bit_simps simp flip: mask_numeral_8)
  then have "drop 7 (be64_bytes w) = [ucast w]" for w by (simp add: be64_bytes_def byte_at_def)
  moreover have "(ucast (word_of_int v :: u64) :: u8) = word_of_int v"
    by (rule bit_word_eqI) (simp add: bit_simps)
  ultimately show ?thesis by simp
qed

lemma unat_of_int_range: "0 \<le> v \<Longrightarrow> v < 2 ^ LENGTH('a) \<Longrightarrow> unat (word_of_int v :: 'a::len word) = nat v"
  by (simp add: unat_eq_nat_uint uint_word_of_int)

lemma sint_of_int_range:
  "- (2 ^ (LENGTH('a) - 1)) \<le> v \<Longrightarrow> v < 2 ^ (LENGTH('a) - 1) \<Longrightarrow> sint (word_of_int v :: 'a::len word) = v"
  by (simp add: signed_of_int signed_take_bit_int_eq_self)

lemma remote_number_is_stored:
  assumes "remote_number (rv_type rv) decimal v = Some s"
  shows "remote_store fp rv s p
    = Some (put_bytes (rv_offset rv) (drop (8 - getTypeByteCount rv) (be64_bytes (word_of_int v))) p)"
  using assms by (auto simp: remote_store_def remote_number_is_read [OF assms] remote_number_def getTypeByteCount_def
      last_byte Let_def split: vscp_remote_variable_type.splits)

lemma remote_number_is_shown:
  assumes "remote_number (rv_type rv) decimal v = Some s"
    and p: "page_ok p" "\<forall>i<getTypeByteCount rv. readable p (rv_offset rv + of_nat i)"
    and b: "fst (page_bytes (rv_offset rv) (getTypeByteCount rv) p) = drop (8 - getTypeByteCount rv) (be64_bytes (word_of_int v))"
  shows "map_option fst (remote_text fp rv decimal p) = Some s"
proof -
  let ?r = "rv_offset rv"
  have w16: "fst (page_bytes ?r 2 p) = drop 6 (be64_bytes (word_of_int v)) \<Longrightarrow>
      (be_word (fst (page_bytes ?r 2 p)) :: u16) = word_of_int v"
    using be_word_low_bytes [of 2 v, where 'a = 16] by simp
  have w64: "fst (page_bytes ?r 8 p) = be64_bytes (word_of_int v) \<Longrightarrow>
      (be_word (fst (page_bytes ?r 8 p)) :: u64) = word_of_int v"
    using be_word_low_bytes [of 8 v, where 'a = 64] by simp
  have w8: "fst (page_getReg ?r p) = v" if "getTypeByteCount rv = 1" "0 \<le> v" "v < 256"
  proof -
    have "fst (page_getReg ?r p) = uint (reg_value p ?r)"
      using page_getReg_facts(1) [OF p(1), of ?r] p(2) that(1) by simp
    moreover have "[reg_value p ?r] = [word_of_int v]"
      using b that(1) page.look_all_content [OF p(1), of 1 ?r] p(2) by (simp add: page_bytes_look last_byte)
    ultimately show ?thesis using that by (simp add: uint_word_of_int)
  qed
  show ?thesis
    using assms(1) b w8 w16 w64
    by (auto simp: remote_text_def remote_number_def getTypeByteCount_def Let_def case_prod_unfold fmt_0x_0
        unat_of_int_range sint_of_int_range fmt_i_nonneg split: vscp_remote_variable_type.splits if_splits)
qed

lemma getRegisterPage_set_page:
  "ordered (m_registerPageMap u) \<Longrightarrow> getRegisterPage page (set_page page p u) = (Some p, set_page page p u)"
  by (simp add: getRegisterPage_def set_page_def omap_at_def)

lemma getRegisterPage_ordered:
  "ordered (m_registerPageMap u) \<Longrightarrow> getRegisterPage page u = (p, u') \<Longrightarrow> ordered (m_registerPageMap u')"
  by (auto simp: getRegisterPage_def case_prod_unfold)

lemma getRegisterPage_found:
  "map_of (m_registerPageMap u) page = Some (Some p) \<Longrightarrow> getRegisterPage page u = (Some p, u)"
  by (simp add: getRegisterPage_def omap_at_def)

definition sample_page :: CRegisterPage where
  "sample_page = (new_CRegisterPage VSCP_LEVEL2 3)\<lparr>m_registers := [(8, 1), (11, 0xff)]\<rparr>"

definition sample_registers :: CUserRegisters where
  "sample_registers = \<lparr>usr_level = VSCP_LEVEL2, m_pages = [3], m_registerPageMap = [(3, Some sample_page)]\<rparr>"

text \<open>C24: 
  Register writes are logged: after any sequence of writes each register has the value that was written to
  it last, its undo list is extended by the values that were replaced, in order, and it is marked as changed
  when there are such values or it was marked before. Writes to other registers and writes of the
  value that is there leave no trace.
\<close>

theorem register_writes_are_logged:
  assumes "page_ok p" and "\<forall>(r, v)\<in>set ws. writable p r"
  shows "page_ok (write_all ws p) \<and>
    (\<forall>r. reg_value (write_all ws p) r = last (reg_value p r # writes_to r ws)
       \<and> undo_of (write_all ws p) r = undo_of p r @ overwritten (reg_value p r) (writes_to r ws)
       \<and> (changed (write_all ws p) r \<longleftrightarrow> changed p r \<or> overwritten (reg_value p r) (writes_to r ws) \<noteq> []))"
  using write_all_logged [OF assms] by blast

theorem register_writes_are_logged_witness:
  "undo_of (write_all [(8, 2), (9, 7), (8, 2), (8, 5)] sample_page) 8 = [1, 2]"
proof -
  have "page_ok sample_page" by (simp add: page_ok_def ordered_def sample_page_def new_CRegisterPage_def)
  moreover have "\<forall>(r, v)\<in>set [(8, 2), (9, 7), (8, 2), (8, 5)]. writable sample_page r"
    by (simp add: writable_def sample_page_def new_CRegisterPage_def VSCP_LEVEL1_def VSCP_LEVEL2_def)
  ultimately have "undo_of (write_all [(8, 2), (9, 7), (8, 2), (8, 5)] sample_page) 8
      = undo_of sample_page 8 @ overwritten (reg_value sample_page 8) (writes_to 8 [(8, 2), (9, 7), (8, 2), (8, 5)])"
    using register_writes_are_logged [of sample_page "[(8, 2), (9, 7), (8, 2), (8, 5)]"] by blast
  then show ?thesis
    by (simp add: sample_page_def new_CRegisterPage_def undo_of_def reg_value_def omap_get_def)
qed

text \<open>C25: A remote variable that is set from the text of a number is read as the same text, for the types and formats
  in which the code can show the number that it stores: hexadecimal for the integers of 8 and 16 bits and the
  non-negative ones of type \<^verbatim>\<open>int64\<close>, decimal for \<^verbatim>\<open>uint8\<close>, \<^verbatim>\<open>int16\<close> and \<^verbatim>\<open>int64\<close>. The type's bytes are stored highest first at the
  variable's offset and found there. (The other formats are not among them: \<^verbatim>\<open>int8\<close> in decimal, the 32-bit types
  and \<^verbatim>\<open>uint64\<close> are printed with formats that do not fit their argument, \<^verbatim>\<open>uint16\<close> in decimal is always the text
  \<open>hd\<close>, and the floating point types are stored through a pointer to another type or rounded to text.)\<close>

theorem remote_variable_round_trip:
  assumes u: "map_of (m_registerPageMap u) (rv_page rv) = Some (Some p)" "ordered (m_registerPageMap u)" "page_ok p"
    and r: "\<forall>i<getTypeByteCount rv. readable p (rv_offset rv + of_nat i)"
    and s: "remote_number (rv_type rv) decimal v = Some s"
  shows "\<exists>u' u''. remoteVarFromStringToReg fp rv s u = Some (VSCP_ERROR_SUCCESS, u')
    \<and> remoteVarFromRegToString fp rv decimal old u' = Some (VSCP_ERROR_SUCCESS, s, u'')"
proof -
  let ?n = "getTypeByteCount rv" and ?bs = "drop (8 - getTypeByteCount rv) (be64_bytes (word_of_int v))"
  let ?p = "put_bytes (rv_offset rv) ?bs p" and ?u = "set_page (rv_page rv) (put_bytes (rv_offset rv) ?bs p) u"
  have n: "?n \<le> 8" "length ?bs = ?n"
    using s by (auto simp: remote_number_def getTypeByteCount_def Let_def split: vscp_remote_variable_type.splits if_splits)
  have store: "remoteVarFromStringToReg fp rv s u = Some (VSCP_ERROR_SUCCESS, ?u)"
    by (simp add: remoteVarFromStringToReg_def getRegisterPage_found [OF u(1)] remote_number_is_stored [OF s])
  have put: "page_ok ?p" "readable ?p = readable p"
    using page.put_all_content [OF u(3), of ?bs "rv_offset rv"] r n by (simp_all add: put_bytes_put)
  have "fst (page_bytes (rv_offset rv) ?n ?p) = ?bs"
    using page.stored_bytes_are_read [OF u(3), of ?bs "rv_offset rv"] r n by (simp add: page_bytes_look put_bytes_put)
  from remote_number_is_shown [OF s put(1) _ this, of fp] r put(2)
  obtain p' where "remote_text fp rv decimal ?p = Some (s, p')" by auto
  then have "remoteVarFromRegToString fp rv decimal old ?u = Some (VSCP_ERROR_SUCCESS, s, set_page (rv_page rv) p' ?u)"
    using u(2) by (simp add: remoteVarFromRegToString_def getRegisterPage_set_page)
  then show ?thesis using store by blast
qed

theorem remote_variable_round_trip_witness:
  "\<exists>u' u''. remoteVarFromStringToReg sample_fpu
      \<lparr>rv_type = remote_variable_type_int16_t, rv_page = 3, rv_offset = 10, rv_bitpos = 0, rv_size = 2\<rparr> ''-300'' sample_registers
      = Some (VSCP_ERROR_SUCCESS, u')
    \<and> remoteVarFromRegToString sample_fpu
      \<lparr>rv_type = remote_variable_type_int16_t, rv_page = 3, rv_offset = 10, rv_bitpos = 0, rv_size = 2\<rparr> True [] u'
      = Some (VSCP_ERROR_SUCCESS, ''-300'', u'')"
proof (rule remote_variable_round_trip [where v = "- 300" and p = sample_page])
  have "fmt_d 300 = ''300''" by code_simp
  then show "remote_number (rv_type \<lparr>rv_type = remote_variable_type_int16_t, rv_page = 3, rv_offset = 10, rv_bitpos = 0, rv_size = 2\<rparr>)
      True (- 300) = Some ''-300''"
    by (simp add: remote_number_def fmt_i_def)
qed (simp_all add: sample_registers_def page_ok_def ordered_def sample_page_def new_CRegisterPage_def readable_def
  VSCP_LEVEL1_def VSCP_LEVEL2_def)

text \<open>Whatever an unsigned 16-bit variable holds, its decimal text is the same two letters.\<close>

theorem uint16_has_no_decimal_text:
  assumes "map_of (m_registerPageMap u) (rv_page rv) = Some (Some p)" and "rv_type rv = remote_variable_type_uint16_t"
  shows "\<exists>u'. remoteVarFromRegToString fp rv True old u = Some (VSCP_ERROR_SUCCESS, ''hd'', u')"
  using assms(2)
  by (simp add: remoteVarFromRegToString_def getRegisterPage_found [OF assms(1)] remote_text_def case_prod_unfold Let_def)

theorem uint16_has_no_decimal_text_witness:
  "\<exists>u'. remoteVarFromRegToString sample_fpu
      \<lparr>rv_type = remote_variable_type_uint16_t, rv_page = 3, rv_offset = 10, rv_bitpos = 0, rv_size = 2\<rparr> True [] sample_registers
      = Some (VSCP_ERROR_SUCCESS, ''hd'', u')"
  by (rule uint16_has_no_decimal_text [where p = sample_page]) (simp_all add: sample_registers_def)

section \<open>Rows of the decision matrix\<close>

text \<open>The first register of a row: the matrix starts at an offset on its page.\<close>

definition row_start :: "CMDF_DecisionMatrix \<Rightarrow> u16 \<Rightarrow> nat" where
  "row_start dm row = unat (dm_startOffset dm) + unat (dm_rowSize dm) * unat row"

lemma dm_register_small:
  assumes "dm_startOffset dm = 0" and "dm_rowSize dm \<le> 255" and "i < 256"
  shows "dm_register dm row i = Some (of_nat (row_start dm row) + of_nat i)"
proof -
  have "unat (dm_rowSize dm) \<le> 255" using assms(2) by (simp add: word_le_nat_alt)
  moreover have "unat row < 65536" using unsigned_less [of row] by simp
  ultimately have "unat (dm_rowSize dm) * unat row \<le> 255 * 65535" by (intro mult_le_mono) simp_all
  then show ?thesis using assms(1,3) by (simp add: dm_register_def row_start_def Let_def)
qed

lemma read_row_bytes:
  "dm_startOffset dm = 0 \<Longrightarrow> dm_rowSize dm \<le> 255 \<Longrightarrow> i + n < 256 \<Longrightarrow> i + n \<le> length buf \<Longrightarrow>
   read_row dm row i n buf p =
     (let (vs, p) = page_bytes (of_nat (row_start dm row) + of_nat i) n p
      in Some (take i buf @ vs @ drop (i + n) buf, p))"
proof (induction n arbitrary: i buf p)
  case (Suc n)
  define r where "r = (of_nat (row_start dm row) + of_nat i :: u32)"
  have r: "of_nat (row_start dm row) + of_nat (Suc i) = r + 1" by (simp add: r_def)
  obtain v p' where b: "page_byte r p = (v, p')" by (cases "page_byte r p")
  let ?buf = "take i buf @ v # drop (Suc i) buf"
  have w: "wr_block buf i [v] = Some ?buf" using Suc.prems(3,4) by (simp add: wr_block_def)
  have d: "dm_register dm row i = Some r" using dm_register_small [OF Suc.prems(1,2), of i row] Suc.prems(3,4) by (simp add: r_def)
  have "read_row dm row i (Suc n) buf p = read_row dm row (Suc i) n ?buf p'" by (simp add: d b w)
  also have "\<dots> = (let (vs, p) = page_bytes (r + 1) n p' in Some (take (Suc i) ?buf @ vs @ drop (Suc i + n) ?buf, p))"
    unfolding r [symmetric] by (rule Suc.IH) (use Suc.prems in simp_all)
  also have "\<dots> = (let (vs, p) = page_bytes r (Suc n) p in Some (take i buf @ vs @ drop (i + Suc n) buf, p))"
    using Suc.prems(3,4) by (simp add: b case_prod_unfold Let_def add.commute [of n i])
  finally show ?case by (simp only: r_def)
qed simp

lemma write_row_bytes:
  "dm_startOffset dm = 0 \<Longrightarrow> dm_rowSize dm \<le> 255 \<Longrightarrow> i + n < 256 \<Longrightarrow> i + n \<le> length buf \<Longrightarrow>
   write_row dm row i n buf p = Some (put_bytes (of_nat (row_start dm row) + of_nat i) (take n (drop i buf)) p)"
proof (induction n arbitrary: i p)
  case (Suc n)
  define r where "r = (of_nat (row_start dm row) + of_nat i :: u32)"
  have r: "of_nat (row_start dm row) + of_nat (Suc i) = r + 1" by (simp add: r_def)
  have d: "dm_register dm row i = Some r" using dm_register_small [OF Suc.prems(1,2), of i row] Suc.prems(3,4) by (simp add: r_def)
  have t: "take (Suc n) (drop i buf) = buf ! i # take n (drop (Suc i) buf)"
    using Suc.prems(3,4) by (subst Cons_nth_drop_Suc [symmetric]) simp_all
  have "write_row dm row i (Suc n) buf p = write_row dm row (Suc i) n buf (snd (page_putReg r (buf ! i) p))"
    using Suc.prems(3,4) by (simp add: d rd_def)
  also have "\<dots> = Some (put_bytes (r + 1) (take n (drop (Suc i) buf)) (snd (page_putReg r (buf ! i) p)))"
    unfolding r [symmetric] by (rule Suc.IH) (use Suc.prems in simp_all)
  also have "\<dots> = Some (put_bytes r (take (Suc n) (drop i buf)) p)" by (simp add: t)
  finally show ?case by (simp only: r_def)
qed simp

text \<open>C26: A row of a decision matrix that starts with its page (start offset zero) and has rows of at most 255 bytes is
  read back as it was written, whatever the buffer held that receives it, and the registers outside the row keep
  their values.\<close>

theorem dm_row_round_trip:
  assumes u: "map_of (m_registerPageMap u) (dm_startPage dm) = Some (Some p)" "ordered (m_registerPageMap u)" "page_ok p"
    and dm: "dm_startOffset dm = 0" "row < dm_rowCount dm" "dm_rowSize dm \<le> 255"
    and b: "length bs = unat (dm_rowSize dm)" "length bs \<le> length buf"
    and r: "\<forall>i<length bs. readable p (of_nat (row_start dm row) + of_nat i)"
  shows "\<exists>u' u'' p'. vscp_writeDmRow dm row bs u = Some (VSCP_ERROR_SUCCESS, u')
    \<and> vscp_readDmRow dm row buf u' = Some (VSCP_ERROR_SUCCESS, bs @ drop (length bs) buf, u'')
    \<and> map_of (m_registerPageMap u') (dm_startPage dm) = Some (Some p')
    \<and> (\<forall>q. (\<forall>i<length bs. q \<noteq> of_nat (row_start dm row) + of_nat i) \<longrightarrow> reg_value p' q = reg_value p q)"
proof -
  let ?r = "of_nat (row_start dm row) :: u32"
  let ?p = "put_bytes ?r bs p"
  let ?u = "set_page (dm_startPage dm) ?p u"
  have n: "length bs < 256" "unat (dm_rowSize dm) = length bs" using dm(3) b(1) by (simp_all add: word_le_nat_alt)
  have g: "\<not> row \<ge> dm_rowCount dm" "\<not> dm_rowSize dm > 255" using dm(2,3) by (simp_all add: not_le not_less)
  have "write_row dm row 0 (length bs) bs p = Some ?p"
    using write_row_bytes [OF dm(1,3), of 0 "length bs" bs row p] n(1) by simp
  then have 1: "vscp_writeDmRow dm row bs u = Some (VSCP_ERROR_SUCCESS, ?u)"
    by (simp add: vscp_writeDmRow_def getRegisterPage_found [OF u(1)] g n(2))
  note put = page.put_all_content [OF u(3) r]
  have q: "\<forall>q. (\<forall>i<length bs. q \<noteq> ?r + of_nat i) \<longrightarrow> reg_value ?p q = reg_value p q"
    using put n(1) by (simp add: put_bytes_put)
  have "fst (page_bytes ?r (length bs) ?p) = bs"
    using page.stored_bytes_are_read [OF u(3) r] n(1) by (simp add: page_bytes_look put_bytes_put)
  then obtain p' where "page_bytes ?r (length bs) ?p = (bs, p')" by (metis prod.collapse)
  then have "read_row dm row 0 (length bs) buf ?p = Some (bs @ drop (length bs) buf, p')"
    using read_row_bytes [OF dm(1,3), of 0 "length bs" buf row ?p] n(1) b(2) by simp
  then have 2: "vscp_readDmRow dm row buf ?u = Some (VSCP_ERROR_SUCCESS, bs @ drop (length bs) buf, set_page (dm_startPage dm) p' ?u)"
    by (simp add: vscp_readDmRow_def getRegisterPage_set_page [OF u(2)] g n(2))
  have "map_of (m_registerPageMap ?u) (dm_startPage dm) = Some (Some ?p)" using u(2) by (simp add: set_page_def)
  then show ?thesis using 1 2 q by blast
qed

theorem dm_row_round_trip_witness:
  "\<exists>u' u'' p'. vscp_writeDmRow \<lparr>dm_startPage = 3, dm_startOffset = 0, dm_rowCount = 4, dm_rowSize = 2\<rparr> 1 [7, 9] sample_registers
      = Some (VSCP_ERROR_SUCCESS, u')
    \<and> vscp_readDmRow \<lparr>dm_startPage = 3, dm_startOffset = 0, dm_rowCount = 4, dm_rowSize = 2\<rparr> 1 [0, 0, 1] u'
      = Some (VSCP_ERROR_SUCCESS, [7, 9, 1], u'')
    \<and> map_of (m_registerPageMap u') 3 = Some (Some p') \<and> reg_value p' 8 = 1"
proof -
  let ?dm = "\<lparr>dm_startPage = 3, dm_startOffset = 0, dm_rowCount = 4, dm_rowSize = 2\<rparr>"
  have "page_ok sample_page" "\<And>r. readable sample_page r"
    by (simp_all add: page_ok_def ordered_def sample_page_def new_CRegisterPage_def readable_def VSCP_LEVEL1_def VSCP_LEVEL2_def)
  then have "\<exists>u' u'' p'. vscp_writeDmRow ?dm 1 [7, 9] sample_registers = Some (VSCP_ERROR_SUCCESS, u')
      \<and> vscp_readDmRow ?dm 1 [0, 0, 1] u' = Some (VSCP_ERROR_SUCCESS, [7, 9] @ drop (length [7 :: u8, 9]) [0, 0, 1], u'')
      \<and> map_of (m_registerPageMap u') (dm_startPage ?dm) = Some (Some p')
      \<and> (\<forall>q. (\<forall>i<length [7 :: u8, 9]. q \<noteq> of_nat (row_start ?dm 1) + of_nat i) \<longrightarrow> reg_value p' q = reg_value sample_page q)"
    by (intro dm_row_round_trip) (simp_all add: sample_registers_def ordered_def)
  then obtain u' u'' p' where w: "vscp_writeDmRow ?dm 1 [7, 9] sample_registers = Some (VSCP_ERROR_SUCCESS, u')"
      "vscp_readDmRow ?dm 1 [0, 0, 1] u' = Some (VSCP_ERROR_SUCCESS, [7, 9] @ drop (length [7 :: u8, 9]) [0, 0, 1], u'')"
      "map_of (m_registerPageMap u') (dm_startPage ?dm) = Some (Some p')"
      "\<forall>q. (\<forall>i<length [7 :: u8, 9]. q \<noteq> of_nat (row_start ?dm 1) + of_nat i) \<longrightarrow> reg_value p' q = reg_value sample_page q"
    by blast
  have "reg_value p' 8 = reg_value sample_page 8"
    by (rule mp [OF spec [OF w(4)]]) (auto simp: row_start_def less_Suc_eq)
  then show ?thesis using w(1-3)
    by (auto simp: sample_page_def new_CRegisterPage_def reg_value_def omap_get_def)
qed

text \<open>The start offset of a matrix plays no part: a matrix that starts further down its page is read and written
  at the start of the page.\<close>

lemma dm_register_offset [simp]: "dm_register (dm\<lparr>dm_startOffset := k\<rparr>) = dm_register dm"
  by (intro ext) (simp add: dm_register_def)

lemma rows_offset [simp]:
  "read_row (dm\<lparr>dm_startOffset := k\<rparr>) row i n buf p = read_row dm row i n buf p"
  "write_row (dm\<lparr>dm_startOffset := k\<rparr>) row i n buf p = write_row dm row i n buf p"
  by (induction n arbitrary: i buf p) simp_all

theorem dm_start_offset_is_ignored:
  "vscp_readDmRow (dm\<lparr>dm_startOffset := k\<rparr>) row buf u = vscp_readDmRow dm row buf u
   \<and> vscp_writeDmRow (dm\<lparr>dm_startOffset := k\<rparr>) row buf u = vscp_writeDmRow dm row buf u"
  by (cases "getRegisterPage (dm_startPage dm) u"; cases "fst (getRegisterPage (dm_startPage dm) u)")
    (simp_all add: vscp_readDmRow_def vscp_writeDmRow_def)

end
