(* ===== verification/RegisterAccess.thy ===== *)
theory RegisterAccess
  imports Registers UdpClient "HOL-Library.Multiset"
begin

unbundle bit_operations_syntax

text \<open>
  Reading and writing the registers of a node over a client connection, and searching for nodes
  (\<^verbatim>\<open>register.cpp\<close>). The client is the interface \<^verbatim>\<open>CVscpClient\<close>, a record of its operations, together with
  the clock and with what happens while the program sleeps. The loops wait until an answer comes or the time is over,
  so they are partial functions: \<open>None\<close> is a wait without end, or an undefined access. A status callback
  only reports progress; what matters of it here is whether there is one.
\<close>

section \<open>The client interface\<close>

definition VSCP_CLASS1_PROTOCOL :: u16 where "VSCP_CLASS1_PROTOCOL = 0"
definition VSCP_TYPE_PROTOCOL_READ_REGISTER :: u16 where "VSCP_TYPE_PROTOCOL_READ_REGISTER = 9"
definition VSCP_TYPE_PROTOCOL_RW_RESPONSE :: u16 where "VSCP_TYPE_PROTOCOL_RW_RESPONSE = 10"
definition VSCP_TYPE_PROTOCOL_WHO_IS_THERE :: u16 where "VSCP_TYPE_PROTOCOL_WHO_IS_THERE = 31"
definition VSCP_TYPE_PROTOCOL_WHO_IS_THERE_RESPONSE :: u16 where "VSCP_TYPE_PROTOCOL_WHO_IS_THERE_RESPONSE = 32"
definition VSCP_TYPE_PROTOCOL_EXTENDED_PAGE_READ :: u16 where "VSCP_TYPE_PROTOCOL_EXTENDED_PAGE_READ = 37"
definition VSCP_TYPE_PROTOCOL_EXTENDED_PAGE_WRITE :: u16 where "VSCP_TYPE_PROTOCOL_EXTENDED_PAGE_WRITE = 38"
definition VSCP_TYPE_PROTOCOL_EXTENDED_PAGE_RESPONSE :: u16 where "VSCP_TYPE_PROTOCOL_EXTENDED_PAGE_RESPONSE = 39"
definition VSCP_PRIORITY_NORMAL :: u16 where "VSCP_PRIORITY_NORMAL = 0x60"

text \<open>\<open>getcount\<close> gives the content of the variable after the call, which is arbitrary when the call fails.\<close>

record 'c client_ops =
  cl_clear :: "'c \<Rightarrow> int \<times> 'c"
  cl_send :: "vscpEventEx \<Rightarrow> 'c \<Rightarrow> (int \<times> 'c) safe"
  cl_getcount :: "'c \<Rightarrow> int \<times> u16 \<times> 'c"
  cl_receive :: "vscpEventEx \<Rightarrow> 'c \<Rightarrow> (int \<times> vscpEventEx \<times> 'c) safe"
  cl_now :: "'c \<Rightarrow> u32 \<times> 'c"
  cl_sleep :: "'c \<Rightarrow> 'c safe"

section \<open>Requests and answers\<close>

definition cguid_getNickname :: "u8 list \<Rightarrow> u8" where
  "cguid_getNickname m_guid = m_guid ! 15"

definition if_offset :: "u8 list \<Rightarrow> nat" where
  "if_offset guidInterface = (if cguid_isNULL guidInterface then 0 else 16)"

definition protocol_class :: "u8 list \<Rightarrow> u16" where
  "protocol_class guidInterface = VSCP_CLASS1_PROTOCOL + (if cguid_isNULL guidInterface then 0 else 512)"

text \<open>The fields that are not set keep what the local variable \<open>ex\<close> holds.\<close>

definition page_request :: "u8 list \<Rightarrow> u16 \<Rightarrow> u8 list \<Rightarrow> vscpEventEx \<Rightarrow> vscpEventEx safe" where
  "page_request guidInterface t bs ex = do {
     d \<leftarrow> (if cguid_isNULL guidInterface then Some (xdata ex) else wr_block (xdata ex) 0 (take 16 guidInterface));
     d \<leftarrow> wr_block d (if_offset guidInterface) bs;
     Some (ex\<lparr>xhead := VSCP_PRIORITY_NORMAL, xvscp_class := protocol_class guidInterface, xvscp_type := t,
              xsizeData := of_nat (if_offset guidInterface + length bs), xdata := d\<rparr>) }"

text \<open>
  Whether an event is the answer that is waited for. The comparison of the last GUID byte with the nickname is an
  assignment: the byte is overwritten, and the test only asks whether the nickname is not zero.
\<close>

definition answers :: "u8 \<Rightarrow> (u8 list \<Rightarrow> bool) \<Rightarrow> vscpEventEx \<Rightarrow> (bool \<times> vscpEventEx) safe" where
  "answers nickname P ex =
     (if xvscp_class ex = VSCP_CLASS1_PROTOCOL \<and> xvscp_type ex = VSCP_TYPE_PROTOCOL_EXTENDED_PAGE_RESPONSE
      then do {
        guid \<leftarrow> wr_block (xGUID ex) 15 [nickname];
        h \<leftarrow> rd_block (xdata ex) 0 5;
        Some (nickname \<noteq> 0 \<and> xsizeData ex \<ge> 5 \<and> P h, ex\<lparr>xGUID := guid\<rparr>) }
      else Some (False, ex))"

definition expired :: "'c client_ops \<Rightarrow> u32 \<Rightarrow> u32 \<Rightarrow> 'c \<Rightarrow> bool \<times> 'c" where
  "expired cl timeout startTime c =
     (if timeout = 0 then (False, c) else let (now, c) = cl_now cl c in (now - startTime > timeout, c))"

section \<open>Waiting for one answer\<close>

datatype poll_result = Answered | Failed int | No_answer int

partial_function (option) poll ::
  "'c client_ops \<Rightarrow> (vscpEventEx \<Rightarrow> (bool \<times> vscpEventEx) safe) \<Rightarrow> u32 \<Rightarrow> u32 \<Rightarrow> vscpEventEx \<Rightarrow> 'c
   \<Rightarrow> (poll_result \<times> vscpEventEx \<times> 'c) safe" where
  "poll cl answer timeout startTime ex c =
     (let (rv, cnt, c) = cl_getcount cl c
      in Option.bind
        (if cnt \<noteq> 0 \<and> rv = VSCP_ERROR_SUCCESS
         then Option.bind (cl_receive cl ex c) (\<lambda>(rv, ex, c).
                if rv \<noteq> VSCP_ERROR_SUCCESS then Some (Some (Failed rv), rv, ex, c)
                else Option.bind (answer ex) (\<lambda>(hit, ex). Some (if hit then Some Answered else None, rv, ex, c)))
         else Some (None, rv, ex, c))
        (\<lambda>(stop, rv, ex, c).
          if stop \<noteq> None then Some (the stop, ex, c)
          else let (late, c) = expired cl timeout startTime c
               in if late then Some (No_answer VSCP_ERROR_TIMEOUT, ex, c)
                  else Option.bind (cl_sleep cl c) (\<lambda>c.
                         if timeout = 0 then Some (No_answer rv, ex, c)
                         else poll cl answer timeout startTime ex c)))"

text \<open>The common part of the calls: clear the queue, send the request, wait.\<close>

definition transact ::
  "'c client_ops \<Rightarrow> (vscpEventEx \<Rightarrow> (bool \<times> vscpEventEx) safe) \<Rightarrow> u32 \<Rightarrow> vscpEventEx \<Rightarrow> 'c
   \<Rightarrow> (poll_result \<times> vscpEventEx \<times> 'c) safe" where
  "transact cl answer timeout ex c =
     (let (rv, c) = cl_clear cl c
      in if rv \<noteq> VSCP_ERROR_SUCCESS then Some (Failed rv, ex, c)
         else do {
           (rv, c) \<leftarrow> cl_send cl ex c;
           if rv \<noteq> VSCP_ERROR_SUCCESS then Some (Failed rv, ex, c)
           else let (startTime, c) = cl_now cl c in poll cl answer timeout startTime ex c })"

definition vscp_readLevel1Register ::
  "'c client_ops \<Rightarrow> vscpEventEx \<Rightarrow> u8 list \<Rightarrow> u8 list \<Rightarrow> u16 \<Rightarrow> u8 \<Rightarrow> u8 \<Rightarrow> u32 \<Rightarrow> 'c \<Rightarrow> (int \<times> u8 \<times> 'c) safe" where
  "vscp_readLevel1Register cl ex guidNode guidInterface page offset val timeout c = do {
     let nickname = cguid_getNickname guidNode;
     ex \<leftarrow> page_request guidInterface VSCP_TYPE_PROTOCOL_EXTENDED_PAGE_READ [nickname, hi8 page, lo8 page, offset, 1] ex;
     (r, ex, c) \<leftarrow> transact cl (answers nickname (\<lambda>h. take 4 h = [0, hi8 page, lo8 page, offset])) timeout ex c;
     (case r of
        Answered \<Rightarrow> do { v \<leftarrow> rd (xdata ex) 4; Some (VSCP_ERROR_SUCCESS, v, c) }
      | Failed rv \<Rightarrow> Some (rv, val, c)
      | No_answer rv \<Rightarrow> Some (rv, val, c)) }"

definition vscp_writeLevel1Register ::
  "'c client_ops \<Rightarrow> vscpEventEx \<Rightarrow> u8 list \<Rightarrow> u8 list \<Rightarrow> u16 \<Rightarrow> u8 \<Rightarrow> u8 \<Rightarrow> u32 \<Rightarrow> 'c \<Rightarrow> (int \<times> 'c) safe" where
  "vscp_writeLevel1Register cl ex guidNode guidInterface page offset val timeout c = do {
     let nickname = cguid_getNickname guidNode;
     ex \<leftarrow> page_request guidInterface VSCP_TYPE_PROTOCOL_EXTENDED_PAGE_WRITE [nickname, hi8 page, lo8 page, offset, val] ex;
     (r, ex, c) \<leftarrow> transact cl (answers nickname (\<lambda>h. h = [0, hi8 page, lo8 page, offset, val])) timeout ex c;
     Some (case r of Answered \<Rightarrow> (VSCP_ERROR_SUCCESS, c) | Failed rv \<Rightarrow> (rv, c) | No_answer rv \<Rightarrow> (rv, c)) }"

definition restoreStandardConfig ::
  "'c client_ops \<Rightarrow> vscpEventEx \<Rightarrow> vscpEventEx \<Rightarrow> u8 list \<Rightarrow> u8 list \<Rightarrow> u32 \<Rightarrow> 'c \<Rightarrow> (int \<times> 'c) safe" where
  "restoreStandardConfig cl ex1 ex2 guidNode guidInterface timeout c = do {
     (rv, c) \<leftarrow> vscp_writeLevel1Register cl ex1 guidNode guidInterface 0 0xA2 0x55 timeout c;
     if rv \<noteq> VSCP_ERROR_SUCCESS then Some (rv, c)
     else vscp_writeLevel1Register cl ex2 guidNode guidInterface 0 0xA2 0xAA timeout c }"

section \<open>Reading a block of registers\<close>

text \<open>The registers read so far, the frames still to come, and the number of registers received.\<close>

record block =
  b_values :: "(u8, u8) omap"
  b_frameset :: "nat list"
  b_rcvcnt :: u8

definition frame_set :: "u8 \<Rightarrow> nat list" where
  "frame_set cnt = [0..<unat cnt div 4] @ (if unat cnt mod 4 \<noteq> 0 then [unat cnt div 4] else [])"

definition take_frame :: "vscpEventEx \<Rightarrow> block \<Rightarrow> block safe" where
  "take_frame ex b = do {
     d \<leftarrow> rd_block (xdata ex) 0 (unat (xsizeData ex));
     index \<leftarrow> rd d 0;
     reg \<leftarrow> rd d 3;
     let bs = drop 4 d;
     Some (b\<lparr>b_frameset := filter (\<lambda>i. i \<noteq> unat index) (b_frameset b),
             b_values := foldl (\<lambda>m (i, v). omap_put (reg + of_nat i) v m) (b_values b) (enumerate 0 bs),
             b_rcvcnt := b_rcvcnt b + of_nat (length bs)\<rparr>) }"

text \<open>A frame of the block, whatever its index and its first register.\<close>

definition block_answers :: "u8 \<Rightarrow> u16 \<Rightarrow> vscpEventEx \<Rightarrow> (bool \<times> vscpEventEx) safe" where
  "block_answers nickname page = answers nickname (\<lambda>h. h ! 1 = hi8 page \<and> h ! 2 = lo8 page)"

text \<open>The share of what was read is reported every half second; it is divided by the number of registers received.\<close>

definition report_progress :: "'c client_ops \<Rightarrow> bool \<Rightarrow> u8 \<Rightarrow> u32 \<Rightarrow> 'c \<Rightarrow> (u32 \<times> 'c) safe" where
  "report_progress cl callback rcvcnt callbackTime c =
     (if \<not> callback then Some (callbackTime, c)
      else let (now, c) = cl_now cl c
           in if now - callbackTime > 500 then if rcvcnt = 0 then None else Some (cl_now cl c)
              else Some (callbackTime, c))"

partial_function (option) read_block_loop ::
  "'c client_ops \<Rightarrow> (vscpEventEx \<Rightarrow> (bool \<times> vscpEventEx) safe) \<Rightarrow> u8 \<Rightarrow> bool \<Rightarrow> u32 \<Rightarrow> u32 \<Rightarrow> u32 \<Rightarrow> block
   \<Rightarrow> vscpEventEx \<Rightarrow> 'c \<Rightarrow> (int \<times> (u8, u8) omap \<times> 'c) safe" where
  "read_block_loop cl answer cnt callback timeout startTime callbackTime b ex c =
     (let (rv, cntRead, c) = cl_getcount cl c
      in Option.bind
        (if rv = VSCP_ERROR_SUCCESS \<and> cntRead \<noteq> 0
         then Option.bind (cl_receive cl ex c) (\<lambda>(rv, ex, c).
                if rv \<noteq> VSCP_ERROR_SUCCESS then Some (Some rv, b, ex, c)
                else Option.bind (answer ex) (\<lambda>(hit, ex).
                  if \<not> hit then Some (None, b, ex, c)
                  else Option.bind (take_frame ex b) (\<lambda>b.
                    Some (if b_rcvcnt b = cnt \<and> b_frameset b = [] then Some VSCP_ERROR_SUCCESS else None, b, ex, c))))
         else Some (None, b, ex, c))
        (\<lambda>(stop, b, ex, c).
          if stop \<noteq> None then Some (the stop, b_values b, c)
          else let (late, c) = expired cl timeout startTime c
               in if late then Some (VSCP_ERROR_TIMEOUT, b_values b, c)
                  else Option.bind (report_progress cl callback (b_rcvcnt b) callbackTime c) (\<lambda>(callbackTime, c).
                    Option.bind (cl_sleep cl c) (\<lambda>c.
                      read_block_loop cl answer cnt callback timeout startTime callbackTime b ex c))))"

definition vscp_readLevel1RegisterBlock ::
  "'c client_ops \<Rightarrow> vscpEventEx \<Rightarrow> u8 list \<Rightarrow> u8 list \<Rightarrow> u16 \<Rightarrow> u8 \<Rightarrow> u8 \<Rightarrow> (u8, u8) omap \<Rightarrow> bool \<Rightarrow> u32 \<Rightarrow> 'c
   \<Rightarrow> (int \<times> (u8, u8) omap \<times> 'c) safe" where
  "vscp_readLevel1RegisterBlock cl ex guidNode guidInterface page offset cnt vals callback timeout c = do {
     let nickname = cguid_getNickname guidNode;
     ex \<leftarrow> page_request guidInterface VSCP_TYPE_PROTOCOL_EXTENDED_PAGE_READ [nickname, hi8 page, lo8 page, offset, cnt] ex;
     let (rv, c) = cl_clear cl c;
     if rv \<noteq> VSCP_ERROR_SUCCESS then Some (rv, vals, c)
     else do {
       (rv, c) \<leftarrow> cl_send cl ex c;
       if rv \<noteq> VSCP_ERROR_SUCCESS then Some (rv, vals, c)
       else
         let (startTime, c) = cl_now cl c; (callbackTime, c) = cl_now cl c
         in read_block_loop cl (block_answers nickname page) cnt callback timeout
              startTime callbackTime \<lparr>b_values = vals, b_frameset = frame_set cnt, b_rcvcnt = 0\<rparr> ex c } }"

definition std_init ::
  "'c client_ops \<Rightarrow> vscpEventEx \<Rightarrow> u8 list \<Rightarrow> u8 list \<Rightarrow> bool \<Rightarrow> u32 \<Rightarrow> CStandardRegisters \<Rightarrow> 'c
   \<Rightarrow> (int \<times> CStandardRegisters \<times> 'c) safe" where
  "std_init cl ex guidNode guidInterface callback timeout s c = do {
     (rv, regs, c) \<leftarrow> vscp_readLevel1RegisterBlock cl ex guidNode guidInterface 0 0x80 128 [] callback timeout c;
     Some (rv, s\<lparr>m_regs := regs, std_change := []\<rparr>, c) }"

text \<open>A page that cannot be read stays in the map, empty. \<open>fresh\<close> is the local event of the call for each page.\<close>

fun user_init_pages ::
  "'c client_ops \<Rightarrow> (u16 \<Rightarrow> vscpEventEx) \<Rightarrow> u8 list \<Rightarrow> u8 list \<Rightarrow> bool \<Rightarrow> u32 \<Rightarrow> u16 list \<Rightarrow> int \<Rightarrow> CUserRegisters \<Rightarrow> 'c
   \<Rightarrow> (int \<times> CUserRegisters \<times> 'c) safe" where
  "user_init_pages cl fresh guidNode guidInterface callback timeout [] rv u c = Some (rv, u, c)"
| "user_init_pages cl fresh guidNode guidInterface callback timeout (page # pages) rv u c = do {
     let p = new_CRegisterPage (usr_level u) page;
     let u = set_page page p u;
     (rv, registers, c) \<leftarrow> vscp_readLevel1RegisterBlock cl (fresh page) guidNode guidInterface page 0 128 [] callback timeout c;
     if rv \<noteq> VSCP_ERROR_SUCCESS then Some (rv, u, c)
     else
       let u = (set_page page (page_clearChanges (putLevel1Registers registers p)) u)
                 \<lparr>m_pages := oset_insert (uint page) (m_pages u)\<rparr>
       in user_init_pages cl fresh guidNode guidInterface callback timeout pages rv u c }"

definition user_init ::
  "'c client_ops \<Rightarrow> (u16 \<Rightarrow> vscpEventEx) \<Rightarrow> u8 list \<Rightarrow> u8 list \<Rightarrow> u16 list \<Rightarrow> bool \<Rightarrow> u32 \<Rightarrow> CUserRegisters \<Rightarrow> 'c
   \<Rightarrow> (int \<times> CUserRegisters \<times> 'c) safe" where
  "user_init cl fresh guidNode guidInterface pages callback timeout u c =
     user_init_pages cl fresh guidNode guidInterface callback timeout pages VSCP_ERROR_SUCCESS (u\<lparr>m_pages := []\<rparr>) c"

section \<open>Writing a block of registers\<close>

text \<open>The runs of registers that follow each other: the first of each and how many there are, in eight bits.\<close>

fun start_map :: "(u8, u8) omap \<Rightarrow> int \<Rightarrow> int \<Rightarrow> (u8, u8) omap \<Rightarrow> (u8, u8) omap" where
  "start_map [] reg cnt startmap = startmap"
| "start_map ((first, v) # regs) reg cnt startmap =
     (if uint first \<noteq> reg + cnt
      then start_map regs (uint first) 1 (omap_put first 1 startmap)
      else let (n, startmap) = omap_at 0 (word_of_int reg) startmap
           in start_map regs reg (uint (n + 1)) (omap_put (word_of_int reg) (n + 1) startmap))"

definition run_frames :: "u8 \<Rightarrow> u8 \<Rightarrow> (u8 \<times> nat) list" where
  "run_frames first n =
     map (\<lambda>i. (first + of_nat (4 * i), min 4 (unat n - 4 * i))) [0..<unat n div 4 + (if unat n mod 4 \<noteq> 0 then 1 else 0)]"

definition block_frames :: "(u8, u8) omap \<Rightarrow> (u8 \<times> nat) list" where
  "block_frames regvalues = concat (map (\<lambda>(first, n). run_frames first n) (start_map regvalues (- 99) 0 []))"

fun frame_values :: "u8 \<Rightarrow> nat \<Rightarrow> (u8, u8) omap \<Rightarrow> u8 list \<times> (u8, u8) omap" where
  "frame_values r 0 regvalues = ([], regvalues)"
| "frame_values r (Suc n) regvalues =
     (let (v, regvalues) = omap_at 0 r regvalues; (vs, regvalues) = frame_values (r + 1) n regvalues
      in (v # vs, regvalues))"

text \<open>The registers whose value the answer confirms are taken out; looking one up inserts it.\<close>

fun confirm :: "u8 \<Rightarrow> u8 list \<Rightarrow> (u8, u8) omap \<Rightarrow> (u8, u8) omap" where
  "confirm r [] regvalues = regvalues"
| "confirm r (b # bs) regvalues =
     (let (v, regvalues) = omap_at 0 r regvalues
      in confirm (r + 1) bs (if b = v then omap_erase r regvalues else regvalues))"

fun write_block_loop ::
  "'c client_ops \<Rightarrow> u8 \<Rightarrow> u8 list \<Rightarrow> u16 \<Rightarrow> u32 \<Rightarrow> (u8 \<times> nat) list \<Rightarrow> int \<Rightarrow> vscpEventEx \<Rightarrow> (u8, u8) omap \<Rightarrow> 'c
   \<Rightarrow> (int \<times> (u8, u8) omap \<times> 'c) safe" where
  "write_block_loop cl nickname guidInterface page timeout [] rv ex regvalues c = Some (rv, regvalues, c)"
| "write_block_loop cl nickname guidInterface page timeout ((r, n) # frames) rv ex regvalues c = do {
     let (vs, regvalues) = frame_values r n regvalues;
     ex \<leftarrow> page_request guidInterface VSCP_TYPE_PROTOCOL_EXTENDED_PAGE_WRITE ([nickname, hi8 page, lo8 page, r] @ vs) ex;
     (result, ex, c) \<leftarrow> transact cl (answers nickname (\<lambda>h. take 3 h = [0, hi8 page, lo8 page])) timeout ex c;
     (case result of
        Failed rv \<Rightarrow> Some (rv, regvalues, c)
      | No_answer rv \<Rightarrow> write_block_loop cl nickname guidInterface page timeout frames rv ex regvalues c
      | Answered \<Rightarrow> do {
          d \<leftarrow> rd_block (xdata ex) 0 (unat (xsizeData ex));
          q \<leftarrow> rd d 3;
          let regvalues = confirm q (drop 4 d) regvalues;
          if regvalues = [] then Some (VSCP_ERROR_SUCCESS, regvalues, c)
          else write_block_loop cl nickname guidInterface page timeout frames VSCP_ERROR_SUCCESS ex regvalues c }) }"

definition vscp_writeLevel1RegisterBlock ::
  "'c client_ops \<Rightarrow> vscpEventEx \<Rightarrow> u8 list \<Rightarrow> u8 list \<Rightarrow> u16 \<Rightarrow> (u8, u8) omap \<Rightarrow> u32 \<Rightarrow> 'c
   \<Rightarrow> (int \<times> (u8, u8) omap \<times> 'c) safe" where
  "vscp_writeLevel1RegisterBlock cl ex guidNode guidInterface page regvalues timeout c =
     write_block_loop cl (cguid_getNickname guidNode) guidInterface page timeout (block_frames regvalues)
       VSCP_ERROR_SUCCESS ex regvalues c"

section \<open>Searching for nodes\<close>

definition nickname_of :: "vscpEventEx \<Rightarrow> u16" where
  "nickname_of ex = be16 (xGUID ex ! 14) (xGUID ex ! 15)"

text \<open>A received event is looked at again in every pass in which nothing new has come.\<close>

partial_function (option) scan_loop ::
  "'c client_ops \<Rightarrow> bool \<Rightarrow> u32 \<Rightarrow> u32 \<Rightarrow> u32 \<Rightarrow> int \<Rightarrow> vscpEventEx \<Rightarrow> u16 list \<Rightarrow> 'c \<Rightarrow> (int \<times> u16 list \<times> 'c) safe" where
  "scan_loop cl callback timeout startTime callbackTime rv ex found c =
     (let (_, cnt, c) = cl_getcount cl c
      in Option.bind (if cnt \<noteq> 0 then cl_receive cl ex c else Some (rv, ex, c)) (\<lambda>(rv, ex, c).
        let found = (if rv = VSCP_ERROR_SUCCESS \<and> xvscp_class ex = VSCP_CLASS1_PROTOCOL
                        \<and> xvscp_type ex = VSCP_TYPE_PROTOCOL_WHO_IS_THERE_RESPONSE
                     then oset_insert (nickname_of ex) found else found);
            (now, c) = cl_now cl c
        in if now - startTime > timeout then Some (VSCP_ERROR_SUCCESS, found, c)
           else Option.bind (report_progress cl callback 1 callbackTime c) (\<lambda>(callbackTime, c).
             Option.bind (cl_sleep cl c) (\<lambda>c.
               scan_loop cl callback timeout startTime callbackTime rv ex found c))))"

definition vscp_scanForDevices ::
  "'c client_ops \<Rightarrow> u8 list \<Rightarrow> u16 list \<Rightarrow> bool \<Rightarrow> u32 \<Rightarrow> 'c \<Rightarrow> (int \<times> u16 list \<times> 'c) safe" where
  "vscp_scanForDevices cl guidIf found callback timeout c = do {
     let offset = if_offset guidIf;
     d \<leftarrow> wr_block (replicate 512 0) offset [0xff];
     d \<leftarrow> (if cguid_isNULL guidIf then Some d else wr_block d offset (take 16 guidIf));
     let ex = zero_eventEx\<lparr>xvscp_class := protocol_class guidIf, xvscp_type := VSCP_TYPE_PROTOCOL_WHO_IS_THERE,
                xsizeData := of_nat (1 + offset), xdata := d\<rparr>;
     let (rv, c) = cl_clear cl c;
     if rv \<noteq> VSCP_ERROR_SUCCESS then Some (rv, found, c)
     else do {
       (rv, c) \<leftarrow> cl_send cl ex c;
       if rv \<noteq> VSCP_ERROR_SUCCESS then Some (rv, found, c)
       else let (startTime, c) = cl_now cl c; (callbackTime, c) = cl_now cl c
            in scan_loop cl callback timeout startTime callbackTime rv ex found c } }"

partial_function (option) slow_scan_loop ::
  "'c client_ops \<Rightarrow> bool \<Rightarrow> nat \<Rightarrow> u32 \<Rightarrow> u32 \<Rightarrow> u32 \<Rightarrow> vscpEventEx \<Rightarrow> u16 list \<Rightarrow> 'c \<Rightarrow> (int \<times> u16 list \<times> 'c) safe" where
  "slow_scan_loop cl callback searched timeout startTime callbackTime ex found c =
     (let (_, cnt, c) = cl_getcount cl c
      in Option.bind
        (if cnt \<noteq> 0
         then Option.bind (cl_receive cl ex c) (\<lambda>(rv, ex, c).
                Some (if rv = VSCP_ERROR_SUCCESS \<and> xvscp_class ex \<in> {VSCP_CLASS1_PROTOCOL, VSCP_CLASS2_LEVEL1_PROTOCOL}
                         \<and> xvscp_type ex = VSCP_TYPE_PROTOCOL_RW_RESPONSE
                      then oset_insert (nickname_of ex) found else found, ex, c))
         else Some (found, ex, c))
        (\<lambda>(found, ex, c).
          if length found \<ge> searched then Some (VSCP_ERROR_SUCCESS, found, c)
          else let (now, c) = cl_now cl c
               in if now - startTime > timeout then Some (VSCP_ERROR_SUCCESS, found, c)
                  else Option.bind (report_progress cl callback 1 callbackTime c) (\<lambda>(callbackTime, c).
                    Option.bind (cl_sleep cl c) (\<lambda>c.
                      slow_scan_loop cl callback searched timeout startTime callbackTime ex found c))))"

fun send_probes ::
  "'c client_ops \<Rightarrow> nat \<Rightarrow> u16 list \<Rightarrow> vscpEventEx \<Rightarrow> 'c \<Rightarrow> (int \<times> vscpEventEx \<times> 'c) safe" where
  "send_probes cl offset [] ex c = Some (VSCP_ERROR_SUCCESS, ex, c)"
| "send_probes cl offset (node # nodes) ex c = do {
     d \<leftarrow> wr_block (xdata ex) offset [ucast node, 0xd0];
     let ex = ex\<lparr>xdata := d\<rparr>;
     (rv, c) \<leftarrow> cl_send cl ex c;
     if rv \<noteq> VSCP_ERROR_SUCCESS then Some (rv, ex, c)
     else do { c \<leftarrow> cl_sleep cl c; send_probes cl offset nodes ex c } }"

definition vscp_scanSlowForDevices ::
  "'c client_ops \<Rightarrow> u8 list \<Rightarrow> u16 list \<Rightarrow> u16 list \<Rightarrow> bool \<Rightarrow> u32 \<Rightarrow> 'c \<Rightarrow> (int \<times> u16 list \<times> 'c) safe" where
  "vscp_scanSlowForDevices cl guidIf search_nodes found_nodes callback timeout c = do {
     let offset = if_offset guidIf;
     d \<leftarrow> (if cguid_isNULL guidIf then Some (replicate 512 0) else wr_block (replicate 512 0) 0 (take 16 guidIf));
     let ex = zero_eventEx\<lparr>xvscp_class := protocol_class guidIf, xvscp_type := VSCP_TYPE_PROTOCOL_READ_REGISTER,
                xsizeData := of_nat (2 + offset), xdata := d\<rparr>;
     let (rv, c) = cl_clear cl c;
     if rv \<noteq> VSCP_ERROR_SUCCESS then Some (rv, found_nodes, c)
     else do {
       (rv, ex, c) \<leftarrow> send_probes cl offset search_nodes ex c;
       if rv \<noteq> VSCP_ERROR_SUCCESS then Some (rv, found_nodes, c)
       else let (startTime, c) = cl_now cl c; (callbackTime, c) = cl_now cl c
            in slow_scan_loop cl callback (length search_nodes) timeout startTime callbackTime ex found_nodes c } }"

definition vscp_scanSlowForDevices_range ::
  "'c client_ops \<Rightarrow> u8 list \<Rightarrow> u8 \<Rightarrow> u8 \<Rightarrow> u16 list \<Rightarrow> bool \<Rightarrow> u32 \<Rightarrow> 'c \<Rightarrow> (int \<times> u16 list \<times> 'c) safe" where
  "vscp_scanSlowForDevices_range cl guid start_node end_node found_nodes callback timeout c =
     vscp_scanSlowForDevices cl guid (map of_nat [unat start_node..<Suc (unat end_node)]) found_nodes callback timeout c"

section \<open>The frames of a block\<close>

text \<open>The registers of a run, and those of a list of frames, in order.\<close>

definition run_keys :: "u8 \<Rightarrow> nat \<Rightarrow> u8 list" where
  "run_keys r n = map (\<lambda>j. r + of_nat j) [0..<n]"

lemma run_keys_0 [simp]: "run_keys r 0 = []"
  by (simp add: run_keys_def)

lemma run_keys_Suc: "run_keys r (Suc n) = r # run_keys (r + 1) n"
  unfolding run_keys_def by (simp add: upt_conv_Cons map_Suc_upt [symmetric] comp_def ac_simps del: upt_Suc)

lemma run_keys_snoc: "run_keys r (Suc n) = run_keys r n @ [r + of_nat n]"
  by (simp add: run_keys_def)

lemma length_run_keys [simp]: "length (run_keys r n) = n"
  by (simp add: run_keys_def)

definition run_cover :: "(u8, u8) omap \<Rightarrow> u8 list" where
  "run_cover m = concat (map (\<lambda>(first, n). run_keys first (unat n)) m)"

lemma omap_put_last: "\<forall>j\<in>fst ` set m. j < k \<Longrightarrow> omap_put k v m = m @ [(k, v)]"
  by (induction k v m rule: omap_put.induct) auto

lemma start_map_cover:
  "\<forall>j\<in>fst ` set sm. j < r \<Longrightarrow> ordered regs \<Longrightarrow> \<forall>j\<in>fst ` set regs. uint r + uint n \<le> uint j \<Longrightarrow>
   0 < n \<Longrightarrow> unat n + length regs < 256 \<Longrightarrow>
   run_cover (start_map regs (uint r) (uint n) (sm @ [(r, n)])) = run_cover (sm @ [(r, n)]) @ map fst regs"
proof (induction regs arbitrary: sm r n)
  case (Cons kv regs)
  obtain k v where kv: "kv = (k, v)" by (cases kv)
  have k: "uint r + uint n \<le> uint k" "\<forall>j\<in>fst ` set regs. k < j" "ordered regs"
    using Cons.prems(2,3) kv by (auto simp: ordered_Cons)
  have n: "0 < uint n" "unat n < 255" using Cons.prems(4,5) kv by (simp_all add: word_less_def)
  show ?case
  proof (cases "uint k = uint r + uint n")
    case False
    have rk: "r < k" using k(1) n(1) by (simp add: word_less_def)
    then have low: "\<forall>j\<in>fst ` set (sm @ [(r, n)]). j < k" using Cons.prems(1) by auto
    have "uint k + uint (1 :: u8) \<le> uint j" if "j \<in> fst ` set regs" for j
      using that k(2) by (auto simp: word_less_def)
    then have "run_cover (start_map regs (uint k) (uint (1 :: u8)) ((sm @ [(r, n)]) @ [(k, 1)]))
        = run_cover ((sm @ [(r, n)]) @ [(k, 1)]) @ map fst regs"
      using Cons.IH [OF low k(3), of 1] Cons.prems(5) kv n(1) by (simp add: word_less_def)
    then show ?thesis
      using False omap_put_last [OF low, of 1] by (simp add: kv run_cover_def run_keys_def)
  next
    case True
    have "map_of sm r = None" using Cons.prems(1) unfolding map_of_eq_None_iff by blast
    then have at: "omap_at 0 r (sm @ [(r, n)]) = (n, sm @ [(r, n)])"
      by (simp add: omap_at_def map_add_def)
    have put: "omap_put r (n + 1) (sm @ [(r, n)]) = sm @ [(r, n + 1)]"
      using Cons.prems(1) by (induction sm) auto
    have "unat (n + 1) = unat n + unat (1 :: u8)" using n(2) by (intro unat_add_lem [THEN iffD1]) simp
    then have u2: "unat (n + 1) = Suc (unat n)" by simp
    have u1: "uint (n + 1) = uint n + 1" using arg_cong [OF u2, of int] by simp
    note u = u1 u2
    have kr: "k = r + of_nat (unat n)" using True by (metis of_nat_unat ucast_id word_of_int_uint wi_hom_add)
    have "uint r + uint (n + 1) \<le> uint j" if "j \<in> fst ` set regs" for j
      using that k(2) True u(1) by (auto simp: word_less_def)
    then have "run_cover (start_map regs (uint r) (uint (n + 1)) (sm @ [(r, n + 1)]))
        = run_cover (sm @ [(r, n + 1)]) @ map fst regs"
      using Cons.IH [OF Cons.prems(1) k(3), of "n + 1"] Cons.prems(5) kv u n(1) by (simp add: word_less_def)
    moreover have "run_cover (sm @ [(r, n + 1)]) = run_cover (sm @ [(r, n)]) @ [k]"
      by (simp add: run_cover_def u(2) run_keys_snoc kr)
    ultimately show ?thesis using True at put by (simp add: kv)
  qed
qed simp

lemma start_map_runs:
  assumes "ordered regs" and "length regs < 256"
  shows "run_cover (start_map regs (- 99) 0 []) = map fst regs"
proof (cases regs)
  case (Cons kv rest)
  obtain k v where kv: "kv = (k, v)" by (cases kv)
  have "uint k + uint (1 :: u8) \<le> uint j" if "j \<in> fst ` set rest" for j
    using that assms(1) Cons kv by (auto simp: ordered_Cons word_less_def)
  then have "run_cover (start_map rest (uint k) (uint (1 :: u8)) ([] @ [(k, 1)])) = run_cover ([] @ [(k, 1)]) @ map fst rest"
    using assms Cons kv by (intro start_map_cover) (simp_all add: ordered_Cons)
  moreover have "uint k \<noteq> - 99" using uint_ge_0 [of k] by linarith
  ultimately show ?thesis by (simp add: Cons kv run_cover_def run_keys_Suc)
qed (simp add: run_cover_def)

lemma frames_of_run: "concat (map (\<lambda>(r, n). run_keys r n) (run_frames first n)) = run_keys first (unat n)"
proof -
  have "concat (map (\<lambda>i. [4 * i..<4 * i + min 4 (m - 4 * i)]) [0..<k]) = [0..<min (4 * k) m]" for k m :: nat
  proof (induction k)
    case (Suc k)
    have "[0..<min (4 * k) m] @ [4 * k..<4 * k + min 4 (m - 4 * k)] = [0..<min (4 * Suc k) m]"
    proof (cases "4 * k \<le> m")
      case True
      then have "[0..<4 * k + min 4 (m - 4 * k)] = [0..<4 * k] @ [4 * k..<4 * k + min 4 (m - 4 * k)]"
        by (intro upt_add_eq_append) simp
      moreover have "4 * k + min 4 (m - 4 * k) = min (4 * Suc k) m" using True by simp
      ultimately show ?thesis using True by (simp add: min_def)
    qed simp
    then show ?case using Suc by simp
  qed simp
  note split = this [of "unat n" "unat n div 4 + (if unat n mod 4 \<noteq> 0 then 1 else 0)"]
  have "min (4 * (unat n div 4 + (if unat n mod 4 \<noteq> 0 then 1 else 0))) (unat n) = unat n" by (simp, arith)
  moreover have "run_keys (first + of_nat (4 * i)) m = map (\<lambda>j. first + of_nat j) [4 * i..<4 * i + m]" for i m
  proof -
    have "[4 * i..<4 * i + m] = map (\<lambda>j. 4 * i + j) [0..<m]" by (simp add: map_add_upt add.commute)
    then show ?thesis by (simp add: run_keys_def ac_simps)
  qed
  ultimately show ?thesis
    using arg_cong [OF split, of "map (\<lambda>j. first + of_nat j)"]
    by (simp add: run_frames_def run_keys_def map_concat comp_def del: of_nat_add of_nat_mult)
qed

text \<open>Every frame of a block has one to four registers, and together they have the registers of the block, in order.\<close>

lemma block_frames_cover:
  assumes "ordered regs" and "length regs < 256"
  shows "concat (map (\<lambda>(r, n). run_keys r n) (block_frames regs)) = map fst regs"
    and "\<forall>(r, n)\<in>set (block_frames regs). 0 < n \<and> n \<le> 4"
proof -
  have "concat (map (\<lambda>(r, n). run_keys r n) (concat (map (\<lambda>(first, n). run_frames first n) m)))
      = run_cover m" for m
    by (induction m) (auto simp: run_cover_def frames_of_run)
  then show "concat (map (\<lambda>(r, n). run_keys r n) (block_frames regs)) = map fst regs"
    using start_map_runs [OF assms] by (simp add: block_frames_def)
  have "0 < k \<and> k \<le> 4" if "(r, k) \<in> set (run_frames first n)" for r k first n
  proof -
    obtain i where "i < unat n div 4 + (if unat n mod 4 \<noteq> 0 then 1 else 0)" "k = min 4 (unat n - 4 * i)"
      using \<open>(r, k) \<in> set (run_frames first n)\<close> by (auto simp: run_frames_def)
    then show ?thesis by (cases "unat n mod 4 = 0") (auto, arith+)
  qed
  then show "\<forall>(r, n)\<in>set (block_frames regs). 0 < n \<and> n \<le> 4"
    by (auto simp: block_frames_def)
qed

section \<open>Messages\<close>

text \<open>What a node tells and is told by an event: class, type and data.\<close>

type_synonym message = "u16 \<times> u16 \<times> u8 list"

definition message_of :: "vscpEventEx \<Rightarrow> message" where
  "message_of ex = (xvscp_class ex, xvscp_type ex, take (unat (xsizeData ex)) (xdata ex))"

definition is_answer :: "u8 \<Rightarrow> (u8 list \<Rightarrow> bool) \<Rightarrow> message \<Rightarrow> bool" where
  "is_answer nickname P m = (case m of (c, t, d) \<Rightarrow>
     c = VSCP_CLASS1_PROTOCOL \<and> t = VSCP_TYPE_PROTOCOL_EXTENDED_PAGE_RESPONSE
     \<and> nickname \<noteq> 0 \<and> 5 \<le> length d \<and> P (take 5 d))"

lemma wf_eventEx_raw: "wf_eventEx ex \<Longrightarrow> raw_eventEx ex"
  by (simp add: event_shape)

lemma length_message:
  assumes "wf_eventEx ex" and "message_of ex = (c, t, d)"
  shows "length d = unat (xsizeData ex)" "length d \<le> 512" "rd_block (xdata ex) 0 (unat (xsizeData ex)) = Some d"
  using assms by (auto simp: message_of_def wf_eventEx_def VSCP_LEVEL2_MAXDATA_def rd_block_def)

lemma answers_message:
  assumes "wf_eventEx ex"
  shows "\<exists>ex'. answers nickname P ex = Some (is_answer nickname P (message_of ex), ex')
    \<and> wf_eventEx ex' \<and> message_of ex' = message_of ex"
proof (cases "xvscp_class ex = VSCP_CLASS1_PROTOCOL \<and> xvscp_type ex = VSCP_TYPE_PROTOCOL_EXTENDED_PAGE_RESPONSE")
  case True
  let ?ex = "ex\<lparr>xGUID := take 15 (xGUID ex) @ [nickname]\<rparr>"
  have l: "length (xGUID ex) = 16" "length (xdata ex) = 512" "unat (xsizeData ex) \<le> 512"
    using assms by (simp_all add: wf_eventEx_def VSCP_LEVEL2_MAXDATA_def)
  have five: "xsizeData ex \<ge> 5 \<longleftrightarrow> 5 \<le> unat (xsizeData ex)" by (simp add: word_le_nat_alt)
  then have "take 5 (take (unat (xsizeData ex)) (xdata ex)) = take 5 (xdata ex)" if "xsizeData ex \<ge> 5"
    using that by (simp add: min_absorb1)
  then have "answers nickname P ex = Some (is_answer nickname P (message_of ex), ?ex)"
    using True l five by (auto simp: answers_def wr_block_def rd_block_def is_answer_def message_of_def)
  then show ?thesis using l True by (intro exI [of _ ?ex]) (simp add: event_shape message_of_def VSCP_LEVEL2_MAXDATA_def)
next
  case False
  then show ?thesis using assms by (intro exI [of _ ex]) (auto simp: answers_def is_answer_def message_of_def)
qed

definition prefix_of :: "u8 list \<Rightarrow> u8 list" where
  "prefix_of guidInterface = (if cguid_isNULL guidInterface then [] else guidInterface)"

lemma page_request_message:
  assumes "raw_eventEx ex" and "length guidInterface = 16" and "length bs \<le> 496"
  shows "\<exists>ex'. page_request guidInterface t bs ex = Some ex' \<and> wf_eventEx ex'
    \<and> message_of ex' = (protocol_class guidInterface, t, prefix_of guidInterface @ bs)"
proof (cases "cguid_isNULL guidInterface")
  case True
  then show ?thesis
    using assms by (auto simp: page_request_def event_shape message_of_def prefix_of_def if_offset_def wr_block_def
        VSCP_LEVEL2_MAXDATA_def unat_of_nat_u16)
next
  case False
  have "unat (of_nat (16 + length bs) :: u16) = 16 + length bs" using assms(3) by (intro unat_of_nat_u16) simp
  then show ?thesis
    using assms False by (auto simp: page_request_def event_shape message_of_def prefix_of_def if_offset_def wr_block_def
        VSCP_LEVEL2_MAXDATA_def)
qed

section \<open>A client whose node answers\<close>

text \<open>
  A node says what it answers to a message: messages of its own, each after a number of sleeps of the
  program (two milliseconds) from the one before.
\<close>

type_synonym node = "message \<Rightarrow> (nat \<times> message) list"

definition prompt :: "node \<Rightarrow> u32 \<Rightarrow> message \<Rightarrow> bool" where
  "prompt nd timeout m \<longleftrightarrow> timeout \<noteq> 0 \<and> length (nd m) < 65536
     \<and> 2 * (sum_list (map fst (nd m)) + length (nd m)) \<le> unat timeout
     \<and> (\<forall>(k, c, t, d)\<in>set (nd m). length d \<le> 512)"

text \<open>
  The contract: \<open>ready nd c\<close> is a client that can talk to the node, and \<open>clean nd c\<close> one that has no
  event waiting; after a message was sent, the answers \<open>rs\<close> are pending, the next one \<open>k\<close> sleeps away, and the
  time limit is not reached while one is missing. The program may sleep while it waits for an answer, and once
  after each event that it received (\<open>rest\<close>).
\<close>

locale answering_client =
  fixes cl :: "'c client_ops"
    and ready :: "node \<Rightarrow> 'c \<Rightarrow> bool"
    and clean :: "node \<Rightarrow> 'c \<Rightarrow> bool"
    and pending :: "node \<Rightarrow> u32 \<Rightarrow> u32 \<Rightarrow> message list \<Rightarrow> nat \<Rightarrow> bool \<Rightarrow> 'c \<Rightarrow> bool"
  assumes clear: "ready nd c \<Longrightarrow> \<exists>c'. cl_clear cl c = (VSCP_ERROR_SUCCESS, c') \<and> clean nd c'"
    and send: "clean nd c \<Longrightarrow> wf_eventEx ex \<Longrightarrow> prompt nd timeout (message_of ex) \<Longrightarrow>
      \<exists>c1 s c2 k. cl_send cl ex c = Some (VSCP_ERROR_SUCCESS, c1) \<and> cl_now cl c1 = (s, c2)
        \<and> pending nd timeout s (map snd (nd (message_of ex))) k False c2"
    and idle: "pending nd timeout s (r # rs) (Suc k) rest c \<Longrightarrow>
      \<exists>rv c'. cl_getcount cl c = (rv, 0, c') \<and> pending nd timeout s (r # rs) (Suc k) rest c'"
    and arrives: "pending nd timeout s (r # rs) 0 rest c \<Longrightarrow> raw_eventEx ex \<Longrightarrow>
      \<exists>n c' ex' c'' k. cl_getcount cl c = (VSCP_ERROR_SUCCESS, n, c') \<and> n \<noteq> 0
        \<and> cl_receive cl ex c' = Some (VSCP_ERROR_SUCCESS, ex', c'') \<and> wf_eventEx ex' \<and> message_of ex' = r
        \<and> pending nd timeout s rs k True c''"
    and now: "pending nd timeout s rs k rest c \<Longrightarrow>
      \<exists>u c'. cl_now cl c = (u, c') \<and> u - s \<le> timeout \<and> pending nd timeout s rs k rest c'"
    and sleep: "pending nd timeout s (r # rs) k rest c \<Longrightarrow> rest \<or> 0 < k \<Longrightarrow>
      \<exists>c' k'. cl_sleep cl c = Some c' \<and> pending nd timeout s (r # rs) k' False c' \<and> (k' < k \<or> k' = 0)"
    and over: "pending nd timeout s [] k rest c \<Longrightarrow> ready nd c"
begin

definition awaiting :: "node \<Rightarrow> u32 \<Rightarrow> u32 \<Rightarrow> message list \<Rightarrow> nat \<Rightarrow> 'c \<Rightarrow> bool" where
  "awaiting nd timeout s rs k c \<longleftrightarrow> (\<exists>rest. pending nd timeout s rs k rest c)"

lemma awaitingI: "pending nd timeout s rs k rest c \<Longrightarrow> awaiting nd timeout s rs k c"
  by (auto simp: awaiting_def)

lemma not_expired:
  assumes "pending nd timeout s rs k rest c"
  shows "\<exists>c'. expired cl timeout s c = (False, c') \<and> pending nd timeout s rs k rest c'"
proof (cases "timeout = 0")
  case False
  obtain u c' where "cl_now cl c = (u, c')" "u - s \<le> timeout" "pending nd timeout s rs k rest c'"
    using now [OF assms] by blast
  then show ?thesis using False by (auto simp: expired_def)
qed (use assms in \<open>simp add: expired_def\<close>)

text \<open>A pass in which nothing has come, and one in which an event has come and another is missing.\<close>

lemma idle_pass:
  assumes "awaiting nd timeout s (r # rs) (Suc k) c"
  shows "\<exists>rv c1 c2 c3 k'. cl_getcount cl c = (rv, 0, c1) \<and> expired cl timeout s c1 = (False, c2)
    \<and> cl_sleep cl c2 = Some c3 \<and> awaiting nd timeout s (r # rs) k' c3 \<and> k' \<le> k"
proof -
  obtain rest where a: "pending nd timeout s (r # rs) (Suc k) rest c" using assms by (auto simp: awaiting_def)
  obtain rv c1 where c1: "cl_getcount cl c = (rv, 0, c1)" "pending nd timeout s (r # rs) (Suc k) rest c1"
    using idle [OF a] by blast
  obtain c2 where c2: "expired cl timeout s c1 = (False, c2)" "pending nd timeout s (r # rs) (Suc k) rest c2"
    using not_expired [OF c1(2)] by blast
  obtain c3 k' where c3: "cl_sleep cl c2 = Some c3" "pending nd timeout s (r # rs) k' False c3" "k' < Suc k \<or> k' = 0"
    using sleep [OF c2(2)] by blast
  moreover have "k' \<le> k" using c3(3) by auto
  ultimately show ?thesis using c1(1) c2(1) awaitingI by blast
qed

lemma received_pass:
  assumes "awaiting nd timeout s (r # rs) 0 c" and "raw_eventEx ex"
  shows "\<exists>n c1 ex' c2 k. cl_getcount cl c = (VSCP_ERROR_SUCCESS, n, c1) \<and> n \<noteq> 0
    \<and> cl_receive cl ex c1 = Some (VSCP_ERROR_SUCCESS, ex', c2) \<and> wf_eventEx ex' \<and> message_of ex' = r
    \<and> awaiting nd timeout s rs k c2
    \<and> (rs \<noteq> [] \<longrightarrow> (\<exists>c3 c4 k'. expired cl timeout s c2 = (False, c3) \<and> cl_sleep cl c3 = Some c4
          \<and> awaiting nd timeout s rs k' c4))"
proof -
  obtain rest where "pending nd timeout s (r # rs) 0 rest c" using assms by (auto simp: awaiting_def)
  from arrives [OF this assms(2)]
  obtain n c1 ex1 c2 k where e: "cl_getcount cl c = (VSCP_ERROR_SUCCESS, n, c1)" "n \<noteq> 0"
      "cl_receive cl ex c1 = Some (VSCP_ERROR_SUCCESS, ex1, c2)" "wf_eventEx ex1" "message_of ex1 = r"
      "pending nd timeout s rs k True c2"
    by blast
  obtain c3 where c3: "expired cl timeout s c2 = (False, c3)" "pending nd timeout s rs k True c3"
    using not_expired [OF e(6)] by blast
  have "\<exists>c4 k'. cl_sleep cl c3 = Some c4 \<and> awaiting nd timeout s rs k' c4" if "rs \<noteq> []"
  proof -
    obtain r' rs' where "rs = r' # rs'" using \<open>rs \<noteq> []\<close> by (cases rs) auto
    then show ?thesis using sleep [of nd timeout s r' rs' k True c3] c3(2) awaitingI by blast
  qed
  then show ?thesis using e c3(1) awaitingI by blast
qed

lemma poll_waits:
  assumes "awaiting nd timeout s (r # rs) (Suc k) c" and "timeout \<noteq> 0"
  shows "\<exists>c' k'. poll cl answer timeout s ex c = poll cl answer timeout s ex c'
    \<and> awaiting nd timeout s (r # rs) k' c' \<and> k' \<le> k"
proof -
  obtain rv c1 c2 c3 k' where p: "cl_getcount cl c = (rv, 0, c1)" "expired cl timeout s c1 = (False, c2)"
      "cl_sleep cl c2 = Some c3" "awaiting nd timeout s (r # rs) k' c3" "k' \<le> k"
    using idle_pass [OF assms(1)] by blast
  have "poll cl answer timeout s ex c = poll cl answer timeout s ex c3"
    by (subst poll.simps) (simp add: p(1-3) assms(2))
  then show ?thesis using p(4,5) by blast
qed

lemma poll_receives:
  assumes "awaiting nd timeout s (r # rs) 0 c" and "raw_eventEx ex" and "timeout \<noteq> 0"
  shows "\<exists>ex' c' k'. wf_eventEx ex' \<and> message_of ex' = r \<and> awaiting nd timeout s rs k' c'
    \<and> (is_answer nick P r \<longrightarrow> poll cl (answers nick P) timeout s ex c = Some (Answered, ex', c'))
    \<and> (\<not> is_answer nick P r \<and> rs \<noteq> [] \<longrightarrow> (\<exists>c'' k''. awaiting nd timeout s rs k'' c''
        \<and> poll cl (answers nick P) timeout s ex c = poll cl (answers nick P) timeout s ex' c''))"
proof -
  obtain n c1 ex1 c2 k where r: "cl_getcount cl c = (VSCP_ERROR_SUCCESS, n, c1)" "n \<noteq> 0"
      "cl_receive cl ex c1 = Some (VSCP_ERROR_SUCCESS, ex1, c2)" "wf_eventEx ex1" "message_of ex1 = r"
      "awaiting nd timeout s rs k c2"
      "rs \<noteq> [] \<longrightarrow> (\<exists>c3 c4 k'. expired cl timeout s c2 = (False, c3) \<and> cl_sleep cl c3 = Some c4 \<and> awaiting nd timeout s rs k' c4)"
    using received_pass [OF assms(1,2)] by blast
  obtain ex2 where a: "answers nick P ex1 = Some (is_answer nick P r, ex2)" "wf_eventEx ex2" "message_of ex2 = r"
    using answers_message [OF r(4), of nick P] r(5) by auto
  have hit: "poll cl (answers nick P) timeout s ex c = Some (Answered, ex2, c2)" if "is_answer nick P r"
    by (subst poll.simps) (simp add: r(1-3) a(1) that)
  have "\<exists>c'' k''. awaiting nd timeout s rs k'' c''
      \<and> poll cl (answers nick P) timeout s ex c = poll cl (answers nick P) timeout s ex2 c''"
    if no: "\<not> is_answer nick P r" and more: "rs \<noteq> []"
  proof -
    obtain c3 c4 k' where c4: "expired cl timeout s c2 = (False, c3)" "cl_sleep cl c3 = Some c4" "awaiting nd timeout s rs k' c4"
      using r(7) more by blast
    have "poll cl (answers nick P) timeout s ex c = poll cl (answers nick P) timeout s ex2 c4"
      by (subst poll.simps) (simp add: r(1-3) a(1) no c4(1,2) assms(3))
    then show ?thesis using c4(3) by blast
  qed
  then show ?thesis using a(2,3) r(6) hit by blast
qed

lemma awaiting_over: "awaiting nd timeout s [] k c \<Longrightarrow> ready nd c"
  using over by (auto simp: awaiting_def)

text \<open>Whatever comes before the answer is skipped, and the answer ends the wait.\<close>

lemma poll_answered:
  "awaiting nd timeout s (us @ [r]) k c \<Longrightarrow> raw_eventEx ex \<Longrightarrow> timeout \<noteq> 0 \<Longrightarrow>
   \<forall>u\<in>set us. \<not> is_answer nick P u \<Longrightarrow> is_answer nick P r \<Longrightarrow>
   \<exists>ex' c'. poll cl (answers nick P) timeout s ex c = Some (Answered, ex', c')
     \<and> wf_eventEx ex' \<and> message_of ex' = r \<and> ready nd c'"
proof (induction us arbitrary: k c ex)
  case Nil
  then show ?case
  proof (induction k arbitrary: c rule: less_induct)
    case (less k)
    show ?case
    proof (cases k)
      case 0
      then show ?thesis using poll_receives [of nd timeout s r "[]" c ex nick P] less.prems awaiting_over by auto
    next
      case (Suc k0)
      obtain c' k' where "poll cl (answers nick P) timeout s ex c = poll cl (answers nick P) timeout s ex c'"
          "awaiting nd timeout s [r] k' c'" "k' \<le> k0"
        using poll_waits [of nd timeout s r "[]" k0 c "answers nick P" ex] less.prems Suc by auto
      then show ?thesis using less.IH [of k' c'] less.prems Suc by simp
    qed
  qed
next
  case (Cons u us)
  note hyps = Cons.prems
  note IH = Cons.IH
  show ?case
    using hyps(1)
  proof (induction k arbitrary: c rule: less_induct)
    case (less k)
    show ?case
    proof (cases k)
      case 0
      then obtain ex' c'' k'' where "wf_eventEx ex'" "awaiting nd timeout s (us @ [r]) k'' c''"
          "poll cl (answers nick P) timeout s ex c = poll cl (answers nick P) timeout s ex' c''"
        using poll_receives [of nd timeout s u "us @ [r]" c ex nick P] less.prems hyps by auto
      then show ?thesis using IH [of k'' c'' ex'] hyps wf_eventEx_raw by simp
    next
      case (Suc k0)
      obtain c' k' where "poll cl (answers nick P) timeout s ex c = poll cl (answers nick P) timeout s ex c'"
          "awaiting nd timeout s ((u # us) @ [r]) k' c'" "k' \<le> k0"
        using poll_waits [of nd timeout s u "us @ [r]" k0 c "answers nick P" ex] less.prems hyps Suc by auto
      then show ?thesis using less.IH [of k' c'] Suc by simp
    qed
  qed
qed

lemma transact_answered:
  assumes "ready nd c" and "wf_eventEx ex" and "prompt nd timeout (message_of ex)"
    and "map snd (nd (message_of ex)) = us @ [r]" and "\<forall>u\<in>set us. \<not> is_answer nick P u" and "is_answer nick P r"
  shows "\<exists>ex' c'. transact cl (answers nick P) timeout ex c = Some (Answered, ex', c')
     \<and> wf_eventEx ex' \<and> message_of ex' = r \<and> ready nd c'"
proof -
  obtain c1 where c1: "cl_clear cl c = (VSCP_ERROR_SUCCESS, c1)" "clean nd c1" using clear [OF assms(1)] by blast
  obtain c2 s c3 k where c2: "cl_send cl ex c1 = Some (VSCP_ERROR_SUCCESS, c2)" "cl_now cl c2 = (s, c3)"
      "awaiting nd timeout s (us @ [r]) k c3"
    using send [OF c1(2) assms(2,3)] assms(4) awaitingI by fastforce
  have t: "timeout \<noteq> 0" using assms(3) by (simp add: prompt_def)
  have "transact cl (answers nick P) timeout ex c = poll cl (answers nick P) timeout s ex c3"
    by (simp add: transact_def c1(1) c2(1,2))
  then show ?thesis using poll_answered [OF c2(3) wf_eventEx_raw [OF assms(2)] t assms(5,6)] by simp
qed

end

section \<open>Registers over such a client\<close>

definition page_answer :: "u16 \<Rightarrow> u8 list \<Rightarrow> message" where
  "page_answer page d = (VSCP_CLASS1_PROTOCOL, VSCP_TYPE_PROTOCOL_EXTENDED_PAGE_RESPONSE,
     hd d # [hi8 page, lo8 page] @ tl d)"

definition read_message :: "u8 list \<Rightarrow> u8 \<Rightarrow> u16 \<Rightarrow> u8 \<Rightarrow> u8 \<Rightarrow> message" where
  "read_message guidInterface nickname page offset cnt =
     (protocol_class guidInterface, VSCP_TYPE_PROTOCOL_EXTENDED_PAGE_READ,
      prefix_of guidInterface @ [nickname, hi8 page, lo8 page, offset, cnt])"

definition write_message :: "u8 list \<Rightarrow> u8 \<Rightarrow> u16 \<Rightarrow> u8 \<Rightarrow> u8 list \<Rightarrow> message" where
  "write_message guidInterface nickname page offset vs =
     (protocol_class guidInterface, VSCP_TYPE_PROTOCOL_EXTENDED_PAGE_WRITE,
      prefix_of guidInterface @ [nickname, hi8 page, lo8 page, offset] @ vs)"

lemma message_data:
  assumes "wf_eventEx ex" and "message_of ex = page_answer page (i # q # vs)"
  shows "rd_block (xdata ex) 0 (unat (xsizeData ex)) = Some (i # hi8 page # lo8 page # q # vs)"
    and "vs = v # rest \<Longrightarrow> rd (xdata ex) 4 = Some v"
proof -
  have m: "message_of ex = (VSCP_CLASS1_PROTOCOL, VSCP_TYPE_PROTOCOL_EXTENDED_PAGE_RESPONSE, i # hi8 page # lo8 page # q # vs)"
    using assms(2) by (simp add: page_answer_def)
  note l = length_message [OF assms(1) m]
  show "rd_block (xdata ex) 0 (unat (xsizeData ex)) = Some (i # hi8 page # lo8 page # q # vs)" by (rule l(3))
  assume v: "vs = v # rest"
  have d: "take (unat (xsizeData ex)) (xdata ex) = i # hi8 page # lo8 page # q # v # rest" "4 < unat (xsizeData ex)"
    using m l(1) v by (simp_all add: message_of_def)
  then have "xdata ex ! 4 = (i # hi8 page # lo8 page # q # v # rest) ! 4" by (metis nth_take)
  moreover have "length (xdata ex) = 512" using assms(1) by (simp add: wf_eventEx_def VSCP_LEVEL2_MAXDATA_def)
  ultimately show "rd (xdata ex) 4 = Some v" by (simp add: rd_def)
qed

lemma confirm_all:
  "distinct (map fst (xs @ ys)) \<Longrightarrow> map fst xs = run_keys r (length xs) \<Longrightarrow> confirm r (map snd xs) (xs @ ys) = ys"
proof (induction xs arbitrary: r)
  case (Cons x xs)
  obtain k v where x: "x = (k, v)" by (cases x)
  have k: "k = r" "map fst xs = run_keys (r + 1) (length xs)" using Cons.prems(2) x by (simp_all add: run_keys_Suc)
  have "k \<notin> set (map fst (xs @ ys))" using Cons.prems(1) unfolding x by simp
  then have "r \<notin> fst ` set (xs @ ys)" unfolding set_map k(1) .
  then have "filter (\<lambda>(j, _). j \<noteq> r) (xs @ ys) = xs @ ys" by (intro filter_True) force
  then have "omap_erase r ((x # xs) @ ys) = xs @ ys" using x k(1) by (simp add: omap_erase_def)
  moreover have "omap_at 0 r ((x # xs) @ ys) = (v, (x # xs) @ ys)" using x k by (simp add: omap_at_def)
  ultimately show ?case using Cons.IH [of "r + 1"] Cons.prems(1) k(2) by (simp add: x)
qed simp

lemma frame_values_found:
  "distinct (map fst m) \<Longrightarrow> set xs \<subseteq> set m \<Longrightarrow> map fst xs = run_keys r (length xs) \<Longrightarrow>
   frame_values r (length xs) m = (map snd xs, m)"
proof (induction xs arbitrary: r)
  case (Cons x xs)
  obtain k v where x: "x = (k, v)" by (cases x)
  have k: "k = r" "map fst xs = run_keys (r + 1) (length xs)" using Cons.prems(3) x by (simp_all add: run_keys_Suc)
  have "map_of m r = Some v" using Cons.prems(1,2) x k by simp
  then show ?case using Cons.IH [of "r + 1"] Cons.prems(1,2) k(2) by (simp add: x omap_at_def)
qed simp

context answering_client
begin

lemma register_is_read:
  assumes "ready nd c" and "raw_eventEx ex" and "length guidInterface = 16" and "cguid_getNickname guidNode \<noteq> 0"
    and "prompt nd timeout (read_message guidInterface (cguid_getNickname guidNode) page offset 1)"
    and "map snd (nd (read_message guidInterface (cguid_getNickname guidNode) page offset 1))
      = us @ [page_answer page (0 # offset # v # vs)]"
    and "\<forall>u\<in>set us. \<not> is_answer (cguid_getNickname guidNode) (\<lambda>h. take 4 h = [0, hi8 page, lo8 page, offset]) u"
  shows "\<exists>c'. vscp_readLevel1Register cl ex guidNode guidInterface page offset val timeout c = Some (VSCP_ERROR_SUCCESS, v, c')
    \<and> ready nd c'"
proof -
  let ?nick = "cguid_getNickname guidNode"
  obtain ex1 where ex1: "page_request guidInterface VSCP_TYPE_PROTOCOL_EXTENDED_PAGE_READ
        [?nick, hi8 page, lo8 page, offset, 1] ex = Some ex1" "wf_eventEx ex1"
      "message_of ex1 = read_message guidInterface ?nick page offset 1"
    using page_request_message [OF assms(2,3), of "[?nick, hi8 page, lo8 page, offset, 1]"] by (auto simp: read_message_def)
  have hit: "is_answer ?nick (\<lambda>h. take 4 h = [0, hi8 page, lo8 page, offset]) (page_answer page (0 # offset # v # vs))"
    using assms(4) by (simp add: is_answer_def page_answer_def)
  obtain ex2 c' where t: "transact cl (answers ?nick (\<lambda>h. take 4 h = [0, hi8 page, lo8 page, offset])) timeout ex1 c
        = Some (Answered, ex2, c')" "wf_eventEx ex2" "message_of ex2 = page_answer page (0 # offset # v # vs)" "ready nd c'"
    using transact_answered [OF assms(1) ex1(2) _ _ assms(7) hit, of timeout] assms(5,6) unfolding ex1(3) by blast
  have "rd (xdata ex2) 4 = Some v" using message_data(2) [OF t(2,3)] by blast
  then show ?thesis using t(1,4) ex1(1) by (simp add: vscp_readLevel1Register_def Let_def)
qed

lemma register_is_written:
  assumes "ready nd c" and "raw_eventEx ex" and "length guidInterface = 16" and "cguid_getNickname guidNode \<noteq> 0"
    and "prompt nd timeout (write_message guidInterface (cguid_getNickname guidNode) page offset [v])"
    and "map snd (nd (write_message guidInterface (cguid_getNickname guidNode) page offset [v]))
      = us @ [page_answer page (0 # offset # v # vs)]"
    and "\<forall>u\<in>set us. \<not> is_answer (cguid_getNickname guidNode) (\<lambda>h. h = [0, hi8 page, lo8 page, offset, v]) u"
  shows "\<exists>c'. vscp_writeLevel1Register cl ex guidNode guidInterface page offset v timeout c = Some (VSCP_ERROR_SUCCESS, c')
    \<and> ready nd c'"
proof -
  let ?nick = "cguid_getNickname guidNode"
  obtain ex1 where ex1: "page_request guidInterface VSCP_TYPE_PROTOCOL_EXTENDED_PAGE_WRITE
        [?nick, hi8 page, lo8 page, offset, v] ex = Some ex1" "wf_eventEx ex1"
      "message_of ex1 = write_message guidInterface ?nick page offset [v]"
    using page_request_message [OF assms(2,3), of "[?nick, hi8 page, lo8 page, offset, v]"] by (auto simp: write_message_def)
  have hit: "is_answer ?nick (\<lambda>h. h = [0, hi8 page, lo8 page, offset, v]) (page_answer page (0 # offset # v # vs))"
    using assms(4) by (simp add: is_answer_def page_answer_def)
  obtain ex2 c' where t: "transact cl (answers ?nick (\<lambda>h. h = [0, hi8 page, lo8 page, offset, v])) timeout ex1 c
        = Some (Answered, ex2, c')" "ready nd c'"
    using transact_answered [OF assms(1) ex1(2) _ _ assms(7) hit, of timeout] assms(5,6) unfolding ex1(3) by blast
  then show ?thesis using ex1(1) by (simp add: vscp_writeLevel1Register_def Let_def)
qed

text \<open>When each frame is confirmed, the block is written and nothing is left to write.\<close>

lemma frames_are_written:
  assumes gi: "length guidInterface = 16" and nick: "nickname \<noteq> 0"
    and node: "\<And>r vs. length vs \<le> 4 \<Longrightarrow> prompt nd timeout (write_message guidInterface nickname page r vs)"
      "\<And>r vs. length vs \<le> 4 \<Longrightarrow>
        map snd (nd (write_message guidInterface nickname page r vs)) = [page_answer page (0 # r # vs)]"
  shows "ready nd c \<Longrightarrow> raw_eventEx ex \<Longrightarrow> distinct (map fst regs) \<Longrightarrow>
    concat (map (\<lambda>(r, n). run_keys r n) frames) = map fst regs \<Longrightarrow> \<forall>(r, n)\<in>set frames. 0 < n \<and> n \<le> 4 \<Longrightarrow>
    frames \<noteq> [] \<Longrightarrow>
    \<exists>c'. write_block_loop cl nickname guidInterface page timeout frames rv ex regs c = Some (VSCP_ERROR_SUCCESS, [], c')
      \<and> ready nd c'"
proof (induction frames arbitrary: rv ex regs c)
  case (Cons f frames)
  obtain r n where f: "f = (r, n)" by (cases f)
  have n: "0 < n" "n \<le> 4" using Cons.prems(5) f by simp_all
  define xs ys where "xs = take n regs" and "ys = drop n regs"
  have keys: "run_keys r n @ concat (map (\<lambda>(r, n). run_keys r n) frames) = map fst regs" using Cons.prems(4) f by simp
  then have len: "n \<le> length regs" by (metis length_append length_map length_run_keys le_add1)
  have regs: "regs = xs @ ys" "length xs = n" using len by (simp_all add: xs_def ys_def)
  have fst: "map fst xs = run_keys r (length xs)" "map fst ys = concat (map (\<lambda>(r, n). run_keys r n) frames)"
    using keys regs by (simp_all add: append_eq_append_conv)
  let ?vs = "map snd xs"
  have vals: "frame_values r n regs = (?vs, regs)"
    using frame_values_found [of regs xs r] Cons.prems(3) regs fst(1) by simp
  obtain ex1 where ex1: "page_request guidInterface VSCP_TYPE_PROTOCOL_EXTENDED_PAGE_WRITE
        (nickname # hi8 page # lo8 page # r # ?vs) ex = Some ex1" "wf_eventEx ex1"
      "message_of ex1 = write_message guidInterface nickname page r ?vs"
    using page_request_message [OF Cons.prems(2) gi, of "nickname # hi8 page # lo8 page # r # ?vs"] regs(2) n(2)
    by (auto simp: write_message_def)
  have hit: "is_answer nickname (\<lambda>h. take 3 h = [0, hi8 page, lo8 page]) (page_answer page (0 # r # ?vs))"
    using nick n(1) regs(2) by (simp add: is_answer_def page_answer_def)
  obtain ex2 c2 where t: "transact cl (answers nickname (\<lambda>h. take 3 h = [0, hi8 page, lo8 page])) timeout ex1 c
        = Some (Answered, ex2, c2)" "wf_eventEx ex2" "message_of ex2 = page_answer page (0 # r # ?vs)" "ready nd c2"
    using transact_answered [OF Cons.prems(1) ex1(2) _ _ _ hit, of timeout "[]"] node [of ?vs r] regs(2) n(2)
    unfolding ex1(3) by auto
  have c: "confirm r ?vs regs = ys"
    using confirm_all [of xs ys r] Cons.prems(3) regs fst(1) by simp
  have run: "write_block_loop cl nickname guidInterface page timeout (f # frames) rv ex regs c
      = (if ys = [] then Some (VSCP_ERROR_SUCCESS, ys, c2)
         else write_block_loop cl nickname guidInterface page timeout frames VSCP_ERROR_SUCCESS ex2 ys c2)"
    by (simp add: f vals ex1(1) t(1) message_data(1) [OF t(2,3)] c rd_def)
  show ?case
  proof (cases "ys = []")
    case False
    then have "frames \<noteq> []" using fst(2) by auto
    moreover have "distinct (map fst ys)" using Cons.prems(3) regs by simp
    ultimately show ?thesis
      unfolding run using False Cons.IH [OF t(4) wf_eventEx_raw [OF t(2)] _ fst(2) [symmetric]] Cons.prems(5) by simp
  qed (use run t(4) in simp)
qed simp

lemma block_is_written:
  assumes "ready nd c" and "raw_eventEx ex" and "length guidInterface = 16" and "cguid_getNickname guidNode \<noteq> 0"
    and "\<And>r vs. length vs \<le> 4 \<Longrightarrow>
      prompt nd timeout (write_message guidInterface (cguid_getNickname guidNode) page r vs)"
    and "\<And>r vs. length vs \<le> 4 \<Longrightarrow>
      map snd (nd (write_message guidInterface (cguid_getNickname guidNode) page r vs)) = [page_answer page (0 # r # vs)]"
    and "ordered regs" and "regs \<noteq> []" and "length regs < 256"
  shows "\<exists>c'. vscp_writeLevel1RegisterBlock cl ex guidNode guidInterface page regs timeout c = Some (VSCP_ERROR_SUCCESS, [], c')
    \<and> ready nd c'"
proof -
  note cover = block_frames_cover [OF assms(7,9)]
  have "block_frames regs \<noteq> []" using cover(1) assms(8) by auto
  then show ?thesis
    unfolding vscp_writeLevel1RegisterBlock_def
    using frames_are_written [OF assms(3-6) assms(1,2) ordered_distinct [OF assms(7)] cover] by blast
qed

end

section \<open>A block that is read in any order\<close>

definition put_all :: "('k::linorder \<times> 'v) list \<Rightarrow> ('k, 'v) omap \<Rightarrow> ('k, 'v) omap" where
  "put_all kvs m = foldl (\<lambda>m (k, v). omap_put k v m) m kvs"

lemma put_all_simps [simp]: "put_all [] m = m" "put_all (kvs @ kvs') m = put_all kvs' (put_all kvs m)"
  by (simp_all add: put_all_def)

lemma put_all_map:
  "ordered m \<Longrightarrow> distinct (map fst kvs) \<Longrightarrow> ordered (put_all kvs m) \<and> map_of (put_all kvs m) = map_of m ++ map_of kvs"
proof (induction kvs arbitrary: m)
  case (Cons kv kvs)
  obtain k v where kv: "kv = (k, v)" by (cases kv)
  have "map_of kvs k = None" using Cons.prems(2) kv by (simp add: map_of_eq_None_iff)
  then have "(map_of m)(k \<mapsto> v) ++ map_of kvs = map_of m ++ map_of (kv # kvs)"
    by (auto simp: map_add_def fun_eq_iff kv split: option.split)
  moreover have "ordered (put_all kvs (omap_put k v m))
      \<and> map_of (put_all kvs (omap_put k v m)) = map_of (omap_put k v m) ++ map_of kvs"
    using Cons.prems kv by (intro Cons.IH) simp_all
  moreover have "map_of (omap_put k v m) = (map_of m)(k \<mapsto> v)" by (rule map_of_put [OF Cons.prems(1)])
  moreover have "put_all (kv # kvs) m = put_all kvs (omap_put k v m)" by (simp add: put_all_def kv)
  ultimately show ?case by (simp only:)
qed simp

text \<open>The registers of a block with their values, and those of one of its frames.\<close>

definition block_regs :: "u8 \<Rightarrow> u8 list \<Rightarrow> (u8 \<times> u8) list" where
  "block_regs offset vs = zip (run_keys offset (length vs)) vs"

definition frame_regs :: "u8 \<Rightarrow> u8 list \<Rightarrow> nat \<Rightarrow> (u8 \<times> u8) list" where
  "frame_regs offset vs i = take 4 (drop (4 * i) (block_regs offset vs))"

definition frame_message :: "u16 \<Rightarrow> u8 \<Rightarrow> u8 list \<Rightarrow> nat \<Rightarrow> message" where
  "frame_message page offset vs i = page_answer page (of_nat i # (offset + of_nat (4 * i)) # take 4 (drop (4 * i) vs))"

lemma run_keys_part: "take k (drop i (run_keys r n)) = run_keys (r + of_nat i) (min k (n - i))"
  by (rule nth_equalityI) (auto simp: run_keys_def ac_simps)

lemma frame_regs_zip:
  "frame_regs offset vs i = zip (run_keys (offset + of_nat (4 * i)) (length (take 4 (drop (4 * i) vs)))) (take 4 (drop (4 * i) vs))"
  by (simp add: frame_regs_def block_regs_def take_zip drop_zip run_keys_part min.commute del: of_nat_mult)

lemma put_enumerated:
  "foldl (\<lambda>m (i, v). omap_put (reg + of_nat i) v m) m (enumerate 0 bs) = put_all (zip (run_keys reg (length bs)) bs) m"
proof -
  have "zip (run_keys reg (length bs)) bs = map (\<lambda>(i, v). (reg + of_nat i, v)) (enumerate 0 bs)"
    by (rule nth_equalityI) (simp_all add: run_keys_def nth_enumerate_eq)
  then show ?thesis by (simp add: put_all_def foldl_map case_prod_unfold)
qed

lemma distinct_run_keys:
  assumes "n \<le> 256" shows "distinct (run_keys r n)"
proof -
  have "inj_on (\<lambda>j. r + of_nat j) {0..<n}"
  proof (rule inj_onI)
    fix i j assume ij: "i \<in> {0..<n}" "j \<in> {0..<n}" "r + of_nat i = r + of_nat j"
    then have "(of_nat i :: u8) = of_nat j" by simp
    then show "i = j" using ij(1,2) assms by (metis atLeastLessThan_iff less_le_trans unat_of_nat_u8)
  qed
  then show ?thesis by (simp add: run_keys_def distinct_map)
qed

lemma frame_set_upt: "frame_set cnt = [0..<length (frame_set cnt)]" "unat cnt \<le> 4 * length (frame_set cnt)"
  "i < length (frame_set cnt) \<Longrightarrow> 4 * i < unat cnt"
proof -
  show "frame_set cnt = [0..<length (frame_set cnt)]" by (simp add: frame_set_def)
  show "unat cnt \<le> 4 * length (frame_set cnt)" unfolding frame_set_def by (simp, arith)
  assume "i < length (frame_set cnt)"
  then show "4 * i < unat cnt" unfolding frame_set_def by (cases "unat cnt mod 4 = 0") (simp_all, arith+)
qed

lemma all_frames:
  assumes "length vs = unat cnt" and "mset js = mset (frame_set cnt)"
  shows "mset (concat (map (frame_regs offset vs) js)) = mset (block_regs offset vs)"
proof -
  have parts: "concat (map (\<lambda>i. take 4 (drop (4 * i) xs)) [0..<k]) = take (4 * k) xs" for k and xs :: "(u8 \<times> u8) list"
  proof (induction k)
    case (Suc k)
    have "take (4 * k + 4) xs = take (4 * k) xs @ take 4 (drop (4 * k) xs)" by (rule take_add)
    then show ?case using Suc by (simp add: add.commute)
  qed simp
  have "mset (concat (map (frame_regs offset vs) js)) = mset (concat (map (frame_regs offset vs) (frame_set cnt)))"
    unfolding mset_concat map_map using assms(2)
    by (metis (no_types, lifting) mset_map sum_mset_sum_list)
  also have "concat (map (frame_regs offset vs) (frame_set cnt)) = block_regs offset vs"
    using parts [of "block_regs offset vs" "length (frame_set cnt)"] frame_set_upt(1,2) [of cnt] assms(1)
    by (simp add: frame_regs_def [abs_def] block_regs_def)
  finally show ?thesis .
qed

definition received_block :: "u8 \<Rightarrow> u8 \<Rightarrow> u8 list \<Rightarrow> (u8, u8) omap \<Rightarrow> nat list \<Rightarrow> block" where
  "received_block cnt offset vs vals js =
     \<lparr>b_values = put_all (concat (map (frame_regs offset vs) js)) vals,
      b_frameset = filter (\<lambda>i. i \<notin> set js) (frame_set cnt),
      b_rcvcnt = of_nat (length (concat (map (frame_regs offset vs) js)))\<rparr>"

lemma take_frame_message:
  assumes "wf_eventEx ex" and "message_of ex = frame_message page offset vs i" and "i < 64"
  shows "take_frame ex (received_block cnt offset vs vals js) = Some (received_block cnt offset vs vals (js @ [i]))"
proof -
  have "rd_block (xdata ex) 0 (unat (xsizeData ex))
      = Some (of_nat i # hi8 page # lo8 page # (offset + of_nat (4 * i)) # take 4 (drop (4 * i) vs))"
    by (rule message_data(1) [OF assms(1)]) (use assms(2) in \<open>simp add: frame_message_def\<close>)
  moreover have "unat (of_nat i :: u8) = i" using assms(3) by (intro unat_of_nat_u8) simp
  ultimately show ?thesis
    by (simp add: take_frame_def rd_def received_block_def put_enumerated frame_regs_zip ac_simps
        del: of_nat_mult of_nat_add cong: filter_cong)
      (simp add: conj_commute)
qed

lemma block_answers_frame:
  assumes "wf_eventEx ex" and "message_of ex = frame_message page offset vs i" and "nick \<noteq> 0" and "4 * i < length vs"
  shows "\<exists>ex'. block_answers nick page ex = Some (True, ex') \<and> wf_eventEx ex' \<and> message_of ex' = message_of ex"
proof -
  have "is_answer nick (\<lambda>h. h ! 1 = hi8 page \<and> h ! 2 = lo8 page) (message_of ex)"
    using assms(3,4) unfolding assms(2) by (simp add: is_answer_def frame_message_def page_answer_def)
  then show ?thesis
    using answers_message [OF assms(1), of nick "\<lambda>h. h ! 1 = hi8 page \<and> h ! 2 = lo8 page"]
    by (simp add: block_answers_def)
qed

context answering_client
begin

lemma block_waits:
  assumes "awaiting nd timeout s (r # rs) (Suc k) c"
  shows "\<exists>c' k'. read_block_loop cl answer cnt False timeout s u b ex c = read_block_loop cl answer cnt False timeout s u b ex c'
    \<and> awaiting nd timeout s (r # rs) k' c' \<and> k' \<le> k"
proof -
  obtain rv c1 c2 c3 k' where p: "cl_getcount cl c = (rv, 0, c1)" "expired cl timeout s c1 = (False, c2)"
      "cl_sleep cl c2 = Some c3" "awaiting nd timeout s (r # rs) k' c3" "k' \<le> k"
    using idle_pass [OF assms(1)] by blast
  have "read_block_loop cl answer cnt False timeout s u b ex c = read_block_loop cl answer cnt False timeout s u b ex c3"
    by (subst read_block_loop.simps) (simp add: p(1-3) report_progress_def)
  then show ?thesis using p(4,5) by blast
qed

lemma block_takes:
  assumes "awaiting nd timeout s (r # rs) 0 c" and "raw_eventEx ex" and "nick \<noteq> 0"
    and r: "r = frame_message page offset vs i" "i < 64" "4 * i < length vs"
    and b: "b = received_block cnt offset vs vals js" "b' = received_block cnt offset vs vals (js @ [i])"
  shows "\<exists>ex' c' k'. wf_eventEx ex' \<and> awaiting nd timeout s rs k' c'
    \<and> (b_rcvcnt b' = cnt \<and> b_frameset b' = [] \<longrightarrow>
        read_block_loop cl (block_answers nick page) cnt False timeout s u b ex c = Some (VSCP_ERROR_SUCCESS, b_values b', c'))
    \<and> (\<not> (b_rcvcnt b' = cnt \<and> b_frameset b' = []) \<and> rs \<noteq> [] \<longrightarrow> (\<exists>c'' k''. awaiting nd timeout s rs k'' c''
        \<and> read_block_loop cl (block_answers nick page) cnt False timeout s u b ex c
          = read_block_loop cl (block_answers nick page) cnt False timeout s u b' ex' c''))"
proof -
  let ?loop = "read_block_loop cl (block_answers nick page) cnt False timeout s u"
  obtain n c1 ex1 c2 k where e: "cl_getcount cl c = (VSCP_ERROR_SUCCESS, n, c1)" "n \<noteq> 0"
      "cl_receive cl ex c1 = Some (VSCP_ERROR_SUCCESS, ex1, c2)" "wf_eventEx ex1" "message_of ex1 = r"
      "awaiting nd timeout s rs k c2"
      "rs \<noteq> [] \<longrightarrow> (\<exists>c3 c4 k'. expired cl timeout s c2 = (False, c3) \<and> cl_sleep cl c3 = Some c4 \<and> awaiting nd timeout s rs k' c4)"
    using received_pass [OF assms(1,2)] by blast
  obtain ex2 where a: "block_answers nick page ex1 = Some (True, ex2)" "wf_eventEx ex2" "message_of ex2 = r"
    using block_answers_frame [OF e(4) _ assms(3) r(3)] e(5) r(1) by auto
  have t: "take_frame ex2 b = Some b'"
    unfolding b by (rule take_frame_message [OF a(2) _ r(2)]) (simp add: a(3) r(1))
  have stop: "?loop b ex c = Some (VSCP_ERROR_SUCCESS, b_values b', c2)" if "b_rcvcnt b' = cnt \<and> b_frameset b' = []"
    by (subst read_block_loop.simps) (simp add: e(1-3) a(1) t that)
  have "\<exists>c'' k''. awaiting nd timeout s rs k'' c'' \<and> ?loop b ex c = ?loop b' ex2 c''"
    if no: "\<not> (b_rcvcnt b' = cnt \<and> b_frameset b' = [])" and more: "rs \<noteq> []"
  proof -
    obtain c3 c4 k' where c4: "expired cl timeout s c2 = (False, c3)" "cl_sleep cl c3 = Some c4" "awaiting nd timeout s rs k' c4"
      using e(7) more by blast
    have "?loop b ex c = ?loop b' ex2 c4"
      by (subst read_block_loop.simps) (use no in \<open>auto simp: e(1-3) a(1) t c4(1,2) report_progress_def\<close>)
    then show ?thesis using c4(3) by blast
  qed
  then show ?thesis using a(2) e(6) stop by blast
qed

lemma block_is_complete:
  assumes "length vs = unat cnt"
  shows "awaiting nd timeout s (map (frame_message page offset vs) is) k c \<Longrightarrow> raw_eventEx ex \<Longrightarrow> nick \<noteq> 0 \<Longrightarrow> is \<noteq> [] \<Longrightarrow>
    mset (js @ is) = mset (frame_set cnt) \<Longrightarrow> b = received_block cnt offset vs vals js \<Longrightarrow>
    \<exists>c'. read_block_loop cl (block_answers nick page) cnt False timeout s u b ex c
        = Some (VSCP_ERROR_SUCCESS, put_all (concat (map (frame_regs offset vs) (js @ is))) vals, c') \<and> ready nd c'"
proof (induction "is" arbitrary: js k c ex b)
  case (Cons i "is")
  note hyps = Cons.prems
  note IH = Cons.IH
  let ?b = "received_block cnt offset vs vals (js @ [i])"
  have set_eq: "set (js @ i # is) = set (frame_set cnt)" using hyps(5) by (rule mset_eq_setD)
  then have "i \<in> set (frame_set cnt)" by auto
  then have "i < length (frame_set cnt)" using frame_set_upt(1) [of cnt] by (metis atLeastLessThan_iff set_upt)
  then have i4: "4 * i < unat cnt" by (rule frame_set_upt(3))
  moreover have "unat cnt < 256" using unsigned_less [of cnt] by simp
  ultimately have i: "4 * i < length vs" "i < 64" using assms by simp_all
  have last: "b_rcvcnt ?b = cnt \<and> b_frameset ?b = []" if "is = []"
  proof -
    have m: "mset (js @ [i]) = mset (frame_set cnt)" using hyps(5) that by simp
    have "length (concat (map (frame_regs offset vs) (js @ [i]))) = unat cnt"
      using arg_cong [OF all_frames [OF assms m, of offset], of size] assms by (simp add: block_regs_def del: map_append)
    moreover have "filter (\<lambda>j. j \<notin> set (js @ [i])) (frame_set cnt) = []"
      using mset_eq_setD [OF m] by (simp add: filter_empty_conv del: set_append)
    ultimately show ?thesis by (simp add: received_block_def del: map_append set_append)
  qed
  have inner: "b_frameset ?b \<noteq> []" if "is = i' # is'" for i' is'
  proof -
    have "distinct (js @ i # is)" using hyps(5) frame_set_upt(1) [of cnt] by (metis distinct_upt mset_eq_imp_distinct_iff)
    then have "i' \<notin> set (js @ [i])" "i' \<in> set (frame_set cnt)" using that set_eq by auto
    then show ?thesis by (auto simp: received_block_def filter_empty_conv)
  qed
  show ?case
    using hyps(1)
  proof (induction k arbitrary: c rule: less_induct)
    case (less k)
    show ?case
    proof (cases k)
      case (Suc k0)
      obtain c' k' where "read_block_loop cl (block_answers nick page) cnt False timeout s u b ex c
            = read_block_loop cl (block_answers nick page) cnt False timeout s u b ex c'"
          "awaiting nd timeout s (map (frame_message page offset vs) (i # is)) k' c'" "k' \<le> k0"
        using block_waits [of nd timeout s "frame_message page offset vs i" "map (frame_message page offset vs) is" k0 c
            "block_answers nick page" cnt u b ex] less.prems Suc by auto
      then show ?thesis using less.IH [of k' c'] Suc by simp
    next
      case 0
      have p: "awaiting nd timeout s (frame_message page offset vs i # map (frame_message page offset vs) is) 0 c"
        using less.prems 0 by simp
      show ?thesis
      proof (cases "is")
        case Nil
        obtain c' k' where "read_block_loop cl (block_answers nick page) cnt False timeout s u b ex c
              = Some (VSCP_ERROR_SUCCESS, b_values ?b, c')" "awaiting nd timeout s [] k' c'"
          using block_takes [OF p hyps(2,3) refl i(2,1) hyps(6) refl, of u] last [OF Nil] Nil by auto
        then show ?thesis using awaiting_over Nil by (auto simp: received_block_def)
      next
        case (Cons i' is')
        obtain ex' c'' k'' where n: "wf_eventEx ex'" "awaiting nd timeout s (map (frame_message page offset vs) is) k'' c''"
            "read_block_loop cl (block_answers nick page) cnt False timeout s u b ex c
             = read_block_loop cl (block_answers nick page) cnt False timeout s u ?b ex' c''"
          using block_takes [OF p hyps(2,3) refl i(2,1) hyps(6) refl, of u] inner [OF Cons] Cons by auto
        show ?thesis
          using IH [OF n(2) wf_eventEx_raw [OF n(1)] hyps(3) _ _ refl, of "js @ [i]"] n(3) hyps(5) Cons by simp
      qed
    qed
  qed
qed simp

lemma block_is_read:
  assumes "ready nd c" and "raw_eventEx ex" and "length guidInterface = 16" and "cguid_getNickname guidNode \<noteq> 0"
    and "prompt nd timeout (read_message guidInterface (cguid_getNickname guidNode) page offset cnt)"
    and "map snd (nd (read_message guidInterface (cguid_getNickname guidNode) page offset cnt))
      = map (frame_message page offset vs) is"
    and "mset is = mset (frame_set cnt)" and "length vs = unat cnt" and "vs \<noteq> []" and "ordered vals"
  shows "\<exists>c' regs. vscp_readLevel1RegisterBlock cl ex guidNode guidInterface page offset cnt vals False timeout c
      = Some (VSCP_ERROR_SUCCESS, regs, c') \<and> ready nd c'
    \<and> ordered regs \<and> map_of regs = map_of vals ++ map_of (block_regs offset vs)"
proof -
  let ?nick = "cguid_getNickname guidNode"
  obtain ex1 where ex1: "page_request guidInterface VSCP_TYPE_PROTOCOL_EXTENDED_PAGE_READ
        [?nick, hi8 page, lo8 page, offset, cnt] ex = Some ex1" "wf_eventEx ex1"
      "message_of ex1 = read_message guidInterface ?nick page offset cnt"
    using page_request_message [OF assms(2,3), of "[?nick, hi8 page, lo8 page, offset, cnt]"] by (auto simp: read_message_def)
  obtain c1 where c1: "cl_clear cl c = (VSCP_ERROR_SUCCESS, c1)" "clean nd c1" using clear [OF assms(1)] by blast
  obtain c2 s c3 k where c2: "cl_send cl ex1 c1 = Some (VSCP_ERROR_SUCCESS, c2)" "cl_now cl c2 = (s, c3)"
      "awaiting nd timeout s (map (frame_message page offset vs) is) k c3"
    using send [OF c1(2) ex1(2)] assms(5,6) awaitingI unfolding ex1(3) by metis
  have "4 * length (frame_set cnt) \<ge> length vs" using frame_set_upt(2) assms(8) by simp
  then have "frame_set cnt \<noteq> []" using assms(9) by auto
  then have ne: "is \<noteq> []" using assms(7) by auto
  obtain s' c4 where c4: "cl_now cl c3 = (s', c4)" "awaiting nd timeout s (map (frame_message page offset vs) is) k c4"
    using c2(3) now awaitingI unfolding awaiting_def by blast
  let ?regs = "put_all (concat (map (frame_regs offset vs) is)) vals"
  have "\<lparr>b_values = vals, b_frameset = frame_set cnt, b_rcvcnt = 0\<rparr> = received_block cnt offset vs vals []"
    by (simp add: received_block_def)
  then obtain c' where run: "vscp_readLevel1RegisterBlock cl ex guidNode guidInterface page offset cnt vals False timeout c
      = Some (VSCP_ERROR_SUCCESS, ?regs, c')" "ready nd c'"
    using block_is_complete [OF assms(8) c4(2) wf_eventEx_raw [OF ex1(2)] assms(4) ne _ refl, where js = "[]" and vals = vals and u = s'] assms(7)
    by (auto simp: vscp_readLevel1RegisterBlock_def Let_def ex1(1) c1(1) c2(1,2) c4(1))
  have m: "mset (concat (map (frame_regs offset vs) is)) = mset (block_regs offset vs)" by (rule all_frames [OF assms(8,7)])
  have keys: "distinct (map fst (block_regs offset vs))"
    using distinct_run_keys [of "length vs" offset] assms(8) unat_u8_less [of cnt]
    by (simp add: block_regs_def)
  then have dist: "distinct (map fst (concat (map (frame_regs offset vs) is)))"
    using m by (metis mset_eq_imp_distinct_iff mset_map)
  then have "map_of (concat (map (frame_regs offset vs) is)) = map_of (block_regs offset vs)"
    using map_of_inject_set [OF dist keys] mset_eq_setD [OF m] by simp
  then show ?thesis using run put_all_map [OF assms(10) dist] by auto
qed

end

end
