(* ===== verification/RegisterLink.thy ===== *)
theory RegisterLink
  imports RegisterAccess
begin

text \<open>
  The register routines over the UDP client: its operations as the client interface of \<open>RegisterAccess\<close>, the proof that
  they meet the contract of an answering client, and what follows for the registers of a node at the other end of
  the link. The node is an argument, a function from messages to its answers; it is reached by a client of the same
  library with the same keys (\<open>w_peer\<close>). A datagram that is on its way arrives after a number of sleeps of the program.
\<close>

section \<open>Messages in events\<close>

definition ev_message :: "vscpEvent \<Rightarrow> message" where
  "ev_message ev = (vscp_class ev, vscp_type ev, ev_data ev)"

lemma message_views:
  "ev_view ev = view_norm (ex_view ex) \<Longrightarrow> ev_message ev = message_of ex"
  "ex_view ex = view_norm (ev_view ev) \<Longrightarrow> message_of ex = ev_message ev"
  by (auto simp: ev_message_def message_of_def ev_view_def ex_view_def view_norm_def split: if_splits)

definition event_of :: "message \<Rightarrow> vscpEvent" where
  "event_of m = (case m of (c, t, d) \<Rightarrow>
     zero_event\<lparr>vscp_class := c, vscp_type := t, sizeData := of_nat (length d), pdata := Some d\<rparr>)"

lemma event_of_ok:
  assumes "m = (c, t, d)" and "length d \<le> 512"
  shows "wf_event (event_of m)" "ev_message (event_of m) = m"
proof -
  have "unat (of_nat (length d) :: u16) = length d" using assms(2) by (intro unat_of_nat_u16) simp
  then show "wf_event (event_of m)" "ev_message (event_of m) = m"
    using assms by (simp_all add: event_of_def wf_event_def ev_message_def ev_data_def zero_event_def VSCP_LEVEL2_MAXDATA_def)
qed

text \<open>Clients with the same keys take the message out of the datagram and into their queue.\<close>

definition accepts_all :: "client \<Rightarrow> bool" where
  "accepts_all c \<longleftrightarrow> m_filter c = zero_filter \<and> \<not> (callbackEvActive c \<and> callbackExActive c)"

definition carries :: "platform \<Rightarrow> authentication \<Rightarrow> u8 \<Rightarrow> u8 list \<Rightarrow> u8 list \<Rightarrow> message \<Rightarrow> bool" where
  "carries p a enc key d m \<longleftrightarrow>
     (\<forall>c semReady. m_encryptType c = enc \<and> m_key c = key \<and> accepts_all c \<longrightarrow>
        (\<exists>ev exs. handle_datagram p a semReady d c = Some (taken semReady ev exs c) \<and> wf_event ev \<and> ev_message ev = m))"

lemma carriesD:
  assumes "carries p a (m_encryptType c) (m_key c) d m" and "accepts_all c"
  shows "\<exists>ev exs. handle_datagram p a semReady d c = Some (taken semReady ev exs c) \<and> wf_event ev \<and> ev_message ev = m"
  using assms by (simp add: carries_def)

lemma sent_carries:
  assumes "wf_event ev" and "m_connected c" and "link_ok p a c"
  shows "\<exists>d. sendEvent p a c True (\<lambda>d. int (length d)) ev = Some (VSCP_ERROR_SUCCESS, Some d)
    \<and> carries p a (m_encryptType c) (m_key c) d (ev_message ev)"
proof -
  obtain d where d: "sendEvent p a c True (\<lambda>d. int (length d)) ev = Some (VSCP_ERROR_SUCCESS, Some d)"
    using sent_event_content [OF assms refl refl refl refl] by blast
  have "\<exists>ev' exs. handle_datagram p a semReady d r = Some (taken semReady ev' exs r) \<and> wf_event ev' \<and> ev_message ev' = ev_message ev"
    if "m_encryptType r = m_encryptType c" "m_key r = m_key c" "accepts_all r" for r semReady
    using sent_event_content [OF assms refl refl that(2,1), of semReady] d that(3) zero_filter_passes
    by (auto simp: accepts_all_def takes_event_def ev_message_def)
  then show ?thesis using d by (auto simp: carries_def)
qed

section \<open>A node behind a UDP client\<close>

record world =
  w_platform :: platform
  w_udp :: vscpClientUdp
  w_peer :: client
  w_node :: node
  w_wire :: "(nat \<times> u8 list) list"
  w_now :: u32

text \<open>What the node sends for a datagram: the answers to the event that its client takes from it.\<close>

definition peer_wire :: "world \<Rightarrow> u8 list \<Rightarrow> (nat \<times> u8 list) list" where
  "peer_wire w d =
     (let p = w_platform w; a = authentication_of (w_udp w); peer = w_peer w
      in case handle_datagram p a True d peer of
           None \<Rightarrow> []
         | Some peer' \<Rightarrow>
             concat (map (\<lambda>ev.
               concat (map (\<lambda>(k, m). case sendEvent p a peer True (\<lambda>d. int (length d)) (event_of m) of
                    Some (rv, Some d) \<Rightarrow> [(k, d)] | _ \<Rightarrow> []) (w_node w (ev_message (the ev)))))
               (drop (length (m_receiveQueue peer)) (m_receiveQueue peer'))))"

text \<open>The worker of the client handles the datagrams that have arrived.\<close>

fun settle :: "platform \<Rightarrow> (nat \<times> u8 list) list \<Rightarrow> vscpClientUdp \<Rightarrow> ((nat \<times> u8 list) list \<times> vscpClientUdp) safe" where
  "settle p [] u = Some ([], u)"
| "settle p ((k, d) # ws) u =
     (if k \<noteq> 0 then Some ((k, d) # ws, u)
      else do { u' \<leftarrow> udp_workerThread p [Received d] (Some u); u \<leftarrow> u'; settle p ws u })"

definition arrivals :: "world \<Rightarrow> world safe" where
  "arrivals w = map_option (\<lambda>(ws, u). w\<lparr>w_wire := ws, w_udp := u\<rparr>) (settle (w_platform w) (w_wire w) (w_udp w))"

definition one_sleep_less :: "(nat \<times> u8 list) list \<Rightarrow> (nat \<times> u8 list) list" where
  "one_sleep_less ws = (case ws of [] \<Rightarrow> [] | (k, d) # ws \<Rightarrow> (k - 1, d) # ws)"

definition udp_ops :: "world client_ops" where
  "udp_ops = \<lparr>
     cl_clear = (\<lambda>w. let (rv, u) = udp_clear (w_udp w) in (rv, w\<lparr>w_udp := u\<rparr>)),
     cl_send = (\<lambda>ex w. do {
       (rv, d) \<leftarrow> udp_send_ex (w_platform w) (m_connected (u_client (w_udp w))) (\<lambda>d. int (length d)) (w_udp w) ex;
       w \<leftarrow> arrivals (w\<lparr>w_wire := w_wire w @ (case d of None \<Rightarrow> [] | Some d \<Rightarrow> peer_wire w d)\<rparr>);
       Some (rv, w) }),
     cl_getcount = (\<lambda>w. let (rv, n) = udp_getcount (w_udp w) (Some 0) in (rv, the n, w)),
     cl_receive = (\<lambda>ex w. do {
       (rv, ex, u) \<leftarrow> udp_receive_ex False 0 (w_udp w) ex;
       Some (rv, ex, w\<lparr>w_udp := u\<rparr>) }),
     cl_now = (\<lambda>w. (w_now w, w)),
     cl_sleep = (\<lambda>w. arrivals (w\<lparr>w_wire := one_sleep_less (w_wire w), w_now := w_now w + 2\<rparr>))\<rparr>"

section \<open>The link\<close>

definition linked :: "platform \<Rightarrow> client \<Rightarrow> vscpClientUdp \<Rightarrow> bool" where
  "linked p peer u \<longleftrightarrow>
     (let c = u_client u
      in m_connected c \<and> m_bRun c \<and> link_ok p (authentication_of u) c \<and> accepts_all c
         \<and> m_connected peer \<and> accepts_all peer \<and> m_encryptType peer = m_encryptType c \<and> m_key peer = m_key c)"

definition queued :: "vscpClientUdp \<Rightarrow> message list \<Rightarrow> bool" where
  "queued u qs \<longleftrightarrow>
     list_all2 (\<lambda>e m. \<exists>ev. e = Some ev \<and> wf_event ev \<and> ev_message ev = m) (m_receiveQueue (u_client u)) qs"

definition on_wire :: "platform \<Rightarrow> vscpClientUdp \<Rightarrow> (nat \<times> u8 list) list \<Rightarrow> message list \<Rightarrow> bool" where
  "on_wire p u = list_all2 (\<lambda>(k, d). carries p (authentication_of u) (m_encryptType (u_client u)) (m_key (u_client u)) d)"

definition settled :: "(nat \<times> u8 list) list \<Rightarrow> bool" where
  "settled ws \<longleftrightarrow> ws = [] \<or> fst (hd ws) \<noteq> 0"

lemma taken_fields [simp]:
  "m_connected (taken s ev exs c) = m_connected c" "m_bRun (taken s ev exs c) = m_bRun c"
  "m_encryptType (taken s ev exs c) = m_encryptType c" "m_filter (taken s ev exs c) = m_filter c"
  "callbackEvActive (taken s ev exs c) = callbackEvActive c" "callbackExActive (taken s ev exs c) = callbackExActive c"
  by (simp_all add: taken_def Let_def)

lemma authentication_client [simp]: "authentication_of (u\<lparr>u_client := c\<rparr>) = authentication_of u"
  by (simp add: authentication_of_def)

lemma link_ok_same: "m_encryptType c = m_encryptType c' \<Longrightarrow> m_key c = m_key c' \<Longrightarrow> link_ok p a c = link_ok p a c'"
  by (cases "a_hmacKey a") (simp_all add: link_ok_def)

text \<open>A datagram that arrives puts its message into the queue.\<close>

lemma worker_takes:
  assumes "linked p peer u" and "on_wire p u [(k, d)] [m]" and "queued u qs"
  shows "\<exists>u'. udp_workerThread p [Received d] (Some u) = Some (Some u') \<and> linked p peer u' \<and> queued u' (qs @ [m])
    \<and> on_wire p u' = on_wire p u \<and> authentication_of u' = authentication_of u"
proof -
  let ?c = "u_client u"
  have l: "m_connected ?c" "m_bRun ?c" "link_ok p (authentication_of u) ?c" "accepts_all ?c" "m_connected peer"
      "accepts_all peer" "m_encryptType peer = m_encryptType ?c" "m_key peer = m_key ?c"
    using assms(1) by (simp_all add: linked_def Let_def)
  have "carries p (authentication_of u) (m_encryptType ?c) (m_key ?c) d m" using assms(2) by (simp add: on_wire_def)
  from carriesD [OF this l(4), of "m_semReady u"]
  obtain ev exs where h: "handle_datagram p (authentication_of u) (m_semReady u) d ?c
      = Some (taken (m_semReady u) ev exs ?c)" "wf_event ev" "ev_message ev = m"
    by blast
  let ?u = "u\<lparr>u_client := taken (m_semReady u) ev exs ?c\<rparr>"
  have "udp_workerThread p [Received d] (Some u) = Some (Some ?u)"
    by (simp add: udp_workerThread_def l(2) h(1))
  moreover have "linked p peer ?u"
    using l link_ok_same [of "taken (m_semReady u) ev exs ?c" ?c] by (simp add: linked_def accepts_all_def)
  moreover have "queued ?u (qs @ [m])"
    using assms(3) l(4) h(2,3) by (auto simp: queued_def accepts_all_def intro!: list_all2_appendI)
  moreover have "on_wire p ?u = on_wire p u" by (simp add: on_wire_def)
  ultimately show ?thesis by (intro exI [of _ ?u]) simp
qed

lemma settle_ok:
  "linked p peer u \<Longrightarrow> queued u qs \<Longrightarrow> on_wire p u ws ms \<Longrightarrow>
   \<exists>ws' u' qs' ms'. settle p ws u = Some (ws', u') \<and> linked p peer u' \<and> queued u' qs' \<and> on_wire p u' ws' ms'
     \<and> qs' @ ms' = qs @ ms \<and> settled ws' \<and> sum_list (map fst ws') = sum_list (map fst ws)
     \<and> (if settled ws then ws' = ws \<and> qs' = qs else qs' \<noteq> [])
     \<and> authentication_of u' = authentication_of u"
proof (induction ws arbitrary: u qs ms)
  case (Cons w ws)
  obtain k d where w: "w = (k, d)" by (cases w)
  show ?case
  proof (cases "k = 0")
    case False
    then show ?thesis
      using Cons.prems
      by (intro exI [of _ "w # ws"] exI [of _ u] exI [of _ qs] exI [of _ ms]) (simp add: w settled_def)
  next
    case True
    obtain m ms0 where ms: "ms = m # ms0" "on_wire p u [(k, d)] [m]" "on_wire p u ws ms0"
      using Cons.prems(3) w by (cases ms) (auto simp: on_wire_def)
    obtain u1 where u1: "udp_workerThread p [Received d] (Some u) = Some (Some u1)" "linked p peer u1"
        "queued u1 (qs @ [m])" "on_wire p u1 = on_wire p u" "authentication_of u1 = authentication_of u"
      using worker_takes [OF Cons.prems(1) ms(2) Cons.prems(2)] by blast
    have "on_wire p u1 ws ms0" using u1(4) ms(3) by simp
    from Cons.IH [OF u1(2,3) this] obtain ws' u' qs' ms' where s: "settle p ws u1 = Some (ws', u')"
        "linked p peer u'" "queued u' qs'" "on_wire p u' ws' ms'" "qs' @ ms' = (qs @ [m]) @ ms0" "settled ws'"
        "sum_list (map fst ws') = sum_list (map fst ws)"
        "if settled ws then ws' = ws \<and> qs' = qs @ [m] else qs' \<noteq> []" "authentication_of u' = authentication_of u1"
      by blast
    have "qs' \<noteq> []" using s(8) by (auto split: if_splits)
    then show ?thesis
      using s(1-7,9) u1(1,5) True
      by (intro exI [of _ ws'] exI [of _ u'] exI [of _ qs'] exI [of _ ms']) (simp add: w ms(1) settled_def)
  qed
qed (auto simp: on_wire_def settled_def)

section \<open>The client interface of a linked client\<close>

definition udp_ready :: "node \<Rightarrow> world \<Rightarrow> bool" where
  "udp_ready nd w \<longleftrightarrow> w_node w = nd \<and> w_wire w = [] \<and> linked (w_platform w) (w_peer w) (w_udp w)"

definition udp_clean :: "node \<Rightarrow> world \<Rightarrow> bool" where
  "udp_clean nd w \<longleftrightarrow> udp_ready nd w \<and> m_receiveQueue (u_client (w_udp w)) = []"

definition udp_pending :: "node \<Rightarrow> u32 \<Rightarrow> u32 \<Rightarrow> message list \<Rightarrow> nat \<Rightarrow> bool \<Rightarrow> world \<Rightarrow> bool" where
  "udp_pending nd timeout s rs k rest w \<longleftrightarrow>
     w_node w = nd \<and> linked (w_platform w) (w_peer w) (w_udp w) \<and> length rs < 65536
     \<and> unat (w_now w - s) + 2 * (sum_list (map fst (w_wire w)) + length rs + (if rest then 1 else 0)) \<le> unat timeout
     \<and> settled (w_wire w)
     \<and> (\<exists>qs ms. rs = qs @ ms \<and> queued (w_udp w) qs \<and> on_wire (w_platform w) (w_udp w) (w_wire w) ms
          \<and> k = (if qs \<noteq> [] \<or> w_wire w = [] then 0 else fst (hd (w_wire w))))"

lemma arrivals_ok:
  assumes "linked (w_platform w) (w_peer w) (w_udp w)" and "queued (w_udp w) qs"
    and "on_wire (w_platform w) (w_udp w) (w_wire w) ms"
  shows "\<exists>ws u qs' ms'. arrivals w = Some (w\<lparr>w_wire := ws, w_udp := u\<rparr>) \<and> linked (w_platform w) (w_peer w) u \<and> queued u qs'
    \<and> on_wire (w_platform w) u ws ms' \<and> qs' @ ms' = qs @ ms \<and> settled ws
    \<and> sum_list (map fst ws) = sum_list (map fst (w_wire w))
    \<and> (if settled (w_wire w) then ws = w_wire w \<and> qs' = qs else qs' \<noteq> [])"
  using settle_ok [OF assms] by (fastforce simp: arrivals_def)

lemma peer_wire_carries:
  assumes "linked (w_platform w) (w_peer w) (w_udp w)"
    and "carries (w_platform w) (authentication_of (w_udp w)) (m_encryptType (w_peer w)) (m_key (w_peer w)) d m"
    and "\<forall>(k, c, t, d)\<in>set (w_node w m). length d \<le> 512"
  shows "on_wire (w_platform w) (w_udp w) (peer_wire w d) (map snd (w_node w m))
    \<and> map fst (peer_wire w d) = map fst (w_node w m)"
proof -
  let ?p = "w_platform w" and ?a = "authentication_of (w_udp w)" and ?q = "w_peer w" and ?c = "u_client (w_udp w)"
  have l: "m_connected ?q" "link_ok ?p ?a ?q" "accepts_all ?q" "m_encryptType ?q = m_encryptType ?c" "m_key ?q = m_key ?c"
    using assms(1) link_ok_same [of ?q ?c] by (simp_all add: linked_def Let_def)
  obtain ev exs where h: "handle_datagram ?p ?a True d ?q = Some (taken True ev exs ?q)" "ev_message ev = m"
    using carriesD [OF assms(2) l(3)] by blast
  let ?send = "\<lambda>(k, m). case sendEvent ?p ?a ?q True (\<lambda>d. int (length d)) (event_of m) of
      Some (rv, Some d) \<Rightarrow> [(k :: nat, d)] | _ \<Rightarrow> []"
  have wire: "peer_wire w d = concat (map ?send (w_node w m))"
    using l(3) h by (auto simp: peer_wire_def Let_def accepts_all_def)
  have "on_wire ?p (w_udp w) (concat (map ?send ans)) (map snd ans) \<and> map fst (concat (map ?send ans)) = map fst ans"
    if "\<forall>(k, c, t, d)\<in>set ans. length d \<le> 512" for ans
    using that
  proof (induction ans)
    case (Cons km ans)
    obtain k c t dd where km: "km = (k, c, t, dd)" by (cases km)
    have ok: "wf_event (event_of (c, t, dd))" "ev_message (event_of (c, t, dd)) = (c, t, dd)"
      using event_of_ok [OF refl, of dd c t] Cons.prems km by auto
    obtain d' where d': "sendEvent ?p ?a ?q True (\<lambda>d. int (length d)) (event_of (c, t, dd)) = Some (VSCP_ERROR_SUCCESS, Some d')"
        "carries ?p ?a (m_encryptType ?q) (m_key ?q) d' (c, t, dd)"
      using sent_carries [OF ok(1) l(1,2)] ok(2) by auto
    have "?send km = [(k, d')]" by (simp add: km d'(1))
    then show ?case using Cons d'(2) l(4,5) by (simp add: on_wire_def km)
  qed (simp add: on_wire_def)
  then show ?thesis using assms(3) unfolding wire by blast
qed

lemma clear_loop_more:
  "callbackEvActive (clear_loop s q c) = callbackEvActive c \<and> callbackExActive (clear_loop s q c) = callbackExActive c"
  by (induction s q c rule: clear_loop.induct) (simp_all add: consumeSignal_def)

lemma udp_clear_ok:
  assumes "udp_ready nd w"
  shows "\<exists>w'. cl_clear udp_ops w = (VSCP_ERROR_SUCCESS, w') \<and> udp_clean nd w'"
proof -
  let ?u = "w_udp w" and ?c = "u_client (w_udp w)"
  let ?c' = "clear_loop (m_semReady ?u) (m_receiveQueue ?c) ?c"
  note f = clear_fields [of "m_semReady ?u" "m_receiveQueue ?c" ?c] clear_loop_more [of "m_semReady ?u" "m_receiveQueue ?c" ?c]
    clear_loop_empties [of "m_semReady ?u" "m_receiveQueue ?c" ?c]
  have "link_ok p a ?c' = link_ok p a ?c" for p a by (rule link_ok_same) (use f in auto)
  then have "linked (w_platform w) (w_peer w) (?u\<lparr>u_client := ?c'\<rparr>)"
    using assms f by (simp add: udp_ready_def linked_def Let_def accepts_all_def)
  moreover have "m_receiveQueue ?c' = []" using f(3) by auto
  ultimately show ?thesis
    using assms by (simp add: udp_ops_def udp_clear_def clearQueue_def udp_clean_def udp_ready_def)
qed

lemma udp_send_ok:
  assumes "udp_clean nd w" and "wf_eventEx ex" and "prompt nd timeout (message_of ex)"
  shows "\<exists>w1 s w2 k. cl_send udp_ops ex w = Some (VSCP_ERROR_SUCCESS, w1) \<and> cl_now udp_ops w1 = (s, w2)
    \<and> udp_pending nd timeout s (map snd (nd (message_of ex))) k False w2"
proof -
  let ?p = "w_platform w" and ?u = "w_udp w" and ?c = "u_client (w_udp w)" and ?m = "message_of ex"
  have w: "w_node w = nd" "w_wire w = []" "linked ?p (w_peer w) ?u" "m_receiveQueue ?c = []"
    using assms(1) by (simp_all add: udp_clean_def udp_ready_def)
  have l: "m_connected ?c" "link_ok ?p (authentication_of ?u) ?c" "m_encryptType (w_peer w) = m_encryptType ?c"
      "m_key (w_peer w) = m_key ?c"
    using w(3) by (simp_all add: linked_def Let_def)
  obtain ev where ev: "vscp_convertEventExToEvent (Some zero_event) (Some ex) = Some (True, Some ev)" "wf_event ev"
      "ev_view ev = view_norm (ex_view ex)"
    using to_ev.copies [OF assms(2) TrueI] by blast
  obtain d where d: "sendEvent ?p (authentication_of ?u) ?c True (\<lambda>d. int (length d)) ev = Some (VSCP_ERROR_SUCCESS, Some d)"
      "carries ?p (authentication_of ?u) (m_encryptType ?c) (m_key ?c) d (ev_message ev)"
    using sent_carries [OF ev(2) l(1,2)] by blast
  have sent: "udp_send_ex ?p (m_connected ?c) (\<lambda>d. int (length d)) ?u ex = Some (VSCP_ERROR_SUCCESS, Some d)"
    using assms(2) l(1) by (simp add: udp_send_ex_def udp_send_def ev(1) d(1) wf_eventEx_def)
  have short: "\<forall>(k, c, t, d)\<in>set (w_node w ?m). length d \<le> 512" using assms(3) w(1) by (simp add: prompt_def)
  have wire: "on_wire ?p ?u (peer_wire w d) (map snd (nd ?m))" "map fst (peer_wire w d) = map fst (nd ?m)"
    using peer_wire_carries [OF w(3) _ short, of d] d(2) l(3,4) message_views(1) [OF ev(3)] w(1) by auto
  let ?w = "w\<lparr>w_wire := peer_wire w d\<rparr>"
  have "linked (w_platform ?w) (w_peer ?w) (w_udp ?w)" "queued (w_udp ?w) []"
      "on_wire (w_platform ?w) (w_udp ?w) (w_wire ?w) (map snd (nd ?m))"
    using w(3,4) wire(1) by (simp_all add: queued_def)
  from arrivals_ok [OF this] obtain ws u qs ms where a: "arrivals ?w = Some (?w\<lparr>w_wire := ws, w_udp := u\<rparr>)"
      "linked ?p (w_peer w) u" "queued u qs" "on_wire ?p u ws ms" "qs @ ms = map snd (nd ?m)" "settled ws"
      "sum_list (map fst ws) = sum_list (map fst (peer_wire w d))"
    by auto
  let ?w2 = "?w\<lparr>w_wire := ws, w_udp := u\<rparr>"
  have "length (map snd (nd ?m)) < 65536" "2 * (sum_list (map fst ws) + length (map snd (nd ?m))) \<le> unat timeout"
    using assms(3) a(7) wire(2) by (simp_all add: prompt_def)
  then have "udp_pending nd timeout (w_now w) (map snd (nd ?m)) (if qs \<noteq> [] \<or> ws = [] then 0 else fst (hd ws)) False ?w2"
    unfolding udp_pending_def using a(2-6) w(1) by (intro conjI exI [of _ qs] exI [of _ ms]) simp_all
  moreover have "cl_send udp_ops ex w = Some (VSCP_ERROR_SUCCESS, ?w2)" by (simp add: udp_ops_def sent w(2) a(1))
  moreover have "cl_now udp_ops ?w2 = (w_now w, ?w2)" by (simp add: udp_ops_def)
  ultimately show ?thesis by blast
qed

lemma udp_idle_ok:
  assumes "udp_pending nd timeout s (r # rs) (Suc k) rest w"
  shows "\<exists>rv w'. cl_getcount udp_ops w = (rv, 0, w') \<and> udp_pending nd timeout s (r # rs) (Suc k) rest w'"
proof -
  have "m_receiveQueue (u_client (w_udp w)) = []"
    using assms by (auto simp: udp_pending_def queued_def split: if_splits)
  then show ?thesis using assms by (simp add: udp_ops_def udp_getcount_def)
qed

lemma link_consume:
  assumes "linked p peer u"
  shows "linked p peer (u\<lparr>u_client := consumeSignal b ((u_client u)\<lparr>m_receiveQueue := q\<rparr>)\<rparr>)"
proof -
  let ?c = "consumeSignal b ((u_client u)\<lparr>m_receiveQueue := q\<rparr>)"
  have "link_ok p a ?c = link_ok p a (u_client u)" for a by (rule link_ok_same) (simp_all add: consumeSignal_def)
  then show ?thesis using assms by (simp add: linked_def Let_def accepts_all_def) (simp add: consumeSignal_def)
qed

lemma udp_arrives_ok:
  assumes "udp_pending nd timeout s (r # rs) 0 rest w" and "raw_eventEx ex"
  shows "\<exists>n w1 ex' w2 k. cl_getcount udp_ops w = (VSCP_ERROR_SUCCESS, n, w1) \<and> n \<noteq> 0
    \<and> cl_receive udp_ops ex w1 = Some (VSCP_ERROR_SUCCESS, ex', w2) \<and> wf_eventEx ex' \<and> message_of ex' = r
    \<and> udp_pending nd timeout s rs k True w2"
proof -
  let ?u = "w_udp w" and ?c = "u_client (w_udp w)"
  obtain qs ms where p: "w_node w = nd" "linked (w_platform w) (w_peer w) ?u" "length (r # rs) < 65536"
      "unat (w_now w - s) + 2 * (sum_list (map fst (w_wire w)) + length (r # rs) + (if rest then 1 else 0)) \<le> unat timeout"
      "settled (w_wire w)" "r # rs = qs @ ms" "queued ?u qs" "on_wire (w_platform w) ?u (w_wire w) ms"
      "0 = (if qs \<noteq> [] \<or> w_wire w = [] then 0 else fst (hd (w_wire w)))"
    using assms(1) unfolding udp_pending_def by blast
  have "qs \<noteq> []" using p(5,6,8,9) by (auto simp: settled_def on_wire_def split: if_splits)
  then obtain qs' where qs: "qs = r # qs'" "rs = qs' @ ms" using p(6) by (cases qs) auto
  obtain ev queue where q: "m_receiveQueue ?c = Some ev # queue" "wf_event ev" "ev_message ev = r"
      "list_all2 (\<lambda>e m. \<exists>ev. e = Some ev \<and> wf_event ev \<and> ev_message ev = m) queue qs'"
    using p(7) qs(1) by (auto simp: queued_def list_all2_Cons2)
  have "length queue = length qs'" using q(4) by (rule list_all2_lengthD)
  then have "Suc (length queue) < 65536" using p(3) qs by simp
  then have "unat (of_nat (Suc (length queue)) :: u16) = Suc (length queue)" by (intro unat_of_nat_u16) simp
  then have n: "of_nat (length (m_receiveQueue ?c)) \<noteq> (0 :: u16)" using q(1) by (metis length_Cons nat.distinct(1) unsigned_0)
  obtain ex' where ex': "vscp_convertEventToEventEx (Some ex) (Some ev) = Some (True, Some ex')" "wf_eventEx ex'"
      "ex_view ex' = view_norm (ev_view ev)"
    using to_ex.copies [OF q(2) assms(2)] by blast
  let ?c' = "consumeSignal (m_semReady ?u) (?c\<lparr>m_receiveQueue := queue\<rparr>)"
  let ?w = "w\<lparr>w_udp := ?u\<lparr>u_client := ?c'\<rparr>\<rparr>"
  have r: "cl_receive udp_ops ex w = Some (VSCP_ERROR_SUCCESS, ex', ?w)"
    by (simp add: udp_ops_def udp_receive_ex_def receiveEventEx_def popEvent_def q(1) ex'(1))
  have "udp_pending nd timeout s rs (if qs' \<noteq> [] \<or> w_wire w = [] then 0 else fst (hd (w_wire w))) True ?w"
    unfolding udp_pending_def
    using p(1,3-5,8) qs(2) q(4) link_consume [OF p(2)]
    by (intro conjI exI [of _ qs'] exI [of _ ms]) (simp_all add: queued_def on_wire_def)
  then show ?thesis
    using n r ex'(2) message_views(2) [OF ex'(3)] q(3)
    by (intro exI [of _ "of_nat (length (m_receiveQueue ?c))"] exI [of _ w] exI [of _ ex'] exI [of _ ?w]
        exI [of _ "if qs' \<noteq> [] \<or> w_wire w = [] then 0 else fst (hd (w_wire w))"])
      (simp add: udp_ops_def udp_getcount_def)
qed

lemma sum_one_sleep_less:
  "settled ws \<Longrightarrow> sum_list (map fst (one_sleep_less ws)) + (if ws = [] then 0 else 1) = sum_list (map fst ws)"
  by (cases ws) (auto simp: one_sleep_less_def settled_def)

lemma udp_sleep_ok:
  assumes "udp_pending nd timeout s (r # rs) k rest w" and "rest \<or> 0 < k"
  shows "\<exists>w' k'. cl_sleep udp_ops w = Some w' \<and> udp_pending nd timeout s (r # rs) k' False w' \<and> (k' < k \<or> k' = 0)"
proof -
  let ?ws = "w_wire w"
  obtain qs ms where p: "w_node w = nd" "linked (w_platform w) (w_peer w) (w_udp w)" "length (r # rs) < 65536"
      "unat (w_now w - s) + 2 * (sum_list (map fst ?ws) + length (r # rs) + (if rest then 1 else 0)) \<le> unat timeout"
      "settled ?ws" "r # rs = qs @ ms" "queued (w_udp w) qs" "on_wire (w_platform w) (w_udp w) ?ws ms"
      "k = (if qs \<noteq> [] \<or> ?ws = [] then 0 else fst (hd ?ws))"
    using assms(1) unfolding udp_pending_def by blast
  let ?w = "w\<lparr>w_wire := one_sleep_less ?ws, w_now := w_now w + 2\<rparr>"
  have "on_wire (w_platform ?w) (w_udp ?w) (w_wire ?w) ms"
    using p(8) by (auto simp: on_wire_def one_sleep_less_def list_all2_Cons1 split: list.splits)
  moreover have "linked (w_platform ?w) (w_peer ?w) (w_udp ?w)" "queued (w_udp ?w) qs" using p(2,7) by simp_all
  ultimately obtain ws u qs' ms' where a: "arrivals ?w = Some (?w\<lparr>w_wire := ws, w_udp := u\<rparr>)" "linked (w_platform w) (w_peer w) u"
      "queued u qs'" "on_wire (w_platform w) u ws ms'" "qs' @ ms' = qs @ ms" "settled ws"
      "sum_list (map fst ws) = sum_list (map fst (one_sleep_less ?ws))"
      "if settled (one_sleep_less ?ws) then ws = one_sleep_less ?ws \<and> qs' = qs else qs' \<noteq> []"
    using arrivals_ok [of ?w qs ms] by auto
  let ?w2 = "?w\<lparr>w_wire := ws, w_udp := u\<rparr>" and ?k = "if qs' \<noteq> [] \<or> ws = [] then 0 else fst (hd ws)"
  have t: "unat (w_now w + 2 - s) = unat (w_now w - s) + 2"
  proof -
    have "unat (w_now w - s) + 2 \<le> unat timeout" using p(4) by simp
    then have "unat (w_now w - s) + unat (2 :: u32) < 2 ^ LENGTH(32)"
      using unat_u32_less [of timeout] by simp
    then have "unat ((w_now w - s) + 2) = unat (w_now w - s) + unat (2 :: u32)" by (rule unat_add_lem [THEN iffD1])
    then show ?thesis by (simp add: algebra_simps)
  qed
  have "unat (w_now w + 2 - s) + 2 * (sum_list (map fst ws) + length (r # rs)) \<le> unat timeout"
    using p(4,9) assms(2) sum_one_sleep_less [OF p(5)] a(7) t by (auto split: if_splits)
  then have "udp_pending nd timeout s (r # rs) ?k False ?w2"
    unfolding udp_pending_def using p(1,3) p(6) [unfolded a(5) [symmetric]] a(2-4,6)
    by (intro conjI exI [of _ qs'] exI [of _ ms']) simp_all
  moreover have "?k < k \<or> ?k = 0"
    using a(8) p(5,9) by (cases ?ws) (auto simp: one_sleep_less_def settled_def split: if_splits)
  moreover have "cl_sleep udp_ops w = Some ?w2" using a(1) by (simp add: udp_ops_def)
  ultimately show ?thesis by blast
qed

interpretation udp: answering_client udp_ops udp_ready udp_clean udp_pending
proof
  fix nd timeout s rs k rest w
  assume a: "udp_pending nd timeout s rs k rest w"
  then have "unat (w_now w - s) \<le> unat timeout" by (auto simp: udp_pending_def)
  then show "\<exists>u w'. cl_now udp_ops w = (u, w') \<and> u - s \<le> timeout \<and> udp_pending nd timeout s rs k rest w'"
    using a by (simp add: udp_ops_def word_le_nat_alt)
next
  fix nd timeout s k rest w
  assume "udp_pending nd timeout s [] k rest w"
  then show "udp_ready nd w" by (auto simp: udp_pending_def udp_ready_def on_wire_def)
qed (fact udp_clear_ok udp_send_ok udp_idle_ok udp_arrives_ok udp_sleep_ok)+

section \<open>A success means an answer\<close>

lemma poll_sound:
  fixes cl :: "'a client_ops"
  assumes "poll cl answer timeout s ex c = Some (Answered, ex', c')"
  shows "\<exists>ex0 c0 got c1. cl_receive cl ex0 c0 = Some (VSCP_ERROR_SUCCESS, got, c1) \<and> answer got = Some (True, ex')"
proof -
  let ?sound = "\<lambda>(cl :: 'a client_ops) (answer :: vscpEventEx \<Rightarrow> (bool \<times> vscpEventEx) safe) (timeout :: u32) (s :: u32) (ex :: vscpEventEx) (c :: 'a) y. \<forall>ex' c'. y = (Answered, ex', c' :: 'a) \<longrightarrow>
    (\<exists>ex0 c0 got c1. cl_receive cl ex0 c0 = Some (VSCP_ERROR_SUCCESS, got, c1) \<and> answer got = Some (True, ex'))"
  have "?sound cl answer timeout s ex c (Answered, ex', c')"
  proof (rule poll.raw_induct [where P = ?sound, OF _ assms])
    fix f and cl :: "'a client_ops" and answer :: "vscpEventEx \<Rightarrow> (bool \<times> vscpEventEx) safe" and timeout s ex and c :: 'a and y
    assume IH: "\<And>(cl :: 'a client_ops) (answer :: vscpEventEx \<Rightarrow> (bool \<times> vscpEventEx) safe) timeout s ex c y. f cl answer timeout s ex c = Some y \<Longrightarrow> ?sound cl answer timeout s ex c y"
    assume run: "(let (rv, cnt, c) = cl_getcount cl c
      in Option.bind
        (if cnt \<noteq> 0 \<and> rv = VSCP_ERROR_SUCCESS
         then Option.bind (cl_receive cl ex c) (\<lambda>(rv, ex, c).
                if rv \<noteq> VSCP_ERROR_SUCCESS then Some (Some (Failed rv), rv, ex, c)
                else Option.bind (answer ex) (\<lambda>(hit, ex). Some (if hit then Some Answered else None, rv, ex, c)))
         else Some (None, rv, ex, c))
        (\<lambda>(stop, rv, ex, c).
          if stop \<noteq> None then Some (the stop, ex, c)
          else let (late, c) = expired cl timeout s c
               in if late then Some (No_answer VSCP_ERROR_TIMEOUT, ex, c)
                  else Option.bind (cl_sleep cl c) (\<lambda>c.
                         if timeout = 0 then Some (No_answer rv, ex, c)
                         else f cl answer timeout s ex c))) = Some y"
    show "?sound cl answer timeout s ex c y"
    proof (intro allI impI)
      fix ex' c' assume y: "y = (Answered, ex', c')"
      obtain rv n c1 where g: "cl_getcount cl c = (rv, n, c1)" by (cases "cl_getcount cl c") auto
      show "\<exists>ex0 c0 got c1. cl_receive cl ex0 c0 = Some (VSCP_ERROR_SUCCESS, got, c1) \<and> answer got = Some (True, ex')"
        using run IH y by (auto simp: g Let_def split: prod.splits bind_splits if_splits)
    qed
  qed
  then show ?thesis by blast
qed

lemma answers_True:
  assumes "answers nickname P got = Some (True, ex')"
  shows "xvscp_class got = VSCP_CLASS1_PROTOCOL \<and> xvscp_type got = VSCP_TYPE_PROTOCOL_EXTENDED_PAGE_RESPONSE
    \<and> nickname \<noteq> 0 \<and> 5 \<le> xsizeData got \<and> 5 \<le> length (xdata got) \<and> P (take 5 (xdata got)) \<and> xdata ex' = xdata got"
  using assms by (auto simp: answers_def rd_block_def split: if_splits bind_splits)

lemma transact_sound:
  assumes "transact cl answer timeout ex c = Some (Answered, ex', c')"
  shows "\<exists>ex0 c0 got c1. cl_receive cl ex0 c0 = Some (VSCP_ERROR_SUCCESS, got, c1) \<and> answer got = Some (True, ex')"
  using assms by (auto simp: transact_def Let_def split: prod.splits if_splits bind_splits) (blast dest: poll_sound)

text \<open>With a time limit, a wait without an answer is reported as an error.\<close>

lemma poll_no_success:
  fixes cl :: "'a client_ops"
  assumes "poll cl answer timeout s ex c = Some (r, ex', c')" and "timeout \<noteq> 0"
  shows "r \<noteq> Failed VSCP_ERROR_SUCCESS \<and> r \<noteq> No_answer VSCP_ERROR_SUCCESS"
proof -
  let ?safe = "\<lambda>(cl :: 'a client_ops) (answer :: vscpEventEx \<Rightarrow> (bool \<times> vscpEventEx) safe) (timeout :: u32) (s :: u32)
    (ex :: vscpEventEx) (c :: 'a) y. timeout \<noteq> 0 \<longrightarrow> fst (y :: poll_result \<times> vscpEventEx \<times> 'a) \<notin> {Failed VSCP_ERROR_SUCCESS, No_answer VSCP_ERROR_SUCCESS}"
  have "?safe cl answer timeout s ex c (r, ex', c')"
  proof (rule poll.raw_induct [where P = ?safe, OF _ assms(1)])
    fix f and cl :: "'a client_ops" and answer :: "vscpEventEx \<Rightarrow> (bool \<times> vscpEventEx) safe" and timeout s ex and c :: 'a and y
    assume IH: "\<And>(cl :: 'a client_ops) (answer :: vscpEventEx \<Rightarrow> (bool \<times> vscpEventEx) safe) timeout s ex c y.
      f cl answer timeout s ex c = Some y \<Longrightarrow> ?safe cl answer timeout s ex c y"
    assume run: "(let (rv, cnt, c) = cl_getcount cl c
      in Option.bind
        (if cnt \<noteq> 0 \<and> rv = VSCP_ERROR_SUCCESS
         then Option.bind (cl_receive cl ex c) (\<lambda>(rv, ex, c).
                if rv \<noteq> VSCP_ERROR_SUCCESS then Some (Some (Failed rv), rv, ex, c)
                else Option.bind (answer ex) (\<lambda>(hit, ex). Some (if hit then Some Answered else None, rv, ex, c)))
         else Some (None, rv, ex, c))
        (\<lambda>(stop, rv, ex, c).
          if stop \<noteq> None then Some (the stop, ex, c)
          else let (late, c) = expired cl timeout s c
               in if late then Some (No_answer VSCP_ERROR_TIMEOUT, ex, c)
                  else Option.bind (cl_sleep cl c) (\<lambda>c.
                         if timeout = 0 then Some (No_answer rv, ex, c)
                         else f cl answer timeout s ex c))) = Some y"
    obtain rv n c1 where g: "cl_getcount cl c = (rv, n, c1)" by (cases "cl_getcount cl c") auto
    have e: "VSCP_ERROR_TIMEOUT \<noteq> VSCP_ERROR_SUCCESS" by (simp add: VSCP_ERROR_TIMEOUT_def VSCP_ERROR_SUCCESS_def)
    show "?safe cl answer timeout s ex c y"
      using run IH e by (auto simp: g Let_def split: prod.splits bind_splits if_splits)
  qed
  then show ?thesis using assms(2) by simp
qed

lemma transact_success:
  assumes "transact cl answer timeout ex c = Some (r, ex', c')" and "timeout \<noteq> 0"
  shows "r \<noteq> Failed VSCP_ERROR_SUCCESS \<and> r \<noteq> No_answer VSCP_ERROR_SUCCESS"
  using assms by (auto simp: transact_def Let_def split: prod.splits if_splits bind_splits dest: poll_no_success)

text \<open>C9: A register whose reading succeeds, with any client and a time limit, was in an answer that the client
  received: an event of the right class and type whose data name the page and the register, with the value that is
  returned. Which node has sent it is not looked at.\<close>

theorem read_register_reports_an_answer:
  assumes "vscp_readLevel1Register cl ex guidNode guidInterface page offset val timeout c = Some (VSCP_ERROR_SUCCESS, v, c')"
    and "timeout \<noteq> 0"
  shows "\<exists>ex0 c0 got c1. cl_receive cl ex0 c0 = Some (VSCP_ERROR_SUCCESS, got, c1)
    \<and> xvscp_class got = VSCP_CLASS1_PROTOCOL \<and> xvscp_type got = VSCP_TYPE_PROTOCOL_EXTENDED_PAGE_RESPONSE
    \<and> 5 \<le> xsizeData got \<and> take 5 (xdata got) = [0, hi8 page, lo8 page, offset, v]"
proof -
  let ?nick = "cguid_getNickname guidNode" and ?P = "\<lambda>h. take 4 h = [0, hi8 page, lo8 page, offset]"
  obtain ex1 r ex2 c2 where t: "transact cl (answers ?nick ?P) timeout ex1 c = Some (r, ex2, c2)"
      "(case r of Answered \<Rightarrow> do { v \<leftarrow> rd (xdata ex2) 4; Some (VSCP_ERROR_SUCCESS, v, c2) }
        | Failed rv \<Rightarrow> Some (rv, val, c2) | No_answer rv \<Rightarrow> Some (rv, val, c2)) = Some (VSCP_ERROR_SUCCESS, v, c')"
    using assms(1) by (auto simp: vscp_readLevel1Register_def Let_def split: bind_splits prod.splits)
  have r: "r = Answered"
    using transact_success [OF t(1) assms(2)] t(2) by (cases r) auto
  then obtain ex0 c0 got c1 where g: "cl_receive cl ex0 c0 = Some (VSCP_ERROR_SUCCESS, got, c1)"
      "answers ?nick ?P got = Some (True, ex2)"
    using transact_sound t(1) by metis
  note a = answers_True [OF g(2)]
  have "rd (xdata got) 4 = Some v" using t(2) r a by (auto split: bind_splits)
  then have v: "xdata got ! 4 = v" and l: "4 < length (xdata got)" by (simp_all add: rd_def split: if_splits)
  have "take 4 (xdata got) = [0, hi8 page, lo8 page, offset]" using a by (simp add: min_def)
  moreover have "take (Suc 4) (xdata got) = take 4 (xdata got) @ [xdata got ! 4]"
    using l by (intro take_Suc_conv_app_nth) simp
  ultimately have "take 5 (xdata got) = [0, hi8 page, lo8 page, offset, v]" using v by simp
  then show ?thesis using g(1) a by blast
qed

section \<open>Registers over UDP\<close>

text \<open>Two clients with the same keys, the node of the second one being given.\<close>

definition sample_link :: "node \<Rightarrow> world" where
  "sample_link nd = \<lparr>w_platform = sample_platform,
     w_udp = sample_udp\<lparr>u_client := sample_client, m_configuredKeyLength := 16, m_hmacEnabled := True,
       m_hmacKey := replicate 32 9, m_configuredEncryption := 1, m_configuredKey := replicate 32 7\<rparr>,
     w_peer = sample_client, w_node = nd, w_wire = [], w_now = 100\<rparr>"

lemma sample_link_ready: "udp_ready nd (sample_link nd)"
proof -
  have "authentication_of (w_udp (sample_link nd)) = sample_authentication"
    by (simp add: authentication_of_def sample_link_def sample_authentication_def)
  then show ?thesis
    using sample_link_ok
    by (simp add: udp_ready_def linked_def sample_link_def accepts_all_def) (simp add: sample_client_def)
qed

lemma zero_guid [simp]: "cguid_isNULL (replicate 16 0)" "prefix_of (replicate 16 0) = []"
  by (simp_all add: cguid_isNULL_def prefix_of_def list_all_length)

text \<open>C7: A client that is linked to a node reads a register of it: when the node answers within the time limit, whatever
  else it sends before, the call succeeds with the value in the answer and the client is ready again.\<close>

theorem register_read_over_udp:
  assumes "udp_ready nd w" and "raw_eventEx ex" and "length guidInterface = 16" and "cguid_getNickname guidNode \<noteq> 0"
    and "prompt nd timeout (read_message guidInterface (cguid_getNickname guidNode) page offset 1)"
    and "map snd (nd (read_message guidInterface (cguid_getNickname guidNode) page offset 1))
      = us @ [page_answer page (0 # offset # v # vs)]"
    and "\<forall>u\<in>set us. \<not> is_answer (cguid_getNickname guidNode) (\<lambda>h. take 4 h = [0, hi8 page, lo8 page, offset]) u"
  shows "\<exists>w'. vscp_readLevel1Register udp_ops ex guidNode guidInterface page offset val timeout w
      = Some (VSCP_ERROR_SUCCESS, v, w') \<and> udp_ready nd w'"
  by (rule udp.register_is_read [OF assms])

definition sample_node :: node where
  "sample_node m = (if m = read_message (replicate 16 0) 5 0 0x20 1
     then [(1, (20, 3, [])), (2, page_answer 0 [0, 0x20, 42])] else [])"

theorem register_read_over_udp_witness:
  "\<exists>w'. vscp_readLevel1Register udp_ops zero_eventEx (replicate 15 0 @ [5]) (replicate 16 0) 0 0x20 7 1000
        (sample_link sample_node) = Some (VSCP_ERROR_SUCCESS, 42, w') \<and> udp_ready sample_node w'"
proof (rule register_read_over_udp [OF sample_link_ready zero_eventEx_raw])
  show "cguid_getNickname (replicate 15 0 @ [5]) \<noteq> 0" by (simp add: cguid_getNickname_def nth_append)
  have nick: "cguid_getNickname (replicate 15 0 @ [5]) = 5" by (simp add: cguid_getNickname_def nth_append)
  show "prompt sample_node 1000 (read_message (replicate 16 0) (cguid_getNickname (replicate 15 0 @ [5])) 0 0x20 1)"
    unfolding nick by (simp add: prompt_def sample_node_def page_answer_def)
  show "map snd (sample_node (read_message (replicate 16 0) (cguid_getNickname (replicate 15 0 @ [5])) 0 0x20 1))
      = [(20, 3, [])] @ [page_answer 0 (0 # 0x20 # 42 # [])]"
    unfolding nick by (simp add: sample_node_def)
  show "\<forall>u\<in>set [(20, 3, [])]. \<not> is_answer (cguid_getNickname (replicate 15 0 @ [5]))
      (\<lambda>h. take 4 h = [0, hi8 0, lo8 0, 0x20]) u"
    by (simp add: is_answer_def VSCP_CLASS1_PROTOCOL_def)
qed simp

theorem read_register_reports_an_answer_witness:
  "\<exists>ex0 c0 got c1. cl_receive udp_ops ex0 c0 = Some (VSCP_ERROR_SUCCESS, got, c1)
    \<and> xvscp_type got = VSCP_TYPE_PROTOCOL_EXTENDED_PAGE_RESPONSE \<and> take 5 (xdata got) = [0, hi8 0, lo8 0, 0x20, 42]"
proof -
  let ?nick = "cguid_getNickname (replicate 15 0 @ [5])"
  have nick: "?nick = 5" by (simp add: cguid_getNickname_def nth_append)
  have "prompt sample_node 1000 (read_message (replicate 16 0) ?nick 0 0x20 1)"
    unfolding nick by (simp add: prompt_def sample_node_def page_answer_def)
  moreover have "map snd (sample_node (read_message (replicate 16 0) ?nick 0 0x20 1))
      = [(20, 3, [])] @ [page_answer 0 (0 # 0x20 # 42 # [])]"
    unfolding nick by (simp add: sample_node_def)
  moreover have "\<forall>u\<in>set [(20, 3, [])]. \<not> is_answer ?nick (\<lambda>h. take 4 h = [0, hi8 0, lo8 0, 0x20]) u"
    by (simp add: is_answer_def VSCP_CLASS1_PROTOCOL_def)
  moreover have "length (replicate 16 (0 :: u8)) = 16" "?nick \<noteq> 0" using nick by simp_all
  ultimately obtain w' where "vscp_readLevel1Register udp_ops zero_eventEx (replicate 15 0 @ [5]) (replicate 16 0) 0 0x20 7 1000
      (sample_link sample_node) = Some (VSCP_ERROR_SUCCESS, 42, w')"
    using udp.register_is_read [OF sample_link_ready zero_eventEx_raw] by blast
  from read_register_reports_an_answer [OF this] show ?thesis by auto
qed

text \<open>C6: The standard registers are read as they are in the memory of the node, in whatever order its 32 frames come.\<close>

theorem standard_registers_are_read:
  assumes "udp_ready nd w" and "raw_eventEx ex" and "length guidInterface = 16" and "cguid_getNickname guidNode \<noteq> 0"
    and "prompt nd timeout (read_message guidInterface (cguid_getNickname guidNode) 0 0x80 128)"
    and "map snd (nd (read_message guidInterface (cguid_getNickname guidNode) 0 0x80 128))
      = map (frame_message 0 0x80 (map (\<lambda>j. mem (0x80 + of_nat j)) [0..<128])) is"
    and "mset is = mset [0..<32]"
  shows "\<exists>s' w'. std_init udp_ops ex guidNode guidInterface False timeout s w = Some (VSCP_ERROR_SUCCESS, s', w')
    \<and> udp_ready nd w' \<and> std_ok s' \<and> (\<forall>q\<ge>0x80. std_value s' q = mem q) \<and> \<not> std_hasChanges s'"
proof -
  let ?vs = "map (\<lambda>j. mem (0x80 + of_nat j)) [0..<128]"
  have "frame_set 128 = [0..<32]" by (simp add: frame_set_def)
  moreover have "length ?vs = unat (128 :: u8)" "?vs \<noteq> []" by simp_all
  ultimately obtain w' regs where r: "vscp_readLevel1RegisterBlock udp_ops ex guidNode guidInterface 0 0x80 128 [] False timeout w
      = Some (VSCP_ERROR_SUCCESS, regs, w')" "udp_ready nd w'" "ordered regs" "map_of regs = map_of (block_regs 0x80 ?vs)"
    using udp.block_is_read [OF assms(1-6), of "[]"] assms(7) by auto
  let ?s = "s\<lparr>m_regs := regs, std_change := []\<rparr>"
  have "std_value ?s q = mem q" if "0x80 \<le> q" for q
  proof -
    let ?j = "unat q - 128"
    have j: "?j < 128" "128 \<le> unat q" using that unat_u8_less [of q] by (auto simp: word_le_nat_alt)
    have q: "0x80 + of_nat ?j = q" using j(2) by (simp add: of_nat_diff)
    have "block_regs 0x80 ?vs = map (\<lambda>j. (0x80 + of_nat j, mem (0x80 + of_nat j))) [0..<128]"
      by (rule nth_equalityI) (simp_all add: block_regs_def run_keys_def)
    then have "(q, mem q) \<in> set (block_regs 0x80 ?vs)" using j(1) q by force
    moreover have "distinct (map fst (block_regs 0x80 ?vs))" by (simp add: block_regs_def distinct_run_keys)
    ultimately have "map_of regs q = Some (mem q)" unfolding r(4) by simp
    then show ?thesis by (simp add: std_value_def omap_get_def)
  qed
  then show ?thesis
    using r(1-3) by (auto simp: std_init_def std_ok_def std_hasChanges_def)
qed

theorem standard_registers_are_read_witness:
  "\<exists>nd s' w'. std_init udp_ops zero_eventEx (replicate 15 0 @ [5]) (replicate 16 0) False 1000
      \<lparr>std_level = 0, m_regs = [], std_change = [(3, True)]\<rparr> (sample_link nd) = Some (VSCP_ERROR_SUCCESS, s', w')
    \<and> udp_ready nd w' \<and> std_ok s' \<and> (\<forall>q\<ge>0x80. std_value s' q = 3 * q) \<and> \<not> std_hasChanges s'"
proof -
  let ?nick = "cguid_getNickname (replicate 15 0 @ [5])"
  define frame where "frame = frame_message 0 0x80 (map (\<lambda>j. 3 * (0x80 + of_nat j)) [0..<128])"
  define nd :: node where "nd = (\<lambda>m. map (\<lambda>i. (1, frame i)) (rev [0..<32]))"
  have len: "length d \<le> 512" if "(c, t, d) = frame i" for c t d i
    using that by (auto simp: frame_def frame_message_def page_answer_def simp del: of_nat_mult)
  have "prompt nd 1000 m" for m
  proof -
    have "map fst (nd m) = replicate 32 1" by (simp add: nd_def comp_def map_replicate_const)
    then have "sum_list (map fst (nd m)) = 32" by (simp add: sum_list_replicate)
    moreover have "length (nd m) = 32" by (simp add: nd_def)
    ultimately show ?thesis using len by (auto simp: prompt_def) (auto simp: nd_def)
  qed
  moreover have "map snd (nd m) = map (frame_message 0 0x80 (map (\<lambda>j. 3 * (0x80 + of_nat j)) [0..<128])) (rev [0..<32])" for m
    unfolding frame_def [symmetric] by (simp add: nd_def comp_def)
  moreover have "mset (rev [0..<32]) = mset [0..<32]" by simp
  moreover have "?nick \<noteq> 0" "length (replicate 16 (0 :: u8)) = 16" by (simp_all add: cguid_getNickname_def nth_append)
  ultimately show ?thesis
    using standard_registers_are_read [OF sample_link_ready zero_eventEx_raw, of "replicate 16 0" "replicate 15 0 @ [5]" nd 1000
        "\<lambda>q. 3 * q" "rev [0..<32]" "\<lparr>std_level = 0, m_regs = [], std_change = [(3, True)]\<rparr>"] by blast
qed

text \<open>C8: A block of fewer than 256 registers is written: when the node confirms each frame that it is sent, the call
  succeeds and leaves no register to be written. The frames have one to four registers that follow each other,
  and together exactly those of the block, in order.\<close>

theorem register_block_is_written:
  assumes "udp_ready nd w" and "raw_eventEx ex" and "length guidInterface = 16" and "cguid_getNickname guidNode \<noteq> 0"
    and "\<And>r vs. length vs \<le> 4 \<Longrightarrow>
      prompt nd timeout (write_message guidInterface (cguid_getNickname guidNode) page r vs)"
    and "\<And>r vs. length vs \<le> 4 \<Longrightarrow>
      map snd (nd (write_message guidInterface (cguid_getNickname guidNode) page r vs)) = [page_answer page (0 # r # vs)]"
    and "ordered regs" and "regs \<noteq> []" and "length regs < 256"
  shows "(\<exists>w'. vscp_writeLevel1RegisterBlock udp_ops ex guidNode guidInterface page regs timeout w
        = Some (VSCP_ERROR_SUCCESS, [], w') \<and> udp_ready nd w')
    \<and> concat (map (\<lambda>(r, n). run_keys r n) (block_frames regs)) = map fst regs
    \<and> (\<forall>(r, n)\<in>set (block_frames regs). 0 < n \<and> n \<le> 4)"
  using udp.block_is_written [OF assms] block_frames_cover [OF assms(7,9)] by blast

theorem register_block_is_written_witness:
  "\<exists>nd w'. vscp_writeLevel1RegisterBlock udp_ops zero_eventEx (replicate 15 0 @ [5]) (replicate 16 0) 2
      [(1, 7), (2, 8), (3, 8), (4, 8), (5, 8), (9, 1)] 1000 (sample_link nd) = Some (VSCP_ERROR_SUCCESS, [], w')
    \<and> udp_ready nd w'"
proof -
  let ?nick = "cguid_getNickname (replicate 15 0 @ [5])"
  let ?regs = "[(1, 7), (2, 8), (3, 8), (4, 8), (5, 8), (9, 1)] :: (u8, u8) omap"
  define nd :: node where "nd = (\<lambda>(c, t, d). if length d \<le> 8 then [(2, page_answer 2 (0 # d ! 3 # drop 4 d))] else [])"
  have "nd (write_message (replicate 16 0) ?nick 2 r vs) = [(2, page_answer 2 (0 # r # vs))]" if "length vs \<le> 4" for r vs
    using that by (simp add: nd_def write_message_def)
  then have "prompt nd 1000 (write_message (replicate 16 0) ?nick 2 r vs)"
      "map snd (nd (write_message (replicate 16 0) ?nick 2 r vs)) = [page_answer 2 (0 # r # vs)]"
    if "length vs \<le> 4" for r vs
    using that by (simp_all add: prompt_def page_answer_def)
  moreover have "?nick \<noteq> 0" "length (replicate 16 (0 :: u8)) = 16" "ordered ?regs" "length ?regs < 256"
    by (simp_all add: cguid_getNickname_def nth_append ordered_def)
  ultimately show ?thesis
    using register_block_is_written [OF sample_link_ready zero_eventEx_raw, of "replicate 16 0" "replicate 15 0 @ [5]" nd 1000 2 ?regs]
    by blast
qed

text \<open>Without a time limit the calls look for an answer once. When none is there yet, the read is reported as a
  success with the value that the caller's variable had.\<close>

theorem read_without_answer_is_a_success:
  assumes "udp_ready nd w" and "raw_eventEx ex" and "length guidInterface = 16"
    and "nd (read_message guidInterface (cguid_getNickname guidNode) page offset 1) = []"
  shows "\<exists>w'. vscp_readLevel1Register udp_ops ex guidNode guidInterface page offset val 0 w
      = Some (VSCP_ERROR_SUCCESS, val, w')"
proof -
  let ?nick = "cguid_getNickname guidNode"
  obtain ex1 where ex1: "page_request guidInterface VSCP_TYPE_PROTOCOL_EXTENDED_PAGE_READ
        [?nick, hi8 page, lo8 page, offset, 1] ex = Some ex1" "wf_eventEx ex1"
      "message_of ex1 = read_message guidInterface ?nick page offset 1"
    using page_request_message [OF assms(2,3), of "[?nick, hi8 page, lo8 page, offset, 1]"] by (auto simp: read_message_def)
  obtain w1 where w1: "cl_clear udp_ops w = (VSCP_ERROR_SUCCESS, w1)" "udp_clean nd w1" using udp_clear_ok [OF assms(1)] by blast
  have "prompt nd 1 (message_of ex1)" unfolding ex1(3) by (simp add: prompt_def assms(4))
  then obtain w2 s w3 k where w2: "cl_send udp_ops ex1 w1 = Some (VSCP_ERROR_SUCCESS, w2)" "cl_now udp_ops w2 = (s, w3)"
      "udp_pending nd 1 s [] k False w3"
    using udp_send_ok [OF w1(2) ex1(2)] assms(4) unfolding ex1(3) by fastforce
  have q: "m_receiveQueue (u_client (w_udp w3)) = []" "w_wire w3 = []"
    using w2(3) by (auto simp: udp_pending_def queued_def on_wire_def)
  let ?P = "\<lambda>h. take 4 h = [0, hi8 page, lo8 page, offset]"
  have "poll udp_ops (answers ?nick ?P) 0 s ex1 w3 = Some (No_answer VSCP_ERROR_SUCCESS, ex1, w3\<lparr>w_now := w_now w3 + 2\<rparr>)"
    by (subst poll.simps)
      (simp add: udp_ops_def udp_getcount_def q expired_def arrivals_def one_sleep_less_def)
  then show ?thesis
    by (simp add: vscp_readLevel1Register_def Let_def ex1(1) transact_def w1(1) w2(1,2))
qed

theorem read_without_answer_is_a_success_witness:
  "\<exists>w'. vscp_readLevel1Register udp_ops zero_eventEx (replicate 15 0 @ [5]) (replicate 16 0) 0 0x21 7 0 (sample_link sample_node)
     = Some (VSCP_ERROR_SUCCESS, 7, w')"
proof (rule read_without_answer_is_a_success [OF sample_link_ready zero_eventEx_raw])
  show "sample_node (read_message (replicate 16 0) (cguid_getNickname (replicate 15 0 @ [5])) 0 0x21 1) = []"
    by (simp add: sample_node_def read_message_def cguid_getNickname_def nth_append)
qed simp

end
