(* ===== verification/Spec2Isabelle.thy ===== *)
theory Spec2Isabelle
  imports EventTime EventText UdpClient Base64 Fifo Dllist Measurement RegisterLink
begin

text \<open>
  Verification of the core of the VSCP library (\<^verbatim>\<open>grodansparadis/vscp\<close>).

  \<^bold>\<open>The program.\<close> VSCP is a protocol for home and building automation. A node sends \<^emph>\<open>events\<close>: a header, a
  class, a type, a 16-byte GUID, a time and up to 512 data bytes (\<^verbatim>\<open>src/src/vscp/common/vscp.h\<close>). The
  library (\<^verbatim>\<open>src/src/vscp/common\<close>, \<^verbatim>\<open>src/src/common\<close>) builds events, reads the measurements in them,
  converts them to CAN messages, to text and to checksummed binary frames, encrypts and authenticates the
  frames, decides by filters which events pass, and carries them over datagrams or over a binary link.
  The clients keep the received events in a queue. The registers of a node are read and written by events over a
  client. What is modelled here is this path, from the bytes of an event to the queue of a UDP client and to the
  registers of a node, with the helper routines it stands on.

  \<^bold>\<open>Theories and sources.\<close>

  \<^item> \<open>VscpPrelude\<close>: machine integers (\<open>u8\<close> to \<open>u64\<close>), pointers (\<open>'a ptr\<close>, where \<open>None\<close> is null), results of
    code that may leave its buffers (\<open>'a safe\<close>, where \<open>None\<close> is an undefined access: \<open>rd\<close>, \<open>rd_block\<close>,
    \<open>wr_block\<close>), big-endian bytes, and the lemmas and collections that the components share.
  \<^item> \<open>Crc\<close> (\<^verbatim>\<open>crc.c\<close>, \<^verbatim>\<open>crc8.c\<close>), \<open>CivilTime\<close> (the calendar routines of \<^verbatim>\<open>vscphelper.cpp\<close>), \<open>TextUtil\<close> (its
    string routines, \<^verbatim>\<open>vscphelper.h\<close> and \<^verbatim>\<open>vscphelper-common.cpp\<close>), \<open>Base64\<close> (\<^verbatim>\<open>vscpbase64.c\<close>), \<open>Fifo\<close>
    (\<^verbatim>\<open>fifo.c\<close>), \<open>Dllist\<close> (\<^verbatim>\<open>dllist.c\<close>) and \<open>Aes\<close> (\<^verbatim>\<open>vscp-aes.c\<close>): self-contained algorithms and containers.
  \<^item> \<open>Guid\<close>: the parser and the class \<^verbatim>\<open>cguid\<close> (\<^verbatim>\<open>guid.cpp\<close>, \<^verbatim>\<open>guid.h\<close>) and the GUID routines of the helper.
  \<^item> \<open>Event\<close>: the structures \<^verbatim>\<open>vscpEvent\<close> and \<^verbatim>\<open>vscpEventEx\<close>, their heads, checksum, copying and conversion;
    \<open>EventTime\<close>: their date block; \<open>EventText\<close>: their text form; \<open>Measurement\<close>: coded values, units, sensor
    indices and zones, and building and converting measurement events; \<open>Canal\<close>: CAN messages
    (\<^verbatim>\<open>canal.h\<close>); \<open>EventFilter\<close>: filters, their decision and their three text forms.
  \<^item> \<open>Frame\<close>: the binary event frame, its writer and reader; \<open>FrameCrypto\<close>: its encryption (type byte
    version 0) and authentication (version 1); \<open>FrameSafety\<close>: the decryption routines on arbitrary bytes.
  \<^item> \<open>BinaryProtocol\<close> (\<^verbatim>\<open>vscp-binary-protocol.h\<close>): the frames of the binary TCP link.
  \<^item> \<open>Endpoint\<close>, \<open>Datagram\<close> (\<^verbatim>\<open>vscp-client-datagram.h\<close>) and \<open>UdpClient\<close> (\<^verbatim>\<open>vscp-client-udp.cpp\<close>,
    \<^verbatim>\<open>vscp-client-udp.h\<close>): options and addresses, the transport with its receive queue and semaphore, and
    the client with its configuration and life cycle.
  \<^item> \<open>OrderedMap\<close> (\<^verbatim>\<open>std::map\<close> and \<^verbatim>\<open>std::set\<close>), \<open>Registers\<close> (\<^verbatim>\<open>register.h\<close> and the pages, standard and user
    registers, remote variables and decision matrix rows of \<^verbatim>\<open>register.cpp\<close>, with what they read of \<^verbatim>\<open>mdf.h\<close> and
    \<^verbatim>\<open>mdf.cpp\<close>), \<open>RegisterAccess\<close> (reading, writing and searching over the client interface of
    \<^verbatim>\<open>vscp-client-base.h\<close>) and \<open>RegisterLink\<close>: the same over a UDP link to a node that answers.

  \<^bold>\<open>How the model reads.\<close> A structure is a record with the field names of the code, a function has the name of
  the code; a pointer argument is an option, and what it points to is returned updated. \<open>None\<close> in a \<open>safe\<close>
  result is undefined behaviour, so an equation \<open>f x = Some y\<close> says that the code stays inside its memory as
  well as what it returns; a refused call is \<open>Some (False, ...)\<close> with the state it leaves behind. Integers
  have the width of the code. Memory from \<^verbatim>\<open>new\<close> or an uninitialised buffer is a parameter (\<open>fresh\<close>,
  \<open>stack\<close>) wherever its content can show. The host is a 64-bit little-endian one where layout matters.

  \<^bold>\<open>What the lemmas show.\<close>

  \<^item> Algorithms against their specification: the table driven CRC against the bitwise one and its detection
    of two-byte bursts, the calendar against the Gregorian rules, AES decryption against encryption, the
    GUID checksum against the bitwise CRC-8, the ring buffer against a bounded queue (locale \<open>bounded_queue\<close>), the
    doubly linked list in its store against a sequence (locale \<open>linked_sequence\<close>).
  \<^item> Round trips: GUIDs (locale \<open>guid_format\<close>, one interpretation per text form), events as text, filters,
    CAN messages, base64, normalised values, endpoints and configurations; copying and conversion of
    events (locales \<open>event_copy\<close> and \<open>event_conversion\<close>, interpreted for each pair of representations); frames
    in clear (locale \<open>frame_codec\<close>) and encrypted (locale \<open>cipher_engine\<close>, interpreted for the own AES), and
    those of the binary link.
  \<^item> Safety on hostile input: any datagram and any frame is handled inside the buffers (locale
    \<open>contained_engine\<close>, interpreted for the own AES and for OpenSSL); damage in two neighbouring bytes and a
    wrong authentication tag are noticed; the readers of data bytes and filters respect their bounds.
  \<^item> Filters: the decision is agreement in the masked bits, for both representations (locales \<open>event_filter\<close>
    and \<open>filter_pair\<close>).
  \<^item> State: the steps of a client are inductive relations; in every reachable state the semaphore never
    counts more events than the queue holds, an authenticating client has distinct keys of the right length,
    and a client whose worker runs is connected. What one client sends, a client with the same keys queues,
    and a stream of events arrives completely and in order.
  \<^item> Registers: pages log what they overwrite (locale \<open>register_file\<close>); a client whose node answers (locale
    \<open>answering_client\<close>, interpreted for the UDP client) reads registers and blocks whatever the order of the
    frames, and writes a block in frames that together are the block.
  \<^item> Deviations of the code from what it means to do are theorems or lemmas of their own (readers of zones,
    the builder of Level II string events, the unit of converted zone events, \<^verbatim>\<open>vscp_stristr\<close>, the filter reader
    after an unclosed element, insertion in the middle of a list, the start offset of a decision matrix, the
    decimal text of an unsigned remote variable and others). Where a property leaves such a case out, its text
    says so.

  \<^bold>\<open>Bounds.\<close> Recursion is structural, or a loop that advances through a list or an index; the only bounds in
  the model are those of the code (buffer sizes, 512 data bytes, 16-bit and 32-bit counters). The receive loop
  runs over the list of outcomes of its waits, one per pass, so no fuel is involved. The loops that poll a client
  for an answer, walk a linked list or search for nodes may run for ever: they are partial functions into
  \<open>option\<close>, and the theorems that a call returns prove that the result is there.

  \<^bold>\<open>Parameters.\<close> Third-party code and the operating system are arguments of the definitions: OpenSSL, the JSON
  and XML parsers (as the values or events they deliver), the socket and thread functions, the clock, random
  vectors, the node at the other end of a register link, and the floating point unit of the host (the record
  \<open>fpu\<close>; numbers are bit patterns). Theorems that need a property of them state it as a hypothesis (\<open>openssl_cbc_ok\<close>, \<open>host_ok\<close>
  and the like), and a witness with concrete functions shows that it can hold.

  \<^bold>\<open>Not modelled.\<close> The renderings of events as JSON, XML and HTML, the description of a device as HTML
  (\<^verbatim>\<open>register.cpp\<close>), the reading and writing of module description files (\<^verbatim>\<open>mdf.cpp\<close>) and the websocket and MQTT
  clients rest on \<^verbatim>\<open>nlohmann::json\<close>, expat, mosquitto or a web server. The TCP link protocol
  (\<^verbatim>\<open>vscpremotetcpif.cpp\<close>) is socket input and output under threads, and so is the multicast client; the date
  classes (\<^verbatim>\<open>date.cpp\<close>, \<^verbatim>\<open>vscpdatetime.cpp\<close>) and the boot loaders are not part of the path.
  \<^verbatim>\<open>aes128.c\<close>, \<^verbatim>\<open>rijndael.cpp\<close>,
  \<^verbatim>\<open>vscpmd5.c\<close>, \<^verbatim>\<open>sha-1.c\<close>, \<^verbatim>\<open>shell.c\<close> and \<^verbatim>\<open>sqlite3math.c\<close> are vendored.
\<close>

section \<open>From a measurement to the queue of another node\<close>

text \<open>C1: What a node measures arrives: a Level II floating point event, sent by a connected client in clear,
  encrypted or authenticated, is decided by the filter of a client with the same keys, and if it passes, the
  queued event tells the type, the GUID, the value, the unit, the sensor index and the subzone that it was built with.\<close>

theorem measurement_reaches_receiver:
  assumes "wf_event ev"
    and made: "vscp_makeLevel2FloatMeasurementEvent (Some ev) t val unit sensoridx zone subzone = (True, Some ev1)"
    and "event_unix_ns ev1 \<noteq> 0" and "m_connected sender" and "link_ok p a sender"
    and "p_ssl q = p_ssl p" and "p_use_openssl q = p_use_openssl p"
    and "m_key receiver = m_key sender" and "m_encryptType receiver = m_encryptType sender"
  shows "\<exists>datagram ev2 receiver'.
      sendEvent p a sender True (\<lambda>d. int (length d)) ev1 = Some (VSCP_ERROR_SUCCESS, Some datagram)
    \<and> handle_datagram q a semReady datagram receiver = Some receiver'
    \<and> (if vscp_doLevel2Filter (Some ev2) (Some (m_filter receiver))
       then takes_event semReady ev2 receiver receiver' else receiver' = receiver)
    \<and> vscp_type ev2 = t \<and> GUID ev2 = GUID ev
    \<and> vscp_getMeasurementAsDouble fp stack (Some v0) (Some ev2) = Some (True, Some val)
    \<and> vscp_getMeasurementUnit (Some ev2) = Some (uint unit)
    \<and> vscp_getMeasurementSensorIndex (Some ev2) = Some (uint sensoridx)
    \<and> vscp_getMeasurementSubZone (Some ev2) = Some (uint subzone)"
proof -
  let ?d = "[sensoridx, zone, subzone, unit] @ le_bytes val"
  have ev1: "vscp_class ev1 = VSCP_CLASS2_MEASUREMENT_FLOAT" "vscp_type ev1 = t" "GUID ev1 = GUID ev"
      "sizeData ev1 = 12" "pdata ev1 = Some ?d"
    using made by (auto simp: vscp_makeLevel2FloatMeasurementEvent_def)
  have w: "wf_event ev1" using assms(1) ev1 by (simp add: wf_event_def VSCP_LEVEL2_MAXDATA_def)
  obtain datagram ev2 receiver' where r: "wf_event ev2" "ev_view ev2 = frame_view (ev_view ev1)"
      "sendEvent p a sender True (\<lambda>d. int (length d)) ev1 = Some (VSCP_ERROR_SUCCESS, Some datagram)"
      "handle_datagram q a semReady datagram receiver = Some receiver'"
      "if vscp_doLevel2Filter (Some ev2) (Some (m_filter receiver))
       then takes_event semReady ev2 receiver receiver' else receiver' = receiver"
    using sent_event_received [OF w assms(3-9), of semReady] by blast
  have v: "vscp_class ev2 = vscp_class ev1" "vscp_type ev2 = vscp_type ev1" "GUID ev2 = GUID ev1" "ev_data ev2 = ev_data ev1"
    using r(2) by (simp_all add: ev_view_def frame_view_def)
  have "ev_data ev2 = ?d" using v(4) ev1 by (simp add: ev_data_def)
  then have "vscp_getMeasurementAsDouble fp stack (Some v0) (Some ev2) = Some (True, Some val)
    \<and> vscp_getMeasurementUnit (Some ev2) = Some (uint unit)
    \<and> vscp_getMeasurementSensorIndex (Some ev2) = Some (uint sensoridx)
    \<and> vscp_getMeasurementSubZone (Some ev2) = Some (uint subzone)"
    using level2_float_read [OF r(1)] v ev1 by simp
  then show ?thesis using r(3-5) v ev1 by (intro exI [of _ datagram] exI [of _ ev2] exI [of _ receiver']) simp
qed

theorem measurement_reaches_receiver_witness:
  "\<exists>ev1 datagram ev2 receiver'.
      vscp_makeLevel2FloatMeasurementEvent (Some sample_event) 6 0x4028000000000000 1 2 3 4 = (True, Some ev1)
    \<and> sendEvent sample_platform sample_authentication sample_client True (\<lambda>d. int (length d)) ev1
        = Some (VSCP_ERROR_SUCCESS, Some datagram)
    \<and> handle_datagram sample_platform sample_authentication True datagram sample_client = Some receiver'
    \<and> vscp_getMeasurementAsDouble sample_fpu [] (Some 0) (Some ev2) = Some (True, Some 0x4028000000000000)"
proof -
  let ?made = "vscp_makeLevel2FloatMeasurementEvent (Some sample_event) 6 0x4028000000000000 1 2 3 4"
  obtain ev1 where made: "?made = (True, Some ev1)" by (simp add: vscp_makeLevel2FloatMeasurementEvent_def)
  moreover have "event_unix_ns ev1 \<noteq> 0"
    using made by (auto simp: vscp_makeLevel2FloatMeasurementEvent_def sample_event_def event_unix_ns_def is_unix_ns_def
        FRAME_VERSION_MASK_def FRAME_VERSION_UNIX_NS_def tb_set_timestamp_def)
  moreover have "m_connected sample_client" by (simp add: sample_client_def)
  ultimately show ?thesis
    using measurement_reaches_receiver [OF sample_event_ok(1) made _ _ sample_link_ok refl refl refl refl,
        of True sample_fpu "[]" 0] by blast
qed

end
